(* ===== verification/Prelude.thy ===== *)
theory Prelude
  imports Main "HOL-Library.AList"
begin

text \<open>
  The shared vocabulary of the development: the type synonyms that name the model's
  scalars, the collections of rewrite rules and invariant lemmas the component theories
  declare their facts into, and the generic lemmas on lists, options and association
  lists that carry the component proofs.

  Conventions. A JavaScript number that holds an integer (an order, a revision, a byte
  count) is an \<^typ>\<open>int\<close>. A timestamp is an \<^typ>\<open>int\<close> of milliseconds: the source moves
  between a millisecond count and its fixed-width UTC text with
  \<^verbatim>\<open>Date.parse\<close> and \<^verbatim>\<open>toISOString\<close>, which are inverse to each other on the texts the
  program writes, and whose text order is the order of the counts. \<^verbatim>\<open>T | null\<close> is
  \<open>T option\<close>. A JavaScript \<^verbatim>\<open>Map\<close> whose size, iteration order or sum matters is an
  association list with distinct keys (\<^verbatim>\<open>set\<close> on a fresh key appends, on a present key
  replaces in place: exactly \<^const>\<open>AList.update\<close>); a \<^verbatim>\<open>Set\<close> is a set.
\<close>

type_synonym timestamp = int
type_synonym ident = string
type_synonym ('e, 'a) result = "'e + 'a"

named_theorems op_defs \<open>definitions of the operations, unfolded to evaluate or to split them\<close>
named_theorems inv_preserved \<open>each operation keeps its component's invariant\<close>
named_theorems frame_simps \<open>fields an operation leaves alone\<close>

subsection \<open>Options and results\<close>

text \<open>JavaScript's \<^verbatim>\<open>a ?? b\<close>.\<close>

definition nullish :: "'a option \<Rightarrow> 'a option \<Rightarrow> 'a option" where
  "nullish a b = (case a of None \<Rightarrow> b | Some x \<Rightarrow> Some x)"

lemma nullish_simps [simp]:
  "nullish None b = b"
  "nullish (Some x) b = Some x"
  by (simp_all add: nullish_def)

lemma nullish_eq_None [simp]: "nullish a b = None \<longleftrightarrow> a = None \<and> b = None"
  by (cases a) simp_all

definition opt_or :: "'a option \<Rightarrow> 'a \<Rightarrow> 'a" where
  "opt_or a d = (case a of None \<Rightarrow> d | Some x \<Rightarrow> x)"

lemma opt_or_simps [simp]:
  "opt_or None d = d"
  "opt_or (Some x) d = x"
  by (simp_all add: opt_or_def)

subsection \<open>Lists\<close>

text \<open>\<^verbatim>\<open>xs.at(-1)\<close> and \<^verbatim>\<open>xs[0]\<close>, undefined on the empty array.\<close>

definition list_last :: "'a list \<Rightarrow> 'a option" where
  "list_last xs = (if xs = [] then None else Some (last xs))"

definition list_head :: "'a list \<Rightarrow> 'a option" where
  "list_head xs = (case xs of [] \<Rightarrow> None | x # _ \<Rightarrow> Some x)"

lemma list_head_simps [simp]:
  "list_head [] = None"
  "list_head (x # xs) = Some x"
  by (simp_all add: list_head_def)

lemma list_head_append [simp]:
  "xs \<noteq> [] \<Longrightarrow> list_head (xs @ ys) = list_head xs"
  by (cases xs) simp_all

lemma list_head_eq_None [simp]: "list_head xs = None \<longleftrightarrow> xs = []"
  by (cases xs) simp_all

lemma list_head_eq_Some: "list_head xs = Some x \<longleftrightarrow> (\<exists>ys. xs = x # ys)"
  by (cases xs) auto

lemma list_last_Nil [simp]: "list_last [] = None"
  by (simp add: list_last_def)

lemma list_last_snoc [simp]: "list_last (xs @ [x]) = Some x"
  by (simp add: list_last_def)

lemma list_last_eq_None [simp]: "list_last xs = None \<longleftrightarrow> xs = []"
  by (simp add: list_last_def)

lemma list_last_eq_Some: "list_last xs = Some x \<longleftrightarrow> (\<exists>ys. xs = ys @ [x])"
  by (cases xs rule: rev_cases) auto

lemma sorted_wrt_snoc_last:
  assumes "sorted_wrt (\<lambda>a b. f a < (f b :: int)) xs"
    and "\<forall>t. list_last xs = Some t \<longrightarrow> f t < f x"
  shows "sorted_wrt (\<lambda>a b. f a < f b) (xs @ [x])"
proof (cases xs rule: rev_cases)
  case Nil
  then show ?thesis by simp
next
  case (snoc ys y)
  with assms have "f y < f x" by simp
  moreover from assms(1) snoc have "\<forall>a \<in> set ys. f a < f y"
    by (simp add: sorted_wrt_append)
  ultimately show ?thesis using assms(1) snoc
    by (auto simp: sorted_wrt_append intro: less_trans)
qed

lemma sorted_wrt_filter:
  "sorted_wrt P xs \<Longrightarrow> sorted_wrt P (filter Q xs)"
  by (induction xs) auto

lemma sum_list_filter_split:
  "sum_list (map f (filter P xs)) + sum_list (map f (filter (\<lambda>x. \<not> P x) xs))
    = (sum_list (map f xs) :: int)"
  by (induction xs) simp_all

lemma sum_list_nonneg_int:
  "\<forall>x \<in> set xs. 0 \<le> f x \<Longrightarrow> 0 \<le> (sum_list (map f xs) :: int)"
  by (induction xs) simp_all

lemma member_le_sum_list_int:
  "\<forall>x \<in> set xs. 0 \<le> f x \<Longrightarrow> x \<in> set xs \<Longrightarrow> f x \<le> (sum_list (map f xs) :: int)"
proof (induction xs)
  case Nil
  then show ?case by simp
next
  case (Cons a xs)
  have "0 \<le> sum_list (map f xs)" using Cons.prems(1) by (intro sum_list_nonneg_int) simp
  with Cons show ?case by auto
qed

text \<open>Remove the first entry that satisfies \<open>P\<close>: \<^verbatim>\<open>findIndex\<close> then \<^verbatim>\<open>splice(index, 1)\<close>.\<close>

fun splice_first :: "('a \<Rightarrow> bool) \<Rightarrow> 'a list \<Rightarrow> 'a list" where
  "splice_first P [] = []"
| "splice_first P (x # xs) = (if P x then xs else x # splice_first P xs)"

lemma splice_first_id: "\<not> (\<exists>x \<in> set xs. P x) \<Longrightarrow> splice_first P xs = xs"
  by (induction xs) auto

lemma set_splice_first_subset: "set (splice_first P xs) \<subseteq> set xs"
  by (induction xs) auto

lemma splice_first_distinct_key:
  "distinct (map f xs) \<Longrightarrow> splice_first (\<lambda>x. f x = k) xs = filter (\<lambda>x. f x \<noteq> k) xs"
proof (induction xs)
  case Nil
  then show ?case by simp
next
  case (Cons x xs)
  show ?case
  proof (cases "f x = k")
    case True
    with Cons.prems have "filter (\<lambda>y. f y \<noteq> k) xs = xs"
      by (intro filter_True) (metis distinct.simps(2) image_eqI list.simps(9) list.set_map)
    with True show ?thesis by simp
  next
    case False
    with Cons show ?thesis by simp
  qed
qed

subsection \<open>Association lists as ordered maps\<close>

definition akeys :: "('k \<times> 'v) list \<Rightarrow> 'k list" where
  "akeys al = map fst al"

definition asum :: "('v \<Rightarrow> int) \<Rightarrow> ('k \<times> 'v) list \<Rightarrow> int" where
  "asum f al = sum_list (map (f \<circ> snd) al)"

lemma asum_simps [simp]:
  "asum f [] = 0"
  "asum f ((k, v) # al) = f v + asum f al"
  by (simp_all add: asum_def)

lemma map_of_update [simp]:
  "map_of (AList.update k v al) = (map_of al)(k \<mapsto> v)"
  by (rule update_conv')

lemma map_of_delete [simp]:
  "map_of (AList.delete k al) = (map_of al)(k := None)"
  by (rule delete_conv')

lemma distinct_keys_update [simp]:
  "distinct (map fst al) \<Longrightarrow> distinct (map fst (AList.update k v al))"
  by (rule distinct_update)

lemma distinct_keys_delete [simp]:
  "distinct (map fst al) \<Longrightarrow> distinct (map fst (AList.delete k al))"
  by (rule distinct_delete)

lemma asum_update_fresh:
  "map_of al k = None \<Longrightarrow> asum f (AList.update k v al) = asum f al + f v"
  by (induction al) (auto split: if_splits)

lemma asum_update_present:
  "distinct (map fst al) \<Longrightarrow> map_of al k = Some u \<Longrightarrow>
    asum f (AList.update k v al) = asum f al - f u + f v"
  by (induction al) (auto split: if_splits)

lemma set_update_distinct:
  "distinct (map fst al) \<Longrightarrow>
    set (AList.update k v al) = insert (k, v) {p \<in> set al. fst p \<noteq> k}"
  by (induction al) force+

lemma asum_nonneg:
  "\<forall>(k, v) \<in> set al. 0 \<le> f v \<Longrightarrow> 0 \<le> asum f al"
  by (induction al) auto

end
