(* ===== verification/Json_Text.thy ===== *)
theory Json_Text
  imports Prelude
begin

text \<open>
  What the program uses of \<^verbatim>\<open>JSON.stringify\<close>: the quoted form of a string and of an array
  of strings, and the values a provider-neutral plan may carry. A JavaScript string is a
  \<^typ>\<open>string\<close> here, so its code units range over the 256 values of \<^typ>\<open>char\<close>; quoting
  follows the language's rules on that range (two-character escapes for quotation mark,
  backslash, backspace, tab, newline, form feed and carriage return, \<open>\u00xx\<close> for the
  other control characters, every other unit as itself). The decoder
  \<open>unquote_body\<close> is there to prove that quoting loses nothing.
\<close>

datatype json =
    JNull
  | JBool bool
  | JNumber int
  | JString string
  | JArray "json list"
  | JObject "(string \<times> json) list"

definition jfield :: "(string \<times> json) list \<Rightarrow> string \<Rightarrow> json option" where
  "jfield fields name = map_of fields name"

text \<open>The reader of \<^verbatim>\<open>typeof v === "string"\<close>.\<close>

definition as_string :: "json option \<Rightarrow> string option" where
  "as_string v = (case v of Some (JString s) \<Rightarrow> Some s | _ \<Rightarrow> None)"

definition hex_digit :: "nat \<Rightarrow> char" where
  "hex_digit n = (if n < 10 then char_of (48 + n) else char_of (87 + n))"

definition hex_value :: "char \<Rightarrow> nat" where
  "hex_value c = (if of_char c < (58::nat) then of_char c - 48 else of_char c - 87)"

definition json_escape :: "char \<Rightarrow> string" where
  "json_escape c =
     (let n = (of_char c :: nat) in
      if n = 34 then [char_of (92::nat), char_of (34::nat)]
      else if n = 92 then [char_of (92::nat), char_of (92::nat)]
      else if n = 8 then [char_of (92::nat), CHR ''b'']
      else if n = 9 then [char_of (92::nat), CHR ''t'']
      else if n = 10 then [char_of (92::nat), CHR ''n'']
      else if n = 12 then [char_of (92::nat), CHR ''f'']
      else if n = 13 then [char_of (92::nat), CHR ''r'']
      else if n < 32 then [char_of (92::nat), CHR ''u'', CHR ''0'', CHR ''0'', hex_digit (n div 16), hex_digit (n mod 16)]
      else [c])"

definition json_quote :: "string \<Rightarrow> string" where
  "json_quote s = char_of (34::nat) # concat (map json_escape s) @ [char_of (34::nat)]"

fun json_join :: "string list \<Rightarrow> string" where
  "json_join [] = []"
| "json_join [x] = json_quote x"
| "json_join (x # y # zs) = json_quote x @ CHR '','' # json_join (y # zs)"

text \<open>\<^verbatim>\<open>JSON.stringify\<close> of an array of strings.\<close>

definition stringify_strings :: "string list \<Rightarrow> string" where
  "stringify_strings xs = CHR ''['' # json_join xs @ [CHR '']'']"

subsection \<open>Quoting is injective\<close>

text \<open>
  \<open>unquote_body\<close> reads an escaped string up to its closing quotation mark and returns the
  string and the rest of the input.
\<close>

definition unescape_short :: "char \<Rightarrow> char" where
  "unescape_short c =
     (if c = CHR ''b'' then char_of (8::nat)
      else if c = CHR ''t'' then char_of (9::nat)
      else if c = CHR ''n'' then char_of (10::nat)
      else if c = CHR ''f'' then char_of (12::nat)
      else if c = CHR ''r'' then char_of (13::nat)
      else c)"

fun unquote_body :: "string \<Rightarrow> (string \<times> string) option" where
  "unquote_body [] = None"
| "unquote_body (c # cs) =
     (if of_char c = (34::nat) then Some ([], cs)
      else if of_char c = (92::nat) then
        (case cs of
           [] \<Rightarrow> None
         | d # ds \<Rightarrow>
             if d = CHR ''u'' then
               (case ds of
                  _ # _ # h # l # rest \<Rightarrow>
                    map_option (\<lambda>(s, r). (char_of (16 * hex_value h + hex_value l) # s, r)) (unquote_body rest)
                | _ \<Rightarrow> None)
             else map_option (\<lambda>(s, r). (unescape_short d # s, r)) (unquote_body ds))
      else map_option (\<lambda>(s, r). (c # s, r)) (unquote_body cs))"

declare unquote_body.simps(2) [simp del]

lemma unquote_close: "unquote_body (char_of (34::nat) # cs) = Some ([], cs)"
  by (subst unquote_body.simps) simp

lemma unquote_plain:
  "of_char c \<noteq> (34::nat) \<Longrightarrow> of_char c \<noteq> (92::nat) \<Longrightarrow>
    unquote_body (c # cs) = map_option (\<lambda>(s, r). (c # s, r)) (unquote_body cs)"
  by (subst unquote_body.simps) simp

lemma unquote_short:
  "d \<noteq> CHR ''u'' \<Longrightarrow>
    unquote_body (char_of (92::nat) # d # ds)
      = map_option (\<lambda>(s, r). (unescape_short d # s, r)) (unquote_body ds)"
  by (subst unquote_body.simps) simp

lemma unquote_unicode:
  "unquote_body (char_of (92::nat) # CHR ''u'' # x # y # h # l # rest)
      = map_option (\<lambda>(s, r). (char_of (16 * hex_value h + hex_value l) # s, r)) (unquote_body rest)"
  by (subst unquote_body.simps) simp

lemmas unquote_simps = unquote_close unquote_plain unquote_short unquote_unicode

lemma hex_value_hex_digit: "n < 16 \<Longrightarrow> hex_value (hex_digit n) = n"
  by (auto simp: hex_value_def hex_digit_def)

lemma short_escapes:
  "unescape_short (char_of (34::nat)) = char_of (34::nat)"
  "unescape_short (char_of (92::nat)) = char_of (92::nat)"
  "unescape_short (CHR ''b'') = char_of (8::nat)"
  "unescape_short (CHR ''t'') = char_of (9::nat)"
  "unescape_short (CHR ''n'') = char_of (10::nat)"
  "unescape_short (CHR ''f'') = char_of (12::nat)"
  "unescape_short (CHR ''r'') = char_of (13::nat)"
  "char_of (34::nat) \<noteq> CHR ''u''"
  "char_of (92::nat) \<noteq> CHR ''u''"
  by code_simp+

lemma short_escaped:
  "json_escape (char_of (34::nat)) = [char_of (92::nat), char_of (34::nat)]"
  "json_escape (char_of (92::nat)) = [char_of (92::nat), char_of (92::nat)]"
  "json_escape (char_of (8::nat)) = [char_of (92::nat), CHR ''b'']"
  "json_escape (char_of (9::nat)) = [char_of (92::nat), CHR ''t'']"
  "json_escape (char_of (10::nat)) = [char_of (92::nat), CHR ''n'']"
  "json_escape (char_of (12::nat)) = [char_of (92::nat), CHR ''f'']"
  "json_escape (char_of (13::nat)) = [char_of (92::nat), CHR ''r'']"
  by code_simp+

lemma short_not_unicode:
  "CHR ''b'' \<noteq> CHR ''u''" "CHR ''t'' \<noteq> CHR ''u''" "CHR ''n'' \<noteq> CHR ''u''"
  "CHR ''f'' \<noteq> CHR ''u''" "CHR ''r'' \<noteq> CHR ''u''"
  by simp_all

lemma unquote_escape:
  "unquote_body (json_escape c @ cs) = map_option (\<lambda>(s, r). (c # s, r)) (unquote_body cs)"
proof -
  obtain n where n: "n = (of_char c :: nat)" by simp
  then have c: "c = char_of n" by simp
  have hex: "n < 32 \<Longrightarrow> char_of (16 * hex_value (hex_digit (n div 16)) + hex_value (hex_digit (n mod 16))) = c"
    using c by (simp add: hex_value_hex_digit)
  consider "n = 34" | "n = 92" | "n = 8" | "n = 9" | "n = 10" | "n = 12" | "n = 13"
    | (ctl) "n < 32" "n \<noteq> 8" "n \<noteq> 9" "n \<noteq> 10" "n \<noteq> 12" "n \<noteq> 13"
    | (plain) "32 \<le> n" "n \<noteq> 34" "n \<noteq> 92"
    by linarith
  then show ?thesis
  proof cases
    case ctl
    then have "json_escape c = [char_of (92::nat), CHR ''u'', CHR ''0'', CHR ''0'', hex_digit (n div 16), hex_digit (n mod 16)]"
      using n by (simp add: json_escape_def Let_def)
    then show ?thesis using hex [OF ctl(1)] by (simp only: append_Cons append_Nil unquote_unicode)
  next
    case plain
    then have "json_escape c = [c]" using n by (simp add: json_escape_def Let_def)
    then show ?thesis using plain n by (simp add: unquote_plain)
  qed (simp_all only: c short_escaped append_Cons append_Nil unquote_short short_escapes short_not_unicode not_False_eq_True)
qed

lemma unquote_quoted:
  "unquote_body (concat (map json_escape s) @ char_of (34::nat) # rest) = Some (s, rest)"
proof (induction s)
  case Nil
  then show ?case by (simp only: concat.simps list.map append_Nil unquote_close)
next
  case (Cons c s)
  have "unquote_body (concat (map json_escape (c # s)) @ char_of (34::nat) # rest)
      = map_option (\<lambda>(t, r). (c # t, r)) (unquote_body (concat (map json_escape s) @ char_of (34::nat) # rest))"
    by (simp only: concat.simps list.map append_assoc unquote_escape)
  also have "\<dots> = Some (c # s, rest)" by (simp only: Cons.IH option.map prod.case)
  finally show ?case .
qed

lemma json_quote_cancel:
  "json_quote s @ r = json_quote t @ u \<Longrightarrow> s = t \<and> r = u"
proof -
  assume "json_quote s @ r = json_quote t @ u"
  then have "concat (map json_escape s) @ char_of (34::nat) # r = concat (map json_escape t) @ char_of (34::nat) # u"
    by (simp only: json_quote_def append_Cons append_assoc append_Nil list.inject)
  then have "Some (s, r) = Some (t, u)" by (metis unquote_quoted)
  then show ?thesis by simp
qed

lemma json_quote_inject [simp]: "json_quote s = json_quote t \<longleftrightarrow> s = t"
  using json_quote_cancel [of s "[]" t "[]"] by auto

lemma json_join_inject3:
  assumes "stringify_strings [a, b, c] = stringify_strings [a', b', c']"
  shows "a = a' \<and> b = b' \<and> c = c'"
proof -
  from assms have "json_quote a @ CHR '','' # json_quote b @ CHR '','' # json_quote c @ [CHR '']'']
      = json_quote a' @ CHR '','' # json_quote b' @ CHR '','' # json_quote c' @ [CHR '']'']"
    by (simp add: stringify_strings_def)
  from json_quote_cancel [OF this] have a: "a = a'"
    and rest: "json_quote b @ CHR '','' # json_quote c @ [CHR '']'']
      = json_quote b' @ CHR '','' # json_quote c' @ [CHR '']'']" by auto
  from json_quote_cancel [OF rest] have b: "b = b'"
    and last: "json_quote c @ [CHR '']''] = json_quote c' @ [CHR '']'']" by auto
  from json_quote_cancel [OF last] a b show ?thesis by simp
qed

end
