(* ===== verification/Delivery_Types.thy ===== *)
theory Delivery_Types
  imports Json_Text
begin

text \<open>
  The delivery vocabulary of \<^verbatim>\<open>src/src/domain/delivery.ts\<close> and
  \<^verbatim>\<open>src/src/domain/delivery-scope.ts\<close>: a delivery scope (one Pane, or the Global
  scope), its key, the routing of ownership facts to a scope, and the work a Delivery
  Ring holds. The two members of the source's union \<^verbatim>\<open>DeliveryRingWork\<close> share most
  fields; they are one extensible record here, \<open>delivery_common\<close>, with two extensions,
  and the union is a datatype over the two.
\<close>

subsection \<open>Scopes, fences and routes\<close>

datatype DeliveryScope = PaneScope string string | GlobalScope

datatype OwnerKind = PrimaryOwner | WorkerOwner

record ParentFence =
  parent_id :: string
  parent_generation :: int
  parent_sessionGeneration :: int

record DeliveryOwnerFence =
  fence_kind :: OwnerKind
  fence_id :: string
  fence_generation :: int
  fence_sessionGeneration :: int
  fence_parent :: "ParentFence option"

record DeliveryRoute =
  route_scope :: "DeliveryScope option"
  route_ownerFence :: "DeliveryOwnerFence option"
  route_parentPaneId :: "string option"

record PrimaryFacts =
  pf_workspaceId :: "string option"
  pf_paneId :: "string option"
  pf_bindingId :: string
  pf_bindingGeneration :: "int option"
  pf_sessionEpoch :: "int option"

record WorkerFacts =
  wf_workspaceId :: "string option"
  wf_paneId :: "string option"
  wf_parentPaneId :: "string option"
  wf_workerId :: string
  wf_workerSessionGeneration :: "int option"
  wf_runtimeGeneration :: "int option"
  wf_parentBindingId :: "string option"
  wf_parentBindingGeneration :: "int option"
  wf_parentSessionEpoch :: "int option"

datatype DeliveryScopeFacts = PrimaryScopeFacts PrimaryFacts | WorkerScopeFacts WorkerFacts | UnownedFacts

definition validText :: "string option \<Rightarrow> bool" where
  "validText v = (case v of None \<Rightarrow> False | Some s \<Rightarrow> 0 < length s)"

definition validGeneration :: "int option \<Rightarrow> bool" where
  "validGeneration v = (case v of None \<Rightarrow> False | Some n \<Rightarrow> 1 \<le> n)"

definition no_route :: DeliveryRoute where
  "no_route = \<lparr>route_scope = None, route_ownerFence = None, route_parentPaneId = None\<rparr>"

definition routeDelivery :: "DeliveryScopeFacts \<Rightarrow> DeliveryRoute" where
  "routeDelivery facts = (case facts of
     PrimaryScopeFacts f \<Rightarrow>
       if \<not> validText (pf_workspaceId f) \<or> \<not> validText (pf_paneId f) \<or> \<not> validText (Some (pf_bindingId f))
         \<or> \<not> validGeneration (pf_bindingGeneration f) \<or> \<not> validGeneration (pf_sessionEpoch f)
       then no_route
       else \<lparr>route_scope = Some (PaneScope (the (pf_workspaceId f)) (the (pf_paneId f))),
             route_ownerFence = Some \<lparr>fence_kind = PrimaryOwner, fence_id = pf_bindingId f,
               fence_generation = the (pf_bindingGeneration f),
               fence_sessionGeneration = the (pf_sessionEpoch f), fence_parent = None\<rparr>,
             route_parentPaneId = None\<rparr>
   | WorkerScopeFacts f \<Rightarrow>
       if \<not> validText (wf_workspaceId f) \<or> \<not> validText (wf_paneId f) \<or> \<not> validText (wf_parentPaneId f)
         \<or> \<not> validText (Some (wf_workerId f)) \<or> \<not> validText (wf_parentBindingId f)
         \<or> \<not> validGeneration (wf_workerSessionGeneration f) \<or> \<not> validGeneration (wf_runtimeGeneration f)
         \<or> \<not> validGeneration (wf_parentBindingGeneration f) \<or> \<not> validGeneration (wf_parentSessionEpoch f)
       then no_route
       else \<lparr>route_scope = Some (PaneScope (the (wf_workspaceId f)) (the (wf_paneId f))),
             route_ownerFence = Some \<lparr>fence_kind = WorkerOwner, fence_id = wf_workerId f,
               fence_generation = the (wf_runtimeGeneration f),
               fence_sessionGeneration = the (wf_workerSessionGeneration f),
               fence_parent = Some \<lparr>parent_id = the (wf_parentBindingId f),
                 parent_generation = the (wf_parentBindingGeneration f),
                 parent_sessionGeneration = the (wf_parentSessionEpoch f)\<rparr>\<rparr>,
             route_parentPaneId = wf_parentPaneId f\<rparr>
   | UnownedFacts \<Rightarrow>
       \<lparr>route_scope = Some GlobalScope, route_ownerFence = None, route_parentPaneId = None\<rparr>)"

definition deliveryScopeKey :: "DeliveryScope \<Rightarrow> string" where
  "deliveryScopeKey s = (case s of
     GlobalScope \<Rightarrow> stringify_strings [''global'']
   | PaneScope w p \<Rightarrow> stringify_strings [''pane'', w, p])"

subsection \<open>Ring work\<close>

datatype OutboundWorkClass = Live | History

datatype DeliveryFailureClass = Transient | Permanent | UnknownFailure

datatype DeliveryEffectCertainty = NotStarted | Rejected | Uncertain

datatype OutboundReplyState = Pending | Delivered | DeadLetter | Dismissed

datatype OutboundReplyKind =
  TextReply | CardReply | CardUpdate | GroupCardCreate | StreamCardCreate | StreamContent | StreamFinish
  | MessageDelete

datatype OutboundTargetRole = SessionStatus | OperationResult

record PreparedDeliveryCheckpoint =
  checkpoint_gatewayId :: string
  checkpoint_opaqueId :: string

text \<open>The open object \<^verbatim>\<open>intent\<close> of a plan is its \<^verbatim>\<open>kind\<close> and its other fields.\<close>

record PreparedDeliveryPlan =
  plan_gatewayId :: string
  plan_profileId :: string
  plan_rendererRevision :: int
  plan_operation :: string
  plan_intent_kind :: string
  plan_intent_fields :: "(string \<times> json) list"

record DeliverySubject =
  subject_segmentId :: string
  subject_pageIndex :: int
  subject_revision :: int

record SemanticSnapshotDeliveryInput =
  input_subject :: DeliverySubject
  input_snapshot :: "(string \<times> json) list"
  input_snapshotHash :: string
  input_plannerPolicyVersion :: int
  input_rendererPolicyVersion :: int
  input_gatewayProfileVersion :: int

record delivery_common =
  replyId :: string
  scope :: DeliveryScope
  ownerFence :: "DeliveryOwnerFence option"
  parentPaneId :: "string option"
  deliveryOrder :: int
  workClass :: OutboundWorkClass
  idempotencyKey :: string
  gatewayId :: string
  gatewayProfileId :: string
  conflictKey :: string
  projectionKey :: "string option"
  snapshotRevision :: int
  cardSequence :: "int option"
  priorCheckpoints :: "PreparedDeliveryCheckpoint list"
  nextAttemptAt :: timestamp
  estimatedBytes :: int

record PreparedDelivery = delivery_common +
  preparedPlan :: PreparedDeliveryPlan
  planHash :: string
  rendererRevision :: int

datatype PreparationState = Reserved | Preparing

datatype SemanticDeliveryKind = SemanticCardReply | SemanticCardUpdate

record SemanticDeliveryWork = delivery_common +
  semantic_deliveryKind :: SemanticDeliveryKind
  semantic_rootMessageId :: string
  semantic_input :: SemanticSnapshotDeliveryInput
  semantic_preparationState :: PreparationState

datatype DeliveryRingWork = PreparedWork PreparedDelivery | SemanticWork SemanticDeliveryWork

text \<open>The fields both members of the union have.\<close>

primrec work :: "DeliveryRingWork \<Rightarrow> delivery_common" where
  "work (PreparedWork d) = delivery_common.truncate d"
| "work (SemanticWork s) = delivery_common.truncate s"

text \<open>The identity of the content: a plan's hash, or a snapshot's.\<close>

primrec work_identity :: "DeliveryRingWork \<Rightarrow> string" where
  "work_identity (PreparedWork d) = planHash d"
| "work_identity (SemanticWork s) = input_snapshotHash (semantic_input s)"

abbreviation work_scope_key :: "DeliveryRingWork \<Rightarrow> string" where
  "work_scope_key d \<equiv> deliveryScopeKey (scope (work d))"

lemma work_prepared_simps [simp]:
  "replyId (delivery_common.truncate d) = replyId d"
  "scope (delivery_common.truncate d) = scope d"
  "deliveryOrder (delivery_common.truncate d) = deliveryOrder d"
  "workClass (delivery_common.truncate d) = workClass d"
  "estimatedBytes (delivery_common.truncate d) = estimatedBytes d"
  "nextAttemptAt (delivery_common.truncate d) = nextAttemptAt d"
  "snapshotRevision (delivery_common.truncate d) = snapshotRevision d"
  "priorCheckpoints (delivery_common.truncate d) = priorCheckpoints d"
  "projectionKey (delivery_common.truncate d) = projectionKey d"
  "conflictKey (delivery_common.truncate d) = conflictKey d"
  by (simp_all add: delivery_common.truncate_def)

record PreparedDeliveryClaim =
  claim_replyId :: string
  claim_attemptId :: string
  claim_ownerId :: string
  claim_fencingToken :: int
  claim_planHash :: string
  claim_snapshotRevision :: int

datatype MessageDeleteOutcome = Deleted | AlreadyAbsent

record PreparedDeliveryAck =
  ack_messageId :: string
  ack_surfaceId :: "string option"
  ack_threadId :: "string option"
  ack_messageDeleteOutcome :: "MessageDeleteOutcome option"

record DeliveryFailureMetadata =
  meta_failureClass :: DeliveryFailureClass
  meta_httpStatus :: "int option"
  meta_larkErrorCode :: "string option"
  meta_effectCertainty :: "DeliveryEffectCertainty option"
  meta_recoveryKind :: "string option"
  meta_providerOperation :: "string option"

record PreparedDeliveryFailure =
  failure_error :: string
  failure_metadata :: DeliveryFailureMetadata
  failure_retryAt :: timestamp

subsection \<open>Keys identify scopes, and routes fail closed\<close>

lemma global_key_not_pane_key:
  "stringify_strings [''global''] \<noteq> stringify_strings [''pane'', w, p]"
proof
  assume "stringify_strings [''global''] = stringify_strings [''pane'', w, p]"
  then have "json_quote ''global'' @ [CHR '']''] = json_quote ''pane'' @ (CHR '','' # json_join [w, p] @ [CHR '']''])"
    by (simp only: stringify_strings_def json_join.simps append_Cons append_assoc list.inject)
  from json_quote_cancel [OF this] show False by simp
qed

lemma deliveryScopeKey_inject [simp]:
  "deliveryScopeKey s = deliveryScopeKey t \<longleftrightarrow> s = t"
proof
  assume eq: "deliveryScopeKey s = deliveryScopeKey t"
  show "s = t"
  proof (cases s)
    case (PaneScope w p)
    note s = this
    show ?thesis
    proof (cases t)
      case (PaneScope w' p')
      with s eq json_join_inject3 [of "''pane''" w p "''pane''" w' p'] show ?thesis
        by (simp only: deliveryScopeKey_def DeliveryScope.case)
    next
      case GlobalScope
      with s eq have "stringify_strings [''global''] = stringify_strings [''pane'', w, p]"
        by (simp only: deliveryScopeKey_def DeliveryScope.case)
      with global_key_not_pane_key show ?thesis by (rule notE)
    qed
  next
    case GlobalScope
    note s = this
    show ?thesis
    proof (cases t)
      case (PaneScope w p)
      with s eq have "stringify_strings [''global''] = stringify_strings [''pane'', w, p]"
        by (simp only: deliveryScopeKey_def DeliveryScope.case)
      with global_key_not_pane_key show ?thesis by (rule notE)
    qed (simp add: s)
  qed
qed simp

lemma routeDelivery_owned_not_global:
  assumes "facts \<noteq> UnownedFacts"
  shows "route_scope (routeDelivery facts) \<noteq> Some GlobalScope"
  using assms by (cases facts) (simp_all add: routeDelivery_def no_route_def)

lemma routeDelivery_scope_iff_fence:
  assumes "facts \<noteq> UnownedFacts"
  shows "(route_scope (routeDelivery facts) = None) \<longleftrightarrow> (route_ownerFence (routeDelivery facts) = None)"
  using assms by (cases facts) (simp_all add: routeDelivery_def no_route_def)

end
