(* ===== verification/Delivery_Ring.thy ===== *)
theory Delivery_Ring
  imports Delivery_Types
begin

text \<open>
  The Delivery Ring of \<^verbatim>\<open>src/src/events/prepared-delivery-ring.ts\<close>: a bounded queue of
  deliveries of one scope, ordered by their durable delivery order, with an index by
  reply id, a byte count, a ready token and an active grant. One definition per method of
  the class \<^verbatim>\<open>PreparedDeliveryRing\<close>; a method that changes the object returns the new
  record. The invariant \<open>ring_inv\<close> says that the index and the byte count agree with the
  queue, that the limits hold, that delivery orders strictly increase, and how token,
  grant and queue relate; every method keeps it. The locale \<open>ordered_buffer\<close> is what the
  engine relies on (first in, first out, in delivery order), and the Ring interprets it.
\<close>

datatype DeliveryCacheSource = Commit | Cold

datatype RingOfferOutcome = Accepted | Duplicate | Overflow | Oversized | Stale

record RingOfferResult =
  offer_outcome :: RingOfferOutcome
  offer_retainedBytes :: int

record CachedDelivery =
  cached_delivery :: DeliveryRingWork
  cached_source :: DeliveryCacheSource
  cached_enqueuedAt :: timestamp

record RingHistoryInvalidationResult =
  inval_removed :: "PreparedDelivery list"
  inval_releasedBytes :: int
  inval_readyTokenStale :: bool

record RingRemovalResult =
  removal_removed :: "DeliveryRingWork list"
  removal_releasedBytes :: int

record PreparedDeliveryRing =
  ring_key :: string
  queue :: "CachedDelivery list"
  byReplyId :: "string \<rightharpoonup> CachedDelivery"
  bytes :: int
  dirty :: bool
  overflowed :: bool
  readyToken :: bool
  activeGrant :: bool
  observedHeadId :: "string option"
  revisionValue :: int
  lastTouchedAt :: timestamp
  ring_scope :: DeliveryScope
  itemLimit :: int
  byteLimit :: int

record PreparedDeliveryRingSnapshot =
  snap_itemCount :: int
  snap_cachedBytes :: int
  snap_dirty :: bool
  snap_overflowed :: bool
  snap_readyToken :: bool
  snap_activeGrant :: bool
  snap_lastTouchedAt :: timestamp

subsection \<open>The methods\<close>

definition new_ring :: "DeliveryScope \<Rightarrow> int \<Rightarrow> int \<Rightarrow> timestamp \<Rightarrow> PreparedDeliveryRing" where
  "new_ring s items bs now =
     \<lparr>ring_key = deliveryScopeKey s, queue = [], byReplyId = Map.empty, bytes = 0, dirty = False,
      overflowed = False, readyToken = False, activeGrant = False, observedHeadId = None,
      revisionValue = 0, lastTouchedAt = now, ring_scope = s, itemLimit = items, byteLimit = bs\<rparr>"

abbreviation cached_id :: "CachedDelivery \<Rightarrow> string" where
  "cached_id c \<equiv> replyId (work (cached_delivery c))"

abbreviation cached_order :: "CachedDelivery \<Rightarrow> int" where
  "cached_order c \<equiv> deliveryOrder (work (cached_delivery c))"

abbreviation cached_bytes :: "CachedDelivery \<Rightarrow> int" where
  "cached_bytes c \<equiv> estimatedBytes (work (cached_delivery c))"

definition touch :: "timestamp \<Rightarrow> PreparedDeliveryRing \<Rightarrow> PreparedDeliveryRing" where
  "touch now r = r\<lparr>lastTouchedAt := now\<rparr>"

definition rejectStale :: "PreparedDeliveryRing \<Rightarrow> PreparedDeliveryRing \<times> RingOfferResult" where
  "rejectStale r =
     (r\<lparr>dirty := True, revisionValue := revisionValue r + 1\<rparr>,
      \<lparr>offer_outcome = Stale, offer_retainedBytes = 0\<rparr>)"

definition markOverflow :: "timestamp \<Rightarrow> PreparedDeliveryRing \<Rightarrow> PreparedDeliveryRing" where
  "markOverflow now r =
     touch now (r\<lparr>overflowed := True, dirty := True, revisionValue := revisionValue r + 1\<rparr>)"

definition hasReplyId :: "string \<Rightarrow> PreparedDeliveryRing \<Rightarrow> bool" where
  "hasReplyId i r = (byReplyId r i \<noteq> None)"

definition sameIdentity :: "DeliveryRingWork \<Rightarrow> DeliveryRingWork \<Rightarrow> bool" where
  "sameIdentity left right =
     (deliveryOrder (work left) = deliveryOrder (work right)
      \<and> work_identity left = work_identity right
      \<and> snapshotRevision (work left) = snapshotRevision (work right)
      \<and> work_scope_key left = work_scope_key right)"

definition ring_offer :: "DeliveryRingWork \<Rightarrow> DeliveryCacheSource \<Rightarrow> timestamp \<Rightarrow> PreparedDeliveryRing
    \<Rightarrow> PreparedDeliveryRing \<times> RingOfferResult" where
  "ring_offer d source now r0 =
     (let r = touch now r0 in
      if work_scope_key d \<noteq> ring_key r then rejectStale r
      else case byReplyId r (replyId (work d)) of
        Some duplicate \<Rightarrow>
          if sameIdentity (cached_delivery duplicate) d
          then (r, \<lparr>offer_outcome = Duplicate, offer_retainedBytes = 0\<rparr>)
          else rejectStale r
      | None \<Rightarrow>
          if (case list_last (queue r) of None \<Rightarrow> False | Some t \<Rightarrow> deliveryOrder (work d) \<le> cached_order t)
          then rejectStale r
          else if byteLimit r < estimatedBytes (work d)
          then (markOverflow now r, \<lparr>offer_outcome = Oversized, offer_retainedBytes = 0\<rparr>)
          else if itemLimit r \<le> int (length (queue r)) \<or> byteLimit r < bytes r + estimatedBytes (work d)
          then (markOverflow now r, \<lparr>offer_outcome = Overflow, offer_retainedBytes = 0\<rparr>)
          else
            let cached = \<lparr>cached_delivery = d, cached_source = source, cached_enqueuedAt = now\<rparr> in
            (r\<lparr>queue := queue r @ [cached],
               byReplyId := (byReplyId r)(replyId (work d) \<mapsto> cached),
               bytes := bytes r + estimatedBytes (work d),
               revisionValue := revisionValue r + 1\<rparr>,
             \<lparr>offer_outcome = Accepted, offer_retainedBytes = estimatedBytes (work d)\<rparr>))"

definition ring_head :: "PreparedDeliveryRing \<Rightarrow> DeliveryRingWork option" where
  "ring_head r = map_option cached_delivery (list_head (queue r))"

definition headEntry :: "PreparedDeliveryRing \<Rightarrow> CachedDelivery option" where
  "headEntry r = list_head (queue r)"

definition ring_items :: "PreparedDeliveryRing \<Rightarrow> DeliveryRingWork list" where
  "ring_items r = map cached_delivery (queue r)"

definition ring_isEmpty :: "PreparedDeliveryRing \<Rightarrow> bool" where
  "ring_isEmpty r = (queue r = [])"

primrec asPreparedDelivery :: "DeliveryRingWork \<Rightarrow> PreparedDelivery option" where
  "asPreparedDelivery (PreparedWork d) = Some d"
| "asPreparedDelivery (SemanticWork s) = None"

text \<open>The target is the pair of projection key and root message id.\<close>

definition replaceableSnapshotTarget :: "PreparedDelivery \<Rightarrow> (string \<times> string) option" where
  "replaceableSnapshotTarget d =
     (if plan_operation (preparedPlan d) \<noteq> ''surface.replace''
        \<or> plan_intent_kind (preparedPlan d) \<noteq> ''surface.replace'' \<or> projectionKey d = None
      then None
      else case as_string (jfield (plan_intent_fields (preparedPlan d)) ''messageId'') of
        Some m \<Rightarrow> if 0 < length m then Some (the (projectionKey d), m) else None
      | None \<Rightarrow> None)"

definition isSupersededHistoryReference :: "CachedDelivery \<Rightarrow> PreparedDelivery \<Rightarrow> string \<times> string \<Rightarrow> bool" where
  "isSupersededHistoryReference c live target =
     (case asPreparedDelivery (cached_delivery c) of
        None \<Rightarrow> False
      | Some historical \<Rightarrow>
          cached_source c = Cold \<and> workClass historical = History \<and> priorCheckpoints historical = []
          \<and> (case replaceableSnapshotTarget historical of
               None \<Rightarrow> False
             | Some (pk, root) \<Rightarrow>
                 deliveryScopeKey (scope historical) = deliveryScopeKey (scope live)
                 \<and> conflictKey historical = conflictKey live \<and> pk = fst target \<and> root = snd target
                 \<and> snapshotRevision historical < snapshotRevision live))"

definition noInvalidation :: RingHistoryInvalidationResult where
  "noInvalidation = \<lparr>inval_removed = [], inval_releasedBytes = 0, inval_readyTokenStale = False\<rparr>"

text \<open>The loop over the queue: retained entries, removed deliveries, released bytes, removed head.\<close>

fun scan_history :: "bool \<Rightarrow> PreparedDelivery \<Rightarrow> string \<times> string \<Rightarrow> nat \<Rightarrow> CachedDelivery list
    \<Rightarrow> CachedDelivery list \<times> PreparedDelivery list \<times> int \<times> bool" where
  "scan_history grant live target i [] = ([], [], 0, False)"
| "scan_history grant live target i (c # cs) =
     (case scan_history grant live target (Suc i) cs of
        (retained, removed, released, removedHead) \<Rightarrow>
          if i = 0 \<and> grant then (c # retained, removed, released, removedHead)
          else case asPreparedDelivery (cached_delivery c) of
            None \<Rightarrow> (c # retained, removed, released, removedHead)
          | Some historical \<Rightarrow>
              if \<not> isSupersededHistoryReference c live target
              then (c # retained, removed, released, removedHead)
              else (retained, historical # removed, cached_bytes c + released, removedHead \<or> i = 0))"

definition invalidateSupersededHistory :: "DeliveryRingWork \<Rightarrow> timestamp \<Rightarrow> PreparedDeliveryRing
    \<Rightarrow> PreparedDeliveryRing \<times> RingHistoryInvalidationResult" where
  "invalidateSupersededHistory live now r =
     (case asPreparedDelivery live of
        None \<Rightarrow> (r, noInvalidation)
      | Some preparedLive \<Rightarrow>
          (case replaceableSnapshotTarget preparedLive of
             None \<Rightarrow> (r, noInvalidation)
           | Some target \<Rightarrow>
               if workClass (work live) \<noteq> Live \<or> 0 < length (priorCheckpoints (work live)) then (r, noInvalidation)
               else case scan_history (activeGrant r) preparedLive target 0 (queue r) of
                 (retained, removed, released, removedHead) \<Rightarrow>
                   if removed = [] then (r, noInvalidation)
                   else
                     (touch now
                        (r\<lparr>queue := retained,
                           byReplyId := fold (\<lambda>h m. m(replyId h := None)) removed (byReplyId r),
                           bytes := bytes r - released,
                           readyToken := (if removedHead then False else readyToken r),
                           observedHeadId := (if removedHead then None else observedHeadId r),
                           dirty := True,
                           revisionValue := revisionValue r + 1\<rparr>),
                      \<lparr>inval_removed = removed, inval_releasedBytes = released,
                       inval_readyTokenStale = (removedHead \<and> readyToken r)\<rparr>)))"

definition removeHead :: "timestamp \<Rightarrow> PreparedDeliveryRing \<Rightarrow> PreparedDeliveryRing \<times> DeliveryRingWork option" where
  "removeHead now r =
     (case queue r of
        [] \<Rightarrow> (r, None)
      | cached # rest \<Rightarrow>
          (touch now
             (r\<lparr>queue := rest,
                byReplyId := (byReplyId r)(cached_id cached := None),
                bytes := bytes r - cached_bytes cached,
                observedHeadId := None,
                readyToken := False,
                revisionValue := revisionValue r + 1\<rparr>),
           Some (cached_delivery cached)))"

definition removeAll_ring :: "timestamp \<Rightarrow> PreparedDeliveryRing \<Rightarrow> PreparedDeliveryRing \<times> RingRemovalResult" where
  "removeAll_ring now r =
     (let removed = map cached_delivery (queue r);
          cleared = r\<lparr>queue := [], byReplyId := Map.empty, bytes := 0, observedHeadId := None, readyToken := False\<rparr>
      in (if 0 < length removed then touch now (cleared\<lparr>revisionValue := revisionValue r + 1\<rparr>) else cleared,
          \<lparr>removal_removed = removed, removal_releasedBytes = bytes r\<rparr>))"

definition isRunnable :: "timestamp \<Rightarrow> PreparedDeliveryRing \<Rightarrow> bool" where
  "isRunnable now r = (case ring_head r of
     None \<Rightarrow> False
   | Some h \<Rightarrow> observedHeadId r \<noteq> Some (replyId (work h)) \<and> nextAttemptAt (work h) \<le> now)"

definition markReadyToken :: "timestamp \<Rightarrow> PreparedDeliveryRing \<Rightarrow> PreparedDeliveryRing \<times> bool" where
  "markReadyToken now r0 =
     (let r = touch now r0 in
      if readyToken r \<or> activeGrant r \<or> \<not> isRunnable now r then (r, False)
      else (r\<lparr>readyToken := True\<rparr>, True))"

definition beginGrant :: "timestamp \<Rightarrow> PreparedDeliveryRing \<Rightarrow> PreparedDeliveryRing" where
  "beginGrant now r = touch now (r\<lparr>readyToken := False, activeGrant := True\<rparr>)"

definition finishGrant :: "timestamp \<Rightarrow> PreparedDeliveryRing \<Rightarrow> PreparedDeliveryRing" where
  "finishGrant now r = touch now (r\<lparr>activeGrant := False\<rparr>)"

definition finishShadowGrant :: "timestamp \<Rightarrow> PreparedDeliveryRing \<Rightarrow> PreparedDeliveryRing" where
  "finishShadowGrant now r =
     (let r' = finishGrant now r
      in r'\<lparr>observedHeadId := map_option (\<lambda>h. replyId (work h)) (ring_head r')\<rparr>)"

definition ring_snapshot :: "PreparedDeliveryRing \<Rightarrow> PreparedDeliveryRingSnapshot" where
  "ring_snapshot r =
     \<lparr>snap_itemCount = int (length (queue r)), snap_cachedBytes = bytes r, snap_dirty = dirty r,
      snap_overflowed = overflowed r, snap_readyToken = readyToken r, snap_activeGrant = activeGrant r,
      snap_lastTouchedAt = lastTouchedAt r\<rparr>"

lemmas ring_op_defs [op_defs] =
  touch_def rejectStale_def markOverflow_def hasReplyId_def sameIdentity_def ring_offer_def
  ring_head_def headEntry_def ring_items_def ring_isEmpty_def removeHead_def removeAll_ring_def
  isRunnable_def markReadyToken_def beginGrant_def finishGrant_def finishShadowGrant_def

subsection \<open>The invariant\<close>

definition ring_index :: "CachedDelivery list \<Rightarrow> string \<rightharpoonup> CachedDelivery" where
  "ring_index cs = map_of (map (\<lambda>c. (cached_id c, c)) cs)"

definition ring_inv :: "PreparedDeliveryRing \<Rightarrow> bool" where
  "ring_inv r \<longleftrightarrow>
     ring_key r = deliveryScopeKey (ring_scope r)
     \<and> distinct (map cached_id (queue r))
     \<and> byReplyId r = ring_index (queue r)
     \<and> bytes r = sum_list (map cached_bytes (queue r))
     \<and> sorted_wrt (\<lambda>a b. cached_order a < cached_order b) (queue r)
     \<and> (\<forall>c \<in> set (queue r). work_scope_key (cached_delivery c) = ring_key r \<and> 0 \<le> cached_bytes c)
     \<and> int (length (queue r)) \<le> max 0 (itemLimit r)
     \<and> bytes r \<le> max 0 (byteLimit r)
     \<and> (readyToken r \<longrightarrow> \<not> activeGrant r \<and> queue r \<noteq> [])"

lemma ring_index_Nil [simp]: "ring_index [] = Map.empty"
  by (simp add: ring_index_def)

lemma ring_index_Cons: "ring_index (c # cs) = (ring_index cs)(cached_id c \<mapsto> c)"
  by (simp add: ring_index_def)

lemma ring_index_None: "ring_index cs i = None \<longleftrightarrow> i \<notin> cached_id ` set cs"
  by (induction cs) (auto simp: ring_index_Cons)

lemma ring_index_snoc:
  "ring_index cs (cached_id c) = None \<Longrightarrow> ring_index (cs @ [c]) = (ring_index cs)(cached_id c \<mapsto> c)"
  by (induction cs) (auto simp: ring_index_Cons fun_eq_iff split: if_splits)

lemma ring_index_Some:
  "ring_index cs i = Some c \<Longrightarrow> c \<in> set cs \<and> cached_id c = i"
  by (induction cs) (auto simp: ring_index_Cons split: if_splits)

lemma ring_index_tl:
  "cached_id c \<notin> cached_id ` set cs \<Longrightarrow> (ring_index (c # cs))(cached_id c := None) = ring_index cs"
  using ring_index_None [of cs "cached_id c"] by (auto simp: ring_index_Cons fun_eq_iff)

lemma ring_index_filter:
  assumes "distinct (map cached_id cs)"
  shows "fold (\<lambda>h m. m(replyId h := None)) hs (ring_index cs)
       = ring_index (filter (\<lambda>c. cached_id c \<notin> replyId ` set hs) cs)"
proof -
  have fold: "fold (\<lambda>h m. m(replyId h := None)) hs m i = (if i \<in> replyId ` set hs then None else m i)"
    for m :: "string \<rightharpoonup> CachedDelivery" and i
    by (induction hs arbitrary: m) auto
  have filt: "ring_index (filter (\<lambda>c. cached_id c \<notin> I) cs) i = (if i \<in> I then None else ring_index cs i)" for I i
    using assms by (induction cs) (auto simp: ring_index_Cons ring_index_None)
  show ?thesis by (rule ext) (simp add: fold filt)
qed

lemma ring_inv_new [inv_preserved]: "ring_inv (new_ring s i b now)"
  by (simp add: ring_inv_def new_ring_def)

lemma ring_inv_touch [inv_preserved, simp]: "ring_inv (touch now r) \<longleftrightarrow> ring_inv r"
  by (simp add: ring_inv_def touch_def)

lemma ring_inv_frame:
  "ring_inv (r\<lparr>dirty := a\<rparr>) \<longleftrightarrow> ring_inv r"
  "ring_inv (r\<lparr>overflowed := a\<rparr>) \<longleftrightarrow> ring_inv r"
  "ring_inv (r\<lparr>revisionValue := n\<rparr>) \<longleftrightarrow> ring_inv r"
  "ring_inv (r\<lparr>observedHeadId := h\<rparr>) \<longleftrightarrow> ring_inv r"
  by (simp_all add: ring_inv_def)

lemma ring_inv_rejectStale [inv_preserved]: "ring_inv (fst (rejectStale r)) \<longleftrightarrow> ring_inv r"
  by (simp add: rejectStale_def ring_inv_def)

lemma ring_inv_markOverflow [inv_preserved]: "ring_inv (markOverflow now r) \<longleftrightarrow> ring_inv r"
  by (simp add: markOverflow_def ring_inv_def touch_def)

lemma ring_inv_markReadyToken [inv_preserved]:
  "ring_inv r \<Longrightarrow> ring_inv (fst (markReadyToken now r))"
  by (auto simp: markReadyToken_def ring_inv_def touch_def Let_def isRunnable_def ring_head_def)

lemma ring_inv_beginGrant [inv_preserved]: "ring_inv r \<Longrightarrow> ring_inv (beginGrant now r)"
  by (simp add: beginGrant_def ring_inv_def touch_def)

lemma ring_inv_finishGrant [inv_preserved]: "ring_inv r \<Longrightarrow> ring_inv (finishGrant now r)"
  by (simp add: finishGrant_def ring_inv_def touch_def)

lemma ring_inv_finishShadowGrant [inv_preserved]: "ring_inv r \<Longrightarrow> ring_inv (finishShadowGrant now r)"
  by (simp add: finishShadowGrant_def Let_def ring_inv_frame ring_inv_finishGrant)

text \<open>The five outcomes of an offer, by the guard that selects them.\<close>

lemma ring_offer_accepted:
  assumes "offer_outcome (snd (ring_offer d source now r)) = Accepted"
  shows "work_scope_key d = ring_key r" and "byReplyId r (replyId (work d)) = None"
    and "\<forall>t. list_last (queue r) = Some t \<longrightarrow> cached_order t < deliveryOrder (work d)"
    and "int (length (queue r)) < itemLimit r" and "bytes r + estimatedBytes (work d) \<le> byteLimit r"
    and "fst (ring_offer d source now r)
         = r\<lparr>lastTouchedAt := now,
             queue := queue r @ [\<lparr>cached_delivery = d, cached_source = source, cached_enqueuedAt = now\<rparr>],
             byReplyId := (byReplyId r)(replyId (work d) \<mapsto>
               \<lparr>cached_delivery = d, cached_source = source, cached_enqueuedAt = now\<rparr>),
             bytes := bytes r + estimatedBytes (work d), revisionValue := revisionValue r + 1\<rparr>"
    and "offer_retainedBytes (snd (ring_offer d source now r)) = estimatedBytes (work d)"
  using assms
  by (auto simp: ring_offer_def rejectStale_def touch_def Let_def split: if_splits option.splits)

lemma ring_offer_refused:
  assumes "offer_outcome (snd (ring_offer d source now r)) \<noteq> Accepted"
  shows "queue (fst (ring_offer d source now r)) = queue r"
    and "bytes (fst (ring_offer d source now r)) = bytes r"
    and "offer_retainedBytes (snd (ring_offer d source now r)) = 0"
    and "ring_inv (fst (ring_offer d source now r)) \<longleftrightarrow> ring_inv r"
  using assms
  by (auto simp: ring_offer_def rejectStale_def touch_def Let_def markOverflow_def ring_inv_def
      split: if_splits option.splits)

lemma ring_inv_offer [inv_preserved]:
  assumes inv: "ring_inv r" and nonneg: "0 \<le> estimatedBytes (work d)"
  shows "ring_inv (fst (ring_offer d source now r))"
proof (cases "offer_outcome (snd (ring_offer d source now r)) = Accepted")
  case False
  with inv show ?thesis by (simp add: ring_offer_refused(4))
next
  case True
  note acc = ring_offer_accepted [OF True]
  let ?c = "\<lparr>cached_delivery = d, cached_source = source, cached_enqueuedAt = now\<rparr>"
  have fresh: "ring_index (queue r) (cached_id ?c) = None"
    using acc(2) inv by (simp add: ring_inv_def)
  have "sorted_wrt (\<lambda>a b. cached_order a < cached_order b) (queue r @ [?c])"
    using inv acc(3) by (intro sorted_wrt_snoc_last) (auto simp: ring_inv_def)
  with inv acc nonneg fresh ring_index_snoc [OF fresh] show ?thesis
    by (auto simp: ring_inv_def ring_index_None)
qed

lemma ring_inv_removeHead [inv_preserved]:
  assumes "ring_inv r"
  shows "ring_inv (fst (removeHead now r))"
proof (cases "queue r")
  case Nil
  with assms show ?thesis by (simp add: removeHead_def)
next
  case (Cons c cs)
  from assms Cons have "cached_id c \<notin> cached_id ` set cs" by (simp add: ring_inv_def)
  then have "(byReplyId r)(cached_id c := None) = ring_index cs"
    using assms Cons by (simp add: ring_inv_def ring_index_tl)
  with assms Cons show ?thesis
    by (auto simp: removeHead_def touch_def ring_inv_def)
qed

lemma ring_inv_removeAll [inv_preserved]: "ring_inv r \<Longrightarrow> ring_inv (fst (removeAll_ring now r))"
  by (simp add: removeAll_ring_def Let_def ring_inv_def touch_def)

subsection \<open>Invalidation of superseded history\<close>

text \<open>
  The entries a live replacement makes obsolete, the executing head excepted: what the
  scan removes is exactly these, and what it keeps is the rest in order.
\<close>

definition obsolete :: "PreparedDelivery \<Rightarrow> string \<times> string \<Rightarrow> PreparedDeliveryRing \<Rightarrow> CachedDelivery \<Rightarrow> bool" where
  "obsolete live target r c \<longleftrightarrow>
     isSupersededHistoryReference c live target
     \<and> \<not> (activeGrant r \<and> map_option cached_id (list_head (queue r)) = Some (cached_id c))"

definition prepared_of :: "CachedDelivery \<Rightarrow> PreparedDelivery" where
  "prepared_of c = the (asPreparedDelivery (cached_delivery c))"

lemma superseded_prepared:
  "isSupersededHistoryReference c live target \<Longrightarrow> asPreparedDelivery (cached_delivery c) = Some (prepared_of c)"
  by (auto simp: isSupersededHistoryReference_def prepared_of_def split: option.splits)

lemma superseded_replyId:
  "isSupersededHistoryReference c live target \<Longrightarrow> replyId (prepared_of c) = cached_id c"
  using superseded_prepared [of c live target] by (cases "cached_delivery c") auto

lemma scan_history_Suc:
  "scan_history g live target (Suc i) cs
    = (filter (\<lambda>c. \<not> isSupersededHistoryReference c live target) cs,
       map prepared_of (filter (\<lambda>c. isSupersededHistoryReference c live target) cs),
       sum_list (map cached_bytes (filter (\<lambda>c. isSupersededHistoryReference c live target) cs)), False)"
  by (induction cs arbitrary: i) (auto simp: superseded_prepared split: option.splits)

lemma scan_history_queue:
  assumes "distinct (map cached_id (queue r))"
  shows "scan_history (activeGrant r) live target 0 (queue r)
    = (filter (\<lambda>c. \<not> obsolete live target r c) (queue r),
       map prepared_of (filter (obsolete live target r) (queue r)),
       sum_list (map cached_bytes (filter (obsolete live target r) (queue r))),
       \<exists>c. list_head (queue r) = Some c \<and> obsolete live target r c)"
proof (cases "queue r")
  case Nil
  then show ?thesis by simp
next
  case (Cons c cs)
  have tail: "obsolete live target r x \<longleftrightarrow> isSupersededHistoryReference x live target" if "x \<in> set cs" for x
    using assms Cons that by (auto simp: obsolete_def)
  then have filt: "filter (obsolete live target r) cs = filter (\<lambda>x. isSupersededHistoryReference x live target) cs"
    "filter (\<lambda>x. \<not> obsolete live target r x) cs = filter (\<lambda>x. \<not> isSupersededHistoryReference x live target) cs"
    by (auto intro: filter_cong)
  have head: "obsolete live target r c \<longleftrightarrow> isSupersededHistoryReference c live target \<and> \<not> activeGrant r"
    using Cons by (simp add: obsolete_def)
  show ?thesis
    using superseded_prepared [of c live target]
    by (auto simp: Cons scan_history_Suc filt head split: option.splits)
qed

lemma invalidate_cases:
  assumes inv: "ring_inv r"
  obtains (same) "invalidateSupersededHistory d now r = (r, noInvalidation)"
  | (removed) live target where
      "d = PreparedWork live" "replaceableSnapshotTarget live = Some target"
      "workClass live = Live" "priorCheckpoints live = []"
      "filter (obsolete live target r) (queue r) \<noteq> []"
      "invalidateSupersededHistory d now r =
        (r\<lparr>queue := filter (\<lambda>c. \<not> obsolete live target r c) (queue r),
           byReplyId := ring_index (filter (\<lambda>c. \<not> obsolete live target r c) (queue r)),
           bytes := sum_list (map cached_bytes (filter (\<lambda>c. \<not> obsolete live target r c) (queue r))),
           readyToken := (readyToken r \<and> \<not> (\<exists>c. list_head (queue r) = Some c \<and> obsolete live target r c)),
           observedHeadId := (if \<exists>c. list_head (queue r) = Some c \<and> obsolete live target r c then None else observedHeadId r),
           dirty := True, revisionValue := revisionValue r + 1, lastTouchedAt := now\<rparr>,
         \<lparr>inval_removed = map prepared_of (filter (obsolete live target r) (queue r)),
          inval_releasedBytes = sum_list (map cached_bytes (filter (obsolete live target r) (queue r))),
          inval_readyTokenStale = ((\<exists>c. list_head (queue r) = Some c \<and> obsolete live target r c) \<and> readyToken r)\<rparr>)"
proof (cases "invalidateSupersededHistory d now r = (r, noInvalidation)")
  case True
  then show ?thesis by (rule same)
next
  case False
  then obtain live target where d: "d = PreparedWork live" and t: "replaceableSnapshotTarget live = Some target"
    and l: "workClass live = Live" "priorCheckpoints live = []"
    by (cases d) (auto simp: invalidateSupersededHistory_def split: option.splits if_splits)
  let ?ob = "obsolete live target r"
  from inv have dist: "distinct (map cached_id (queue r))" by (simp add: ring_inv_def)
  note scan = scan_history_queue [OF dist, of live target]
  from False have ne: "filter ?ob (queue r) \<noteq> []"
    by (auto simp: invalidateSupersededHistory_def d t l scan split: if_splits)
  have ids: "replyId ` set (map prepared_of (filter ?ob (queue r))) = cached_id ` set (filter ?ob (queue r))"
    by (force simp: obsolete_def superseded_replyId)
  have keep: "filter (\<lambda>c. cached_id c \<notin> cached_id ` set (filter ?ob (queue r))) (queue r) = filter (\<lambda>c. \<not> ?ob c) (queue r)"
    using dist by (intro filter_cong) (auto simp: distinct_map inj_on_def)
  have index: "fold (\<lambda>h m. m(replyId h := None)) (map prepared_of (filter ?ob (queue r))) (byReplyId r)
      = ring_index (filter (\<lambda>c. \<not> ?ob c) (queue r))"
    using inv by (simp only: ring_inv_def ring_index_filter [OF dist] ids keep)
  have bs: "bytes r - sum_list (map cached_bytes (filter ?ob (queue r)))
      = sum_list (map cached_bytes (filter (\<lambda>c. \<not> ?ob c) (queue r)))"
    using inv sum_list_filter_split [of cached_bytes ?ob "queue r"] by (simp add: ring_inv_def)
  show ?thesis
    by (rule removed [OF d t l ne])
      (use ne in \<open>simp add: invalidateSupersededHistory_def d t l scan touch_def bs index [simplified]\<close>)
qed

lemma ring_inv_invalidate [inv_preserved]:
  assumes inv: "ring_inv r"
  shows "ring_inv (fst (invalidateSupersededHistory d now r))"
  using inv
proof (cases rule: invalidate_cases [where d = d and now = now])
  case same
  with inv show ?thesis by simp
next
  case (removed live target)
  let ?keep = "filter (\<lambda>c. \<not> obsolete live target r c) (queue r)"
  have bound: "sum_list (map cached_bytes ?keep) \<le> bytes r"
    using inv sum_list_filter_split [of cached_bytes "obsolete live target r" "queue r"]
      sum_list_nonneg_int [of "filter (obsolete live target r) (queue r)" cached_bytes]
    by (simp add: ring_inv_def)
  have len: "int (length ?keep) \<le> max 0 (itemLimit r)"
    using inv length_filter_le [of "\<lambda>c. \<not> obsolete live target r c" "queue r"]
    unfolding ring_inv_def by linarith
  have token: "?keep \<noteq> []" if "readyToken r" "\<not> (\<exists>c. list_head (queue r) = Some c \<and> obsolete live target r c)"
    using inv that by (cases "queue r") (auto simp: ring_inv_def)
  from inv have "distinct (map cached_id ?keep)" "sorted_wrt (\<lambda>a b. cached_order a < cached_order b) ?keep"
    by (auto simp: ring_inv_def distinct_map_filter sorted_wrt_filter)
  with inv bound len token show ?thesis
    by (auto simp: removed(6) ring_inv_def)
qed

lemma invalidate_bytes:
  assumes inv: "ring_inv r"
  shows "bytes (fst (invalidateSupersededHistory d now r))
       = bytes r - inval_releasedBytes (snd (invalidateSupersededHistory d now r))"
  using inv
proof (cases rule: invalidate_cases [where d = d and now = now])
  case same
  then show ?thesis by (simp add: noInvalidation_def)
next
  case (removed live target)
  with inv sum_list_filter_split [of cached_bytes "obsolete live target r" "queue r"] show ?thesis
    by (simp add: ring_inv_def)
qed

lemma invalidate_keeps_executing_head:
  assumes inv: "ring_inv r" and grant: "activeGrant r"
  shows "list_head (queue (fst (invalidateSupersededHistory d now r))) = list_head (queue r)"
  using inv
proof (cases rule: invalidate_cases [where d = d and now = now])
  case same
  then show ?thesis by simp
next
  case (removed live target)
  then show ?thesis using grant by (cases "queue r") (simp_all add: obsolete_def)
qed

subsection \<open>Frames\<close>

text \<open>No method changes the identity and the limits of a Ring.\<close>

definition same_shape :: "PreparedDeliveryRing \<Rightarrow> PreparedDeliveryRing \<Rightarrow> bool" where
  "same_shape r r' \<longleftrightarrow> ring_key r' = ring_key r \<and> ring_scope r' = ring_scope r
     \<and> itemLimit r' = itemLimit r \<and> byteLimit r' = byteLimit r"

lemma same_shape_refl [simp]: "same_shape r r"
  by (simp add: same_shape_def)

lemma same_shape_trans: "same_shape a b \<Longrightarrow> same_shape b c \<Longrightarrow> same_shape a c"
  by (simp add: same_shape_def)

lemma same_shape_ops [frame_simps]:
  "same_shape r (touch now r)"
  "same_shape r (markOverflow now r)"
  "same_shape r (beginGrant now r)"
  "same_shape r (finishGrant now r)"
  "same_shape r (fst (markReadyToken now r))"
  "same_shape r (fst (removeAll_ring now r))"
  "same_shape r (fst (removeHead now r))"
  by (auto simp: same_shape_def touch_def markOverflow_def beginGrant_def finishGrant_def markReadyToken_def
      removeAll_ring_def removeHead_def Let_def split: list.splits)

lemma same_shape_offer [frame_simps]: "same_shape r (fst (ring_offer d source now r))"
  by (auto simp: same_shape_def ring_offer_def rejectStale_def markOverflow_def touch_def Let_def
      split: option.splits)

lemma same_shape_invalidate [frame_simps]: "same_shape r (fst (invalidateSupersededHistory d now r))"
  by (auto simp: same_shape_def invalidateSupersededHistory_def touch_def split: option.splits prod.splits)

lemma grant_frame [frame_simps]:
  "activeGrant (fst (ring_offer d source now r)) = activeGrant r"
  "activeGrant (fst (invalidateSupersededHistory d now r)) = activeGrant r"
  "activeGrant (markOverflow now r) = activeGrant r"
  "readyToken (fst (ring_offer d source now r)) = readyToken r"
  "readyToken (markOverflow now r) = readyToken r"
  "queue (markOverflow now r) = queue r"
  "bytes (markOverflow now r) = bytes r"
  "byReplyId (markOverflow now r) = byReplyId r"
  by (auto simp: ring_offer_def rejectStale_def markOverflow_def touch_def Let_def
      invalidateSupersededHistory_def split: option.splits prod.splits)

lemma invalidate_readyToken:
  "readyToken (fst (invalidateSupersededHistory d now r)) \<Longrightarrow> readyToken r"
  "inval_readyTokenStale (snd (invalidateSupersededHistory d now r)) \<Longrightarrow>
     \<not> readyToken (fst (invalidateSupersededHistory d now r))"
  by (auto simp: invalidateSupersededHistory_def touch_def noInvalidation_def
      split: option.splits prod.splits if_splits)

lemma invalidate_released_nonneg:
  assumes "ring_inv r"
  shows "0 \<le> inval_releasedBytes (snd (invalidateSupersededHistory d now r))"
  using assms
proof (cases rule: invalidate_cases [where d = d and now = now])
  case same
  then show ?thesis by (simp add: noInvalidation_def)
next
  case (removed live target)
  then show ?thesis
    using assms sum_list_nonneg_int [of "filter (obsolete live target r) (queue r)" cached_bytes]
    by (simp add: ring_inv_def)
qed

subsection \<open>Runs of ring operations\<close>

text \<open>Every mutating method of the class as an event, and the object after a sequence of calls.\<close>

datatype ring_event =
    EvOffer DeliveryRingWork DeliveryCacheSource timestamp
  | EvInvalidate DeliveryRingWork timestamp
  | EvRemoveHead timestamp
  | EvRemoveAll timestamp
  | EvMarkReady timestamp
  | EvBeginGrant timestamp
  | EvFinishGrant timestamp
  | EvFinishShadowGrant timestamp
  | EvMarkOverflow timestamp

fun ring_step :: "ring_event \<Rightarrow> PreparedDeliveryRing \<Rightarrow> PreparedDeliveryRing" where
  "ring_step (EvOffer d src now) r = fst (ring_offer d src now r)"
| "ring_step (EvInvalidate d now) r = fst (invalidateSupersededHistory d now r)"
| "ring_step (EvRemoveHead now) r = fst (removeHead now r)"
| "ring_step (EvRemoveAll now) r = fst (removeAll_ring now r)"
| "ring_step (EvMarkReady now) r = fst (markReadyToken now r)"
| "ring_step (EvBeginGrant now) r = beginGrant now r"
| "ring_step (EvFinishGrant now) r = finishGrant now r"
| "ring_step (EvFinishShadowGrant now) r = finishShadowGrant now r"
| "ring_step (EvMarkOverflow now) r = markOverflow now r"

fun event_wf :: "ring_event \<Rightarrow> bool" where
  "event_wf (EvOffer d src now) = (0 \<le> estimatedBytes (work d))"
| "event_wf _ = True"

lemma ring_inv_step: "ring_inv r \<Longrightarrow> event_wf e \<Longrightarrow> ring_inv (ring_step e r)"
  by (cases e) (simp_all add: inv_preserved)

lemma ring_inv_run: "ring_inv r \<Longrightarrow> list_all event_wf es \<Longrightarrow> ring_inv (fold ring_step es r)"
  by (induction es arbitrary: r) (simp_all add: ring_inv_step)

subsection \<open>The interface: a first-in first-out buffer in delivery order\<close>

locale ordered_buffer =
  fixes invar :: "'q \<Rightarrow> bool"
    and items :: "'q \<Rightarrow> 'a list"
    and rank :: "'a \<Rightarrow> int"
    and admissible :: "'a \<Rightarrow> bool"
    and put :: "'a \<Rightarrow> 'q \<Rightarrow> 'q \<times> bool"
    and pop :: "'q \<Rightarrow> 'q \<times> 'a option"
  assumes put_invar: "invar q \<Longrightarrow> admissible a \<Longrightarrow> invar (fst (put a q))"
    and put_items: "invar q \<Longrightarrow> admissible a \<Longrightarrow>
      items (fst (put a q)) = (if snd (put a q) then items q @ [a] else items q)"
    and pop_invar: "invar q \<Longrightarrow> invar (fst (pop q))"
    and pop_items: "invar q \<Longrightarrow> items (fst (pop q)) = tl (items q)"
    and pop_result: "invar q \<Longrightarrow> snd (pop q) = list_head (items q)"
    and ranks_increase: "invar q \<Longrightarrow> sorted_wrt (\<lambda>a b. rank a < rank b) (items q)"
begin

text \<open>A client's calls: \<open>Inl a\<close> puts \<open>a\<close>, \<open>Inr ()\<close> pops; the trace records accepted and popped items.\<close>

fun client :: "('a + unit) list \<Rightarrow> 'q \<Rightarrow> 'q \<times> 'a list \<times> 'a list" where
  "client [] q = (q, [], [])"
| "client (Inl a # cs) q =
     (case put a q of (q', ok) \<Rightarrow>
        case client cs q' of (q'', accepted, popped) \<Rightarrow> (q'', (if ok then [a] else []) @ accepted, popped))"
| "client (Inr u # cs) q =
     (case pop q of (q', x) \<Rightarrow>
        case client cs q' of (q'', accepted, popped) \<Rightarrow>
          (q'', accepted, (case x of None \<Rightarrow> [] | Some a \<Rightarrow> [a]) @ popped))"

lemma client_fifo:
  assumes "invar q" and "\<forall>a. Inl a \<in> set cs \<longrightarrow> admissible a"
    and "client cs q = (q', accepted, popped)"
  shows "invar q' \<and> items q @ accepted = popped @ items q'"
  using assms
proof (induction cs q arbitrary: q' accepted popped rule: client.induct)
  case (1 q)
  then show ?case by simp
next
  case (2 a cs q)
  obtain p ok where p: "put a q = (p, ok)" by fastforce
  obtain q2 acc pop where c: "client cs p = (q2, acc, pop)" by (cases "client cs p") auto
  from 2 p have "invar p" using put_invar [of q a] by simp
  moreover from 2 p have "items p = (if ok then items q @ [a] else items q)" using put_items [of q a] by simp
  ultimately show ?case using 2 p c by (auto split: if_splits)
next
  case (3 u cs q)
  obtain p x where p: "pop q = (p, x)" by fastforce
  obtain q2 acc pop' where c: "client cs p = (q2, acc, pop')" by (cases "client cs p") auto
  from 3 p have "invar p" "items p = tl (items q)" "x = list_head (items q)"
    using pop_invar [of q] pop_items [of q] pop_result [of q] by simp_all
  moreover have "items p @ acc = pop' @ items q2 \<and> invar q2"
    using 3 p c \<open>invar p\<close> by simp
  ultimately show ?case using 3 p c by (cases "items q") auto
qed

lemma pop_in_rank_order:
  assumes "invar q" and "snd (pop q) = Some a" and "b \<in> set (items (fst (pop q)))"
  shows "rank a < rank b"
  using assms ranks_increase [of q] by (cases "items q") (auto simp: pop_items pop_result)

end

definition ring_put :: "DeliveryCacheSource \<Rightarrow> timestamp \<Rightarrow> DeliveryRingWork \<Rightarrow> PreparedDeliveryRing
    \<Rightarrow> PreparedDeliveryRing \<times> bool" where
  "ring_put source now d r =
     (fst (ring_offer d source now r), offer_outcome (snd (ring_offer d source now r)) = Accepted)"

interpretation ring_buffer: ordered_buffer ring_inv ring_items "\<lambda>d. deliveryOrder (work d)"
    "\<lambda>d. 0 \<le> estimatedBytes (work d)" "ring_put source now" "removeHead now'"
  for source now now'
proof (unfold_locales, goal_cases)
  case (1 q a)
  then show ?case by (simp add: ring_put_def ring_inv_offer)
next
  case (2 q a)
  then show ?case
    by (auto simp: ring_put_def ring_items_def ring_offer_refused(1) ring_offer_accepted(6))
next
  case (3 q)
  then show ?case by (rule ring_inv_removeHead)
next
  case (4 q)
  then show ?case by (cases "queue q") (simp_all add: ring_items_def removeHead_def touch_def)
next
  case (5 q)
  then show ?case by (cases "queue q") (simp_all add: ring_items_def removeHead_def)
next
  case (6 q)
  then show ?case by (simp add: ring_inv_def ring_items_def sorted_wrt_map)
qed

end
