(* ===== verification/Ready_Scheduler.thy ===== *)
theory Ready_Scheduler
  imports Delivery_Types
begin

text \<open>
  The ready scheduler of \<^verbatim>\<open>src/src/events/delivery-ready-scheduler.ts\<close>: two queues of
  ready Rings (live and history work), the sets of ready and active Ring keys, a permit
  limit and a dispatch counter whose every fourth value prefers history. The invariant
  \<open>sched_inv\<close> ties the sets to the queues; the lemmas on \<open>claim\<close> give the grant's exact
  effect, the permit bound, and the bound on how long history work can be passed over.
\<close>

record DeliveryReadyGrant =
  grant_ringKey :: string
  grant_workClass :: OutboundWorkClass
  grant_readyAt :: timestamp

record DeliveryReadyScheduler =
  sched_live :: "DeliveryReadyGrant list"
  sched_history :: "DeliveryReadyGrant list"
  sched_ready :: "string set"
  sched_active :: "string set"
  sched_dispatchOrdinal :: nat
  sched_permitLimit :: nat

definition new_scheduler :: "nat \<Rightarrow> DeliveryReadyScheduler" where
  "new_scheduler permits =
     \<lparr>sched_live = [], sched_history = [], sched_ready = {}, sched_active = {}, sched_dispatchOrdinal = 0,
      sched_permitLimit = permits\<rparr>"

definition sched_offer :: "string \<Rightarrow> OutboundWorkClass \<Rightarrow> timestamp \<Rightarrow> DeliveryReadyScheduler
    \<Rightarrow> DeliveryReadyScheduler \<times> bool" where
  "sched_offer key wc at s =
     (if key \<in> sched_ready s \<or> key \<in> sched_active s then (s, False)
      else
        let g = \<lparr>grant_ringKey = key, grant_workClass = wc, grant_readyAt = at\<rparr>;
            s' = (case wc of
                    Live \<Rightarrow> s\<lparr>sched_live := sched_live s @ [g]\<rparr>
                  | History \<Rightarrow> s\<lparr>sched_history := sched_history s @ [g]\<rparr>)
        in (s'\<lparr>sched_ready := insert key (sched_ready s)\<rparr>, True))"

text \<open>\<^verbatim>\<open>preferred.shift() ?? alternate.shift() ?? null\<close>, the two queues after it.\<close>

definition shift_preferred :: "bool \<Rightarrow> DeliveryReadyScheduler \<Rightarrow> DeliveryReadyScheduler \<times> DeliveryReadyGrant option" where
  "shift_preferred history_first s =
     (if history_first then
        (case sched_history s of
           g # rest \<Rightarrow> (s\<lparr>sched_history := rest\<rparr>, Some g)
         | [] \<Rightarrow> (case sched_live s of
                    g # rest \<Rightarrow> (s\<lparr>sched_live := rest\<rparr>, Some g)
                  | [] \<Rightarrow> (s, None)))
      else
        (case sched_live s of
           g # rest \<Rightarrow> (s\<lparr>sched_live := rest\<rparr>, Some g)
         | [] \<Rightarrow> (case sched_history s of
                    g # rest \<Rightarrow> (s\<lparr>sched_history := rest\<rparr>, Some g)
                  | [] \<Rightarrow> (s, None))))"

definition sched_claim :: "DeliveryReadyScheduler \<Rightarrow> DeliveryReadyScheduler \<times> DeliveryReadyGrant option" where
  "sched_claim s =
     (if sched_permitLimit s \<le> card (sched_active s) then (s, None)
      else case shift_preferred (sched_dispatchOrdinal s mod 4 = 3) s of
        (s', None) \<Rightarrow> (s', None)
      | (s', Some g) \<Rightarrow>
          (s'\<lparr>sched_ready := sched_ready s' - {grant_ringKey g},
              sched_active := insert (grant_ringKey g) (sched_active s'),
              sched_dispatchOrdinal := sched_dispatchOrdinal s' + 1\<rparr>, Some g))"

definition sched_release :: "string \<Rightarrow> DeliveryReadyScheduler \<Rightarrow> DeliveryReadyScheduler" where
  "sched_release key s = s\<lparr>sched_active := sched_active s - {key}\<rparr>"

definition removeKey :: "string \<Rightarrow> DeliveryReadyGrant list \<Rightarrow> DeliveryReadyGrant list" where
  "removeKey key q = splice_first (\<lambda>g. grant_ringKey g = key) q"

definition sched_remove :: "string \<Rightarrow> DeliveryReadyScheduler \<Rightarrow> DeliveryReadyScheduler" where
  "sched_remove key s =
     (let s' = s\<lparr>sched_active := sched_active s - {key}\<rparr> in
      if key \<notin> sched_ready s then s'
      else s'\<lparr>sched_ready := sched_ready s - {key},
              sched_live := removeKey key (sched_live s),
              sched_history := removeKey key (sched_history s)\<rparr>)"

definition sched_clear :: "DeliveryReadyScheduler \<Rightarrow> DeliveryReadyScheduler" where
  "sched_clear s = s\<lparr>sched_live := [], sched_history := [], sched_ready := {}, sched_active := {}\<rparr>"

definition sched_snapshot :: "DeliveryReadyScheduler \<Rightarrow> nat \<times> nat" where
  "sched_snapshot s = (card (sched_ready s), card (sched_active s))"

lemmas sched_op_defs [op_defs] =
  sched_offer_def shift_preferred_def sched_claim_def sched_release_def sched_remove_def sched_clear_def

subsection \<open>The invariant\<close>

abbreviation queued_keys :: "DeliveryReadyScheduler \<Rightarrow> string list" where
  "queued_keys s \<equiv> map grant_ringKey (sched_live s @ sched_history s)"

definition sched_inv :: "DeliveryReadyScheduler \<Rightarrow> bool" where
  "sched_inv s \<longleftrightarrow>
     distinct (queued_keys s)
     \<and> sched_ready s = set (queued_keys s)
     \<and> sched_ready s \<inter> sched_active s = {}
     \<and> finite (sched_active s)
     \<and> card (sched_active s) \<le> sched_permitLimit s
     \<and> (\<forall>g \<in> set (sched_live s). grant_workClass g = Live)
     \<and> (\<forall>g \<in> set (sched_history s). grant_workClass g = History)"

lemma sched_inv_new [inv_preserved]: "sched_inv (new_scheduler n)"
  by (simp add: sched_inv_def new_scheduler_def)

lemma sched_inv_offer [inv_preserved]: "sched_inv s \<Longrightarrow> sched_inv (fst (sched_offer key wc at s))"
  by (cases wc) (auto simp: sched_inv_def sched_offer_def Let_def)

lemma sched_inv_release [inv_preserved]: "sched_inv s \<Longrightarrow> sched_inv (sched_release key s)"
  using card_Diff1_le [of "sched_active s" key]
  by (auto simp: sched_inv_def sched_release_def intro: order_trans)

lemma sched_inv_clear [inv_preserved]: "sched_inv s \<Longrightarrow> sched_inv (sched_clear s)"
  by (simp add: sched_inv_def sched_clear_def)

lemma sched_inv_remove [inv_preserved]:
  assumes "sched_inv s"
  shows "sched_inv (sched_remove key s)"
proof -
  have q: "removeKey key (sched_live s) = filter (\<lambda>g. grant_ringKey g \<noteq> key) (sched_live s)"
    "removeKey key (sched_history s) = filter (\<lambda>g. grant_ringKey g \<noteq> key) (sched_history s)"
    using assms by (auto simp: removeKey_def sched_inv_def intro: splice_first_distinct_key)
  show ?thesis
    using assms card_Diff1_le [of "sched_active s" key]
    by (auto simp: sched_inv_def sched_remove_def Let_def q distinct_map_filter intro: order_trans)
qed

lemma shift_preferred_cases:
  obtains (none) "sched_live s = []" "sched_history s = []" "shift_preferred b s = (s, None)"
  | (live) g rest where "sched_live s = g # rest" "b \<longrightarrow> sched_history s = []"
      "shift_preferred b s = (s\<lparr>sched_live := rest\<rparr>, Some g)"
  | (history) g rest where "sched_history s = g # rest" "\<not> b \<longrightarrow> sched_live s = []"
      "shift_preferred b s = (s\<lparr>sched_history := rest\<rparr>, Some g)"
  by (cases "sched_live s"; cases "sched_history s"; cases b) (auto simp: shift_preferred_def)

lemma claim_cases:
  obtains (refused) "sched_claim s = (s, None)"
      "sched_permitLimit s \<le> card (sched_active s) \<or> sched_live s = [] \<and> sched_history s = []"
  | (live) g rest where "card (sched_active s) < sched_permitLimit s" "sched_live s = g # rest"
      "sched_dispatchOrdinal s mod 4 = 3 \<longrightarrow> sched_history s = []"
      "sched_claim s = (s\<lparr>sched_live := rest, sched_ready := sched_ready s - {grant_ringKey g},
         sched_active := insert (grant_ringKey g) (sched_active s),
         sched_dispatchOrdinal := sched_dispatchOrdinal s + 1\<rparr>, Some g)"
  | (history) g rest where "card (sched_active s) < sched_permitLimit s" "sched_history s = g # rest"
      "sched_dispatchOrdinal s mod 4 \<noteq> 3 \<longrightarrow> sched_live s = []"
      "sched_claim s = (s\<lparr>sched_history := rest, sched_ready := sched_ready s - {grant_ringKey g},
         sched_active := insert (grant_ringKey g) (sched_active s),
         sched_dispatchOrdinal := sched_dispatchOrdinal s + 1\<rparr>, Some g)"
proof (cases "sched_permitLimit s \<le> card (sched_active s)")
  case True
  then show ?thesis by (intro refused) (simp_all add: sched_claim_def)
next
  case False
  show ?thesis
  proof (cases rule: shift_preferred_cases [of s "sched_dispatchOrdinal s mod 4 = 3"])
    case none
    with False show ?thesis by (intro refused) (simp_all add: sched_claim_def)
  next
    case (live g rest)
    then show ?thesis using False by (intro that(2) [of g rest]) (simp_all add: sched_claim_def)
  next
    case (history g rest)
    then show ?thesis using False by (intro that(3) [of g rest]) (simp_all add: sched_claim_def)
  qed
qed

lemma sched_inv_claim [inv_preserved]:
  assumes "sched_inv s"
  shows "sched_inv (fst (sched_claim s))"
proof (cases rule: claim_cases [of s])
  case refused
  with assms show ?thesis by simp
next
  case (live g rest)
  moreover from assms live(2) have "grant_ringKey g \<notin> sched_active s" by (auto simp: sched_inv_def)
  ultimately show ?thesis using assms by (auto simp: sched_inv_def)
next
  case (history g rest)
  moreover from assms history(2) have "grant_ringKey g \<notin> sched_active s" by (auto simp: sched_inv_def)
  ultimately show ?thesis using assms by (auto simp: sched_inv_def)
qed

lemma claim_grant_was_ready:
  assumes "sched_inv s" and "snd (sched_claim s) = Some g"
  shows "grant_ringKey g \<in> sched_ready s" and "grant_ringKey g \<notin> sched_active s"
    and "grant_ringKey g \<in> sched_active (fst (sched_claim s))"
    and "grant_ringKey g \<notin> sched_ready (fst (sched_claim s))"
  using assms by (cases rule: claim_cases [of s]; auto simp: sched_inv_def)+

lemma claim_progress:
  assumes "card (sched_active s) < sched_permitLimit s" and "sched_live s \<noteq> [] \<or> sched_history s \<noteq> []"
  shows "\<exists>g. snd (sched_claim s) = Some g"
  using assms by (cases rule: claim_cases [of s]) auto

subsection \<open>Runs, and the bound on passing over history\<close>

datatype sched_event = SOffer string OutboundWorkClass timestamp | SClaim | SRelease string | SRemove string | SClear

fun sched_step :: "sched_event \<Rightarrow> DeliveryReadyScheduler \<Rightarrow> DeliveryReadyScheduler" where
  "sched_step (SOffer k wc at) s = fst (sched_offer k wc at s)"
| "sched_step SClaim s = fst (sched_claim s)"
| "sched_step (SRelease k) s = sched_release k s"
| "sched_step (SRemove k) s = sched_remove k s"
| "sched_step SClear s = sched_clear s"

lemma sched_inv_run: "sched_inv s \<Longrightarrow> sched_inv (fold sched_step es s)"
proof (induction es arbitrary: s)
  case Nil
  then show ?case by simp
next
  case (Cons e es)
  then have "sched_inv (sched_step e s)" by (cases e) (simp_all add: inv_preserved)
  then show ?case by (simp add: Cons.IH)
qed

text \<open>
  Offers of live work and claims, with a release of the claimed Ring before the next
  claim: the schedule in which live work arrives as fast as it is granted.
\<close>

fun live_round :: "(string \<times> timestamp) list \<Rightarrow> DeliveryReadyScheduler \<Rightarrow> DeliveryReadyScheduler \<times> DeliveryReadyGrant option" where
  "live_round offers s =
     (case sched_claim (fold (\<lambda>(k, at) t. fst (sched_offer k Live at t)) offers s) of
        (t, None) \<Rightarrow> (t, None)
      | (t, Some g) \<Rightarrow> (sched_release (grant_ringKey g) t, Some g))"

lemma live_offer_frame:
  "sched_history (fst (sched_offer k Live at s)) = sched_history s"
  "sched_dispatchOrdinal (fst (sched_offer k Live at s)) = sched_dispatchOrdinal s"
  "sched_active (fst (sched_offer k Live at s)) = sched_active s"
  "sched_permitLimit (fst (sched_offer k Live at s)) = sched_permitLimit s"
  by (simp_all add: sched_offer_def Let_def)

lemma fold_live_offers_frame:
  "sched_history (fold (\<lambda>(k, at) t. fst (sched_offer k Live at t)) offers s) = sched_history s"
  "sched_dispatchOrdinal (fold (\<lambda>(k, at) t. fst (sched_offer k Live at t)) offers s) = sched_dispatchOrdinal s"
  "sched_active (fold (\<lambda>(k, at) t. fst (sched_offer k Live at t)) offers s) = sched_active s"
  "sched_permitLimit (fold (\<lambda>(k, at) t. fst (sched_offer k Live at t)) offers s) = sched_permitLimit s"
  by (induction offers arbitrary: s) (auto simp: live_offer_frame)

lemma live_round_effect:
  assumes h: "sched_history s = h # rest" and p: "card (sched_active s) < sched_permitLimit s"
  shows "(snd (live_round offers s) = Some h \<and> sched_history (fst (live_round offers s)) = rest)
     \<or> (sched_dispatchOrdinal s mod 4 \<noteq> 3 \<and> sched_history (fst (live_round offers s)) = h # rest
        \<and> sched_dispatchOrdinal (fst (live_round offers s)) = Suc (sched_dispatchOrdinal s)
        \<and> card (sched_active (fst (live_round offers s))) < sched_permitLimit (fst (live_round offers s)))"
proof -
  let ?s = "fold (\<lambda>(k, at) t. fst (sched_offer k Live at t)) offers s"
  note fr = fold_live_offers_frame [of offers s]
  have le: "card (insert k A - {k}) \<le> card (A :: string set)" if "finite A \<or> card (insert k A - {k}) = 0" for k A
    using that by (cases "finite A") (auto intro: card_mono)
  show ?thesis
  proof (cases rule: claim_cases [of ?s])
    case refused
    with h p show ?thesis by (auto simp: fr)
  next
    case (live g r)
    have "card (insert (grant_ringKey g) (sched_active s) - {grant_ringKey g}) \<le> card (sched_active s)"
      by (rule le) (cases "finite (sched_active s)", simp_all)
    with live h p show ?thesis by (auto simp: fr sched_release_def)
  next
    case (history g r)
    with h p show ?thesis by (auto simp: fr sched_release_def)
  qed
qed

fun live_rounds :: "(string \<times> timestamp) list list \<Rightarrow> DeliveryReadyScheduler \<Rightarrow> DeliveryReadyGrant list" where
  "live_rounds [] s = []"
| "live_rounds (offers # later) s =
     (case live_round offers s of
        (t, None) \<Rightarrow> live_rounds later t
      | (t, Some g) \<Rightarrow> g # live_rounds later t)"

lemma history_head_granted:
  assumes "sched_history s = h # rest" and "card (sched_active s) < sched_permitLimit s"
    and "4 - sched_dispatchOrdinal s mod 4 \<le> length rounds"
  shows "h \<in> set (live_rounds rounds s)"
  using assms
proof (induction rounds arbitrary: s)
  case Nil
  then show ?case by (simp add: not_less_eq_eq)
next
  case (Cons offers later)
  obtain t g where t: "live_round offers s = (t, g)" by fastforce
  from live_round_effect [OF Cons.prems(1,2), of offers] t
  consider (granted) "g = Some h" | (passed) "sched_dispatchOrdinal s mod 4 \<noteq> 3" "sched_history t = h # rest"
      "sched_dispatchOrdinal t = Suc (sched_dispatchOrdinal s)" "card (sched_active t) < sched_permitLimit t"
    by auto
  then show ?case
  proof cases
    case granted
    with t show ?thesis by simp
  next
    case passed
    then have "4 - sched_dispatchOrdinal t mod 4 \<le> length later"
      using Cons.prems(3) by (simp add: mod_Suc)
    then have "h \<in> set (live_rounds later t)" using passed Cons.IH by blast
    with t show ?thesis by (cases g) simp_all
  qed
qed

end
