(* ===== verification/Delivery_Engine.thy ===== *)
theory Delivery_Engine
  imports Delivery_Ring Ready_Scheduler
begin

text \<open>
  The Ring delivery engine of \<^verbatim>\<open>src/src/events/ring-delivery-engine.ts\<close>: the Rings by
  scope key, the ready scheduler, the slot for an oversized head of each scope, the
  process-wide byte count, the refill bookkeeping and the life-cycle state. An
  asynchronous method is cut at its awaits: each synchronous stretch is one definition,
  and the step relation \<open>engine_step\<close> interleaves the stretches as the event loop does.
  One clock reading serves a stretch. The durable store, the Gateway and the refill port
  are not part of this file; what they answer arrives as arguments (\<open>exec_env\<close> and the
  arguments of the settling and refilling definitions).
\<close>

subsection \<open>State\<close>

datatype DeliveryEngineState = EngStarting | EngRunning | EngStopping | EngStopped | EngDegraded

datatype RefillCause = Ordinary | Safety

datatype RefillOutcome = RefillComplete | RefillYielded

record DeliveryEngineLimits =
  paneItems :: int
  paneBytes :: int
  globalItems :: int
  globalBytes :: int
  processBytes :: int

definition DEFAULT_LIMITS :: DeliveryEngineLimits where
  "DEFAULT_LIMITS =
     \<lparr>paneItems = 32, paneBytes = 1024 * 1024, globalItems = 64, globalBytes = 2 * 1024 * 1024,
      processBytes = 32 * 1024 * 1024\<rparr>"

text \<open>A refill under way: the scope (\<open>None\<close> for all scopes), its cause and the excluded reply.\<close>

record RefillRequest =
  refill_scope :: "DeliveryScope option"
  refill_cause :: RefillCause
  refill_excluded :: "string option"

record RingDeliveryEngine =
  rings :: "(string \<times> PreparedDeliveryRing) list"
  scheduler :: DeliveryReadyScheduler
  oversized :: "(string \<times> DeliveryRingWork) list"
  pendingRefills :: "(string \<times> RefillRequest) list"
  limits :: DeliveryEngineLimits
  coldRecoveryEnabled :: bool
  hasRefillPort :: bool
  eng_state :: DeliveryEngineState
  cachedBytes :: int
  drainQueued :: bool
  lastDeliveryAt :: "timestamp option"
  lastFailureAt :: "timestamp option"
  lastRefillAt :: "timestamp option"
  safetyScanRuns :: int
  safetyScanDiscoveries :: int
  pendingSafetyScanDiscoveries :: int
  lastSafetyScanAt :: "timestamp option"
  lastSafetyScanDiscoveryAt :: "timestamp option"
  nextRetryAt :: "timestamp option"
  retryArmed :: bool
  maintenanceArmed :: bool
  recoveryReady :: bool
  interactiveWorkRevision :: int

definition new_engine :: "DeliveryEngineLimits \<Rightarrow> bool \<Rightarrow> bool \<Rightarrow> RingDeliveryEngine" where
  "new_engine lim cold port =
     \<lparr>rings = [], scheduler = new_scheduler 4, oversized = [], pendingRefills = [], limits = lim,
      coldRecoveryEnabled = cold, hasRefillPort = port, eng_state = EngStopped, cachedBytes = 0,
      drainQueued = False, lastDeliveryAt = None, lastFailureAt = None, lastRefillAt = None,
      safetyScanRuns = 0, safetyScanDiscoveries = 0, pendingSafetyScanDiscoveries = 0,
      lastSafetyScanAt = None, lastSafetyScanDiscoveryAt = None, nextRetryAt = None,
      retryArmed = False, maintenanceArmed = False, recoveryReady = False, interactiveWorkRevision = 0\<rparr>"

definition isStoppingOrStopped :: "RingDeliveryEngine \<Rightarrow> bool" where
  "isStoppingOrStopped e = (eng_state e = EngStopping \<or> eng_state e = EngStopped)"

abbreviation ring_at :: "RingDeliveryEngine \<Rightarrow> string \<rightharpoonup> PreparedDeliveryRing" where
  "ring_at e \<equiv> map_of (rings e)"

definition set_ring :: "PreparedDeliveryRing \<Rightarrow> RingDeliveryEngine \<Rightarrow> RingDeliveryEngine" where
  "set_ring r e = e\<lparr>rings := AList.update (ring_key r) r (rings e)\<rparr>"

subsection \<open>Offering work\<close>

definition scopeByteLimit :: "DeliveryEngineLimits \<Rightarrow> DeliveryScope \<Rightarrow> int" where
  "scopeByteLimit lim s = (case s of GlobalScope \<Rightarrow> globalBytes lim | PaneScope _ _ \<Rightarrow> paneBytes lim)"

definition scopeItemLimit :: "DeliveryEngineLimits \<Rightarrow> DeliveryScope \<Rightarrow> int" where
  "scopeItemLimit lim s = (case s of GlobalScope \<Rightarrow> globalItems lim | PaneScope _ _ \<Rightarrow> paneItems lim)"

definition ensureRing :: "DeliveryRingWork \<Rightarrow> timestamp \<Rightarrow> RingDeliveryEngine \<Rightarrow> RingDeliveryEngine \<times> PreparedDeliveryRing" where
  "ensureRing d now e =
     (case ring_at e (work_scope_key d) of
        Some r \<Rightarrow> (e, r)
      | None \<Rightarrow>
          let s = scope (work d);
              r = new_ring s (scopeItemLimit (limits e) s) (scopeByteLimit (limits e) s) now
          in (set_ring r e, r))"

definition queueDrain :: "RingDeliveryEngine \<Rightarrow> RingDeliveryEngine" where
  "queueDrain e = e\<lparr>drainQueued := True\<rparr>"

definition makeReady :: "PreparedDeliveryRing \<Rightarrow> timestamp \<Rightarrow> RingDeliveryEngine \<Rightarrow> RingDeliveryEngine" where
  "makeReady r now e =
     (if isStoppingOrStopped e then e
      else case ring_head r of
        None \<Rightarrow> e
      | Some head \<Rightarrow>
          if readyToken r \<or> activeGrant r \<or> \<not> isRunnable now r then e
          else
            (case sched_offer (ring_key r) (workClass (work head)) now (scheduler e) of
               (s, False) \<Rightarrow> e
             | (s, True) \<Rightarrow>
                 (case markReadyToken now r of
                    (r', False) \<Rightarrow> (set_ring r' e)\<lparr>scheduler := sched_remove (ring_key r) s\<rparr>
                  | (r', True) \<Rightarrow> queueDrain ((set_ring r' e)\<lparr>scheduler := s\<rparr>))))"

definition refillKey :: "DeliveryScope option \<Rightarrow> string option \<Rightarrow> string" where
  "refillKey s excluded =
     (case s of Some sc \<Rightarrow> deliveryScopeKey sc | None \<Rightarrow> ''*'') @ '':'' @ opt_or excluded []"

text \<open>\<^verbatim>\<open>refill\<close>: registers the refill unless one with the same key is under way.\<close>

definition refill :: "DeliveryScope option \<Rightarrow> bool \<Rightarrow> RefillCause \<Rightarrow> string option \<Rightarrow> RingDeliveryEngine \<Rightarrow> RingDeliveryEngine" where
  "refill s force cause excluded e =
     (if isStoppingOrStopped e then e
      else if \<not> hasRefillPort e \<or> (\<not> force \<and> \<not> coldRecoveryEnabled e) then e
      else case map_of (pendingRefills e) (refillKey s excluded) of
        Some _ \<Rightarrow> e
      | None \<Rightarrow> e\<lparr>pendingRefills := AList.update (refillKey s excluded)
          \<lparr>refill_scope = s, refill_cause = cause, refill_excluded = excluded\<rparr> (pendingRefills e)\<rparr>)"

definition refill_scope_if_cold :: "DeliveryRingWork \<Rightarrow> RingDeliveryEngine \<Rightarrow> RingDeliveryEngine" where
  "refill_scope_if_cold d e =
     (if coldRecoveryEnabled e then refill (Some (scope (work d))) True Ordinary None e else e)"

definition offerOversized :: "DeliveryRingWork \<Rightarrow> timestamp \<Rightarrow> RingDeliveryEngine \<Rightarrow> RingDeliveryEngine \<times> bool" where
  "offerOversized d now e =
     (let key = work_scope_key d in
      if map_of (oversized e) key \<noteq> None then (e, False)
      else if Option.bind (ring_at e key) ring_head \<noteq> None then (e, False)
      else
        (queueDrain (e\<lparr>oversized := AList.update key d (oversized e),
                       scheduler := fst (sched_offer key (workClass (work d)) now (scheduler e))\<rparr>), True))"

definition eng_offer :: "DeliveryRingWork \<Rightarrow> DeliveryCacheSource \<Rightarrow> timestamp \<Rightarrow> RingDeliveryEngine \<Rightarrow> RingDeliveryEngine \<times> bool" where
  "eng_offer d source now e0 =
     (if eng_state e0 \<noteq> EngRunning \<and> eng_state e0 \<noteq> EngDegraded \<and> eng_state e0 \<noteq> EngStarting then (e0, False)
      else
        let (e1, ring0) = ensureRing d now e0;
            (ring1, invalidated) = invalidateSupersededHistory d now ring0;
            e2 = set_ring ring1 e1;
            e3 = (if 0 < inval_releasedBytes invalidated
                  then (let f = e2\<lparr>cachedBytes := cachedBytes e2 - inval_releasedBytes invalidated\<rparr> in
                        if inval_readyTokenStale invalidated \<and> \<not> activeGrant ring1
                        then f\<lparr>scheduler := sched_remove (ring_key ring1) (scheduler f)\<rparr> else f)
                  else e2);
            ready_again = (\<lambda>r f. if inval_readyTokenStale invalidated then makeReady r now f else f);
            refill_removed = (\<lambda>f. if 0 < length (inval_removed invalidated) then refill_scope_if_cold d f else f)
        in
        if \<not> hasReplyId (replyId (work d)) ring1
           \<and> processBytes (limits e3) < cachedBytes e3 + estimatedBytes (work d)
        then
          let ring2 = markOverflow now ring1;
              e4 = refill_removed (ready_again ring2 (set_ring ring2 e3))
          in if source = Cold \<and> scopeByteLimit (limits e3) (scope (work d)) < estimatedBytes (work d)
             then offerOversized d now e4
             else (refill_scope_if_cold d e4, False)
        else
          let (ring2, offered) = ring_offer d source now ring1;
              e4 = set_ring ring2 e3
          in if offer_outcome offered \<noteq> Accepted
             then
               let e5 = refill_removed (ready_again ring2 e4)
               in if offer_outcome offered = Oversized \<and> source = Cold then offerOversized d now e5
                  else if offer_outcome offered \<noteq> Duplicate then (refill_scope_if_cold d e5, False)
                  else (e5, False)
             else
               (refill_removed (makeReady ring2 now (e4\<lparr>cachedBytes := cachedBytes e4 + offer_retainedBytes offered\<rparr>)), True))"

definition enqueue :: "DeliveryRingWork \<Rightarrow> timestamp \<Rightarrow> RingDeliveryEngine \<Rightarrow> RingDeliveryEngine" where
  "enqueue d now e = fst (eng_offer d Commit now e)"

subsection \<open>Draining: one grant\<close>

text \<open>
  An execution under way: the key of its grant, whether a Ring was found under that key at
  the grant (the captured \<^verbatim>\<open>ring\<close>), the work, and whether the work came from the oversized
  slot (\<^verbatim>\<open>direct\<close>). A Ring stays in the table until \<^verbatim>\<open>stop\<close> has awaited every execution, so
  the captured Ring is the Ring under the key.
\<close>

record execution =
  ex_key :: string
  ex_hasRing :: bool
  ex_work :: DeliveryRingWork
  ex_direct :: bool

text \<open>
  One turn of the loop in \<^verbatim>\<open>drain\<close>: \<open>None\<close> when the scheduler grants nothing; otherwise the
  engine after the grant, with the execution it starts (none when the Ring had no head).
\<close>

definition drain_turn :: "timestamp \<Rightarrow> RingDeliveryEngine \<Rightarrow> (RingDeliveryEngine \<times> execution option) option" where
  "drain_turn now e =
     (if eng_state e \<noteq> EngRunning \<and> eng_state e \<noteq> EngDegraded then None
      else case sched_claim (scheduler e) of
        (s, None) \<Rightarrow> None
      | (s, Some g) \<Rightarrow>
          let key = grant_ringKey g; e1 = e\<lparr>scheduler := s\<rparr>; direct = map_of (oversized e) key in
          (case ring_at e key of
             None \<Rightarrow>
               (case direct of
                  None \<Rightarrow> Some (e1\<lparr>scheduler := sched_release key s\<rparr>, None)
                | Some d \<Rightarrow> Some (e1, Some \<lparr>ex_key = key, ex_hasRing = False, ex_work = d, ex_direct = True\<rparr>))
           | Some r \<Rightarrow>
               (case (direct, ring_head r) of
                  (None, None) \<Rightarrow> Some (e1\<lparr>scheduler := sched_release key s\<rparr>, None)
                | (Some d, _) \<Rightarrow>
                    Some (set_ring (beginGrant now r) e1, Some \<lparr>ex_key = key, ex_hasRing = True, ex_work = d, ex_direct = True\<rparr>)
                | (None, Some h) \<Rightarrow>
                    Some (set_ring (beginGrant now r) e1, Some \<lparr>ex_key = key, ex_hasRing = True, ex_work = h, ex_direct = False\<rparr>))))"

subsection \<open>Executing one delivery\<close>

datatype preparer_answer = PlanPrepared PreparedDeliveryPlan | PlanRefused | PlanThrew

text \<open>What the semantic preparer and the durable store answer during one execution.\<close>

record exec_env =
  env_preparer :: "(SemanticDeliveryWork \<Rightarrow> preparer_answer) option"
  env_freeze :: "SemanticDeliveryWork \<Rightarrow> PreparedDeliveryPlan \<Rightarrow> PreparedDelivery option"
  env_hydrate_prepared :: "string \<Rightarrow> PreparedDelivery option"
  env_advance :: "PreparedDelivery \<Rightarrow> bool"
  env_claim :: "bool \<Rightarrow> PreparedDelivery \<Rightarrow> PreparedDeliveryClaim option"

text \<open>\<open>None\<close> is the rethrown error of a preparer that failed in another way than refusing.\<close>

definition prepareForExecution :: "exec_env \<Rightarrow> DeliveryRingWork \<Rightarrow> timestamp \<Rightarrow> RingDeliveryEngine
    \<Rightarrow> (RingDeliveryEngine \<times> PreparedDelivery option) option" where
  "prepareForExecution env w now e =
     (case w of
        PreparedWork d \<Rightarrow> Some (e, Some d)
      | SemanticWork s \<Rightarrow>
          (case (case env_preparer env of None \<Rightarrow> PlanRefused | Some prepare \<Rightarrow> prepare s) of
             PlanThrew \<Rightarrow> None
           | PlanRefused \<Rightarrow> Some (e\<lparr>lastFailureAt := Some now\<rparr>, None)
           | PlanPrepared plan \<Rightarrow>
               (case env_freeze env s plan of
                  Some d \<Rightarrow> Some (e, Some d)
                | None \<Rightarrow> Some (e, env_hydrate_prepared env (replyId s)))))"

definition discard :: "PreparedDeliveryRing \<Rightarrow> timestamp \<Rightarrow> RingDeliveryEngine \<Rightarrow> RingDeliveryEngine" where
  "discard r now e =
     (case removeHead now r of (r', removed) \<Rightarrow>
        let e' = (case removed of None \<Rightarrow> e | Some d \<Rightarrow> e\<lparr>cachedBytes := cachedBytes e - estimatedBytes (work d)\<rparr>)
        in set_ring (finishGrant now r') e')"

definition discardAll :: "PreparedDeliveryRing \<Rightarrow> timestamp \<Rightarrow> RingDeliveryEngine \<Rightarrow> RingDeliveryEngine" where
  "discardAll r now e =
     (case removeAll_ring now r of (r', removal) \<Rightarrow>
        set_ring (finishGrant now r') (e\<lparr>cachedBytes := cachedBytes e - removal_releasedBytes removal\<rparr>))"

definition captured_ring :: "execution \<Rightarrow> RingDeliveryEngine \<Rightarrow> PreparedDeliveryRing option" where
  "captured_ring x e = (if ex_hasRing x then ring_at e (ex_key x) else None)"

text \<open>\<^verbatim>\<open>if (ring) this.discard(ring); else this.oversized.delete(deliveryScopeKey(scope))\<close>.\<close>

definition release_work :: "execution \<Rightarrow> DeliveryScope \<Rightarrow> timestamp \<Rightarrow> RingDeliveryEngine \<Rightarrow> RingDeliveryEngine" where
  "release_work x s now e =
     (case captured_ring x e of
        Some r \<Rightarrow> discard r now e
      | None \<Rightarrow> e\<lparr>oversized := AList.delete (deliveryScopeKey s) (oversized e)\<rparr>)"

text \<open>What \<^verbatim>\<open>execute\<close> resolves to: a boolean, or the scope to refill.\<close>

datatype advance = AdvanceNo | AdvanceYes | AdvanceScope DeliveryScope

text \<open>
  Up to its first await, \<^verbatim>\<open>execute\<close> throws, resolves, waits for a refill (and then
  resolves to false), or holds a claim and waits for the Gateway.
\<close>

datatype prefix =
    PrefixThrew
  | PrefixDone RingDeliveryEngine advance
  | PrefixRefill RingDeliveryEngine
  | PrefixClaimed RingDeliveryEngine PreparedDelivery PreparedDeliveryClaim

definition conversationPage :: "PreparedDelivery \<Rightarrow> bool" where
  "conversationPage d = (case projectionKey d of None \<Rightarrow> False | Some k \<Rightarrow> take 10 k = ''turn-card:'')"

definition execute_prefix :: "exec_env \<Rightarrow> execution \<Rightarrow> timestamp \<Rightarrow> RingDeliveryEngine \<Rightarrow> prefix" where
  "execute_prefix env x now e =
     (case prepareForExecution env (ex_work x) now e of
        None \<Rightarrow> PrefixThrew
      | Some (e1, None) \<Rightarrow>
          let s = scope (work (ex_work x)); e2 = release_work x s now e1
          in PrefixDone e2 (if coldRecoveryEnabled e2 then AdvanceScope s else AdvanceNo)
      | Some (e1, Some d) \<Rightarrow>
          if env_advance env d then
            PrefixDone
              (case captured_ring x e1 of
                 Some r \<Rightarrow> discardAll r now e1
               | None \<Rightarrow> e1\<lparr>oversized := AList.delete (deliveryScopeKey (scope d)) (oversized e1)\<rparr>)
              (AdvanceScope (scope d))
          else
            (case env_claim env (conversationPage d) d of
               None \<Rightarrow>
                 let e2 = release_work x (scope d) now e1
                 in if coldRecoveryEnabled e2
                    then PrefixRefill (refill (Some (scope d)) True Ordinary (Some (replyId d)) e2)
                    else PrefixDone e2 AdvanceNo
             | Some claim \<Rightarrow> PrefixClaimed e1 d claim))"

subsection \<open>Receipts and failures\<close>

datatype GatewayRefKind = ActorRef | ConversationRef | ThreadRef | MessageRef | SurfaceRef

record GatewayDeliveryReceipt =
  receipt_refs :: "(GatewayRefKind \<times> string) list"
  receipt_messageDeleteOutcome :: "MessageDeleteOutcome option"

record GatewayFailure =
  gf_safeMessage :: string
  gf_failureClass :: DeliveryFailureClass
  gf_effectCertainty :: DeliveryEffectCertainty
  gf_httpStatus :: "int option"
  gf_providerCode :: "string option"
  gf_recoveryKind :: "string option"
  gf_providerOperation :: "string option"
  gf_retryAfterMs :: "int option"

definition acknowledgement :: "PreparedDelivery \<Rightarrow> GatewayDeliveryReceipt \<Rightarrow> PreparedDeliveryAck option" where
  "acknowledgement d receipt =
     (let ref = (\<lambda>k. map_option snd (find (\<lambda>(kind, _). kind = k) (receipt_refs receipt)));
          fields = plan_intent_fields (preparedPlan d);
          messageId = nullish (ref MessageRef)
            (nullish (as_string (jfield fields ''messageId'')) (as_string (jfield fields ''surfaceId'')))
      in case messageId of
           None \<Rightarrow> None
         | Some m \<Rightarrow>
             if m = [] then None
             else Some \<lparr>ack_messageId = m, ack_surfaceId = ref SurfaceRef, ack_threadId = ref ThreadRef,
                        ack_messageDeleteOutcome = receipt_messageDeleteOutcome receipt\<rparr>)"

text \<open>The errors the try block can raise.\<close>

datatype exec_error = FromGateway GatewayFailure | FromCheckpoint string | OtherError

definition classify :: "exec_error \<Rightarrow> string \<times> DeliveryFailureMetadata \<times> int option" where
  "classify err = (case err of
     FromGateway f \<Rightarrow>
       (gf_safeMessage f,
        \<lparr>meta_failureClass = gf_failureClass f, meta_httpStatus = gf_httpStatus f,
         meta_larkErrorCode = gf_providerCode f, meta_effectCertainty = Some (gf_effectCertainty f),
         meta_recoveryKind = gf_recoveryKind f, meta_providerOperation = gf_providerOperation f\<rparr>,
        gf_retryAfterMs f)
   | FromCheckpoint m \<Rightarrow>
       (m, \<lparr>meta_failureClass = UnknownFailure, meta_httpStatus = None, meta_larkErrorCode = None,
            meta_effectCertainty = Some Uncertain, meta_recoveryKind = None, meta_providerOperation = None\<rparr>, None)
   | OtherError \<Rightarrow>
       (''Gateway delivery outcome is uncertain'',
        \<lparr>meta_failureClass = UnknownFailure, meta_httpStatus = None, meta_larkErrorCode = None,
         meta_effectCertainty = Some Uncertain, meta_recoveryKind = None, meta_providerOperation = None\<rparr>, None))"

definition retryAt :: "timestamp \<Rightarrow> int option \<Rightarrow> timestamp" where
  "retryAt now explicit = now + max 1000 (min (opt_or explicit 1000) 3600000)"

text \<open>
  What came back from the Gateway while the claim was held: the call's result, whether
  the claim's renewal was lost meanwhile, and what the store says to an acknowledgement.
\<close>

record gateway_answer =
  ga_result :: "exec_error + GatewayDeliveryReceipt"
  ga_renewalLost :: bool
  ga_acknowledge :: "PreparedDeliveryAck \<Rightarrow> bool"

text \<open>The try block after the Gateway call: the stored acknowledgement, or the error caught.\<close>

definition execute_try :: "PreparedDelivery \<Rightarrow> gateway_answer \<Rightarrow> exec_error + PreparedDeliveryAck" where
  "execute_try d a = (case ga_result a of
     Inl err \<Rightarrow> Inl err
   | Inr receipt \<Rightarrow>
       if ga_renewalLost a then Inl (FromCheckpoint ''ring_claim_renewal_uncertain'')
       else case acknowledgement d receipt of
         None \<Rightarrow> Inl (FromCheckpoint ''ring_settlement_uncertain'')
       | Some ack \<Rightarrow>
           if ga_acknowledge a ack then Inr ack else Inl (FromCheckpoint ''ring_settlement_uncertain''))"

text \<open>The failure handed to the store in the catch block.\<close>

definition persistedFailure :: "exec_error \<Rightarrow> timestamp \<Rightarrow> PreparedDeliveryFailure" where
  "persistedFailure err now = (case classify err of
     (m, meta, after) \<Rightarrow> \<lparr>failure_error = m, failure_metadata = meta, failure_retryAt = retryAt now after\<rparr>)"

text \<open>From the Gateway's answer to the value \<^verbatim>\<open>execute\<close> resolves to.\<close>

definition execute_settle :: "execution \<Rightarrow> PreparedDelivery \<Rightarrow> gateway_answer \<Rightarrow> timestamp \<Rightarrow> RingDeliveryEngine
    \<Rightarrow> RingDeliveryEngine \<times> advance" where
  "execute_settle x d a now e =
     (let ok = (case execute_try d a of Inr _ \<Rightarrow> True | Inl _ \<Rightarrow> False);
          e1 = (if ok then e\<lparr>lastDeliveryAt := Some now\<rparr> else e\<lparr>lastFailureAt := Some now\<rparr>);
          e2 = release_work x (scope d) now e1;
          refillEmptyScope = (coldRecoveryEnabled e2
            \<and> (case captured_ring x e2 of None \<Rightarrow> True | Some r \<Rightarrow> ring_isEmpty r))
      in (e2,
          if \<not> ok \<and> coldRecoveryEnabled e2 then AdvanceScope (scope d)
          else if refillEmptyScope then AdvanceScope (scope d)
          else if ok then AdvanceYes else AdvanceNo))"

subsection \<open>After the execution\<close>

text \<open>The fulfilled handler up to its await, and its continuation after the refill.\<close>

definition run_fulfilled :: "string \<Rightarrow> advance \<Rightarrow> RingDeliveryEngine \<Rightarrow> RingDeliveryEngine" where
  "run_fulfilled key adv e =
     (let e1 = e\<lparr>scheduler := sched_release key (scheduler e)\<rparr>
      in case adv of AdvanceScope s \<Rightarrow> refill (Some s) True Ordinary None e1 | _ \<Rightarrow> e1)"

definition run_continue :: "string \<Rightarrow> timestamp \<Rightarrow> RingDeliveryEngine \<Rightarrow> RingDeliveryEngine" where
  "run_continue key now e = queueDrain (case ring_at e key of None \<Rightarrow> e | Some r \<Rightarrow> makeReady r now e)"

definition run_rejected :: "execution \<Rightarrow> timestamp \<Rightarrow> RingDeliveryEngine \<Rightarrow> RingDeliveryEngine" where
  "run_rejected x now e =
     (let key = ex_key x;
          e1 = e\<lparr>scheduler := sched_release key (scheduler e)\<rparr>;
          e2 = (case captured_ring x e1 of
                  Some r \<Rightarrow>
                    if activeGrant r then discard r now e1
                    else if ex_direct x then e1\<lparr>oversized := AList.delete key (oversized e1)\<rparr> else e1
                | None \<Rightarrow> if ex_direct x then e1\<lparr>oversized := AList.delete key (oversized e1)\<rparr> else e1);
          e3 = e2\<lparr>lastFailureAt := Some now\<rparr>
      in if coldRecoveryEnabled e3 then refill (Some (scope (work (ex_work x)))) True Ordinary None e3 else e3)"

subsection \<open>Refilling\<close>

definition armRetry :: "timestamp option \<Rightarrow> RingDeliveryEngine \<Rightarrow> RingDeliveryEngine" where
  "armRetry at e =
     (case at of
        None \<Rightarrow> e
      | Some t \<Rightarrow>
          if isStoppingOrStopped e then e
          else (case nextRetryAt e of
                  Some u \<Rightarrow> if u \<le> t then e else e\<lparr>nextRetryAt := Some t, retryArmed := True\<rparr>
                | None \<Rightarrow> e\<lparr>nextRetryAt := Some t, retryArmed := True\<rparr>))"

text \<open>One loaded page: the offers of its deliveries, the excluded reply left out, and how many were accepted.\<close>

fun offer_page :: "string option \<Rightarrow> timestamp \<Rightarrow> DeliveryRingWork list \<Rightarrow> RingDeliveryEngine \<Rightarrow> RingDeliveryEngine \<times> int" where
  "offer_page excluded now [] e = (e, 0)"
| "offer_page excluded now (d # ds) e =
     (if Some (replyId (work d)) = excluded then offer_page excluded now ds e
      else case eng_offer d Cold now e of
        (e', accepted) \<Rightarrow>
          (case offer_page excluded now ds e' of (e'', n) \<Rightarrow> (e'', (if accepted then 1 else 0) + n)))"

record refill_page =
  page_deliveries :: "DeliveryRingWork list"
  page_nextRetryAt :: "timestamp option"

definition apply_refill_page :: "RefillRequest \<Rightarrow> refill_page \<Rightarrow> timestamp \<Rightarrow> RingDeliveryEngine \<Rightarrow> RingDeliveryEngine \<times> int" where
  "apply_refill_page req page now e =
     offer_page (refill_excluded req) now (page_deliveries page)
       (armRetry (page_nextRetryAt page) (e\<lparr>lastRefillAt := Some now\<rparr>))"

definition finish_refill :: "RefillCause \<Rightarrow> int \<Rightarrow> timestamp \<Rightarrow> RingDeliveryEngine \<Rightarrow> RingDeliveryEngine" where
  "finish_refill cause discoveries now e =
     (let e1 = (if cause = Safety then
                  (let recorded = pendingSafetyScanDiscoveries e + discoveries;
                       f = e\<lparr>safetyScanRuns := safetyScanRuns e + 1, lastSafetyScanAt := Some now\<rparr>;
                       g = (if 0 < recorded
                            then f\<lparr>safetyScanDiscoveries := safetyScanDiscoveries f + recorded,
                                   lastSafetyScanDiscoveryAt := Some now\<rparr>
                            else f)
                   in g\<lparr>pendingSafetyScanDiscoveries := 0\<rparr>)
                else e)
      in if eng_state e1 = EngDegraded then e1\<lparr>eng_state := EngRunning\<rparr> else e1)"

definition fail_refill :: "RefillCause \<Rightarrow> int \<Rightarrow> bool \<Rightarrow> timestamp \<Rightarrow> RingDeliveryEngine \<Rightarrow> RingDeliveryEngine" where
  "fail_refill cause discoveries recoveryWasReady now e =
     (let e1 = (if cause = Safety
                then e\<lparr>pendingSafetyScanDiscoveries := pendingSafetyScanDiscoveries e + discoveries\<rparr> else e);
          e2 = (if isStoppingOrStopped e1 then e1 else e1\<lparr>eng_state := EngDegraded\<rparr>)
      in e2\<lparr>recoveryReady := recoveryWasReady, lastFailureAt := Some now\<rparr>)"

text \<open>A refill leaves the table of pending refills when its promise settles.\<close>

definition settle_refill :: "string \<Rightarrow> RingDeliveryEngine \<Rightarrow> RingDeliveryEngine" where
  "settle_refill key e = e\<lparr>pendingRefills := AList.delete key (pendingRefills e)\<rparr>"

definition wakeRunnableRings :: "timestamp \<Rightarrow> RingDeliveryEngine \<Rightarrow> RingDeliveryEngine" where
  "wakeRunnableRings now e =
     fold (\<lambda>k f. case ring_at f k of None \<Rightarrow> f | Some r \<Rightarrow> makeReady r now f) (map fst (rings e)) e"

subsection \<open>Life cycle\<close>

definition engine_start :: "RingDeliveryEngine \<Rightarrow> RingDeliveryEngine" where
  "engine_start e =
     (if eng_state e \<noteq> EngStopped then e
      else e\<lparr>eng_state := (if coldRecoveryEnabled e then EngStarting else EngRunning),
             recoveryReady := \<not> coldRecoveryEnabled e\<rparr>)"

datatype OutboundWorkHint = ScopeHint DeliveryScope | RecoveryHint

definition on_work_hint :: "OutboundWorkHint \<Rightarrow> timestamp \<Rightarrow> RingDeliveryEngine \<Rightarrow> RingDeliveryEngine" where
  "on_work_hint hint now e0 =
     (let e = e0\<lparr>interactiveWorkRevision := interactiveWorkRevision e0 + 1\<rparr> in
      if \<not> recoveryReady e then e
      else case hint of
        RecoveryHint \<Rightarrow> refill None True Ordinary None e
      | ScopeHint s \<Rightarrow>
          let key = deliveryScopeKey s in
          if Option.bind (ring_at e key) ring_head \<noteq> None \<or> map_of (oversized e) key \<noteq> None
          then (case ring_at e key of None \<Rightarrow> e | Some r \<Rightarrow> makeReady r now e)
          else refill (Some s) True Ordinary None e)"

text \<open>The end of \<^verbatim>\<open>recoverStartup\<close>, when its refill has completed or failed.\<close>

definition recovery_succeeded :: "timestamp \<Rightarrow> RingDeliveryEngine \<Rightarrow> RingDeliveryEngine" where
  "recovery_succeeded now e =
     (if isStoppingOrStopped e then e
      else
        let e1 = (if eng_state e = EngStarting then e\<lparr>eng_state := EngRunning\<rparr> else e);
            e2 = queueDrain (wakeRunnableRings now (e1\<lparr>recoveryReady := True\<rparr>))
        in if eng_state e2 = EngRunning \<or> eng_state e2 = EngDegraded then e2\<lparr>maintenanceArmed := True\<rparr> else e2)"

definition recovery_failed :: "RingDeliveryEngine \<Rightarrow> RingDeliveryEngine" where
  "recovery_failed e =
     (let e1 = (if isStoppingOrStopped e then e else e\<lparr>eng_state := EngDegraded\<rparr>) in e1\<lparr>recoveryReady := False\<rparr>)"

text \<open>\<^verbatim>\<open>stop\<close> before and after it awaits the work under way.\<close>

definition stop_begin :: "RingDeliveryEngine \<Rightarrow> RingDeliveryEngine" where
  "stop_begin e =
     (if eng_state e = EngStopped then e
      else e\<lparr>eng_state := EngStopping, retryArmed := False, maintenanceArmed := False,
             scheduler := sched_clear (scheduler e)\<rparr>)"

definition stop_finish :: "RingDeliveryEngine \<Rightarrow> RingDeliveryEngine" where
  "stop_finish e =
     e\<lparr>scheduler := sched_clear (scheduler e), rings := [], oversized := [], pendingRefills := [],
       cachedBytes := 0, eng_state := EngStopped\<rparr>"

end
