(* ===== verification/Engine_Invariant.thy ===== *)
theory Engine_Invariant
  imports Delivery_Engine
begin

text \<open>
  The invariant of the Ring delivery engine and its preservation by every synchronous
  stretch of \<^verbatim>\<open>Delivery_Engine\<close>: the process byte count is the sum of the Rings' byte
  counts and stays within the process limit, every Ring is well formed and filed under
  its own scope key, and a Ring's token or grant is known to the scheduler.
\<close>

definition tok :: "PreparedDeliveryRing \<Rightarrow> DeliveryReadyScheduler \<Rightarrow> bool" where
  "tok r s \<longleftrightarrow> (readyToken r \<longrightarrow> ring_key r \<in> sched_ready s) \<and> (activeGrant r \<longrightarrow> ring_key r \<in> sched_active s)"

definition ring_limits_ok :: "DeliveryEngineLimits \<Rightarrow> PreparedDeliveryRing \<Rightarrow> bool" where
  "ring_limits_ok lim r \<longleftrightarrow>
     itemLimit r = scopeItemLimit lim (ring_scope r) \<and> byteLimit r = scopeByteLimit lim (ring_scope r)"

definition engine_inv :: "RingDeliveryEngine \<Rightarrow> bool" where
  "engine_inv e \<longleftrightarrow>
     distinct (map fst (rings e))
     \<and> (\<forall>(k, r) \<in> set (rings e). ring_key r = k \<and> ring_inv r \<and> ring_limits_ok (limits e) r)
     \<and> cachedBytes e = asum bytes (rings e)
     \<and> cachedBytes e \<le> max 0 (processBytes (limits e))
     \<and> sched_inv (scheduler e) \<and> sched_permitLimit (scheduler e) = 4
     \<and> (\<not> isStoppingOrStopped e \<longrightarrow> (\<forall>(k, r) \<in> set (rings e). tok r (scheduler e)))
     \<and> (eng_state e = EngStopped \<longrightarrow> rings e = [])"

lemma engine_inv_ring:
  assumes "engine_inv e" and "ring_at e k = Some r"
  shows "ring_key r = k" and "ring_inv r" and "ring_limits_ok (limits e) r"
    and "\<not> isStoppingOrStopped e \<Longrightarrow> tok r (scheduler e)" and "eng_state e \<noteq> EngStopped"
  using assms map_of_SomeD [OF assms(2)] by (auto simp: engine_inv_def)

text \<open>The fields the invariant does not read.\<close>

lemma engine_inv_frame [simp]:
  "engine_inv (e\<lparr>oversized := a\<rparr>) \<longleftrightarrow> engine_inv e"
  "engine_inv (e\<lparr>pendingRefills := b\<rparr>) \<longleftrightarrow> engine_inv e"
  "engine_inv (e\<lparr>drainQueued := c\<rparr>) \<longleftrightarrow> engine_inv e"
  "engine_inv (e\<lparr>lastDeliveryAt := t\<rparr>) \<longleftrightarrow> engine_inv e"
  "engine_inv (e\<lparr>lastFailureAt := t\<rparr>) \<longleftrightarrow> engine_inv e"
  "engine_inv (e\<lparr>lastRefillAt := t\<rparr>) \<longleftrightarrow> engine_inv e"
  "engine_inv (e\<lparr>safetyScanRuns := n\<rparr>) \<longleftrightarrow> engine_inv e"
  "engine_inv (e\<lparr>safetyScanDiscoveries := n\<rparr>) \<longleftrightarrow> engine_inv e"
  "engine_inv (e\<lparr>pendingSafetyScanDiscoveries := n\<rparr>) \<longleftrightarrow> engine_inv e"
  "engine_inv (e\<lparr>lastSafetyScanAt := t\<rparr>) \<longleftrightarrow> engine_inv e"
  "engine_inv (e\<lparr>lastSafetyScanDiscoveryAt := t\<rparr>) \<longleftrightarrow> engine_inv e"
  "engine_inv (e\<lparr>nextRetryAt := t\<rparr>) \<longleftrightarrow> engine_inv e"
  "engine_inv (e\<lparr>retryArmed := c\<rparr>) \<longleftrightarrow> engine_inv e"
  "engine_inv (e\<lparr>maintenanceArmed := c\<rparr>) \<longleftrightarrow> engine_inv e"
  "engine_inv (e\<lparr>recoveryReady := c\<rparr>) \<longleftrightarrow> engine_inv e"
  "engine_inv (e\<lparr>interactiveWorkRevision := n\<rparr>) \<longleftrightarrow> engine_inv e"
  by (simp_all add: engine_inv_def isStoppingOrStopped_def)

lemma engine_inv_queueDrain [inv_preserved]: "engine_inv e \<Longrightarrow> engine_inv (queueDrain e)"
  by (simp add: queueDrain_def)

lemma engine_inv_refill [inv_preserved]: "engine_inv e \<Longrightarrow> engine_inv (refill s f c x e)"
  by (simp add: refill_def split: option.splits)

lemma engine_inv_refill_scope [inv_preserved]: "engine_inv e \<Longrightarrow> engine_inv (refill_scope_if_cold d e)"
  by (simp add: refill_scope_if_cold_def inv_preserved)

lemma engine_inv_armRetry [inv_preserved]: "engine_inv e \<Longrightarrow> engine_inv (armRetry t e)"
  by (auto simp: armRetry_def split: option.splits)

text \<open>One Ring replaced, with the byte count and the scheduler that go with it.\<close>

lemma engine_inv_update:
  assumes inv: "engine_inv e" and r: "ring_at e (ring_key r') = Some r"
    and ring: "ring_inv r'" "same_shape r r'"
    and cb: "cb = cachedBytes e + (bytes r' - bytes r)" "cb \<le> max 0 (processBytes (limits e))"
    and sched: "sched_inv s'" "sched_permitLimit s' = 4"
    and tok: "\<not> isStoppingOrStopped e \<Longrightarrow> tok r' s'"
    and others: "\<And>k. k \<noteq> ring_key r' \<Longrightarrow> (k \<in> sched_ready (scheduler e) \<longrightarrow> k \<in> sched_ready s')
                   \<and> (k \<in> sched_active (scheduler e) \<longrightarrow> k \<in> sched_active s')"
  shows "engine_inv (e\<lparr>rings := AList.update (ring_key r') r' (rings e), scheduler := s', cachedBytes := cb\<rparr>)"
proof -
  from inv have dist: "distinct (map fst (rings e))" by (simp add: engine_inv_def)
  note set_upd = set_update_distinct [OF dist, of "ring_key r'" r']
  have sum: "asum bytes (AList.update (ring_key r') r' (rings e)) = asum bytes (rings e) - bytes r + bytes r'"
    using dist r by (rule asum_update_present)
  have lim: "ring_limits_ok (limits e) r'"
    using engine_inv_ring(3) [OF inv r] ring(2) by (simp add: ring_limits_ok_def same_shape_def)
  have tk: "tok q s'" if "\<not> isStoppingOrStopped e" "(k, q) \<in> set (rings e)" "k \<noteq> ring_key r'" for k q
    using inv that others [of k] by (fastforce simp: engine_inv_def tok_def)
  show ?thesis
    using inv engine_inv_ring(5) [OF inv r] ring(1) cb sched tok tk lim
    by (auto simp: engine_inv_def set_upd sum isStoppingOrStopped_def)
qed

lemma engine_inv_set_ring:
  assumes "engine_inv e" and "ring_at e (ring_key r') = Some r" and "ring_inv r'" "same_shape r r'"
    and "bytes r' = bytes r" and "\<not> isStoppingOrStopped e \<Longrightarrow> tok r' (scheduler e)"
  shows "engine_inv (set_ring r' e)"
proof -
  have "engine_inv (e\<lparr>rings := AList.update (ring_key r') r' (rings e), scheduler := scheduler e,
      cachedBytes := cachedBytes e\<rparr>)"
    using assms by (intro engine_inv_update) (auto simp: engine_inv_def)
  then show ?thesis by (simp add: set_ring_def)
qed

lemma ring_at_set_ring [simp]: "ring_at (set_ring r e) = (ring_at e)(ring_key r \<mapsto> r)"
  by (simp add: set_ring_def)

lemma set_ring_frame [simp]:
  "eng_state (set_ring r e) = eng_state e" "scheduler (set_ring r e) = scheduler e"
  "limits (set_ring r e) = limits e" "cachedBytes (set_ring r e) = cachedBytes e"
  "oversized (set_ring r e) = oversized e" "coldRecoveryEnabled (set_ring r e) = coldRecoveryEnabled e"
  "isStoppingOrStopped (set_ring r e) = isStoppingOrStopped e"
  by (simp_all add: set_ring_def isStoppingOrStopped_def)

subsection \<open>Offering\<close>

lemma sched_offer_effect:
  assumes "sched_offer k wc at s = (s', ok)"
  shows "sched_permitLimit s' = sched_permitLimit s" and "sched_active s' = sched_active s"
    and "sched_ready s' = (if ok then insert k (sched_ready s) else sched_ready s)"
    and "\<not> ok \<Longrightarrow> s' = s"
  using assms by (cases wc; auto simp: sched_offer_def Let_def split: if_splits)+

lemma sched_remove_effect:
  "sched_permitLimit (sched_remove k s) = sched_permitLimit s"
  "sched_active (sched_remove k s) = sched_active s - {k}"
  "sched_ready (sched_remove k s) = sched_ready s - {k}"
  by (auto simp: sched_remove_def Let_def)

lemma markReadyToken_effect:
  assumes "markReadyToken now r = (r', ok)"
  shows "bytes r' = bytes r" and "activeGrant r' = activeGrant r" and "ok \<longrightarrow> \<not> activeGrant r"
    and "readyToken r' = (readyToken r \<or> ok)" and "ring_key r' = ring_key r"
  using assms by (auto simp: markReadyToken_def touch_def Let_def split: if_splits)

lemma engine_inv_makeReady [inv_preserved]:
  assumes inv: "engine_inv e" and at: "ring_at e (ring_key r) = Some r"
  shows "engine_inv (makeReady r now e)"
proof (cases "isStoppingOrStopped e \<or> ring_head r = None \<or> readyToken r \<or> activeGrant r \<or> \<not> isRunnable now r")
  case True
  with inv show ?thesis by (auto simp: makeReady_def split: option.splits)
next
  case False
  then obtain head where head: "ring_head r = Some head" by auto
  obtain s ok where s: "sched_offer (ring_key r) (workClass (work head)) now (scheduler e) = (s, ok)" by fastforce
  obtain r' tk where r': "markReadyToken now r = (r', tk)" by fastforce
  note eff = sched_offer_effect [OF s] and meff = markReadyToken_effect [OF r']
  have ready: "tk" using False r' by (auto simp: markReadyToken_def Let_def touch_def isRunnable_def ring_head_def split: option.splits)
  have sinv: "sched_inv s" using sched_inv_offer [of "scheduler e"] inv s by (metis engine_inv_def fst_conv)
  have rinv: "ring_inv r'" using ring_inv_markReadyToken [OF engine_inv_ring(2) [OF inv at], of now] r' by simp
  have shape: "same_shape r r'" using same_shape_ops(5) [of r now] r' by simp
  have "engine_inv (e\<lparr>rings := AList.update (ring_key r') r' (rings e), scheduler := s, cachedBytes := cachedBytes e\<rparr>)" if ok
    using inv at rinv shape sinv eff meff False that
    by (intro engine_inv_update) (auto simp: engine_inv_def tok_def)
  then show ?thesis
    using False head s r' ready inv eff(4)
    by (cases ok) (simp_all add: makeReady_def set_ring_def queueDrain_def)
qed

lemma makeReady_frame [simp]:
  "eng_state (makeReady r now e) = eng_state e" "limits (makeReady r now e) = limits e"
  "coldRecoveryEnabled (makeReady r now e) = coldRecoveryEnabled e" "cachedBytes (makeReady r now e) = cachedBytes e"
  "oversized (makeReady r now e) = oversized e"
  by (auto simp: makeReady_def queueDrain_def split: option.splits prod.splits bool.splits)

lemma ensureRing_correct:
  assumes inv: "engine_inv e" and run: "\<not> isStoppingOrStopped e" and eq: "ensureRing d now e = (e', r)"
  shows "engine_inv e'" and "ring_at e' (work_scope_key d) = Some r" and "ring_key r = work_scope_key d"
    and "scheduler e' = scheduler e" and "limits e' = limits e" and "eng_state e' = eng_state e"
    and "cachedBytes e' = cachedBytes e" and "oversized e' = oversized e"
    and "coldRecoveryEnabled e' = coldRecoveryEnabled e"
proof -
  show "ring_key r = work_scope_key d"
    using eq engine_inv_ring(1) [OF inv] by (auto simp: ensureRing_def new_ring_def Let_def split: option.splits)
  show "engine_inv e'"
  proof (cases "ring_at e (work_scope_key d)")
    case (Some q)
    with inv eq show ?thesis by (simp add: ensureRing_def)
  next
    case None
    let ?s = "scope (work d)"
    let ?r = "new_ring ?s (scopeItemLimit (limits e) ?s) (scopeByteLimit (limits e) ?s) now"
    from None have fresh: "work_scope_key d \<notin> fst ` set (rings e)" by (simp add: map_of_eq_None_iff)
    have new: "ring_inv ?r" "ring_limits_ok (limits e) ?r" "tok ?r s" "bytes ?r = 0" "ring_key ?r = work_scope_key d" for s
      by (rule ring_inv_new) (simp_all add: ring_limits_ok_def tok_def new_ring_def)
    from inv have dist: "distinct (map fst (rings e))" by (simp add: engine_inv_def)
    have e': "e' = e\<lparr>rings := AList.update (work_scope_key d) ?r (rings e)\<rparr>"
      using eq None new(5) by (auto simp: ensureRing_def Let_def set_ring_def)
    show ?thesis
      using inv run new asum_update_fresh [OF None, of bytes ?r] unfolding e'
      by (auto simp: engine_inv_def isStoppingOrStopped_def set_update_distinct [OF dist])
  qed
  show "ring_at e' (work_scope_key d) = Some r"
    using eq by (auto simp: ensureRing_def Let_def new_ring_def split: option.splits)
  show "scheduler e' = scheduler e" "limits e' = limits e" "eng_state e' = eng_state e"
    "cachedBytes e' = cachedBytes e" "oversized e' = oversized e" "coldRecoveryEnabled e' = coldRecoveryEnabled e"
    using eq by (auto simp: ensureRing_def Let_def split: option.splits)
qed

lemma engine_inv_offerOversized [inv_preserved]:
  assumes "engine_inv e"
  shows "engine_inv (fst (offerOversized d now e))"
proof -
  obtain s ok where s: "sched_offer (work_scope_key d) (workClass (work d)) now (scheduler e) = (s, ok)" by fastforce
  have "sched_inv s" using sched_inv_offer [of "scheduler e"] assms s by (metis engine_inv_def fst_conv)
  with assms sched_offer_effect [OF s] have "engine_inv (e\<lparr>scheduler := s\<rparr>)"
    by (fastforce simp: engine_inv_def isStoppingOrStopped_def tok_def)
  then show ?thesis using assms s
    by (simp add: offerOversized_def Let_def queueDrain_def engine_inv_def isStoppingOrStopped_def)
qed

text \<open>After the invalidation of superseded history: the Ring replaced, the count and the scheduler adjusted.\<close>

lemma engine_inv_invalidated:
  assumes inv: "engine_inv e" and at: "ring_at e (ring_key r) = Some r" and run: "\<not> isStoppingOrStopped e"
    and eq: "invalidateSupersededHistory d now r = (r', i)"
    and s': "s' = (if 0 < inval_releasedBytes i \<and> inval_readyTokenStale i \<and> \<not> activeGrant r'
                   then sched_remove (ring_key r') (scheduler e) else scheduler e)"
  shows "engine_inv (e\<lparr>rings := AList.update (ring_key r') r' (rings e), scheduler := s',
           cachedBytes := cachedBytes e - inval_releasedBytes i\<rparr>)"
proof -
  note ri = engine_inv_ring(2) [OF inv at]
  have r': "r' = fst (invalidateSupersededHistory d now r)" and i: "i = snd (invalidateSupersededHistory d now r)"
    using eq by simp_all
  have bs: "bytes r' = bytes r - inval_releasedBytes i" "0 \<le> inval_releasedBytes i"
    using invalidate_bytes [OF ri] invalidate_released_nonneg [OF ri] by (simp_all add: r' i)
  have shape: "same_shape r r'" by (simp add: r' same_shape_invalidate)
  then have key: "ring_key r' = ring_key r" by (simp add: same_shape_def)
  have "tok r (scheduler e)" using engine_inv_ring(4) [OF inv at run] .
  then have tk: "tok r' s'"
    using invalidate_readyToken [where d = d and now = now and r = r] key
    by (auto simp: tok_def s' r' i grant_frame sched_remove_effect)
  show ?thesis
    using inv at bs shape key tk ri
    by (intro engine_inv_update [where r = r])
      (auto simp: r' ring_inv_invalidate s' sched_inv_remove engine_inv_def sched_remove_effect)
qed

text \<open>
  \<^verbatim>\<open>offer\<close> after the invalidation: \<open>admit\<close> is the rest of the method, from the process byte
  check on, so that \<open>eng_offer\<close> is \<open>ensureRing\<close>, the invalidation and \<open>admit\<close>.
\<close>

definition ready_again :: "RingHistoryInvalidationResult \<Rightarrow> PreparedDeliveryRing \<Rightarrow> timestamp \<Rightarrow> RingDeliveryEngine \<Rightarrow> RingDeliveryEngine" where
  "ready_again i r now e = (if inval_readyTokenStale i then makeReady r now e else e)"

definition refill_removed :: "RingHistoryInvalidationResult \<Rightarrow> DeliveryRingWork \<Rightarrow> RingDeliveryEngine \<Rightarrow> RingDeliveryEngine" where
  "refill_removed i d e = (if 0 < length (inval_removed i) then refill_scope_if_cold d e else e)"

definition admit :: "DeliveryRingWork \<Rightarrow> DeliveryCacheSource \<Rightarrow> timestamp \<Rightarrow> RingHistoryInvalidationResult
    \<Rightarrow> PreparedDeliveryRing \<Rightarrow> RingDeliveryEngine \<Rightarrow> RingDeliveryEngine \<times> bool" where
  "admit d source now i r e =
     (if \<not> hasReplyId (replyId (work d)) r \<and> processBytes (limits e) < cachedBytes e + estimatedBytes (work d)
      then
        let e4 = refill_removed i d (ready_again i (markOverflow now r) now (set_ring (markOverflow now r) e))
        in if source = Cold \<and> scopeByteLimit (limits e) (scope (work d)) < estimatedBytes (work d)
           then offerOversized d now e4 else (refill_scope_if_cold d e4, False)
      else
        let (r', offered) = ring_offer d source now r; e4 = set_ring r' e
        in if offer_outcome offered \<noteq> Accepted
           then
             let e5 = refill_removed i d (ready_again i r' now e4)
             in if offer_outcome offered = Oversized \<and> source = Cold then offerOversized d now e5
                else if offer_outcome offered \<noteq> Duplicate then (refill_scope_if_cold d e5, False) else (e5, False)
           else (refill_removed i d (makeReady r' now (e4\<lparr>cachedBytes := cachedBytes e4 + offer_retainedBytes offered\<rparr>)), True))"

lemma engine_inv_ready_again:
  "engine_inv e \<Longrightarrow> ring_at e (ring_key r) = Some r \<Longrightarrow> engine_inv (ready_again i r now e)"
  by (simp add: ready_again_def engine_inv_makeReady)

lemma engine_inv_refill_removed: "engine_inv e \<Longrightarrow> engine_inv (refill_removed i d e)"
  by (simp add: refill_removed_def engine_inv_refill_scope)

lemma engine_inv_touched_ring:
  assumes "engine_inv e" and "ring_at e (ring_key r) = Some r" and "ring_inv r'" "same_shape r r'"
    and "bytes r' = bytes r" "readyToken r' = readyToken r" "activeGrant r' = activeGrant r"
  shows "engine_inv (set_ring r' e)" and "ring_at (set_ring r' e) (ring_key r') = Some r'"
proof -
  from assms(4) have key: "ring_key r' = ring_key r" by (simp add: same_shape_def)
  show "engine_inv (set_ring r' e)"
    using assms engine_inv_ring(4) [OF assms(1,2)]
    by (intro engine_inv_set_ring [where r = r]) (auto simp: key tok_def)
qed simp

lemma engine_inv_accepted:
  assumes inv: "engine_inv e" and at: "ring_at e (ring_key r) = Some r"
    and nonneg: "0 \<le> estimatedBytes (work d)"
    and acc: "offer_outcome (snd (ring_offer d source now r)) = Accepted"
    and fits: "\<not> hasReplyId (replyId (work d)) r \<Longrightarrow> cachedBytes e + estimatedBytes (work d) \<le> processBytes (limits e)"
  shows "engine_inv ((set_ring (fst (ring_offer d source now r)) e)
           \<lparr>cachedBytes := cachedBytes e + estimatedBytes (work d)\<rparr>)"
proof -
  let ?r = "fst (ring_offer d source now r)"
  note a = ring_offer_accepted [OF acc]
  have shape: "same_shape r ?r" by (rule same_shape_offer)
  then have key: "ring_key ?r = ring_key r" by (simp add: same_shape_def)
  have new: "ring_inv ?r" using engine_inv_ring(2) [OF inv at] nonneg by (rule ring_inv_offer)
  have "\<not> hasReplyId (replyId (work d)) r" using a(2) by (simp add: hasReplyId_def)
  then have fit: "cachedBytes e + estimatedBytes (work d) \<le> processBytes (limits e)" by (rule fits)
  have tk: "tok ?r (scheduler e)" if "\<not> isStoppingOrStopped e"
    using engine_inv_ring(4) [OF inv at that] key by (simp add: tok_def grant_frame)
  have "engine_inv (e\<lparr>rings := AList.update (ring_key ?r) ?r (rings e), scheduler := scheduler e,
      cachedBytes := cachedBytes e + estimatedBytes (work d)\<rparr>)"
    using inv at new shape key fit tk
    by (intro engine_inv_update [where r = r]) (auto simp: engine_inv_def a(6))
  then show ?thesis by (simp add: set_ring_def)
qed

lemma engine_inv_admit:
  assumes inv: "engine_inv e" and at: "ring_at e (ring_key r) = Some r" and nonneg: "0 \<le> estimatedBytes (work d)"
  shows "engine_inv (fst (admit d source now i r e))"
proof -
  note ri = engine_inv_ring(2) [OF inv at]
  have over: "engine_inv (set_ring (markOverflow now r) e)"
    "ring_at (set_ring (markOverflow now r) e) (ring_key (markOverflow now r)) = Some (markOverflow now r)"
    using engine_inv_touched_ring [OF inv at, of "markOverflow now r"] ri
    by (simp_all add: ring_inv_markOverflow same_shape_ops grant_frame)
  obtain r' o' where off: "ring_offer d source now r = (r', o')" by fastforce
  have off': "r' = fst (ring_offer d source now r)" "o' = snd (ring_offer d source now r)" by (simp_all add: off)
  have refused: "engine_inv (set_ring r' e)" "ring_at (set_ring r' e) (ring_key r') = Some r'"
    if "offer_outcome o' \<noteq> Accepted"
    using engine_inv_touched_ring [OF inv at, of r'] ring_inv_offer [OF ri nonneg] that
      ring_offer_refused(2) [of d source now r]
    by (simp_all add: off' same_shape_offer grant_frame)
  have "engine_inv ((set_ring r' e)\<lparr>cachedBytes := cachedBytes e + offer_retainedBytes o'\<rparr>)"
    if "offer_outcome o' = Accepted"
      "hasReplyId (replyId (work d)) r \<or> cachedBytes e + estimatedBytes (work d) \<le> processBytes (limits e)"
    using engine_inv_accepted [OF inv at nonneg, of source now] ring_offer_accepted(7) [of d source now r] that
    by (auto simp: off')
  then show ?thesis
    using over refused
    by (auto simp: admit_def off Let_def inv_preserved engine_inv_ready_again engine_inv_refill_removed set_ring_def
        intro!: engine_inv_refill_removed engine_inv_makeReady engine_inv_offerOversized engine_inv_refill_scope
          engine_inv_ready_again)
qed

lemma eng_offer_admit:
  "eng_offer d source now e =
     (if eng_state e \<noteq> EngRunning \<and> eng_state e \<noteq> EngDegraded \<and> eng_state e \<noteq> EngStarting then (e, False)
      else case ensureRing d now e of (e1, r0) \<Rightarrow>
        case invalidateSupersededHistory d now r0 of (r1, i) \<Rightarrow>
          admit d source now i r1
            (let e2 = set_ring r1 e1
             in if 0 < inval_releasedBytes i
                then (let f = e2\<lparr>cachedBytes := cachedBytes e2 - inval_releasedBytes i\<rparr>
                      in if inval_readyTokenStale i \<and> \<not> activeGrant r1
                         then f\<lparr>scheduler := sched_remove (ring_key r1) (scheduler f)\<rparr> else f)
                else e2))"
  by (simp add: eng_offer_def admit_def ready_again_def refill_removed_def Let_def split: prod.splits)

lemma engine_inv_offer [inv_preserved]:
  assumes inv: "engine_inv e" and nonneg: "0 \<le> estimatedBytes (work d)"
  shows "engine_inv (fst (eng_offer d source now e))"
proof (cases "eng_state e \<noteq> EngRunning \<and> eng_state e \<noteq> EngDegraded \<and> eng_state e \<noteq> EngStarting")
  case True
  with inv show ?thesis by (simp add: eng_offer_def)
next
  case False
  then have run: "\<not> isStoppingOrStopped e" by (auto simp: isStoppingOrStopped_def)
  obtain e1 r0 where e1: "ensureRing d now e = (e1, r0)" by fastforce
  obtain r1 i where r1: "invalidateSupersededHistory d now r0 = (r1, i)" by fastforce
  note en = ensureRing_correct [OF inv run e1]
  have run1: "\<not> isStoppingOrStopped e1" using run en(6) by (simp add: isStoppingOrStopped_def)
  have at: "ring_at e1 (ring_key r0) = Some r0" using en(2,3) by simp
  have nn: "0 \<le> inval_releasedBytes i"
    using invalidate_released_nonneg [OF engine_inv_ring(2) [OF en(1) at], of d now] r1 by simp
  let ?s = "if 0 < inval_releasedBytes i \<and> inval_readyTokenStale i \<and> \<not> activeGrant r1
            then sched_remove (ring_key r1) (scheduler e1) else scheduler e1"
  let ?e3 = "e1\<lparr>rings := AList.update (ring_key r1) r1 (rings e1), scheduler := ?s,
               cachedBytes := cachedBytes e1 - inval_releasedBytes i\<rparr>"
  have inv3: "engine_inv ?e3" using engine_inv_invalidated [OF en(1) at run1 r1 refl] .
  have "ring_at ?e3 (ring_key r1) = Some r1" by simp
  from engine_inv_admit [OF inv3 this nonneg] have "engine_inv (fst (admit d source now i r1 ?e3))" .
  moreover have "(let e2 = set_ring r1 e1
             in if 0 < inval_releasedBytes i
                then (let f = e2\<lparr>cachedBytes := cachedBytes e2 - inval_releasedBytes i\<rparr>
                      in if inval_readyTokenStale i \<and> \<not> activeGrant r1
                         then f\<lparr>scheduler := sched_remove (ring_key r1) (scheduler f)\<rparr> else f)
                else e2) = ?e3"
    using nn by (auto simp: Let_def set_ring_def)
  ultimately show ?thesis unfolding eng_offer_admit using False by (auto simp: e1 r1)
qed

lemma engine_inv_offer_page [inv_preserved]:
  "engine_inv e \<Longrightarrow> \<forall>d \<in> set ds. 0 \<le> estimatedBytes (work d) \<Longrightarrow> engine_inv (fst (offer_page x now ds e))"
proof (induction ds arbitrary: e)
  case Nil
  then show ?case by simp
next
  case (Cons d ds)
  then have "engine_inv (fst (eng_offer d Cold now e))" by (simp add: engine_inv_offer)
  with Cons show ?case by (auto split: prod.splits) (metis fst_conv)+
qed

subsection \<open>Granting, discarding and settling\<close>

lemma sched_release_effect:
  "sched_permitLimit (sched_release k s) = sched_permitLimit s"
  "sched_ready (sched_release k s) = sched_ready s"
  "sched_active (sched_release k s) = sched_active s - {k}"
  by (simp_all add: sched_release_def)

lemma engine_inv_scheduler:
  assumes "engine_inv e" and "sched_inv s" "sched_permitLimit s = 4"
    and "\<And>k r. \<not> isStoppingOrStopped e \<Longrightarrow> ring_at e k = Some r \<Longrightarrow> tok r s"
  shows "engine_inv (e\<lparr>scheduler := s\<rparr>)"
proof -
  have "tok r s" if "\<not> isStoppingOrStopped e" "(k, r) \<in> set (rings e)" for k r
    using assms(1,4) that by (auto simp: engine_inv_def)
  with assms show ?thesis by (auto simp: engine_inv_def isStoppingOrStopped_def)
qed

lemma engine_inv_discard [inv_preserved]:
  assumes inv: "engine_inv e" and at: "ring_at e (ring_key r) = Some r"
  shows "engine_inv (discard r now e)"
    and "\<exists>r'. ring_at (discard r now e) (ring_key r) = Some r' \<and> \<not> activeGrant r' \<and> \<not> readyToken r'"
proof -
  obtain r1 x where r1: "removeHead now r = (r1, x)" by fastforce
  let ?r = "finishGrant now r1"
  note ri = engine_inv_ring(2) [OF inv at]
  have new: "ring_inv ?r" using ring_inv_removeHead [OF ri, of now] r1 by (simp add: ring_inv_finishGrant)
  have shape: "same_shape r ?r"
    using same_shape_trans [OF same_shape_ops(7) [of r now] same_shape_ops(4) [of _ now]] r1 by simp
  then have key: "ring_key ?r = ring_key r" by (simp add: same_shape_def)
  have tk: "\<not> readyToken ?r \<and> \<not> activeGrant ?r"
    using r1 ri by (cases "queue r") (auto simp: removeHead_def finishGrant_def touch_def ring_inv_def)
  have bs: "bytes ?r = bytes r - (case x of None \<Rightarrow> 0 | Some d \<Rightarrow> estimatedBytes (work d))"
    using r1 by (cases "queue r") (auto simp: removeHead_def finishGrant_def touch_def)
  have nn: "case x of None \<Rightarrow> True | Some d \<Rightarrow> 0 \<le> estimatedBytes (work d)"
    using r1 ri by (cases "queue r") (auto simp: removeHead_def ring_inv_def)
  have eq: "discard r now e = e\<lparr>rings := AList.update (ring_key ?r) ?r (rings e), scheduler := scheduler e,
      cachedBytes := cachedBytes e + (bytes ?r - bytes r)\<rparr>"
    using r1 bs by (auto simp: discard_def Let_def set_ring_def split: option.splits)
  have "cachedBytes e + (bytes ?r - bytes r) \<le> cachedBytes e" using bs nn by (auto split: option.splits)
  then show "engine_inv (discard r now e)" unfolding eq
    using inv at new shape key tk
    by (intro engine_inv_update [where r = r]) (auto simp: tok_def engine_inv_def)
  show "\<exists>r'. ring_at (discard r now e) (ring_key r) = Some r' \<and> \<not> activeGrant r' \<and> \<not> readyToken r'"
    using tk key by (simp add: eq)
qed

lemma engine_inv_discardAll [inv_preserved]:
  assumes inv: "engine_inv e" and at: "ring_at e (ring_key r) = Some r"
  shows "engine_inv (discardAll r now e)"
proof -
  obtain r1 x where r1: "removeAll_ring now r = (r1, x)" by fastforce
  let ?r = "finishGrant now r1"
  note ri = engine_inv_ring(2) [OF inv at]
  have new: "ring_inv ?r" using ring_inv_removeAll [OF ri, of now] r1 by (simp add: ring_inv_finishGrant)
  have shape: "same_shape r ?r"
    using same_shape_trans [OF same_shape_ops(6) [of r now] same_shape_ops(4) [of _ now]] r1 by simp
  then have key: "ring_key ?r = ring_key r" by (simp add: same_shape_def)
  have fields: "\<not> readyToken ?r" "\<not> activeGrant ?r" "bytes ?r = 0" "removal_releasedBytes x = bytes r"
    using r1 by (auto simp: removeAll_ring_def finishGrant_def touch_def Let_def split: if_splits)
  have "0 \<le> bytes r" using ri sum_list_nonneg_int [of "queue r" cached_bytes] by (simp add: ring_inv_def)
  then have "engine_inv (e\<lparr>rings := AList.update (ring_key ?r) ?r (rings e), scheduler := scheduler e,
      cachedBytes := cachedBytes e - bytes r\<rparr>)"
    using inv at new shape key fields
    by (intro engine_inv_update [where r = r]) (auto simp: tok_def engine_inv_def)
  moreover have "discardAll r now e = e\<lparr>rings := AList.update (ring_key ?r) ?r (rings e), scheduler := scheduler e,
      cachedBytes := cachedBytes e - bytes r\<rparr>"
    using r1 fields(4) by (simp add: discardAll_def set_ring_def)
  ultimately show ?thesis by simp
qed

lemma captured_ring_key: "engine_inv e \<Longrightarrow> captured_ring x e = Some r \<Longrightarrow> ring_at e (ring_key r) = Some r"
  using engine_inv_ring(1) [of e "ex_key x" r] by (auto simp: captured_ring_def split: if_splits)

lemma engine_inv_release_work [inv_preserved]:
  "engine_inv e \<Longrightarrow> engine_inv (release_work x s now e)"
  using engine_inv_discard(1) [of e _ now] captured_ring_key [of e x]
  by (auto simp: release_work_def split: option.splits)

end
