(* ===== verification/Engine_Steps.thy ===== *)
theory Engine_Steps
  imports Engine_Invariant
begin

text \<open>
  The Ring delivery engine as a transition system. A state is the engine with the
  executions that its drain has started and not yet finished, each at the await it has
  reached; \<open>engine_step\<close> interleaves the stretches of \<^verbatim>\<open>Delivery_Engine\<close> the way the event loop
  does. The invariant \<open>system_inv\<close> holds in every reachable state: at most four executions
  hold a grant, never two for one scope, and the work an execution is settling is still
  the head of its Ring.
\<close>

subsection \<open>States and steps\<close>

text \<open>
  Where an execution stands: its promise rejected or fulfilled and the handler not yet
  run; awaiting the refill after a refused claim; awaiting the Gateway with a claim; its
  grant released and the handler awaiting a refill; or its rejection handler awaiting one.
\<close>

datatype phase =
    Rejecting
  | Fulfilling advance
  | AwaitRefill
  | AwaitGateway PreparedDelivery PreparedDeliveryClaim
  | Continuing
  | Finishing

fun holding :: "phase \<Rightarrow> bool" where
  "holding Continuing = False"
| "holding Finishing = False"
| "holding _ = True"

record delivery_system =
  ds_engine :: RingDeliveryEngine
  ds_flight :: "(execution \<times> phase) list"

definition begin_execution :: "exec_env \<Rightarrow> execution \<Rightarrow> timestamp \<Rightarrow> RingDeliveryEngine \<Rightarrow> RingDeliveryEngine \<times> phase" where
  "begin_execution env x now e =
     (case execute_prefix env x now e of
        PrefixThrew \<Rightarrow> (e, Rejecting)
      | PrefixDone e' adv \<Rightarrow> (e', Fulfilling adv)
      | PrefixRefill e' \<Rightarrow> (e', AwaitRefill)
      | PrefixClaimed e' d claim \<Rightarrow> (e', AwaitGateway d claim))"

definition page_wf :: "refill_page \<Rightarrow> bool" where
  "page_wf p = (\<forall>d \<in> set (page_deliveries p). 0 \<le> estimatedBytes (work d))"

text \<open>Steps of the engine outside an execution.\<close>

inductive engine_move :: "RingDeliveryEngine \<Rightarrow> RingDeliveryEngine \<Rightarrow> bool" where
  enqueued: "0 \<le> estimatedBytes (work d) \<Longrightarrow> engine_move e (enqueue d now e)"
| hinted: "engine_move e (on_work_hint h now e)"
| refill_requested: "engine_move e (refill s f cause x e)"
| page_loaded: "page_wf p \<Longrightarrow> engine_move e (fst (apply_refill_page req p now e))"
| refill_finished: "engine_move e (finish_refill cause n now e)"
| refill_failed: "engine_move e (fail_refill cause n ready now e)"
| refill_settled: "engine_move e (settle_refill key e)"
| retry_fired: "engine_move e (e\<lparr>retryArmed := False, nextRetryAt := None\<rparr>)"
| woken: "engine_move e (wakeRunnableRings now e)"
| recovered: "engine_move e (recovery_succeeded now e)"
| not_recovered: "engine_move e (recovery_failed e)"
| microtask: "engine_move e (e\<lparr>drainQueued := False\<rparr>)"

text \<open>One step of an execution that has started: the engine and the phase after it.\<close>

inductive flight_move :: "execution \<Rightarrow> RingDeliveryEngine \<Rightarrow> phase \<Rightarrow> RingDeliveryEngine \<Rightarrow> phase \<Rightarrow> bool" for x where
  settled: "execute_settle x d a now e = (e', adv) \<Longrightarrow> flight_move x e (AwaitGateway d claim) e' (Fulfilling adv)"
| settle_threw: "flight_move x e (AwaitGateway d claim) (release_work x (scope d) now e) Rejecting"
| refilled: "flight_move x e AwaitRefill e (Fulfilling AdvanceNo)"
| refill_threw: "flight_move x e AwaitRefill e Rejecting"
| fulfilled: "flight_move x e (Fulfilling adv) (run_fulfilled (ex_key x) adv e) Continuing"
| rejected: "flight_move x e Rejecting (run_rejected x now e) Finishing"

inductive engine_step :: "delivery_system \<Rightarrow> delivery_system \<Rightarrow> bool" where
  move: "engine_move (ds_engine s) e \<Longrightarrow> engine_step s (s\<lparr>ds_engine := e\<rparr>)"
| granted_none: "drain_turn now (ds_engine s) = Some (e, None) \<Longrightarrow> engine_step s (s\<lparr>ds_engine := e\<rparr>)"
| granted: "drain_turn now (ds_engine s) = Some (e, Some x) \<Longrightarrow> begin_execution env x now e = (e', p) \<Longrightarrow>
    engine_step s (s\<lparr>ds_engine := e', ds_flight := ds_flight s @ [(x, p)]\<rparr>)"
| granted_threw: "drain_turn now (ds_engine s) = Some (e, Some x) \<Longrightarrow>
    engine_step s (s\<lparr>ds_engine := e, ds_flight := ds_flight s @ [(x, Rejecting)]\<rparr>)"
| flown: "ds_flight s = xs @ (x, p) # ys \<Longrightarrow> flight_move x (ds_engine s) p e p' \<Longrightarrow>
    engine_step s (s\<lparr>ds_engine := e, ds_flight := xs @ (x, p') # ys\<rparr>)"
| continued: "ds_flight s = xs @ (x, Continuing) # ys \<Longrightarrow>
    engine_step s (s\<lparr>ds_engine := run_continue (ex_key x) now (ds_engine s), ds_flight := xs @ ys\<rparr>)"
| finished: "ds_flight s = xs @ (x, p) # ys \<Longrightarrow> \<not> holding p \<Longrightarrow>
    engine_step s (s\<lparr>ds_engine := queueDrain (ds_engine s), ds_flight := xs @ ys\<rparr>)"
| started: "engine_step s (s\<lparr>ds_engine := engine_start (ds_engine s)\<rparr>)"
| stopping: "engine_step s (s\<lparr>ds_engine := stop_begin (ds_engine s)\<rparr>)"
| stopped: "eng_state (ds_engine s) = EngStopping \<Longrightarrow> ds_flight s = [] \<Longrightarrow>
    engine_step s (s\<lparr>ds_engine := stop_finish (ds_engine s)\<rparr>)"

inductive engine_reachable :: "DeliveryEngineLimits \<Rightarrow> delivery_system \<Rightarrow> bool" for lim where
  initial: "engine_reachable lim \<lparr>ds_engine = new_engine lim cold port, ds_flight = []\<rparr>"
| step: "engine_reachable lim s \<Longrightarrow> engine_step s s' \<Longrightarrow> engine_reachable lim s'"

subsection \<open>What a step leaves alone\<close>

text \<open>
  The Rings outside \<open>K\<close> stay, keep their grant and, while it lasts, their head; a new Ring
  has no grant; and the engine's limits stay.
\<close>

fun keeps_ring :: "PreparedDeliveryRing option \<Rightarrow> PreparedDeliveryRing option \<Rightarrow> bool" where
  "keeps_ring None None = True"
| "keeps_ring None (Some r') = (\<not> activeGrant r')"
| "keeps_ring (Some r) None = False"
| "keeps_ring (Some r) (Some r') =
     (activeGrant r' = activeGrant r \<and> (\<forall>h. activeGrant r \<and> ring_head r = Some h \<longrightarrow> ring_head r' = Some h))"

definition keeps_heads :: "string set \<Rightarrow> RingDeliveryEngine \<Rightarrow> RingDeliveryEngine \<Rightarrow> bool" where
  "keeps_heads K e e' \<longleftrightarrow> limits e' = limits e \<and> (\<forall>k. k \<notin> K \<longrightarrow> keeps_ring (ring_at e k) (ring_at e' k))"

lemma keeps_ring_refl [simp]: "keeps_ring a a"
  by (cases a) auto

lemma keeps_ring_trans: "keeps_ring a b \<Longrightarrow> keeps_ring b c \<Longrightarrow> keeps_ring a c"
  by (cases a; cases b; cases c) auto

lemma keeps_ringD:
  "keeps_ring (Some r) b \<Longrightarrow> \<exists>r'. b = Some r' \<and> activeGrant r' = activeGrant r
     \<and> (\<forall>h. activeGrant r \<and> ring_head r = Some h \<longrightarrow> ring_head r' = Some h)"
  "keeps_ring a (Some r') \<Longrightarrow> activeGrant r' \<Longrightarrow> \<exists>r. a = Some r \<and> activeGrant r"
  by (cases b; auto) (cases a; auto)

text \<open>A step that also leaves the set of active grants and the life-cycle state alone.\<close>

definition quiet :: "RingDeliveryEngine \<Rightarrow> RingDeliveryEngine \<Rightarrow> bool" where
  "quiet e e' \<longleftrightarrow> keeps_heads {} e e' \<and> sched_active (scheduler e') = sched_active (scheduler e)
     \<and> eng_state e' = eng_state e"

lemma keeps_heads_refl [simp]: "keeps_heads K e e"
  by (simp add: keeps_heads_def)

lemma keeps_heads_trans: "keeps_heads K e f \<Longrightarrow> keeps_heads K f g \<Longrightarrow> keeps_heads K e g"
  unfolding keeps_heads_def by (metis keeps_ring_trans)

lemma quiet_refl [simp]: "quiet e e"
  by (simp add: quiet_def)

lemma quiet_trans: "quiet e f \<Longrightarrow> quiet f g \<Longrightarrow> quiet e g"
  unfolding quiet_def using keeps_heads_trans by metis

lemma quiet_same_rings:
  "rings e' = rings e \<Longrightarrow> limits e' = limits e \<Longrightarrow> sched_active (scheduler e') = sched_active (scheduler e)
   \<Longrightarrow> eng_state e' = eng_state e \<Longrightarrow> quiet e e'"
  by (simp add: quiet_def keeps_heads_def)

lemma quiet_refill: "quiet e (refill s f c x e)"
  by (rule quiet_same_rings) (simp_all add: refill_def split: option.splits)

lemma quiet_refill_scope: "quiet e (refill_scope_if_cold d e)"
  by (simp add: refill_scope_if_cold_def quiet_refill)

lemma quiet_armRetry: "quiet e (armRetry t e)"
  by (rule quiet_same_rings) (auto simp: armRetry_def split: option.splits)

lemma keeps_heads_set_ring:
  assumes "ring_key r' \<in> K \<or> keeps_ring (ring_at e (ring_key r')) (Some r')"
  shows "keeps_heads K e (set_ring r' e)"
  using assms by (auto simp: keeps_heads_def)

lemma quiet_set_ring:
  assumes "keeps_ring (ring_at e (ring_key r')) (Some r')"
  shows "quiet e (set_ring r' e)"
  unfolding quiet_def by (intro conjI keeps_heads_set_ring) (use assms in simp_all)

lemma quiet_update:
  assumes "keeps_ring (ring_at e (ring_key r')) (Some r')"
    and "sched_active s = sched_active (scheduler e)"
  shows "quiet e (e\<lparr>rings := AList.update (ring_key r') r' (rings e), scheduler := s, cachedBytes := b\<rparr>)"
  using assms by (auto simp: quiet_def keeps_heads_def)

text \<open>\<^verbatim>\<open>makeReady\<close> either does nothing or queues the Ring and marks its token.\<close>

lemma makeReady_cases:
  obtains (same) "makeReady r now e = e" "isStoppingOrStopped e \<or> \<not> isRunnable now r \<or> readyToken r \<or> activeGrant r
      \<or> ring_key r \<in> sched_ready (scheduler e) \<or> ring_key r \<in> sched_active (scheduler e)"
  | (queued) head s where "ring_head r = Some head" "\<not> isStoppingOrStopped e" "\<not> activeGrant r" "\<not> readyToken r"
      "isRunnable now r" "sched_offer (ring_key r) (workClass (work head)) now (scheduler e) = (s, True)"
      "makeReady r now e = queueDrain ((set_ring (r\<lparr>lastTouchedAt := now, readyToken := True\<rparr>) e)\<lparr>scheduler := s\<rparr>)"
proof (cases "isStoppingOrStopped e \<or> ring_head r = None \<or> readyToken r \<or> activeGrant r \<or> \<not> isRunnable now r")
  case True
  then show ?thesis by (intro same) (auto simp: makeReady_def isRunnable_def split: option.splits)
next
  case False
  then obtain head where head: "ring_head r = Some head" by auto
  obtain s ok where s: "sched_offer (ring_key r) (workClass (work head)) now (scheduler e) = (s, ok)" by fastforce
  have "markReadyToken now r = (r\<lparr>lastTouchedAt := now, readyToken := True\<rparr>, True)"
    using False by (auto simp: markReadyToken_def touch_def isRunnable_def ring_head_def Let_def split: option.splits)
  moreover have "\<not> ok \<Longrightarrow> ring_key r \<in> sched_ready (scheduler e) \<or> ring_key r \<in> sched_active (scheduler e)"
    using s by (auto simp: sched_offer_def Let_def split: if_splits)
  ultimately show ?thesis
    using False head s by (cases ok) (auto simp: makeReady_def intro: same queued)
qed

lemma quiet_makeReady:
  assumes "ring_at e (ring_key r) = Some r"
  shows "quiet e (makeReady r now e)"
proof (cases rule: makeReady_cases [of r now e])
  case (queued head s)
  then show ?thesis using assms sched_offer_effect [OF queued(6)]
    by (auto simp: quiet_def keeps_heads_def queueDrain_def ring_head_def)
qed simp

lemma quiet_ready_again: "ring_at e (ring_key r) = Some r \<Longrightarrow> quiet e (ready_again i r now e)"
  by (simp add: ready_again_def quiet_makeReady)

lemma quiet_refill_removed: "quiet e (refill_removed i d e)"
  by (simp add: refill_removed_def quiet_refill_scope)

lemma quiet_offerOversized: "quiet e (fst (offerOversized d now e))"
proof -
  obtain s ok where s: "sched_offer (work_scope_key d) (workClass (work d)) now (scheduler e) = (s, ok)" by fastforce
  show ?thesis
    using sched_offer_effect [OF s] s
    by (intro quiet_same_rings) (simp_all add: offerOversized_def Let_def queueDrain_def)
qed

lemma quiet_then:
  "quiet e f \<Longrightarrow> quiet e (refill s force c x f)"
  "quiet e f \<Longrightarrow> quiet e (refill_scope_if_cold d f)"
  "quiet e f \<Longrightarrow> quiet e (refill_removed i d f)"
  "quiet e f \<Longrightarrow> quiet e (fst (offerOversized d now f))"
  "quiet e f \<Longrightarrow> ring_at f (ring_key r) = Some r \<Longrightarrow> quiet e (ready_again i r now f)"
  "quiet e f \<Longrightarrow> ring_at f (ring_key r) = Some r \<Longrightarrow> quiet e (makeReady r now f)"
  by (erule quiet_trans, simp add: quiet_refill quiet_refill_scope quiet_refill_removed quiet_offerOversized
      quiet_ready_again quiet_makeReady)+

lemma head_after_offer:
  "ring_head r = Some h \<Longrightarrow> ring_head (fst (ring_offer d source now r)) = Some h"
  by (cases "offer_outcome (snd (ring_offer d source now r)) = Accepted"; cases "queue r")
    (auto simp: ring_head_def ring_offer_accepted(6) ring_offer_refused(1))

lemma head_after_invalidate:
  assumes "ring_inv r" "activeGrant r"
  shows "ring_head (fst (invalidateSupersededHistory d now r)) = ring_head r"
  using invalidate_keeps_executing_head [OF assms] by (simp add: ring_head_def)

lemma quiet_admit:
  assumes at: "ring_at e (ring_key r) = Some r"
  shows "quiet e (fst (admit d source now i r e))"
proof -
  have over: "quiet e (set_ring (markOverflow now r) e)"
    "ring_at (set_ring (markOverflow now r) e) (ring_key (markOverflow now r)) = Some (markOverflow now r)"
    using at by (auto intro!: quiet_set_ring simp: grant_frame ring_head_def same_shape_ops(2) [unfolded same_shape_def])
  obtain r' o' where off: "ring_offer d source now r = (r', o')" by fastforce
  have r': "r' = fst (ring_offer d source now r)" by (simp add: off)
  have key: "ring_key r' = ring_key r" using same_shape_offer [of r d source now] by (simp add: same_shape_def r')
  have offered: "quiet e (set_ring r' e)" "ring_at (set_ring r' e) (ring_key r') = Some r'"
    using at key by (auto intro!: quiet_set_ring simp: grant_frame head_after_offer r')
  have acc: "quiet e ((set_ring r' e)\<lparr>cachedBytes := b\<rparr>)" for b
    using offered(1) by (simp add: quiet_def keeps_heads_def)
  show ?thesis
    unfolding admit_def off Let_def
    using over offered acc by (auto intro!: quiet_then)
qed

lemma stale_token: "inval_readyTokenStale (snd (invalidateSupersededHistory d now r)) \<Longrightarrow> readyToken r"
  by (auto simp: invalidateSupersededHistory_def noInvalidation_def split: option.splits prod.splits if_splits)

lemma quiet_ensureRing: "ensureRing d now e = (e', r) \<Longrightarrow> quiet e e'"
  by (auto simp: ensureRing_def Let_def new_ring_def intro!: quiet_set_ring split: option.splits)

lemma quiet_offer:
  assumes inv: "engine_inv e"
  shows "quiet e (fst (eng_offer d source now e))"
proof (cases "eng_state e \<noteq> EngRunning \<and> eng_state e \<noteq> EngDegraded \<and> eng_state e \<noteq> EngStarting")
  case True
  then show ?thesis by (simp add: eng_offer_def)
next
  case False
  then have run: "\<not> isStoppingOrStopped e" by (auto simp: isStoppingOrStopped_def)
  obtain e1 r0 where e1: "ensureRing d now e = (e1, r0)" by fastforce
  obtain r1 i where r1: "invalidateSupersededHistory d now r0 = (r1, i)" by fastforce
  have r1': "r1 = fst (invalidateSupersededHistory d now r0)" "i = snd (invalidateSupersededHistory d now r0)"
    by (simp_all add: r1)
  note en = ensureRing_correct [OF inv run e1]
  have run1: "\<not> isStoppingOrStopped e1" using run en(6) by (simp add: isStoppingOrStopped_def)
  have at: "ring_at e1 (ring_key r0) = Some r0" using en(2,3) by simp
  have key: "ring_key r1 = ring_key r0" using same_shape_invalidate [of r0 d now] by (simp add: same_shape_def r1')
  have ready: "ring_key r0 \<notin> sched_active (scheduler e1)" if "inval_readyTokenStale i"
    using engine_inv_ring(4) [OF en(1) at run1] en(1) stale_token [OF that [unfolded r1']]
    by (auto simp: tok_def engine_inv_def sched_inv_def)
  define f where "f = (let e2 = set_ring r1 e1
             in if 0 < inval_releasedBytes i
                then (let f = e2\<lparr>cachedBytes := cachedBytes e2 - inval_releasedBytes i\<rparr>
                      in if inval_readyTokenStale i \<and> \<not> activeGrant r1
                         then f\<lparr>scheduler := sched_remove (ring_key r1) (scheduler f)\<rparr> else f)
                else e2)"
  have "quiet e1 f"
    using at key ready head_after_invalidate [OF engine_inv_ring(2) [OF en(1) at], of d now]
    by (auto simp: f_def Let_def quiet_def keeps_heads_def sched_remove_effect r1' grant_frame)
  moreover have "ring_at f (ring_key r1) = Some r1" by (simp add: f_def Let_def)
  ultimately have "quiet e (fst (admit d source now i r1 f))"
    by (intro quiet_trans [OF quiet_trans [OF quiet_ensureRing [OF e1]] quiet_admit])
  then show ?thesis unfolding eng_offer_admit using False by (auto simp: e1 r1 f_def)
qed

lemma quiet_offer_page:
  "engine_inv e \<Longrightarrow> \<forall>d \<in> set ds. 0 \<le> estimatedBytes (work d) \<Longrightarrow> quiet e (fst (offer_page x now ds e))"
proof (induction ds arbitrary: e)
  case (Cons d ds)
  then have "engine_inv (fst (eng_offer d Cold now e))" "quiet e (fst (eng_offer d Cold now e))"
    by (simp_all add: engine_inv_offer quiet_offer)
  then have "quiet e (fst (offer_page x now ds (fst (eng_offer d Cold now e))))"
    using Cons by (auto intro: quiet_trans)
  with Cons show ?case by (auto split: prod.splits)
qed simp

lemma wake_step:
  assumes "engine_inv e"
  shows "engine_inv (fold (\<lambda>k f. case ring_at f k of None \<Rightarrow> f | Some r \<Rightarrow> makeReady r now f) ks e)
       \<and> quiet e (fold (\<lambda>k f. case ring_at f k of None \<Rightarrow> f | Some r \<Rightarrow> makeReady r now f) ks e)"
  using assms
proof (induction ks arbitrary: e)
  case (Cons k ks)
  let ?f = "case ring_at e k of None \<Rightarrow> e | Some r \<Rightarrow> makeReady r now e"
  have "engine_inv ?f" "quiet e ?f"
    using Cons.prems engine_inv_ring(1) [OF Cons.prems]
    by (auto simp: engine_inv_makeReady quiet_makeReady split: option.splits)
  with Cons.IH [of ?f] show ?case by (auto intro: quiet_trans)
qed simp

lemma wakeRunnableRings_ok:
  "engine_inv e \<Longrightarrow> engine_inv (wakeRunnableRings now e)" "engine_inv e \<Longrightarrow> quiet e (wakeRunnableRings now e)"
  using wake_step by (simp_all add: wakeRunnableRings_def)

text \<open>Moves outside an execution may also move the life cycle between its running states.\<close>

definition calm :: "RingDeliveryEngine \<Rightarrow> RingDeliveryEngine \<Rightarrow> bool" where
  "calm e e' \<longleftrightarrow> keeps_heads {} e e' \<and> sched_active (scheduler e') = sched_active (scheduler e)
     \<and> (isStoppingOrStopped e' \<longleftrightarrow> isStoppingOrStopped e) \<and> (eng_state e' = EngStopped \<longleftrightarrow> eng_state e = EngStopped)"

lemma quiet_calm: "quiet e e' \<Longrightarrow> calm e e'"
  by (simp add: quiet_def calm_def isStoppingOrStopped_def)

lemma calm_refl [simp]: "calm e e"
  by (simp add: calm_def)

lemma calm_trans: "calm e f \<Longrightarrow> calm f g \<Longrightarrow> calm e g"
  unfolding calm_def using keeps_heads_trans by metis

lemma engine_inv_state:
  assumes "engine_inv e" "\<not> isStoppingOrStopped e" "st \<noteq> EngStopped" "st \<noteq> EngStopping"
  shows "engine_inv (e\<lparr>eng_state := st\<rparr>)" and "calm e (e\<lparr>eng_state := st\<rparr>)"
  using assms by (auto simp: engine_inv_def isStoppingOrStopped_def calm_def keeps_heads_def)

lemma finish_refill_ok:
  assumes "engine_inv e"
  shows "engine_inv (finish_refill c n now e)" "calm e (finish_refill c n now e)"
  using assms by (auto simp: finish_refill_def Let_def engine_inv_def isStoppingOrStopped_def calm_def keeps_heads_def)

lemma fail_refill_ok:
  assumes "engine_inv e"
  shows "engine_inv (fail_refill c n b now e)" "calm e (fail_refill c n b now e)"
  using assms by (auto simp: fail_refill_def Let_def engine_inv_def isStoppingOrStopped_def calm_def keeps_heads_def)

lemma recovery_ok:
  assumes "engine_inv e"
  shows "engine_inv (recovery_succeeded now e)" "calm e (recovery_succeeded now e)"
    "engine_inv (recovery_failed e)" "calm e (recovery_failed e)"
proof -
  let ?f = "(if eng_state e = EngStarting then e\<lparr>eng_state := EngRunning\<rparr> else e)\<lparr>recoveryReady := True\<rparr>"
  have f: "engine_inv ?f" "calm e ?f"
    using assms by (auto simp: engine_inv_def isStoppingOrStopped_def calm_def keeps_heads_def)
  have w: "engine_inv (wakeRunnableRings now ?f)" "calm e (wakeRunnableRings now ?f)"
    using f wakeRunnableRings_ok [of ?f now] quiet_calm calm_trans by blast+
  then show "engine_inv (recovery_succeeded now e)" "calm e (recovery_succeeded now e)"
    using assms by (auto simp: recovery_succeeded_def Let_def queueDrain_def calm_def keeps_heads_def isStoppingOrStopped_def)
  show "engine_inv (recovery_failed e)" "calm e (recovery_failed e)"
    using assms by (auto simp: recovery_failed_def Let_def engine_inv_def isStoppingOrStopped_def calm_def keeps_heads_def)
qed

lemma on_work_hint_ok:
  assumes "engine_inv e"
  shows "engine_inv (on_work_hint h now e)" "quiet e (on_work_hint h now e)"
proof -
  let ?f = "e\<lparr>interactiveWorkRevision := interactiveWorkRevision e + 1\<rparr>"
  have f: "engine_inv ?f" "quiet e ?f" using assms by (simp_all add: quiet_same_rings)
  then show "engine_inv (on_work_hint h now e)" "quiet e (on_work_hint h now e)"
    using engine_inv_ring(1) [OF assms]
    by (auto simp: on_work_hint_def Let_def engine_inv_refill
        intro!: quiet_then engine_inv_makeReady split: OutboundWorkHint.splits option.splits)
qed

lemma apply_refill_page_ok:
  assumes "engine_inv e" "page_wf p"
  shows "engine_inv (fst (apply_refill_page req p now e))" "quiet e (fst (apply_refill_page req p now e))"
proof -
  let ?f = "armRetry (page_nextRetryAt p) (e\<lparr>lastRefillAt := Some now\<rparr>)"
  have f: "engine_inv ?f" using assms by (simp add: engine_inv_armRetry)
  have q: "quiet e ?f" by (rule quiet_trans [OF quiet_same_rings quiet_armRetry]) simp_all
  from f assms(2) show "engine_inv (fst (apply_refill_page req p now e))" "quiet e (fst (apply_refill_page req p now e))"
    by (auto simp: apply_refill_page_def page_wf_def engine_inv_offer_page intro: quiet_trans [OF q quiet_offer_page])
qed

lemma engine_move_ok:
  assumes "engine_move e e'" "engine_inv e"
  shows "engine_inv e' \<and> calm e e'"
  using assms
proof cases
  case (enqueued d now)
  with assms(2) show ?thesis by (auto simp: enqueue_def engine_inv_offer quiet_offer quiet_calm)
next
  case (refill_settled key)
  with assms(2) show ?thesis by (simp add: settle_refill_def quiet_calm quiet_same_rings)
qed (auto simp: finish_refill_ok fail_refill_ok recovery_ok on_work_hint_ok apply_refill_page_ok wakeRunnableRings_ok
    engine_inv_refill quiet_refill quiet_same_rings intro!: quiet_calm)

subsection \<open>The invariant of the system\<close>

text \<open>
  What holds of an execution that still has its grant: the Ring it captured is there, the
  work of an ordinary execution is that Ring's head until the grant ends, a Gateway call
  runs under the grant, and the grant has ended before the handlers run.
\<close>

fun ended :: "phase \<Rightarrow> bool" where
  "ended (Fulfilling adv) = True"
| "ended AwaitRefill = True"
| "ended _ = False"

definition exec_ok :: "RingDeliveryEngine \<Rightarrow> execution \<Rightarrow> phase \<Rightarrow> bool" where
  "exec_ok e x p \<longleftrightarrow> (\<not> ex_direct x \<longrightarrow> ex_hasRing x)
     \<and> (holding p \<and> ex_hasRing x \<longrightarrow> (\<exists>r. ring_at e (ex_key x) = Some r
          \<and> (activeGrant r \<and> \<not> ex_direct x \<longrightarrow> ring_head r = Some (ex_work x))
          \<and> ((\<exists>d c. p = AwaitGateway d c) \<longrightarrow> activeGrant r) \<and> (ended p \<longrightarrow> \<not> activeGrant r)))
     \<and> (holding p \<and> \<not> ex_hasRing x \<longrightarrow> (\<forall>r. ring_at e (ex_key x) = Some r \<longrightarrow> \<not> activeGrant r))"

definition holders :: "(execution \<times> phase) list \<Rightarrow> string list" where
  "holders fl = map (ex_key \<circ> fst) (filter (holding \<circ> snd) fl)"

definition system_inv :: "delivery_system \<Rightarrow> bool" where
  "system_inv s \<longleftrightarrow>
     engine_inv (ds_engine s)
     \<and> distinct (holders (ds_flight s)) \<and> length (holders (ds_flight s)) \<le> 4
     \<and> (\<not> isStoppingOrStopped (ds_engine s) \<longrightarrow> set (holders (ds_flight s)) = sched_active (scheduler (ds_engine s)))
     \<and> (eng_state (ds_engine s) = EngStopped \<longrightarrow> ds_flight s = [] \<and> sched_active (scheduler (ds_engine s)) = {})
     \<and> (\<forall>(x, p) \<in> set (ds_flight s). exec_ok (ds_engine s) x p)"

lemma holders_simps [simp]:
  "holders [] = []" "holders (xs @ ys) = holders xs @ holders ys"
  "holders ((x, p) # ys) = (if holding p then ex_key x # holders ys else holders ys)"
  by (simp_all add: holders_def)

lemma exec_ok_keeps:
  assumes "keeps_heads K e e'" "exec_ok e x p" "holding p \<longrightarrow> ex_key x \<notin> K"
  shows "exec_ok e' x p"
proof (cases "holding p \<and> ex_hasRing x")
  case True
  then obtain r where r: "ring_at e (ex_key x) = Some r" "activeGrant r \<and> \<not> ex_direct x \<longrightarrow> ring_head r = Some (ex_work x)"
    "(\<exists>d c. p = AwaitGateway d c) \<longrightarrow> activeGrant r" "ended p \<longrightarrow> \<not> activeGrant r"
    using assms(2) unfolding exec_ok_def by blast
  from assms(1,3) True r(1) have "keeps_ring (Some r) (ring_at e' (ex_key x))"
    unfolding keeps_heads_def by metis
  from keeps_ringD(1) [OF this] r assms(2) True show ?thesis by (auto simp: exec_ok_def)
next
  case False
  have "\<not> activeGrant r'" if "holding p" "ring_at e' (ex_key x) = Some r'" for r'
    using assms that False keeps_ringD(2) [of "ring_at e (ex_key x)" r'] unfolding keeps_heads_def exec_ok_def by metis
  then show ?thesis using assms(2) False by (auto simp: exec_ok_def)
qed

lemma holding_key: "(x, p) \<in> set fl \<Longrightarrow> holding p \<Longrightarrow> ex_key x \<in> set (holders fl)"
  by (force simp: holders_def)

lemma system_inv_calm:
  assumes "system_inv s" "engine_inv e" "calm (ds_engine s) e"
  shows "system_inv (s\<lparr>ds_engine := e\<rparr>)"
  using assms by (auto simp: system_inv_def calm_def intro: exec_ok_keeps)

text \<open>A grant.\<close>

lemma sched_claim_effect:
  assumes "sched_inv s" "sched_claim s = (s', Some g)"
  shows "sched_inv s'" "sched_permitLimit s' = sched_permitLimit s"
    "sched_active s' = insert (grant_ringKey g) (sched_active s)" "grant_ringKey g \<notin> sched_active s"
    "sched_ready s' = sched_ready s - {grant_ringKey g}" "card (sched_active s) < sched_permitLimit s"
proof -
  show "sched_inv s'" using sched_inv_claim [OF assms(1)] assms(2) by simp
  show "grant_ringKey g \<notin> sched_active s" using claim_grant_was_ready(2) [OF assms(1), of g] assms(2) by simp
  show "sched_permitLimit s' = sched_permitLimit s" "sched_active s' = insert (grant_ringKey g) (sched_active s)"
    "sched_ready s' = sched_ready s - {grant_ringKey g}" "card (sched_active s) < sched_permitLimit s"
    using assms(2) by (cases rule: claim_cases [of s]; auto)+
qed

lemma drain_turn_cases:
  assumes "drain_turn now e = Some (e', ox)"
  obtains (released) s g where "ox = None" "sched_claim (scheduler e) = (s, Some g)"
      "e' = e\<lparr>scheduler := sched_release (grant_ringKey g) s\<rparr>"
      "\<forall>r. ring_at e (grant_ringKey g) = Some r \<longrightarrow> ring_head r = None"
  | (direct) s g x where "ox = Some x" "sched_claim (scheduler e) = (s, Some g)" "e' = e\<lparr>scheduler := s\<rparr>"
      "ring_at e (grant_ringKey g) = None" "ex_key x = grant_ringKey g" "ex_direct x" "\<not> ex_hasRing x"
  | (ring) s g x r where "ox = Some x" "sched_claim (scheduler e) = (s, Some g)"
      "e' = set_ring (beginGrant now r) (e\<lparr>scheduler := s\<rparr>)" "ring_at e (grant_ringKey g) = Some r"
      "ex_key x = grant_ringKey g" "ex_hasRing x" "\<not> ex_direct x \<longrightarrow> ring_head r = Some (ex_work x)"
  using assms
  by (auto simp: drain_turn_def Let_def split: if_splits prod.splits option.splits)

lemma drain_turn_ok:
  assumes turn: "drain_turn now e = Some (e', ox)" and inv: "engine_inv e"
  shows "engine_inv e'" and "\<not> isStoppingOrStopped e" and "eng_state e' = eng_state e"
    and "ox = None \<Longrightarrow> calm e e'"
    and "ox = Some x \<Longrightarrow> ex_key x \<notin> sched_active (scheduler e)
          \<and> sched_active (scheduler e') = insert (ex_key x) (sched_active (scheduler e))
          \<and> card (sched_active (scheduler e)) < 4 \<and> keeps_heads {ex_key x} e e' \<and> exec_ok e' x (AwaitGateway d c)"
proof -
  show run: "\<not> isStoppingOrStopped e"
    using turn by (auto simp: drain_turn_def isStoppingOrStopped_def split: if_splits)
  have si: "sched_inv (scheduler e)" "sched_permitLimit (scheduler e) = 4" using inv by (simp_all add: engine_inv_def)
  show "engine_inv e'"
    using turn
  proof (cases rule: drain_turn_cases)
    case (released s g)
    note eff = sched_claim_effect [OF si(1) released(2)]
    have "tok r (sched_release (grant_ringKey g) s)" if "ring_at e k = Some r" for k r
    proof -
      have "k = grant_ringKey g \<Longrightarrow> \<not> readyToken r"
        using released(4) that engine_inv_ring(2) [OF inv that] by (auto simp: ring_head_def ring_inv_def)
      then show ?thesis
        using engine_inv_ring(1,4) [OF inv that] run eff by (auto simp: tok_def sched_release_effect)
    qed
    then show ?thesis unfolding released(3)
      using inv eff si by (intro engine_inv_scheduler) (auto simp: sched_release_effect sched_inv_release)
  next
    case (direct s g x)
    note eff = sched_claim_effect [OF si(1) direct(2)]
    have "tok r s" if "ring_at e k = Some r" for k r
      using direct(4) that engine_inv_ring(1,4) [OF inv that] run eff by (auto simp: tok_def)
    then show ?thesis unfolding direct(3) using inv eff si by (intro engine_inv_scheduler) auto
  next
    case (ring s g x r)
    note eff = sched_claim_effect [OF si(1) ring(2)]
    have key: "ring_key (beginGrant now r) = grant_ringKey g"
      using engine_inv_ring(1) [OF inv ring(4)] by (simp add: beginGrant_def touch_def)
    have new: "bytes (beginGrant now r) = bytes r" "tok (beginGrant now r) s"
      using eff(3) key by (simp_all add: tok_def beginGrant_def touch_def)
    have "engine_inv (e\<lparr>rings := AList.update (ring_key (beginGrant now r)) (beginGrant now r) (rings e),
        scheduler := s, cachedBytes := cachedBytes e\<rparr>)"
      using inv ring(4) key eff si engine_inv_ring(2) [OF inv ring(4)] new
      by (intro engine_inv_update [where r = r]) (auto simp: ring_inv_beginGrant same_shape_ops engine_inv_def)
    moreover have "e' = e\<lparr>rings := AList.update (ring_key (beginGrant now r)) (beginGrant now r) (rings e),
        scheduler := s, cachedBytes := cachedBytes e\<rparr>"
      by (simp add: ring(3) set_ring_def)
    ultimately show ?thesis by simp
  qed
  show "eng_state e' = eng_state e" using turn by (cases rule: drain_turn_cases) simp_all
  show "calm e e'" if "ox = None"
    using turn
  proof (cases rule: drain_turn_cases)
    case (released s g)
    then show ?thesis using sched_claim_effect [OF si(1) released(2)]
      by (auto simp: calm_def keeps_heads_def sched_release_effect isStoppingOrStopped_def)
  qed (simp_all add: that)
  show "ex_key x \<notin> sched_active (scheduler e)
          \<and> sched_active (scheduler e') = insert (ex_key x) (sched_active (scheduler e))
          \<and> card (sched_active (scheduler e)) < 4 \<and> keeps_heads {ex_key x} e e' \<and> exec_ok e' x (AwaitGateway d c)"
    if "ox = Some x"
    using turn
  proof (cases rule: drain_turn_cases)
    case (direct s g x')
    then show ?thesis using sched_claim_effect [OF si(1) direct(2)] si(2) that
      by (auto simp: keeps_heads_def exec_ok_def)
  next
    case (ring s g x' r)
    then show ?thesis using sched_claim_effect [OF si(1) ring(2)] si(2) that engine_inv_ring(1) [OF inv ring(4)]
      by (auto simp: keeps_heads_def exec_ok_def beginGrant_def touch_def ring_head_def)
  qed (simp add: that)
qed

text \<open>What an execution's own stretches change: its Ring, and nothing that another execution relies on.\<close>

definition own_step :: "execution \<Rightarrow> RingDeliveryEngine \<Rightarrow> RingDeliveryEngine \<Rightarrow> bool" where
  "own_step x e e' \<longleftrightarrow> keeps_heads {ex_key x} e e' \<and> sched_active (scheduler e') = sched_active (scheduler e)
     \<and> eng_state e' = eng_state e"

lemma own_step_quiet: "quiet e e' \<Longrightarrow> own_step x e e'"
  by (auto simp: quiet_def own_step_def keeps_heads_def)

lemma own_step_trans: "own_step x e f \<Longrightarrow> own_step x f g \<Longrightarrow> own_step x e g"
  unfolding own_step_def using keeps_heads_trans by metis

lemma ended_grant:
  assumes "ex_hasRing x \<Longrightarrow> \<exists>r. ring_at e (ex_key x) = Some r \<and> \<not> activeGrant r" and "\<not> ex_direct x \<longrightarrow> ex_hasRing x"
    and "\<not> ex_hasRing x \<Longrightarrow> \<forall>r. ring_at e (ex_key x) = Some r \<longrightarrow> \<not> activeGrant r" and "\<And>d c. p \<noteq> AwaitGateway d c"
  shows "exec_ok e x p"
  using assms by (cases "ex_hasRing x") (auto simp: exec_ok_def)

lemma discard_frame:
  "limits (discard r now e) = limits e" "scheduler (discard r now e) = scheduler e" "eng_state (discard r now e) = eng_state e"
  "coldRecoveryEnabled (discard r now e) = coldRecoveryEnabled e"
  "limits (discardAll r now e) = limits e" "scheduler (discardAll r now e) = scheduler e"
  "eng_state (discardAll r now e) = eng_state e"
  by (auto simp: discard_def discardAll_def Let_def split: prod.splits option.splits)

lemma ring_at_discard:
  "ring_at (discard r now e) = (ring_at e)(ring_key r \<mapsto> finishGrant now (fst (removeHead now r)))"
  "ring_at (discardAll r now e) = (ring_at e)(ring_key r \<mapsto> finishGrant now (fst (removeAll_ring now r)))"
  by (auto simp: discard_def discardAll_def Let_def finishGrant_def touch_def removeHead_def removeAll_ring_def
      split: prod.splits option.splits list.splits)

lemma finishGrant_inactive [simp]: "\<not> activeGrant (finishGrant now r)"
  by (simp add: finishGrant_def touch_def)

lemma discard_own_step:
  assumes "engine_inv e" "captured_ring x e = Some r"
  shows "own_step x e (discard r now e)" "own_step x e (discardAll r now e)"
    "\<exists>r'. ring_at (discard r now e) (ex_key x) = Some r' \<and> \<not> activeGrant r'"
    "\<exists>r'. ring_at (discardAll r now e) (ex_key x) = Some r' \<and> \<not> activeGrant r'"
proof -
  have "ring_key r = ex_key x"
    using assms engine_inv_ring(1) [of e "ex_key x" r] by (simp add: captured_ring_def split: if_splits)
  then show "own_step x e (discard r now e)" "own_step x e (discardAll r now e)"
    "\<exists>r'. ring_at (discard r now e) (ex_key x) = Some r' \<and> \<not> activeGrant r'"
    "\<exists>r'. ring_at (discardAll r now e) (ex_key x) = Some r' \<and> \<not> activeGrant r'"
    by (auto simp: own_step_def keeps_heads_def discard_frame ring_at_discard)
qed

lemma exec_ok_ring:
  "exec_ok e x q \<Longrightarrow> holding q \<Longrightarrow> ex_hasRing x \<Longrightarrow> \<exists>r. captured_ring x e = Some r"
  unfolding exec_ok_def captured_ring_def by auto

lemma drop_oversized_own_step: "own_step x e (e\<lparr>oversized := v\<rparr>)"
  by (simp add: own_step_def keeps_heads_def)

lemma release_work_ok:
  assumes "engine_inv e" "exec_ok e x q" "holding q"
  shows "own_step x e (release_work x s now e)"
    "ex_hasRing x \<Longrightarrow> \<exists>r. ring_at (release_work x s now e) (ex_key x) = Some r \<and> \<not> activeGrant r"
    "\<not> ex_hasRing x \<Longrightarrow> \<forall>r. ring_at (release_work x s now e) (ex_key x) = Some r \<longrightarrow> \<not> activeGrant r"
proof -
  show "\<forall>r. ring_at (release_work x s now e) (ex_key x) = Some r \<longrightarrow> \<not> activeGrant r" if "\<not> ex_hasRing x"
    using assms(2,3) that by (simp add: release_work_def captured_ring_def exec_ok_def)
  show "own_step x e (release_work x s now e)"
    using discard_own_step [OF assms(1)]
    by (auto simp: release_work_def own_step_def keeps_heads_def split: option.splits)
  show "\<exists>r. ring_at (release_work x s now e) (ex_key x) = Some r \<and> \<not> activeGrant r" if "ex_hasRing x"
  proof -
    obtain r where "captured_ring x e = Some r" using exec_ok_ring [OF assms(2,3) \<open>ex_hasRing x\<close>] by blast
    with discard_own_step(3) [OF assms(1) this] show ?thesis by (simp add: release_work_def)
  qed
qed

lemma refill_ring_at [simp]: "rings (refill s f c x e) = rings e"
  by (simp add: refill_def split: option.splits)

lemma prepareForExecution_frame:
  assumes "prepareForExecution env w now e = Some (e', od)"
  shows "e' = e \<or> e' = e\<lparr>lastFailureAt := Some now\<rparr>"
  using assms by (auto simp: prepareForExecution_def split: DeliveryRingWork.splits option.splits preparer_answer.splits)

lemma begin_execution_ok:
  assumes inv: "engine_inv e" and ok: "\<And>d c. exec_ok e x (AwaitGateway d c)" and eq: "begin_execution env x now e = (e', p)"
  shows "engine_inv e'" "own_step x e e'" "exec_ok e' x p" "holding p"
proof -
  have rj: "exec_ok e x Rejecting" using ok by (auto simp: exec_ok_def)
  have nd: "\<not> ex_direct x \<longrightarrow> ex_hasRing x" using ok by (auto simp: exec_ok_def)
  have "engine_inv e' \<and> own_step x e e' \<and> exec_ok e' x p \<and> holding p"
  proof (cases "prepareForExecution env (ex_work x) now e")
    case None
    with eq inv rj show ?thesis by (auto simp: begin_execution_def execute_prefix_def own_step_def)
  next
    case (Some pr)
    obtain f od where f: "prepareForExecution env (ex_work x) now e = Some (f, od)" using Some by (cases pr) simp
    have f': "engine_inv f" "own_step x e f" "exec_ok f x (AwaitGateway d c)" for d c
      using prepareForExecution_frame [OF f] inv ok by (auto simp: own_step_def keeps_heads_def exec_ok_def)
    have rel: "engine_inv (release_work x s now f)" "own_step x e (release_work x s now f)"
      "ex_hasRing x \<Longrightarrow> \<exists>r. ring_at (release_work x s now f) (ex_key x) = Some r \<and> \<not> activeGrant r"
      "\<not> ex_hasRing x \<Longrightarrow> \<forall>r. ring_at (release_work x s now f) (ex_key x) = Some r \<longrightarrow> \<not> activeGrant r" for s
      using engine_inv_release_work [OF f'(1)] release_work_ok [OF f'(1,3)] own_step_trans [OF f'(2)] by auto
    have ended: "exec_ok (release_work x s now f) x (Fulfilling adv)"
      "exec_ok (refill a b c' d' (release_work x s now f)) x AwaitRefill" for s adv a b c' d'
      using rel(3,4) nd by (intro ended_grant; simp)+
    let ?adv = "\<lambda>d. case captured_ring x f of Some r \<Rightarrow> discardAll r now f
                 | None \<Rightarrow> f\<lparr>oversized := AList.delete (deliveryScopeKey (scope d)) (oversized f)\<rparr>"
    have adv: "engine_inv (?adv d) \<and> own_step x e (?adv d) \<and> exec_ok (?adv d) x (Fulfilling v)" for d v
    proof (cases "captured_ring x f")
      case None
      then have "\<not> ex_hasRing x" using exec_ok_ring [OF f'(3)] by auto
      then have "exec_ok (?adv d) x (Fulfilling v)" using nd f'(3) None by (intro ended_grant) (auto simp: exec_ok_def)
      then show ?thesis using None f'(1) own_step_trans [OF f'(2) drop_oversized_own_step] by simp
    next
      case (Some r)
      have "exec_ok (?adv d) x (Fulfilling v)"
        using discard_own_step(4) [OF f'(1) Some, of now] nd Some by (intro ended_grant) auto
      then show ?thesis
        using Some engine_inv_discardAll [OF f'(1) captured_ring_key [OF f'(1) Some]]
          own_step_trans [OF f'(2) discard_own_step(2) [OF f'(1) Some]] by simp
    qed
    have rf: "own_step x e (refill a b c' d' (release_work x s now f))" for s a b c' d'
      by (rule own_step_trans [OF rel(2) own_step_quiet [OF quiet_refill]])
    show ?thesis
    proof (cases od)
      case None
      with eq rel(1,2) ended(1) show ?thesis by (auto simp: begin_execution_def execute_prefix_def f Let_def)
    next
      case (Some d)
      note eqd = eq [unfolded begin_execution_def execute_prefix_def f Some, simplified Let_def option.case prod.case]
      consider (advanced) "env_advance env d"
        | (refused) "\<not> env_advance env d" "env_claim env (conversationPage d) d = None"
        | (claimed) c where "\<not> env_advance env d" "env_claim env (conversationPage d) d = Some c" by blast
      then show ?thesis
      proof cases
        case advanced
        with eqd have "e' = ?adv d" "p = Fulfilling (AdvanceScope (scope d))" by simp_all
        with adv [of d] show ?thesis by simp
      next
        case refused
        with eqd rel(1,2) ended rf engine_inv_refill [OF rel(1)] show ?thesis by (auto split: if_splits)
      next
        case claimed
        with eqd f' show ?thesis by auto
      qed
    qed
  qed
  then show "engine_inv e'" "own_step x e e'" "exec_ok e' x p" "holding p" by auto
qed

lemma execute_settle_ok:
  assumes inv: "engine_inv e" and ok: "exec_ok e x (AwaitGateway d c)" and eq: "execute_settle x d a now e = (e', adv)"
  shows "engine_inv e'" "own_step x e e'" "exec_ok e' x (Fulfilling v)"
proof -
  define f where "f = (if case execute_try d a of Inr _ \<Rightarrow> True | Inl _ \<Rightarrow> False
    then e\<lparr>lastDeliveryAt := Some now\<rparr> else e\<lparr>lastFailureAt := Some now\<rparr>)"
  have f: "engine_inv f" "own_step x e f" "exec_ok f x (AwaitGateway d c)"
    using inv ok by (auto simp: f_def own_step_def keeps_heads_def exec_ok_def)
  have e': "e' = release_work x (scope d) now f" using eq by (simp add: execute_settle_def Let_def f_def)
  have nd: "\<not> ex_direct x \<longrightarrow> ex_hasRing x" using ok by (auto simp: exec_ok_def)
  show "engine_inv e'" unfolding e' by (rule engine_inv_release_work [OF f(1)])
  show "own_step x e e'" unfolding e' using own_step_trans [OF f(2) release_work_ok(1) [OF f(1,3)]] by simp
  show "exec_ok e' x (Fulfilling v)"
    using release_work_ok(2,3) [OF f(1,3)] nd unfolding e' by (intro ended_grant) simp_all
qed

text \<open>The handlers release the grant of the execution's key and nothing else.\<close>

definition released_step :: "string \<Rightarrow> RingDeliveryEngine \<Rightarrow> RingDeliveryEngine \<Rightarrow> bool" where
  "released_step k e e' \<longleftrightarrow> keeps_heads {k} e e' \<and> sched_active (scheduler e') = sched_active (scheduler e) - {k}
     \<and> eng_state e' = eng_state e"

lemma released_quiet: "released_step k e f \<Longrightarrow> quiet f g \<Longrightarrow> released_step k e g"
  unfolding released_step_def quiet_def
  using keeps_heads_trans [of "{k}" e f g] by (auto simp: keeps_heads_def)

lemma engine_inv_released:
  assumes "engine_inv e" "\<forall>r. ring_at e k = Some r \<and> \<not> isStoppingOrStopped e \<longrightarrow> \<not> activeGrant r"
  shows "engine_inv (e\<lparr>scheduler := sched_release k (scheduler e)\<rparr>)"
proof (rule engine_inv_scheduler [OF assms(1)])
  show "sched_inv (sched_release k (scheduler e))" "sched_permitLimit (sched_release k (scheduler e)) = 4"
    using assms(1) by (simp_all add: engine_inv_def sched_inv_release sched_release_effect)
  show "tok r (sched_release k (scheduler e))" if "\<not> isStoppingOrStopped e" "ring_at e j = Some r" for j r
    using engine_inv_ring(1,4) [OF assms(1) that(2)] assms(2) that by (auto simp: tok_def sched_release_effect)
qed

lemma run_fulfilled_ok:
  assumes "engine_inv e" "\<forall>r. ring_at e k = Some r \<and> \<not> isStoppingOrStopped e \<longrightarrow> \<not> activeGrant r"
  shows "engine_inv (run_fulfilled k adv e)" "released_step k e (run_fulfilled k adv e)"
proof -
  let ?f = "e\<lparr>scheduler := sched_release k (scheduler e)\<rparr>"
  have f: "engine_inv ?f" by (rule engine_inv_released [OF assms])
  have r: "released_step k e ?f" by (simp add: released_step_def keeps_heads_def sched_release_effect)
  show "engine_inv (run_fulfilled k adv e)"
    using engine_inv_refill [OF f] f by (simp add: run_fulfilled_def Let_def split: advance.splits)
  show "released_step k e (run_fulfilled k adv e)"
    using released_quiet [OF r quiet_refill] r by (simp add: run_fulfilled_def Let_def split: advance.splits)
qed

text \<open>The rejection handler releases the key first; the Ring's grant ends in the same stretch.\<close>

lemma discard_release_commute:
  "discard r now (e\<lparr>scheduler := s\<rparr>) = (discard r now e)\<lparr>scheduler := s\<rparr>"
  by (simp add: discard_def set_ring_def Let_def split: prod.splits option.splits)

lemma run_rejected_ok:
  assumes inv: "engine_inv e" and idle: "\<not> ex_hasRing x \<Longrightarrow> \<forall>r. ring_at e (ex_key x) = Some r \<and> \<not> isStoppingOrStopped e \<longrightarrow> \<not> activeGrant r"
  shows "engine_inv (run_rejected x now e)" "released_step (ex_key x) e (run_rejected x now e)"
proof -
  let ?k = "ex_key x"
  let ?s = "sched_release ?k (scheduler e)"
  define f where "f = (case captured_ring x e of
      Some r \<Rightarrow> if activeGrant r then discard r now (e\<lparr>scheduler := ?s\<rparr>)
                else if ex_direct x then e\<lparr>scheduler := ?s, oversized := AList.delete ?k (oversized e)\<rparr> else e\<lparr>scheduler := ?s\<rparr>
    | None \<Rightarrow> if ex_direct x then e\<lparr>scheduler := ?s, oversized := AList.delete ?k (oversized e)\<rparr> else e\<lparr>scheduler := ?s\<rparr>)"
  have plain: "engine_inv (e\<lparr>scheduler := ?s\<rparr>)" if "\<not> (\<exists>r. captured_ring x e = Some r \<and> activeGrant r)"
    using idle that by (intro engine_inv_released [OF inv]) (auto simp: captured_ring_def split: if_splits)
  have grant: "engine_inv (discard r now (e\<lparr>scheduler := ?s\<rparr>)) \<and> released_step ?k e (discard r now (e\<lparr>scheduler := ?s\<rparr>))"
    if r: "captured_ring x e = Some r" for r
  proof -
    note own = discard_own_step [OF inv r, of now]
    have inv': "engine_inv (discard r now e)" by (rule engine_inv_discard(1) [OF inv captured_ring_key [OF inv r]])
    have "engine_inv ((discard r now e)\<lparr>scheduler := sched_release ?k (scheduler (discard r now e))\<rparr>)"
      using own(3) by (intro engine_inv_released [OF inv']) auto
    moreover have "released_step ?k e ((discard r now e)\<lparr>scheduler := ?s\<rparr>)"
      using own(1) by (simp add: released_step_def own_step_def keeps_heads_def sched_release_effect)
    ultimately show ?thesis by (simp add: discard_release_commute discard_frame)
  qed
  have f: "engine_inv f \<and> released_step ?k e f"
    using plain grant
    by (auto simp: f_def released_step_def keeps_heads_def sched_release_effect split: option.splits)
  have eq: "run_rejected x now e = (let g = f\<lparr>lastFailureAt := Some now\<rparr> in
      if coldRecoveryEnabled g then refill (Some (scope (work (ex_work x)))) True Ordinary None g else g)"
    by (simp add: run_rejected_def f_def Let_def captured_ring_def split: option.splits)
  have g: "engine_inv (f\<lparr>lastFailureAt := Some now\<rparr>)" "released_step ?k e (f\<lparr>lastFailureAt := Some now\<rparr>)"
    using f by (simp_all add: released_step_def keeps_heads_def)
  then show "engine_inv (run_rejected x now e)" "released_step ?k e (run_rejected x now e)"
    using engine_inv_refill [OF g(1)] released_quiet [OF g(2) quiet_refill] by (simp_all add: eq Let_def)
qed

text \<open>Moving one execution of the flight.\<close>

lemma system_inv_own:
  assumes inv: "system_inv s" and fl: "ds_flight s = xs @ (x, p) # ys" and hold: "holding p"
    and new: "engine_inv e'" "own_step x (ds_engine s) e'" "exec_ok e' x p'" "holding p'"
  shows "system_inv (s\<lparr>ds_engine := e', ds_flight := xs @ (x, p') # ys\<rparr>)"
proof -
  have "exec_ok e' y q" if "(y, q) \<in> set xs \<union> set ys" for y q
  proof (rule exec_ok_keeps [of "{ex_key x}" "ds_engine s"])
    show "holding q \<longrightarrow> ex_key y \<notin> {ex_key x}"
      using inv fl hold that holding_key [of y q xs] holding_key [of y q ys] by (auto simp: system_inv_def)
  qed (use inv fl new that in \<open>auto simp: system_inv_def own_step_def\<close>)
  with inv fl hold new show ?thesis
    by (auto simp: system_inv_def own_step_def isStoppingOrStopped_def)
qed

lemma system_inv_release:
  assumes inv: "system_inv s" and fl: "ds_flight s = xs @ (x, p) # ys" and hold: "holding p"
    and new: "engine_inv e'" "released_step (ex_key x) (ds_engine s) e'" "\<not> holding p'"
  shows "system_inv (s\<lparr>ds_engine := e', ds_flight := xs @ (x, p') # ys\<rparr>)"
proof -
  have "exec_ok e' y q" if "(y, q) \<in> set xs \<union> set ys" for y q
  proof (rule exec_ok_keeps [of "{ex_key x}" "ds_engine s"])
    show "holding q \<longrightarrow> ex_key y \<notin> {ex_key x}"
      using inv fl hold that holding_key [of y q xs] holding_key [of y q ys] by (auto simp: system_inv_def)
  qed (use inv fl new that in \<open>auto simp: system_inv_def released_step_def\<close>)
  moreover have "exec_ok e' x p'" using inv fl new(3) by (auto simp: system_inv_def exec_ok_def)
  ultimately show ?thesis
    using inv fl hold new by (auto simp: system_inv_def released_step_def isStoppingOrStopped_def)
qed

inductive_cases settled_cases: "flight_move x e (AwaitGateway d claim) e' p'"

lemma flight_move_ok:
  assumes fm: "flight_move x e p e' p'" and inv: "engine_inv e" and ok: "exec_ok e x p" and hold: "holding p"
  shows "engine_inv e' \<and> (if holding p' then own_step x e e' \<and> exec_ok e' x p' else released_step (ex_key x) e e')"
  using fm
proof cases
  case (settled d a now adv claim)
  with execute_settle_ok [OF inv, of x d] ok show ?thesis by auto
next
  case (settle_threw d claim now)
  note rel = release_work_ok [OF inv ok hold, of "scope d" now]
  have "exec_ok e' x p'" using rel(2,3) ok settle_threw by (intro ended_grant) (simp_all add: exec_ok_def)
  then show ?thesis using settle_threw rel(1) engine_inv_release_work [OF inv] by simp
next
  case refilled
  then show ?thesis using inv ok by (auto simp: own_step_def exec_ok_def)
next
  case refill_threw
  then show ?thesis using inv ok by (auto simp: own_step_def exec_ok_def)
next
  case (fulfilled adv)
  have "\<forall>r. ring_at e (ex_key x) = Some r \<and> \<not> isStoppingOrStopped e \<longrightarrow> \<not> activeGrant r"
    using ok fulfilled by (cases "ex_hasRing x") (auto simp: exec_ok_def)
  from run_fulfilled_ok [OF inv this] fulfilled show ?thesis by simp
next
  case (rejected now)
  then show ?thesis using run_rejected_ok [OF inv] ok hold by (simp add: exec_ok_def)
qed

lemma drop_finished:
  assumes "system_inv s" "ds_flight s = xs @ (x, p) # ys" "\<not> holding p" "engine_inv e" "calm (ds_engine s) e"
  shows "system_inv (s\<lparr>ds_engine := e, ds_flight := xs @ ys\<rparr>)"
proof -
  have "system_inv (s\<lparr>ds_engine := e\<rparr>)" using assms by (intro system_inv_calm)
  with assms(2,3) show ?thesis by (auto simp: system_inv_def)
qed

lemma run_continue_ok:
  "engine_inv e \<Longrightarrow> engine_inv (run_continue k now e)" "engine_inv e \<Longrightarrow> calm e (run_continue k now e)"
proof -
  assume inv: "engine_inv e"
  let ?f = "case ring_at e k of None \<Rightarrow> e | Some r \<Rightarrow> makeReady r now e"
  have f: "engine_inv ?f" "quiet e ?f"
    using inv engine_inv_ring(1) [OF inv] by (auto simp: engine_inv_makeReady quiet_makeReady split: option.splits)
  then show "engine_inv (run_continue k now e)" by (simp add: run_continue_def engine_inv_queueDrain)
  have "quiet ?f (queueDrain ?f)" by (rule quiet_same_rings) (simp_all add: queueDrain_def)
  with f(2) have "quiet e (queueDrain ?f)" by (rule quiet_trans)
  then show "calm e (run_continue k now e)" unfolding run_continue_def by (rule quiet_calm)
qed

lemma system_inv_granted:
  assumes inv: "system_inv s" and turn: "drain_turn now (ds_engine s) = Some (e, Some x)"
    and new: "engine_inv e'" "own_step x e e'" "exec_ok e' x p" "holding p"
  shows "system_inv (s\<lparr>ds_engine := e', ds_flight := ds_flight s @ [(x, p)]\<rparr>)"
proof -
  have einv: "engine_inv (ds_engine s)" using inv by (simp add: system_inv_def)
  note d = drain_turn_ok [OF turn einv]
  have run: "\<not> isStoppingOrStopped e'" "eng_state e' \<noteq> EngStopped"
    using d(2,3) new(2) by (auto simp: own_step_def isStoppingOrStopped_def)
  have hs: "set (holders (ds_flight s)) = sched_active (scheduler (ds_engine s))" "distinct (holders (ds_flight s))"
    using inv d(2) by (simp_all add: system_inv_def)
  have "length (holders (ds_flight s)) < 4" using d(5) [OF refl] hs distinct_card [OF hs(2)] by simp
  moreover have "exec_ok e' y q" if "(y, q) \<in> set (ds_flight s)" for y q
  proof (rule exec_ok_keeps [of "{ex_key x}" "ds_engine s"])
    show "keeps_heads {ex_key x} (ds_engine s) e'"
      using keeps_heads_trans [of "{ex_key x}" "ds_engine s" e e'] d(5) [OF refl] new(2) unfolding own_step_def by blast
    show "exec_ok (ds_engine s) y q" using inv that by (auto simp: system_inv_def)
    show "holding q \<longrightarrow> ex_key y \<notin> {ex_key x}" using holding_key [OF that] hs(1) d(5) [OF refl] by auto
  qed
  ultimately show ?thesis
    using new hs d(5) [OF refl] run by (auto simp: system_inv_def own_step_def)
qed

lemma system_inv_start:
  assumes "system_inv s"
  shows "system_inv (s\<lparr>ds_engine := engine_start (ds_engine s)\<rparr>)"
proof (cases "eng_state (ds_engine s) = EngStopped")
  case True
  then have "rings (ds_engine s) = []" "ds_flight s = []" "sched_active (scheduler (ds_engine s)) = {}"
    using assms by (simp_all add: system_inv_def engine_inv_def)
  with assms True show ?thesis by (simp add: system_inv_def engine_start_def engine_inv_def isStoppingOrStopped_def)
qed (simp add: engine_start_def assms)

lemma system_inv_stop:
  assumes "system_inv s"
  shows "system_inv (s\<lparr>ds_engine := stop_begin (ds_engine s)\<rparr>)"
proof (cases "eng_state (ds_engine s) = EngStopped")
  case False
  have einv: "engine_inv (ds_engine s)" using assms by (simp add: system_inv_def)
  have "engine_inv (stop_begin (ds_engine s))"
    using einv False sched_inv_clear [of "scheduler (ds_engine s)"]
    by (simp add: stop_begin_def engine_inv_def isStoppingOrStopped_def) (simp add: sched_clear_def)
  moreover have "exec_ok (stop_begin (ds_engine s)) x p = exec_ok (ds_engine s) x p" for x p
    using False by (simp add: stop_begin_def exec_ok_def)
  ultimately show ?thesis
    using assms False by (simp add: system_inv_def) (simp add: stop_begin_def isStoppingOrStopped_def)
qed (simp add: stop_begin_def assms)

lemma system_inv_stopped:
  assumes "system_inv s" "ds_flight s = []"
  shows "system_inv (s\<lparr>ds_engine := stop_finish (ds_engine s)\<rparr>)"
proof -
  have "sched_inv (sched_clear (scheduler (ds_engine s)))" "sched_permitLimit (sched_clear (scheduler (ds_engine s))) = 4"
    using assms by (simp_all add: system_inv_def engine_inv_def sched_inv_clear) (simp add: sched_clear_def)
  moreover have "sched_active (sched_clear (scheduler (ds_engine s))) = {}" by (simp add: sched_clear_def)
  ultimately show ?thesis
    using assms by (simp add: system_inv_def stop_finish_def engine_inv_def isStoppingOrStopped_def asum_def)
qed

lemma system_inv_step:
  assumes "engine_step s s'" and inv: "system_inv s"
  shows "system_inv s'"
proof -
  have einv: "engine_inv (ds_engine s)" using inv by (simp add: system_inv_def)
  show ?thesis using assms(1)
  proof cases
    case (move e)
    with engine_move_ok [OF move(2) einv] inv show ?thesis by (simp add: system_inv_calm)
  next
    case (granted_none now e)
    with drain_turn_ok(1,4) [OF granted_none(2) einv] inv show ?thesis by (simp add: system_inv_calm)
  next
    case (granted now e x env e' p)
    note d = drain_turn_ok [OF granted(2) einv]
    have "exec_ok e x (AwaitGateway dl c)" for dl c using d(5) [OF refl] by blast
    from begin_execution_ok [OF d(1) this granted(3)] granted inv show ?thesis by (simp add: system_inv_granted)
  next
    case (granted_threw now e x)
    note d = drain_turn_ok [OF granted_threw(2) einv]
    have "exec_ok e x Rejecting" using d(5) [OF refl] by (auto simp: exec_ok_def)
    with granted_threw d(1) inv show ?thesis by (simp add: system_inv_granted own_step_def)
  next
    case (flown xs x p ys e p')
    have ok: "exec_ok (ds_engine s) x p" using inv flown(2) by (auto simp: system_inv_def)
    have hold: "holding p" using flown(3) by cases simp_all
    from flight_move_ok [OF flown(3) einv ok hold] flown inv hold show ?thesis
      by (auto simp: system_inv_own system_inv_release split: if_splits)
  next
    case (continued xs x ys now)
    then show ?thesis using drop_finished [OF inv continued(2)] run_continue_ok [OF einv] by simp
  next
    case (finished xs x p ys)
    have "quiet (ds_engine s) (queueDrain (ds_engine s))" by (rule quiet_same_rings) (simp_all add: queueDrain_def)
    with finished drop_finished [OF inv finished(2,3)] engine_inv_queueDrain [OF einv] show ?thesis
      by (simp add: quiet_calm)
  qed (simp_all add: system_inv_start system_inv_stop system_inv_stopped inv)
qed

lemma system_inv_new: "system_inv \<lparr>ds_engine = new_engine lim cold port, ds_flight = []\<rparr>"
  by (simp add: system_inv_def new_engine_def engine_inv_def sched_inv_new asum_def isStoppingOrStopped_def)
    (simp add: new_scheduler_def)

theorem reachable_system_inv: "engine_reachable lim s \<Longrightarrow> system_inv s"
  by (induction rule: engine_reachable.induct) (auto intro: system_inv_new system_inv_step)

lemma flight_move_holding: "flight_move x e p e' p' \<Longrightarrow> holding p"
  by (cases rule: flight_move.cases) auto

lemma step_limits:
  assumes "engine_step s s'" and inv: "system_inv s"
  shows "limits (ds_engine s') = limits (ds_engine s)"
proof -
  have einv: "engine_inv (ds_engine s)" using inv by (simp add: system_inv_def)
  note defs = calm_def own_step_def released_step_def keeps_heads_def
  show ?thesis using assms(1)
  proof cases
    case (move e)
    with engine_move_ok [OF move(2) einv] show ?thesis by (simp add: defs)
  next
    case (granted_none now e)
    with drain_turn_ok(4) [OF granted_none(2) einv] show ?thesis by (simp add: defs)
  next
    case (granted now e x env e' p)
    note d = drain_turn_ok [OF granted(2) einv]
    have "exec_ok e x (AwaitGateway dl c)" for dl c using d(5) [OF refl] by blast
    from begin_execution_ok(2) [OF d(1) this granted(3)] granted d(5) [OF refl] show ?thesis by (simp add: defs)
  next
    case (granted_threw now e x)
    with drain_turn_ok(5) [OF granted_threw(2) einv refl] show ?thesis by (simp add: defs)
  next
    case (flown xs x p ys e p')
    have ok: "exec_ok (ds_engine s) x p" using inv flown(2) by (auto simp: system_inv_def)
    from flight_move_ok [OF flown(3) einv ok flight_move_holding [OF flown(3)]] flown show ?thesis
      by (simp add: defs split: if_splits)
  next
    case (continued xs x ys now)
    with run_continue_ok(2) [OF einv] show ?thesis by (simp add: defs)
  qed (simp_all add: queueDrain_def engine_start_def stop_begin_def stop_finish_def)
qed

lemma reachable_limits: "engine_reachable lim s \<Longrightarrow> limits (ds_engine s) = lim"
proof (induction rule: engine_reachable.induct)
  case (initial cold port)
  then show ?case by (simp add: new_engine_def)
next
  case (step s s')
  then show ?case using step_limits [OF step(2) reachable_system_inv [OF step(1)]] by simp
qed

lemma ring_inv_items:
  assumes "ring_inv r"
  shows "bytes r = sum_list (map (\<lambda>d. estimatedBytes (work d)) (ring_items r))"
    and "ring_key r = deliveryScopeKey (ring_scope r)"
    and "int (length (ring_items r)) \<le> max 0 (itemLimit r)" and "bytes r \<le> max 0 (byteLimit r)"
    and "distinct (map (\<lambda>d. replyId (work d)) (ring_items r))"
    and "sorted_wrt (\<lambda>a b. deliveryOrder (work a) < deliveryOrder (work b)) (ring_items r)"
    and "\<forall>d \<in> set (ring_items r). work_scope_key d = ring_key r"
  using assms by (auto simp: ring_inv_def ring_items_def comp_def sorted_wrt_map)

subsection \<open>Properties of the reachable states\<close>

text \<open>
  C2: In every reachable state of the delivery engine at most four executions hold a grant,
  no two of them are for the same delivery scope, and while the engine is not stopping the
  scheduler's active keys are exactly theirs.
\<close>
theorem executions_bounded_and_exclusive:
  assumes "engine_reachable lim s"
  shows "length (holders (ds_flight s)) \<le> 4 \<and> distinct (holders (ds_flight s))
       \<and> (\<not> isStoppingOrStopped (ds_engine s) \<longrightarrow>
            sched_active (scheduler (ds_engine s)) = set (holders (ds_flight s)))"
  using reachable_system_inv [OF assms] by (simp add: system_inv_def)


text \<open>
  C8: In every reachable state the process byte count is the sum of the bytes of the cached
  deliveries over all Rings and is within the process limit; every Ring keeps to the item
  and byte limits of its scope and holds distinct deliveries of that scope in strictly
  increasing delivery order.
\<close>
theorem cache_within_limits:
  assumes "engine_reachable lim s"
  shows "cachedBytes (ds_engine s) = asum (\<lambda>r. sum_list (map (\<lambda>d. estimatedBytes (work d)) (ring_items r))) (rings (ds_engine s))
       \<and> cachedBytes (ds_engine s) \<le> max 0 (processBytes lim)
       \<and> (\<forall>k r. ring_at (ds_engine s) k = Some r \<longrightarrow>
            k = deliveryScopeKey (ring_scope r)
            \<and> int (length (ring_items r)) \<le> max 0 (scopeItemLimit lim (ring_scope r))
            \<and> sum_list (map (\<lambda>d. estimatedBytes (work d)) (ring_items r)) \<le> max 0 (scopeByteLimit lim (ring_scope r))
            \<and> distinct (map (\<lambda>d. replyId (work d)) (ring_items r))
            \<and> sorted_wrt (\<lambda>a b. deliveryOrder (work a) < deliveryOrder (work b)) (ring_items r)
            \<and> (\<forall>d \<in> set (ring_items r). work_scope_key d = k))"
proof -
  have inv: "engine_inv (ds_engine s)" using reachable_system_inv [OF assms] by (simp add: system_inv_def)
  have "asum bytes (rings (ds_engine s))
      = asum (\<lambda>r. sum_list (map (\<lambda>d. estimatedBytes (work d)) (ring_items r))) (rings (ds_engine s))"
    unfolding asum_def using inv by (intro arg_cong [of _ _ sum_list] map_cong) (auto simp: engine_inv_def ring_inv_items(1))
  then have total: "cachedBytes (ds_engine s)
      = asum (\<lambda>r. sum_list (map (\<lambda>d. estimatedBytes (work d)) (ring_items r))) (rings (ds_engine s))"
    and limit: "cachedBytes (ds_engine s) \<le> max 0 (processBytes lim)"
    using inv reachable_limits [OF assms] by (simp_all add: engine_inv_def)
  show ?thesis
  proof (intro conjI allI impI total limit)
    fix k r
    assume r: "ring_at (ds_engine s) k = Some r"
    note items = ring_inv_items [OF engine_inv_ring(2) [OF inv r]] and key = engine_inv_ring(1) [OF inv r]
    have lim: "itemLimit r = scopeItemLimit lim (ring_scope r)" "byteLimit r = scopeByteLimit lim (ring_scope r)"
      using engine_inv_ring(3) [OF inv r] reachable_limits [OF assms] by (simp_all add: ring_limits_ok_def)
    show "k = deliveryScopeKey (ring_scope r)" using items(2) key by simp
    show "int (length (ring_items r)) \<le> max 0 (scopeItemLimit lim (ring_scope r))" using items(3) lim by simp
    show "sum_list (map (\<lambda>d. estimatedBytes (work d)) (ring_items r)) \<le> max 0 (scopeByteLimit lim (ring_scope r))"
      using items(1,4) lim by simp
    show "distinct (map (\<lambda>d. replyId (work d)) (ring_items r))" by (rule items(5))
    show "sorted_wrt (\<lambda>a b. deliveryOrder (work a) < deliveryOrder (work b)) (ring_items r)" by (rule items(6))
    show "\<forall>d \<in> set (ring_items r). work_scope_key d = k" using items(7) key by simp
  qed
qed

text \<open>
  C18: When an ordinary delivery comes back from the Gateway, whatever the outcome, settling it
  removes exactly that delivery: it was still the head of its Ring, its Ring keeps the rest
  in order, and every other Ring is untouched.
\<close>
theorem settle_removes_executed_head:
  assumes "engine_reachable lim s" and "(x, AwaitGateway d c) \<in> set (ds_flight s)" and "\<not> ex_direct x"
    and "execute_settle x d a now (ds_engine s) = (e', adv)"
  shows "(\<exists>r r'. ring_at (ds_engine s) (ex_key x) = Some r \<and> ring_at e' (ex_key x) = Some r'
           \<and> ring_items r = ex_work x # ring_items r' \<and> \<not> activeGrant r')
       \<and> (\<forall>k. k \<noteq> ex_key x \<longrightarrow> ring_at e' k = ring_at (ds_engine s) k)"
proof -
  have inv: "engine_inv (ds_engine s)" and ok: "exec_ok (ds_engine s) x (AwaitGateway d c)"
    using reachable_system_inv [OF assms(1)] assms(2) by (auto simp: system_inv_def)
  from ok assms(3) obtain r where r: "ring_at (ds_engine s) (ex_key x) = Some r" "ring_head r = Some (ex_work x)" "ex_hasRing x"
    by (auto simp: exec_ok_def)
  have key: "ring_key r = ex_key x" using engine_inv_ring(1) [OF inv r(1)] .
  have "ring_at e' = (ring_at (ds_engine s))(ex_key x \<mapsto> finishGrant now (fst (removeHead now r)))"
    using assms(4) r(1,3) key
    by (auto simp: execute_settle_def Let_def release_work_def captured_ring_def ring_at_discard split: if_splits)
  then show ?thesis using r
    by (cases "queue r") (auto simp: ring_items_def ring_head_def removeHead_def finishGrant_def touch_def)
qed


text \<open>
  The slot of an oversized delivery is not freed by settling it: an oversized delivery is
  granted with a Ring under its key, and settling an execution that captured a Ring discards
  from the Ring and leaves the slot, so a later grant of the key runs the same delivery again.
\<close>
lemma oversized_slot_survives_settlement:
  assumes "ex_direct x" and "captured_ring x e = Some r" and "map_of (oversized e) (ex_key x) = Some (ex_work x)"
    and "execute_settle x d a now e = (e', adv)"
  shows "map_of (oversized e') (ex_key x) = Some (ex_work x)
       \<and> (\<forall>f y. drain_turn later e' = Some (f, Some y) \<and> ex_key y = ex_key x \<longrightarrow> ex_work y = ex_work x)"
proof -
  have "oversized (discard r now f) = oversized f" for f
    by (simp add: discard_def Let_def set_ring_def split: prod.splits option.splits)
  then have over: "oversized e' = oversized e"
    using assms(2,4) by (auto simp: execute_settle_def Let_def release_work_def captured_ring_def split: if_splits)
  have "ex_work y = ex_work x" if "drain_turn later e' = Some (f, Some y)" "ex_key y = ex_key x" for f y
    using that assms(3) over
    by (auto simp: drain_turn_def Let_def split: if_splits prod.splits option.splits)
  with assms(3) over show ?thesis by auto
qed

subsection \<open>A concrete run\<close>

text \<open>
  A started engine is handed two deliveries of one pane, grants the first and holds its
  claim (\<open>sample_system\<close>).
\<close>

definition sample_delivery :: "string \<Rightarrow> int \<Rightarrow> int \<Rightarrow> DeliveryRingWork" where
  "sample_delivery i ord sz = PreparedWork
     \<lparr>replyId = i, scope = PaneScope ''w'' ''p'', ownerFence = None, parentPaneId = None, deliveryOrder = ord,
      workClass = Live, idempotencyKey = i, gatewayId = ''feishu'', gatewayProfileId = ''default'', conflictKey = ''c'',
      projectionKey = None, snapshotRevision = 1, cardSequence = None, priorCheckpoints = [], nextAttemptAt = 0,
      estimatedBytes = sz,
      preparedPlan = \<lparr>plan_gatewayId = ''feishu'', plan_profileId = ''default'', plan_rendererRevision = 1,
        plan_operation = ''message.create'', plan_intent_kind = ''message.create'', plan_intent_fields = []\<rparr>,
      planHash = ''h'', rendererRevision = 1\<rparr>"

definition sample_claim :: PreparedDeliveryClaim where
  "sample_claim = \<lparr>claim_replyId = ''r1'', claim_attemptId = ''a1'', claim_ownerId = ''o'', claim_fencingToken = 1,
     claim_planHash = ''h'', claim_snapshotRevision = 1\<rparr>"

definition sample_env :: exec_env where
  "sample_env = \<lparr>env_preparer = None, env_freeze = (\<lambda>_ _. None), env_hydrate_prepared = (\<lambda>_. None),
     env_advance = (\<lambda>_. False), env_claim = (\<lambda>_ _. Some sample_claim)\<rparr>"

definition sample_enqueued :: RingDeliveryEngine where
  "sample_enqueued = enqueue (sample_delivery ''r2'' 2 20) 1
     (enqueue (sample_delivery ''r1'' 1 10) 1 (engine_start (new_engine DEFAULT_LIMITS False False)))"

definition grant_sample :: "RingDeliveryEngine \<Rightarrow> delivery_system" where
  "grant_sample e0 = (case drain_turn 1 e0 of
     Some (e, Some x) \<Rightarrow> (case begin_execution sample_env x 1 e of (e', p) \<Rightarrow> \<lparr>ds_engine = e', ds_flight = [(x, p)]\<rparr>)
   | _ \<Rightarrow> \<lparr>ds_engine = e0, ds_flight = []\<rparr>)"

definition sample_system :: delivery_system where
  "sample_system = grant_sample sample_enqueued"

definition sample_answer :: gateway_answer where
  "sample_answer = \<lparr>ga_result = Inr \<lparr>receipt_refs = [(MessageRef, ''om_1'')], receipt_messageDeleteOutcome = None\<rparr>,
     ga_renewalLost = False, ga_acknowledge = (\<lambda>_. True)\<rparr>"

definition flight_head :: "delivery_system \<Rightarrow> execution \<times> PreparedDelivery \<times> PreparedDeliveryClaim" where
  "flight_head s = (case ds_flight s of
     (x, AwaitGateway d c) # _ \<Rightarrow> (x, d, c)
   | _ \<Rightarrow> (\<lparr>ex_key = [], ex_hasRing = False, ex_work = sample_delivery [] 0 0, ex_direct = False\<rparr>,
           (case sample_delivery [] 0 0 of PreparedWork d \<Rightarrow> d), sample_claim))"

abbreviation "sx \<equiv> fst (flight_head sample_system)"
abbreviation "sd \<equiv> fst (snd (flight_head sample_system))"
abbreviation "sc \<equiv> snd (snd (flight_head sample_system))"

lemma engine_move_step: "engine_reachable lim \<lparr>ds_engine = e, ds_flight = fl\<rparr> \<Longrightarrow> engine_move e e' \<Longrightarrow>
    engine_reachable lim \<lparr>ds_engine = e', ds_flight = fl\<rparr>"
  using engine_reachable.step [OF _ engine_step.move, of lim "\<lparr>ds_engine = e, ds_flight = fl\<rparr>" e'] by simp

lemma started_reachable:
  "engine_reachable lim \<lparr>ds_engine = engine_start (new_engine lim cold port), ds_flight = []\<rparr>"
  using engine_reachable.step [OF engine_reachable.initial engine_step.started, of lim cold port] by simp

lemma grant_sample_reachable:
  assumes "engine_reachable lim \<lparr>ds_engine = e, ds_flight = []\<rparr>"
  shows "engine_reachable lim (grant_sample e)"
proof (cases "drain_turn 1 e")
  case (Some p)
  show ?thesis
  proof (cases p)
    case (Pair e1 ox)
    show ?thesis
    proof (cases ox)
      case (Some x)
      obtain e2 q where q: "begin_execution sample_env x 1 e1 = (e2, q)" by fastforce
      have "engine_step \<lparr>ds_engine = e, ds_flight = []\<rparr> \<lparr>ds_engine = e2, ds_flight = [(x, q)]\<rparr>"
        using engine_step.granted [of 1 "\<lparr>ds_engine = e, ds_flight = []\<rparr>" e1 x sample_env e2 q]
          \<open>drain_turn 1 e = Some p\<close> Pair Some q by simp
      with assms show ?thesis
        using \<open>drain_turn 1 e = Some p\<close> Pair Some q by (auto simp: grant_sample_def intro: engine_reachable.step)
    qed (use assms \<open>drain_turn 1 e = Some p\<close> Pair in \<open>simp add: grant_sample_def\<close>)
  qed
qed (simp add: grant_sample_def assms)

lemma sample_enqueued_reachable: "engine_reachable DEFAULT_LIMITS \<lparr>ds_engine = sample_enqueued, ds_flight = []\<rparr>"
  unfolding sample_enqueued_def
  by (intro engine_move_step [OF _ engine_move.enqueued] started_reachable) (simp_all add: sample_delivery_def)

lemma sample_reachable: "engine_reachable DEFAULT_LIMITS sample_system"
  unfolding sample_system_def by (rule grant_sample_reachable [OF sample_enqueued_reachable])

lemma sample_flight: "ds_flight sample_system = [(sx, AwaitGateway sd sc)] \<and> \<not> ex_direct sx"
proof -
  have "case ds_flight sample_system of [(x, AwaitGateway d c)] \<Rightarrow> \<not> ex_direct x | _ \<Rightarrow> False" by code_simp
  then show ?thesis by (auto simp: flight_head_def split: list.splits prod.splits phase.splits)
qed

theorem executions_bounded_and_exclusive_witness:
  "holders (ds_flight sample_system) = [deliveryScopeKey (PaneScope ''w'' ''p'')]
   \<and> sched_active (scheduler (ds_engine sample_system)) = set (holders (ds_flight sample_system))"
proof -
  have "\<not> isStoppingOrStopped (ds_engine sample_system)" by code_simp
  moreover have "holders (ds_flight sample_system) = [deliveryScopeKey (PaneScope ''w'' ''p'')]" by code_simp
  ultimately show ?thesis using executions_bounded_and_exclusive [OF sample_reachable] by simp
qed

theorem cache_within_limits_witness:
  "cachedBytes (ds_engine sample_system) = 30 \<and> cachedBytes (ds_engine sample_system) \<le> max 0 (processBytes DEFAULT_LIMITS)"
proof -
  have "cachedBytes (ds_engine sample_system) = 30" by code_simp
  then show ?thesis using cache_within_limits [OF sample_reachable] by blast
qed

theorem settle_removes_executed_head_witness:
  "\<exists>r r'. ring_at (ds_engine sample_system) (ex_key sx) = Some r
      \<and> ring_at (fst (execute_settle sx sd sample_answer 2 (ds_engine sample_system))) (ex_key sx) = Some r'
      \<and> ring_items r = sample_delivery ''r1'' 1 10 # ring_items r'"
proof -
  have "ex_work sx = sample_delivery ''r1'' 1 10" by code_simp
  moreover have "(sx, AwaitGateway sd sc) \<in> set (ds_flight sample_system)" "\<not> ex_direct sx"
    using sample_flight by simp_all
  ultimately show ?thesis
    using settle_removes_executed_head [OF sample_reachable _ _ surjective_pairing, of sx sd sc sample_answer 2] by auto
qed


end
