(* ===== verification/Submission_Intent.thy ===== *)
theory Submission_Intent
  imports Json_Text "HOL-Library.Char_ord" "HOL-Library.List_Lexorder" "HOL-Library.Product_Lexorder"
begin

text \<open>
  Submission Intents, the durable record of one human input to an Agent:
  \<^verbatim>\<open>src/src/domain/submission-intent.ts\<close> and the store of
  \<^verbatim>\<open>src/src/store/sqlite/submission-intent-store.ts\<close>. A table is a list of rows with distinct
  keys or a partial map; a store method is a function on \<open>intent_store\<close>, and a method that
  throws inside its transaction is an \<open>Inl\<close> (the transaction is rolled back, so the old
  store stays). Columns holding JSON of a fixed shape are records: the program writes them
  with \<^verbatim>\<open>JSON.stringify\<close> in one key order and reads them back with \<^verbatim>\<open>JSON.parse\<close>.
\<close>

subsection \<open>Human input\<close>

record ChoiceSelectionRef =
  choice_actionSetId :: string
  choice_optionId :: string
  choice_sourceMessageId :: string

record HumanInputMessageV2 =
  input_text :: string
  input_choice :: "ChoiceSelectionRef option"

definition humanInputMessage :: "string \<Rightarrow> ChoiceSelectionRef option \<Rightarrow> HumanInputMessageV2" where
  "humanInputMessage t c = \<lparr>input_text = t, input_choice = c\<rparr>"

text \<open>\<^verbatim>\<open>,"key":\<close> before a quoted value, and the whole canonical text.\<close>

definition json_member :: "string \<Rightarrow> string \<Rightarrow> string" where
  "json_member k v = CHR '','' # json_quote k @ CHR '':'' # json_quote v"

definition canonicalHumanInputJson :: "HumanInputMessageV2 \<Rightarrow> string" where
  "canonicalHumanInputJson i =
     CHR ''{'' # json_quote ''schemaVersion'' @ '':2'' @ json_member ''text'' (input_text i) @
     (case input_choice i of
        None \<Rightarrow> [CHR ''}'']
      | Some c \<Rightarrow>
          CHR '','' # json_quote ''choice'' @ '':{'' @ json_quote ''actionSetId'' @ CHR '':'' # json_quote (choice_actionSetId c) @
          json_member ''optionId'' (choice_optionId c) @ json_member ''sourceMessageId'' (choice_sourceMessageId c) @ ''}}'')"

lemma canonicalHumanInputJson_inject [simp]:
  "canonicalHumanInputJson a = canonicalHumanInputJson b \<longleftrightarrow> a = b"
proof
  assume eq: "canonicalHumanInputJson a = canonicalHumanInputJson b"
  let ?rest = "\<lambda>i. case input_choice i of
        None \<Rightarrow> [CHR ''}'']
      | Some c \<Rightarrow>
          CHR '','' # json_quote ''choice'' @ '':{'' @ json_quote ''actionSetId'' @ CHR '':'' # json_quote (choice_actionSetId c) @
          json_member ''optionId'' (choice_optionId c) @ json_member ''sourceMessageId'' (choice_sourceMessageId c) @ ''}}''"
  have "json_quote (input_text a) @ ?rest a = json_quote (input_text b) @ ?rest b"
    using eq by (simp add: canonicalHumanInputJson_def json_member_def)
  from json_quote_cancel [OF this] have tx: "input_text a = input_text b" and rest: "?rest a = ?rest b" by auto
  have "input_choice a = input_choice b"
  proof (cases "input_choice a"; cases "input_choice b")
    fix c d assume c: "input_choice a = Some c" and d: "input_choice b = Some d"
    from rest c d have "json_quote (choice_actionSetId c) @
          json_member ''optionId'' (choice_optionId c) @ json_member ''sourceMessageId'' (choice_sourceMessageId c) @ ''}}''
        = json_quote (choice_actionSetId d) @
          json_member ''optionId'' (choice_optionId d) @ json_member ''sourceMessageId'' (choice_sourceMessageId d) @ ''}}''"
      by simp
    from json_quote_cancel [OF this] have 1: "choice_actionSetId c = choice_actionSetId d"
      and more: "json_quote (choice_optionId c) @ json_member ''sourceMessageId'' (choice_sourceMessageId c) @ ''}}''
        = json_quote (choice_optionId d) @ json_member ''sourceMessageId'' (choice_sourceMessageId d) @ ''}}''"
      by (auto simp: json_member_def)
    from json_quote_cancel [OF more] have 2: "choice_optionId c = choice_optionId d"
      "choice_sourceMessageId c = choice_sourceMessageId d" by (auto simp: json_member_def)
    show ?thesis using c d 1 2 by simp
  qed (use rest in auto)
  with tx show "a = b" by simp
qed simp

subsection \<open>Intents and receipts\<close>

datatype SubmissionIntentState = Recorded | Attempting | PreparedState | ObservedState | TerminalState | CancelledState | UncertainState

datatype SubmissionIntentOwnerKind = PrimaryOwner | WorkerOwner

datatype SubmissionIntentAgentKind = Traex | Pi

datatype ActorKind = HumanActor | SystemActor

record SubmissionIntentActor =
  actor_kind :: ActorKind
  actor_id :: string
  actor_gatewayId :: string
  actor_chatId :: string
  actor_topicId :: "string option"
  actor_rootMessageId :: "string option"

record SubmissionIntentOwner =
  owner_kind :: SubmissionIntentOwnerKind
  owner_id :: string
  owner_generation :: int

datatype CoreSubmissionReceiptState = ReceiptPrepared | ReceiptObserved | ReceiptTerminal | ReceiptCancelled

record CoreSubmissionReceipt =
  rc_submissionId :: string
  rc_paneId :: string
  rc_terminalId :: string
  rc_agentKind :: SubmissionIntentAgentKind
  rc_sessionId :: "string option"
  rc_state :: CoreSubmissionReceiptState
  rc_turnId :: "string option"
  rc_startedAt :: "string option"
  rc_terminalState :: "string option"
  rc_createdAt :: timestamp
  rc_updatedAt :: timestamp

text \<open>\<^verbatim>\<open>SubmissionUncertainty\<close> and \<^verbatim>\<open>SubmissionCancellation\<close> have the same fields.\<close>

record SubmissionUncertainty =
  un_code :: string
  un_detail :: "string option"
  un_recordedAt :: timestamp

type_synonym SubmissionCancellation = SubmissionUncertainty

record SubmissionIntent =
  si_submissionId :: string
  si_ingressSource :: string
  si_sourceMessageKey :: string
  si_actor :: SubmissionIntentActor
  si_input :: HumanInputMessageV2
  si_text :: string
  si_owner :: SubmissionIntentOwner
  si_paneId :: string
  si_terminalId :: string
  si_expectedAgentKind :: SubmissionIntentAgentKind
  si_expectedSessionId :: "string option"
  si_state :: SubmissionIntentState
  si_receipt :: "CoreSubmissionReceipt option"
  si_uncertainty :: "SubmissionUncertainty option"
  si_cancellation :: "SubmissionCancellation option"
  si_attemptedAt :: "timestamp option"
  si_createdAt :: timestamp
  si_updatedAt :: timestamp

record AdmitSubmissionIntentInput =
  ad_submissionId :: string
  ad_ingressSource :: string
  ad_sourceMessageKey :: string
  ad_actor :: SubmissionIntentActor
  ad_input :: "HumanInputMessageV2 option"
  ad_text :: string
  ad_owner :: SubmissionIntentOwner
  ad_paneId :: string
  ad_terminalId :: string
  ad_expectedAgentKind :: SubmissionIntentAgentKind
  ad_expectedSessionId :: "string option"
  ad_recordedAt :: timestamp

datatype AdmitSubmissionIntentResult =
    AdmitAccepted SubmissionIntent
  | AdmitDuplicate SubmissionIntent
  | AdmitConflict SubmissionIntent

datatype SubmissionIntentRecoveryAction = SubmitAction | QueryAction | NoAction

fun submissionIntentRecoveryAction :: "SubmissionIntentState \<Rightarrow> SubmissionIntentRecoveryAction" where
  "submissionIntentRecoveryAction Recorded = SubmitAction"
| "submissionIntentRecoveryAction Attempting = QueryAction"
| "submissionIntentRecoveryAction PreparedState = QueryAction"
| "submissionIntentRecoveryAction UncertainState = QueryAction"
| "submissionIntentRecoveryAction _ = NoAction"

definition coreReceiptMatchesIntent :: "SubmissionIntent \<Rightarrow> CoreSubmissionReceipt \<Rightarrow> bool" where
  "coreReceiptMatchesIntent intent receipt =
     (rc_submissionId receipt = si_submissionId intent \<and> rc_paneId receipt = si_paneId intent
      \<and> rc_terminalId receipt = si_terminalId intent \<and> rc_agentKind receipt = si_expectedAgentKind intent
      \<and> (si_expectedSessionId intent = None \<or> rc_sessionId receipt = si_expectedSessionId intent))"

text \<open>A receipt's state as an intent's state.\<close>

fun receipt_intent_state :: "CoreSubmissionReceiptState \<Rightarrow> SubmissionIntentState" where
  "receipt_intent_state ReceiptPrepared = PreparedState"
| "receipt_intent_state ReceiptObserved = ObservedState"
| "receipt_intent_state ReceiptTerminal = TerminalState"
| "receipt_intent_state ReceiptCancelled = CancelledState"

text \<open>The table \<^verbatim>\<open>rank\<close>, extended by 0 to the states it is never read at.\<close>

fun state_rank :: "SubmissionIntentState \<Rightarrow> nat" where
  "state_rank PreparedState = 1"
| "state_rank ObservedState = 2"
| "state_rank TerminalState = 3"
| "state_rank CancelledState = 3"
| "state_rank _ = 0"

definition canAdoptCoreReceipt :: "SubmissionIntent \<Rightarrow> CoreSubmissionReceipt \<Rightarrow> bool" where
  "canAdoptCoreReceipt current receipt =
     (if \<not> coreReceiptMatchesIntent current receipt then False
      else if si_state current = Recorded then False
      else if si_state current = TerminalState \<or> si_state current = CancelledState
      then si_state current = receipt_intent_state (rc_state receipt) \<and> si_receipt current = Some receipt
      else if si_state current = Attempting \<or> si_state current = UncertainState then True
      else state_rank (si_state current) \<le> state_rank (receipt_intent_state (rc_state receipt)))"

subsection \<open>The store\<close>

datatype InputCardState = CardPending | CardWorking

record InputCardRow =
  card_state :: InputCardState
  card_observedEventId :: "string option"
  card_messageId :: "string option"
  card_revision :: int

datatype SegmentState = SegPending | SegWorking | SegCompleted | SegFailed | SegCancelled | SegNeedsHuman | SegClosed

record SegmentRow =
  seg_humanEventId :: "string option"
  seg_state :: SegmentState

datatype CanonicalRecoveryState = RecRecovered | RecRetryWait | RecNeedsHuman | RecAutoClosed

datatype CanonicalInputRecoveryOutcome = OutRecovered | OutIndexing | OutNotFound | OutAmbiguous | OutUnavailable

record CanonicalAttempt =
  ca_state :: CanonicalRecoveryState
  ca_failureCode :: "CanonicalInputRecoveryOutcome option"
  ca_attemptCount :: nat
  ca_nextAttemptAt :: "timestamp option"
  ca_updatedAt :: timestamp

text \<open>A scan position: the empty texts a new scan starts with are \<open>None\<close>.\<close>

record recovery_scan =
  scan_cutoff :: timestamp
  scan_after :: "(timestamp \<times> string) option"

record intent_store =
  intents :: "SubmissionIntent list"
  recovery_scan :: "recovery_scan option"
  input_cards :: "string \<rightharpoonup> InputCardRow"
  segments :: "string \<rightharpoonup> SegmentRow"
  canonical_attempts :: "string \<rightharpoonup> CanonicalAttempt"
  canonical_scan :: "recovery_scan option"

datatype store_error = StoreError string

definition empty_store :: intent_store where
  "empty_store = \<lparr>intents = [], recovery_scan = None, input_cards = Map.empty, segments = Map.empty,
     canonical_attempts = Map.empty, canonical_scan = None\<rparr>"

definition get_intent :: "string \<Rightarrow> intent_store \<Rightarrow> SubmissionIntent option" where
  "get_intent i st = find (\<lambda>r. si_submissionId r = i) (intents st)"

definition findBySource :: "string \<Rightarrow> string \<Rightarrow> intent_store \<Rightarrow> SubmissionIntent option" where
  "findBySource src key st = find (\<lambda>r. si_ingressSource r = src \<and> si_sourceMessageKey r = key) (intents st)"

text \<open>
  \<^verbatim>\<open>UPDATE submission_intents SET ... WHERE submission_id = ? AND ...\<close>: the store and whether
  the row changed (\<^verbatim>\<open>changes === 1\<close>, the id being the primary key).
\<close>

definition update_intent :: "string \<Rightarrow> (SubmissionIntent \<Rightarrow> bool) \<Rightarrow> (SubmissionIntent \<Rightarrow> SubmissionIntent)
    \<Rightarrow> intent_store \<Rightarrow> intent_store \<times> bool" where
  "update_intent i cond f st =
     (st\<lparr>intents := map (\<lambda>r. if si_submissionId r = i \<and> cond r then f r else r) (intents st)\<rparr>,
      \<exists>r \<in> set (intents st). si_submissionId r = i \<and> cond r)"

definition normalizeHumanInput :: "AdmitSubmissionIntentInput \<Rightarrow> HumanInputMessageV2 option" where
  "normalizeHumanInput input = (case ad_input input of
     None \<Rightarrow> Some (humanInputMessage (ad_text input) None)
   | Some m \<Rightarrow> if input_text m \<noteq> ad_text input then None else Some (humanInputMessage (input_text m) (input_choice m)))"

definition matchesImmutableIdentity :: "SubmissionIntent \<Rightarrow> AdmitSubmissionIntentInput \<Rightarrow> HumanInputMessageV2 \<Rightarrow> bool" where
  "matchesImmutableIdentity intent input normalized =
     (actor_kind (si_actor intent) = actor_kind (ad_actor input)
      \<and> actor_id (si_actor intent) = actor_id (ad_actor input)
      \<and> actor_gatewayId (si_actor intent) = actor_gatewayId (ad_actor input)
      \<and> actor_chatId (si_actor intent) = actor_chatId (ad_actor input)
      \<and> actor_topicId (si_actor intent) = actor_topicId (ad_actor input)
      \<and> actor_rootMessageId (si_actor intent) = actor_rootMessageId (ad_actor input)
      \<and> canonicalHumanInputJson (si_input intent) = canonicalHumanInputJson normalized
      \<and> owner_kind (si_owner intent) = owner_kind (ad_owner input)
      \<and> owner_id (si_owner intent) = owner_id (ad_owner input)
      \<and> owner_generation (si_owner intent) = owner_generation (ad_owner input)
      \<and> si_paneId intent = ad_paneId input \<and> si_terminalId intent = ad_terminalId input
      \<and> si_expectedAgentKind intent = ad_expectedAgentKind input
      \<and> si_expectedSessionId intent = ad_expectedSessionId input)"

definition new_intent :: "AdmitSubmissionIntentInput \<Rightarrow> HumanInputMessageV2 \<Rightarrow> SubmissionIntent" where
  "new_intent input normalized =
     \<lparr>si_submissionId = ad_submissionId input, si_ingressSource = ad_ingressSource input,
      si_sourceMessageKey = ad_sourceMessageKey input, si_actor = ad_actor input, si_input = normalized,
      si_text = ad_text input, si_owner = ad_owner input, si_paneId = ad_paneId input,
      si_terminalId = ad_terminalId input, si_expectedAgentKind = ad_expectedAgentKind input,
      si_expectedSessionId = ad_expectedSessionId input, si_state = Recorded, si_receipt = None,
      si_uncertainty = None, si_cancellation = None, si_attemptedAt = None,
      si_createdAt = ad_recordedAt input, si_updatedAt = ad_recordedAt input\<rparr>"

text \<open>\<^verbatim>\<open>admit\<close>; \<open>Inl\<close> when the typed input's text is not the text (\<^verbatim>\<open>normalizeHumanInput\<close> throws).\<close>

definition admit_intent :: "AdmitSubmissionIntentInput \<Rightarrow> intent_store
    \<Rightarrow> store_error + intent_store \<times> AdmitSubmissionIntentResult" where
  "admit_intent input st =
     (case findBySource (ad_ingressSource input) (ad_sourceMessageKey input) st of
        Some m \<Rightarrow>
          (case normalizeHumanInput input of
             None \<Rightarrow>
               if actor_kind (si_actor m) = actor_kind (ad_actor input) \<and> actor_id (si_actor m) = actor_id (ad_actor input)
                  \<and> actor_gatewayId (si_actor m) = actor_gatewayId (ad_actor input)
                  \<and> actor_chatId (si_actor m) = actor_chatId (ad_actor input)
                  \<and> actor_topicId (si_actor m) = actor_topicId (ad_actor input)
                  \<and> actor_rootMessageId (si_actor m) = actor_rootMessageId (ad_actor input)
               then Inl (StoreError ''Submission Intent input text mismatch'')
               else Inr (st, AdmitConflict m)
           | Some n \<Rightarrow> Inr (st, if matchesImmutableIdentity m input n then AdmitDuplicate m else AdmitConflict m))
      | None \<Rightarrow>
          (case get_intent (ad_submissionId input) st of
             Some m \<Rightarrow> Inr (st, AdmitConflict m)
           | None \<Rightarrow>
               (case normalizeHumanInput input of
                  None \<Rightarrow> Inl (StoreError ''Submission Intent input text mismatch'')
                | Some n \<Rightarrow>
                    Inr (st\<lparr>intents := intents st @ [new_intent input n]\<rparr>, AdmitAccepted (new_intent input n)))))"

definition typed_unavailable :: string where
  "typed_unavailable = ''agent_input_typed_message_v1_unavailable''"

text \<open>\<^verbatim>\<open>json_extract(uncertainty_json, '$.code') = 'agent_input_typed_message_v1_unavailable'\<close>.\<close>

definition typed_uncertainty :: "SubmissionIntent \<Rightarrow> bool" where
  "typed_uncertainty r = (case si_uncertainty r of None \<Rightarrow> False | Some u \<Rightarrow> un_code u = typed_unavailable)"

definition canSafelyRetryTypedCapabilityMismatch :: "SubmissionIntent \<Rightarrow> bool" where
  "canSafelyRetryTypedCapabilityMismatch r = (si_state r = UncertainState \<and> typed_uncertainty r)"

definition claimRecorded :: "string \<Rightarrow> timestamp \<Rightarrow> intent_store \<Rightarrow> intent_store \<times> SubmissionIntent option" where
  "claimRecorded i at st =
     (case update_intent i (\<lambda>r. si_state r = Recorded \<or> si_state r = UncertainState \<and> typed_uncertainty r)
             (\<lambda>r. r\<lparr>si_state := Attempting, si_attemptedAt := Some at, si_updatedAt := at\<rparr>) st of
        (st', changed) \<Rightarrow> (st', if changed then get_intent i st' else None))"

definition recordReceipt :: "string \<Rightarrow> CoreSubmissionReceipt \<Rightarrow> intent_store \<Rightarrow> intent_store \<times> SubmissionIntent option" where
  "recordReceipt i receipt st =
     (case get_intent i st of
        None \<Rightarrow> (st, None)
      | Some current \<Rightarrow>
          if \<not> canAdoptCoreReceipt current receipt then (st, None)
          else if si_state current = receipt_intent_state (rc_state receipt) \<and> si_receipt current = Some receipt
          then (st, Some current)
          else
            (case update_intent i (\<lambda>r. si_state r = si_state current)
                    (\<lambda>r. r\<lparr>si_state := receipt_intent_state (rc_state receipt), si_receipt := Some receipt,
                           si_uncertainty := None, si_updatedAt := rc_updatedAt receipt\<rparr>) st of
               (st', changed) \<Rightarrow> (st', if changed then get_intent i st' else None)))"

definition recordUncertain :: "string \<Rightarrow> SubmissionUncertainty \<Rightarrow> intent_store \<Rightarrow> intent_store \<times> SubmissionIntent option" where
  "recordUncertain i u st =
     (case update_intent i (\<lambda>r. si_state r = Attempting \<or> si_state r = UncertainState)
             (\<lambda>r. r\<lparr>si_state := UncertainState, si_uncertainty := Some u, si_updatedAt := un_recordedAt u\<rparr>) st of
        (st', changed) \<Rightarrow> (st', if changed then get_intent i st' else None))"

definition recordDefiniteRejection :: "string \<Rightarrow> SubmissionCancellation \<Rightarrow> intent_store \<Rightarrow> intent_store \<times> SubmissionIntent option" where
  "recordDefiniteRejection i c st =
     (case update_intent i (\<lambda>r. si_state r = Attempting)
             (\<lambda>r. r\<lparr>si_state := CancelledState, si_cancellation := Some c, si_uncertainty := None,
                    si_updatedAt := un_recordedAt c\<rparr>) st of
        (st', changed) \<Rightarrow> (st', if changed then get_intent i st' else None))"

subsection \<open>Startup recovery pages\<close>

record recovery_item =
  item_action :: SubmissionIntentRecoveryAction
  item_intent :: SubmissionIntent

record recovery_page =
  rp_items :: "recovery_item list"
  rp_nextCursor :: "(timestamp \<times> string) option"
  rp_hasMore :: bool
  rp_scanCutoff :: timestamp

definition row_key :: "SubmissionIntent \<Rightarrow> timestamp \<times> string" where
  "row_key r = (si_createdAt r, si_submissionId r)"

text \<open>\<^verbatim>\<open>created_at > ? OR (created_at = ? AND submission_id > ?)\<close>; everything is after the empty cursor.\<close>

definition after_cursor :: "(timestamp \<times> string) option \<Rightarrow> SubmissionIntent \<Rightarrow> bool" where
  "after_cursor cursor r = (case cursor of
     None \<Rightarrow> True
   | Some (t, i) \<Rightarrow> t < si_createdAt r \<or> si_createdAt r = t \<and> i < si_submissionId r)"

text \<open>\<^verbatim>\<open>ORDER BY created_at, submission_id\<close>: pairs are ordered lexicographically, texts by their bytes.\<close>

definition order_rows :: "SubmissionIntent list \<Rightarrow> SubmissionIntent list" where
  "order_rows rs = sort_key row_key rs"

definition page_limit :: "int \<Rightarrow> nat" where
  "page_limit l = nat (max 1 (min 128 l))"

definition recovery_rows :: "(timestamp \<times> string) option \<Rightarrow> timestamp \<Rightarrow> intent_store \<Rightarrow> SubmissionIntent list" where
  "recovery_rows cursor cutoff st =
     order_rows (filter (\<lambda>r. (si_state r = Recorded \<or> si_state r = Attempting \<or> si_state r = PreparedState \<or> si_state r = UncertainState)
                             \<and> si_createdAt r \<le> cutoff \<and> after_cursor cursor r) (intents st))"

definition recovery_action :: "SubmissionIntent \<Rightarrow> SubmissionIntentRecoveryAction" where
  "recovery_action r =
     (if si_state r = Recorded \<and> si_attemptedAt r = None \<or> canSafelyRetryTypedCapabilityMismatch r
      then SubmitAction else QueryAction)"

definition listRecoveryWorkPage :: "int \<Rightarrow> (timestamp \<times> string) option \<Rightarrow> timestamp \<Rightarrow> intent_store \<Rightarrow> recovery_page" where
  "listRecoveryWorkPage l cursor cutoff st =
     (let rows = take (page_limit l + 1) (recovery_rows cursor cutoff st);
          page = take (page_limit l) rows
      in \<lparr>rp_items = map (\<lambda>r. \<lparr>item_action = recovery_action r, item_intent = r\<rparr>) page,
          rp_nextCursor = (case list_last page of None \<Rightarrow> cursor | Some r \<Rightarrow> Some (row_key r)),
          rp_hasMore = (page_limit l < length rows),
          rp_scanCutoff = cutoff\<rparr>)"

text \<open>The loop that claims the page's items to submit; \<open>Inl\<close> when a row no longer qualifies.\<close>

fun claim_items :: "timestamp \<Rightarrow> recovery_item list \<Rightarrow> intent_store \<Rightarrow> store_error + intent_store" where
  "claim_items at [] st = Inr st"
| "claim_items at (it # its) st =
     (if item_action it \<noteq> SubmitAction then claim_items at its st
      else case update_intent (si_submissionId (item_intent it))
             (\<lambda>r. si_state r = Recorded \<and> si_attemptedAt r = None \<or> si_state r = UncertainState \<and> typed_uncertainty r)
             (\<lambda>r. r\<lparr>si_state := Attempting, si_attemptedAt := Some at, si_updatedAt := at\<rparr>) st of
        (st', True) \<Rightarrow> claim_items at its st'
      | (st', False) \<Rightarrow> Inl (StoreError ''agent_input_recovery_claim_changed''))"

definition claimRecoveryWorkPage :: "int \<Rightarrow> timestamp \<Rightarrow> intent_store \<Rightarrow> store_error + intent_store \<times> recovery_page" where
  "claimRecoveryWorkPage l at st =
     (let cutoff = (case recovery_scan st of None \<Rightarrow> at | Some s \<Rightarrow> scan_cutoff s);
          cursor = Option.bind (recovery_scan st) scan_after;
          page = listRecoveryWorkPage l cursor cutoff st
      in case claim_items at (rp_items page) st of
           Inl err \<Rightarrow> Inl err
         | Inr st1 \<Rightarrow>
             let st2 = (case recovery_scan st1 of
                          None \<Rightarrow> st1\<lparr>recovery_scan := Some \<lparr>scan_cutoff = cutoff, scan_after = None\<rparr>\<rparr>
                        | Some _ \<Rightarrow> st1)
             in Inr (st2, page\<lparr>rp_items := map (\<lambda>it. it\<lparr>item_intent := the (get_intent (si_submissionId (item_intent it)) st2)\<rparr>)
                                   (rp_items page)\<rparr>))"

datatype recovery_outcome =
    OutcomeReceipt (outcome_id: string) CoreSubmissionReceipt
  | OutcomeRejected (outcome_id: string) SubmissionCancellation
  | OutcomeUncertain (outcome_id: string) SubmissionUncertainty

text \<open>One outcome of a page written back; \<open>Inl\<close> is the thrown error.\<close>

definition apply_outcome :: "recovery_outcome \<Rightarrow> intent_store \<Rightarrow> store_error + intent_store" where
  "apply_outcome oc st =
     (case get_intent (outcome_id oc) st of
        None \<Rightarrow> Inl (StoreError ''agent_input_recovery_intent_missing'')
      | Some current \<Rightarrow>
          (case oc of
             OutcomeReceipt i receipt \<Rightarrow>
               if \<not> canAdoptCoreReceipt current receipt then Inl (StoreError ''agent_input_recovery_receipt_conflict'')
               else (case update_intent i (\<lambda>r. si_state r = si_state current)
                       (\<lambda>r. r\<lparr>si_state := receipt_intent_state (rc_state receipt), si_receipt := Some receipt,
                              si_uncertainty := None, si_updatedAt := rc_updatedAt receipt\<rparr>) st of
                       (st', True) \<Rightarrow> Inr st'
                     | (st', False) \<Rightarrow> Inl (StoreError ''agent_input_recovery_outcome_changed''))
           | OutcomeRejected i c \<Rightarrow>
               (case update_intent i (\<lambda>r. si_state r = Attempting)
                       (\<lambda>r. r\<lparr>si_state := CancelledState, si_cancellation := Some c, si_uncertainty := None,
                              si_updatedAt := un_recordedAt c\<rparr>) st of
                  (st', True) \<Rightarrow> Inr st'
                | (st', False) \<Rightarrow> Inl (StoreError ''agent_input_recovery_outcome_changed''))
           | OutcomeUncertain i u \<Rightarrow>
               (case update_intent i (\<lambda>r. si_state r = Attempting \<or> si_state r = PreparedState \<or> si_state r = UncertainState)
                       (\<lambda>r. r\<lparr>si_state := UncertainState, si_uncertainty := Some u, si_updatedAt := un_recordedAt u\<rparr>) st of
                  (st', True) \<Rightarrow> Inr st'
                | (st', False) \<Rightarrow> Inl (StoreError ''agent_input_recovery_outcome_changed''))))"

text \<open>The loop over the outcomes with the set \<^verbatim>\<open>expected\<close> of ids not yet seen.\<close>

fun apply_outcomes :: "string set \<Rightarrow> recovery_outcome list \<Rightarrow> intent_store \<Rightarrow> store_error + intent_store" where
  "apply_outcomes expected [] st = Inr st"
| "apply_outcomes expected (oc # ocs) st =
     (if outcome_id oc \<notin> expected then Inl (StoreError ''agent_input_recovery_outcome_identity_mismatch'')
      else case apply_outcome oc st of
        Inl err \<Rightarrow> Inl err
      | Inr st' \<Rightarrow> apply_outcomes (expected - {outcome_id oc}) ocs st')"

definition completeRecoveryWorkPage :: "recovery_page \<Rightarrow> recovery_outcome list \<Rightarrow> intent_store \<Rightarrow> store_error + intent_store" where
  "completeRecoveryWorkPage page outcomes st =
     (if length outcomes \<noteq> length (rp_items page) then Inl (StoreError ''agent_input_recovery_outcome_count_mismatch'')
      else case apply_outcomes (set (map (\<lambda>it. si_submissionId (item_intent it)) (rp_items page))) outcomes st of
        Inl err \<Rightarrow> Inl err
      | Inr st1 \<Rightarrow>
          if rp_hasMore page then
            (case (rp_nextCursor page, recovery_scan st1) of
               (None, _) \<Rightarrow> Inl (StoreError ''agent_input_recovery_cursor_missing'')
             | (Some c, Some s) \<Rightarrow>
                 if scan_cutoff s = rp_scanCutoff page then Inr (st1\<lparr>recovery_scan := Some (s\<lparr>scan_after := Some c\<rparr>)\<rparr>)
                 else Inl (StoreError ''agent_input_recovery_cursor_changed'')
             | (Some c, None) \<Rightarrow> Inl (StoreError ''agent_input_recovery_cursor_changed''))
          else
            (case recovery_scan st1 of
               Some s \<Rightarrow> Inr (if scan_cutoff s = rp_scanCutoff page then st1\<lparr>recovery_scan := None\<rparr> else st1)
             | None \<Rightarrow> Inr st1))"

subsection \<open>Canonical observation and its recovery\<close>

definition clearActiveCanonicalRecovery :: "string \<Rightarrow> intent_store \<Rightarrow> intent_store" where
  "clearActiveCanonicalRecovery i st =
     (case canonical_attempts st i of
        Some a \<Rightarrow> if ca_state a = RecRetryWait \<or> ca_state a = RecNeedsHuman
                  then st\<lparr>canonical_attempts := (canonical_attempts st)(i := None)\<rparr> else st
      | None \<Rightarrow> st)"

datatype observation = ObsWorking | ObsDuplicate | ObsIgnored

text \<open>
  \<^verbatim>\<open>observeCanonicalHumanMessage\<close>: the store, the result, and the Input Card update handed to
  the outbox (message id and revision) when the legacy card had been delivered.
\<close>

definition observeCanonicalHumanMessage :: "string \<Rightarrow> string \<Rightarrow> SubmissionIntentAgentKind \<Rightarrow> string \<Rightarrow> timestamp \<Rightarrow> intent_store
    \<Rightarrow> intent_store \<times> observation \<times> (string \<times> int) option" where
  "observeCanonicalHumanMessage i eventId agent session at st =
     (case get_intent i st of
        None \<Rightarrow> (st, ObsIgnored, None)
      | Some intent \<Rightarrow>
          if si_expectedAgentKind intent \<noteq> agent
             \<or> si_expectedSessionId intent \<noteq> None \<and> si_expectedSessionId intent \<noteq> Some session
          then (st, ObsIgnored, None)
          else (case (segments st i, input_cards st i) of
            (Some segment, None) \<Rightarrow>
              if seg_humanEventId segment \<noteq> None \<and> seg_humanEventId segment \<noteq> Some [] \<and> seg_humanEventId segment \<noteq> Some eventId
              then (st, ObsIgnored, None)
              else
                let wasObserved = (si_state intent = ObservedState);
                    st1 = fst (update_intent i
                      (\<lambda>r. si_state r = Attempting \<or> si_state r = PreparedState \<or> si_state r = UncertainState \<or> si_state r = ObservedState)
                      (\<lambda>r. r\<lparr>si_state := ObservedState, si_updatedAt := at\<rparr>) st)
                in (clearActiveCanonicalRecovery i st1,
                    if seg_humanEventId segment = Some eventId \<and> wasObserved then ObsDuplicate else ObsWorking, None)
          | (_, None) \<Rightarrow> (st, ObsIgnored, None)
          | (_, Some view) \<Rightarrow>
              if card_state view = CardWorking then
                (if card_observedEventId view \<noteq> Some eventId then (st, ObsIgnored, None)
                 else (clearActiveCanonicalRecovery i st, ObsDuplicate, None))
              else if card_observedEventId view \<noteq> None then (st, ObsIgnored, None)
              else
                let next = card_revision view + 1;
                    st1 = st\<lparr>input_cards := (input_cards st)(i \<mapsto>
                      view\<lparr>card_state := CardWorking, card_observedEventId := Some eventId, card_revision := next\<rparr>)\<rparr>;
                    st2 = fst (update_intent i
                      (\<lambda>r. si_state r = Attempting \<or> si_state r = PreparedState \<or> si_state r = UncertainState)
                      (\<lambda>r. r\<lparr>si_state := ObservedState, si_updatedAt := at\<rparr>) st1)
                in (clearActiveCanonicalRecovery i st2, ObsWorking,
                    (case card_messageId view of
                       Some m \<Rightarrow> if m = [] then None else Some (m, next)
                     | None \<Rightarrow> None))))"

definition canonical_retry_delay :: "nat \<Rightarrow> int" where
  "canonical_retry_delay attempt = min (1000 * 2 ^ min (attempt - 1) 5) 30000"

definition recordCanonicalRecoveryOutcome :: "string \<Rightarrow> CanonicalInputRecoveryOutcome \<Rightarrow> timestamp \<Rightarrow> intent_store \<Rightarrow> intent_store" where
  "recordCanonicalRecoveryOutcome i outcome at st =
     (if outcome = OutRecovered then
        st\<lparr>canonical_attempts := (canonical_attempts st)(i \<mapsto>
          \<lparr>ca_state = RecRecovered, ca_failureCode = None, ca_attemptCount = 0, ca_nextAttemptAt = None, ca_updatedAt = at\<rparr>)\<rparr>
      else
        let attempts = (case canonical_attempts st i of None \<Rightarrow> 0 | Some a \<Rightarrow> ca_attemptCount a) + 1;
            autoClosed = (outcome = OutNotFound \<or> outcome = OutAmbiguous \<or> outcome = OutUnavailable)
        in st\<lparr>canonical_attempts := (canonical_attempts st)(i \<mapsto>
             \<lparr>ca_state = (if autoClosed then RecAutoClosed else RecRetryWait), ca_failureCode = Some outcome,
              ca_attemptCount = attempts,
              ca_nextAttemptAt = (if autoClosed then None else Some (at + canonical_retry_delay attempts)),
              ca_updatedAt = at\<rparr>)\<rparr>)"

definition canonical_pending :: "timestamp \<Rightarrow> (timestamp \<times> string) option \<Rightarrow> timestamp \<Rightarrow> intent_store \<Rightarrow> SubmissionIntent \<Rightarrow> bool" where
  "canonical_pending now cursor cutoff st r =
     ((case si_receipt r of
         None \<Rightarrow> False
       | Some rc \<Rightarrow> rc_turnId rc \<noteq> None \<and> rc_startedAt rc \<noteq> None \<and> rc_sessionId rc \<noteq> None)
      \<and> \<not> (case segments st (si_submissionId r) of
            None \<Rightarrow> False
          | Some sg \<Rightarrow> seg_humanEventId sg \<noteq> None
              \<and> (seg_state sg = SegCompleted \<or> seg_state sg = SegCancelled \<or> seg_state sg = SegClosed))
      \<and> (case canonical_attempts st (si_submissionId r) of
           None \<Rightarrow> True
         | Some a \<Rightarrow> ca_state a = RecRetryWait \<and> (case ca_nextAttemptAt a of None \<Rightarrow> False | Some t \<Rightarrow> t \<le> now))
      \<and> si_createdAt r \<le> cutoff \<and> after_cursor cursor r)"

record canonical_page =
  cp_items :: "SubmissionIntent list"
  cp_nextCursor :: "(timestamp \<times> string) option"
  cp_hasMore :: bool
  cp_scanCutoff :: timestamp

definition listPendingCanonicalRecoveryPage :: "int \<Rightarrow> timestamp \<Rightarrow> (timestamp \<times> string) option \<Rightarrow> timestamp \<Rightarrow> intent_store \<Rightarrow> canonical_page" where
  "listPendingCanonicalRecoveryPage l now cursor cutoff st =
     (let rows = take (page_limit l + 1) (order_rows (filter (canonical_pending now cursor cutoff st) (intents st)));
          page = take (page_limit l) rows
      in \<lparr>cp_items = page,
          cp_nextCursor = (case list_last page of None \<Rightarrow> cursor | Some r \<Rightarrow> Some (row_key r)),
          cp_hasMore = (page_limit l < length rows), cp_scanCutoff = cutoff\<rparr>)"

definition claimPendingCanonicalRecoveryPage :: "int \<Rightarrow> timestamp \<Rightarrow> intent_store \<Rightarrow> intent_store \<times> canonical_page" where
  "claimPendingCanonicalRecoveryPage l now st =
     (let cutoff = (case canonical_scan st of None \<Rightarrow> now | Some s \<Rightarrow> scan_cutoff s);
          cursor = Option.bind (canonical_scan st) scan_after;
          page = listPendingCanonicalRecoveryPage l cutoff cursor cutoff st
      in ((case canonical_scan st of
             None \<Rightarrow> st\<lparr>canonical_scan := Some \<lparr>scan_cutoff = cutoff, scan_after = None\<rparr>\<rparr>
           | Some _ \<Rightarrow> st), page))"

fun canonical_outcomes :: "string set \<Rightarrow> (string \<times> CanonicalInputRecoveryOutcome) list \<Rightarrow> timestamp \<Rightarrow> intent_store
    \<Rightarrow> store_error + intent_store" where
  "canonical_outcomes expected [] at st = Inr st"
| "canonical_outcomes expected ((i, oc) # rest) at st =
     (if i \<notin> expected then Inl (StoreError ''canonical_input_recovery_outcome_identity_mismatch'')
      else canonical_outcomes (expected - {i}) rest at (recordCanonicalRecoveryOutcome i oc at st))"

definition completeCanonicalRecoveryPage :: "canonical_page \<Rightarrow> (string \<times> CanonicalInputRecoveryOutcome) list \<Rightarrow> timestamp
    \<Rightarrow> intent_store \<Rightarrow> store_error + intent_store" where
  "completeCanonicalRecoveryPage page outcomes at st =
     (if length outcomes \<noteq> length (cp_items page) then Inl (StoreError ''canonical_input_recovery_outcome_count_mismatch'')
      else case canonical_outcomes (set (map si_submissionId (cp_items page))) outcomes at st of
        Inl err \<Rightarrow> Inl err
      | Inr st1 \<Rightarrow>
          (case (if cp_hasMore page then cp_nextCursor page else Some (0, []), canonical_scan st1) of
             (None, _) \<Rightarrow> Inl (StoreError ''canonical_input_recovery_cursor_missing'')
           | (Some c, None) \<Rightarrow> Inl (StoreError ''canonical_input_recovery_cursor_changed'')
           | (Some c, Some s) \<Rightarrow>
               if scan_cutoff s \<noteq> cp_scanCutoff page then Inl (StoreError ''canonical_input_recovery_cursor_changed'')
               else Inr (st1\<lparr>canonical_scan := (if cp_hasMore page then Some (s\<lparr>scan_after := Some c\<rparr>) else None)\<rparr>)))"

subsection \<open>Rows and their evolution\<close>

definition row_ok :: "SubmissionIntent \<Rightarrow> bool" where
  "row_ok r \<longleftrightarrow> si_text r = input_text (si_input r)
     \<and> (si_state r = Recorded \<longrightarrow> si_attemptedAt r = None \<and> si_receipt r = None)
     \<and> (\<forall>rc. si_receipt r = Some rc \<longrightarrow> coreReceiptMatchesIntent r rc)"

definition source_of :: "SubmissionIntent \<Rightarrow> string \<times> string" where
  "source_of r = (si_ingressSource r, si_sourceMessageKey r)"

definition store_inv :: "intent_store \<Rightarrow> bool" where
  "store_inv st \<longleftrightarrow> distinct (map si_submissionId (intents st)) \<and> distinct (map source_of (intents st))
     \<and> (\<forall>r \<in> set (intents st). row_ok r)"

text \<open>What admission fixes for good.\<close>

definition identity_of :: "SubmissionIntent \<Rightarrow> _" where
  "identity_of r = (si_submissionId r, si_ingressSource r, si_sourceMessageKey r, si_actor r, si_input r, si_text r,
     si_owner r, si_paneId r, si_terminalId r, si_expectedAgentKind r, si_expectedSessionId r, si_createdAt r)"

fun level :: "SubmissionIntentState \<Rightarrow> nat" where
  "level Recorded = 0"
| "level Attempting = 1"
| "level PreparedState = 1"
| "level UncertainState = 1"
| "level ObservedState = 2"
| "level TerminalState = 3"
| "level CancelledState = 3"

text \<open>
  The contract of a row: its identity is fixed, its level never falls, and a terminal or
  cancelled row keeps its state, receipt and cancellation.
\<close>

definition row_evolves :: "SubmissionIntent \<Rightarrow> SubmissionIntent \<Rightarrow> bool" where
  "row_evolves r r' \<longleftrightarrow> identity_of r' = identity_of r \<and> level (si_state r) \<le> level (si_state r')
     \<and> (level (si_state r) = 3 \<longrightarrow> si_state r' = si_state r \<and> si_receipt r' = si_receipt r \<and> si_cancellation r' = si_cancellation r)"

definition store_evolves :: "intent_store \<Rightarrow> intent_store \<Rightarrow> bool" where
  "store_evolves st st' \<longleftrightarrow> (\<forall>i r. get_intent i st = Some r \<longrightarrow> (\<exists>r'. get_intent i st' = Some r' \<and> row_evolves r r'))"

lemma row_evolves_refl [simp]: "row_evolves r r"
  by (simp add: row_evolves_def)

lemma row_evolves_trans: "row_evolves a b \<Longrightarrow> row_evolves b c \<Longrightarrow> row_evolves a c"
  by (auto simp: row_evolves_def)

lemma store_evolves_refl [simp]: "store_evolves st st"
  by (simp add: store_evolves_def)

lemma store_evolves_trans: "store_evolves a b \<Longrightarrow> store_evolves b c \<Longrightarrow> store_evolves a c"
  unfolding store_evolves_def using row_evolves_trans by meson

lemma find_map_same:
  "(\<And>r. P (f r) = P r) \<Longrightarrow> find P (map f xs) = map_option f (find P xs)"
  by (induction xs) auto

lemma find_append_Some: "find P xs = Some r \<Longrightarrow> find P (xs @ ys) = Some r"
  by (induction xs) (auto split: if_splits)

lemma get_intent_Some: "get_intent i st = Some r \<Longrightarrow> r \<in> set (intents st) \<and> si_submissionId r = i"
  by (auto simp: get_intent_def find_Some_iff)

lemma get_intent_mem:
  "store_inv st \<Longrightarrow> r \<in> set (intents st) \<Longrightarrow> get_intent (si_submissionId r) st = Some r"
proof -
  have "r \<in> set xs \<Longrightarrow> distinct (map si_submissionId xs) \<Longrightarrow> find (\<lambda>q. si_submissionId q = si_submissionId r) xs = Some r" for xs
    by (induction xs) auto
  then show "store_inv st \<Longrightarrow> r \<in> set (intents st) \<Longrightarrow> get_intent (si_submissionId r) st = Some r"
    by (simp add: store_inv_def get_intent_def)
qed

text \<open>One \<^verbatim>\<open>UPDATE\<close>: what it changes, and that a lawful one keeps the invariant and the contract.\<close>

lemma get_update_intent:
  assumes "\<And>r. si_submissionId (f r) = si_submissionId r"
  shows "get_intent j (fst (update_intent i c f st))
       = map_option (\<lambda>r. if si_submissionId r = i \<and> c r then f r else r) (get_intent j st)"
  unfolding get_intent_def update_intent_def fst_conv by (simp add: find_map_same assms)

lemma update_intent_changed:
  assumes "store_inv st"
  shows "snd (update_intent i c f st) \<longleftrightarrow> (\<exists>r. get_intent i st = Some r \<and> c r)"
  unfolding update_intent_def snd_conv using get_intent_mem [OF assms] get_intent_Some by metis

lemma update_intent_frame [simp]:
  "recovery_scan (fst (update_intent i c f st)) = recovery_scan st"
  "segments (fst (update_intent i c f st)) = segments st"
  "input_cards (fst (update_intent i c f st)) = input_cards st"
  "canonical_attempts (fst (update_intent i c f st)) = canonical_attempts st"
  by (simp_all add: update_intent_def)

lemma update_intent_ok:
  assumes inv: "store_inv st" and law: "\<And>r. r \<in> set (intents st) \<Longrightarrow> c r \<Longrightarrow> row_evolves r (f r)"
    and row: "\<And>r. r \<in> set (intents st) \<Longrightarrow> c r \<Longrightarrow> si_submissionId r = i \<Longrightarrow> si_state (f r) \<noteq> Recorded
                \<and> (\<forall>rc. si_receipt (f r) = Some rc \<longrightarrow> coreReceiptMatchesIntent r rc)"
    and keep: "\<And>r. si_submissionId (f r) = si_submissionId r"
  shows "store_inv (fst (update_intent i c f st))" and "store_evolves st (fst (update_intent i c f st))"
proof -
  define g where "g = (\<lambda>r. if si_submissionId r = i \<and> c r then f r else r)"
  have ids: "identity_of (g r) = identity_of r" if "r \<in> set (intents st)" for r
    using law [OF that] by (simp add: row_evolves_def g_def)
  have new: "intents (fst (update_intent i c f st)) = map g (intents st)" by (simp add: update_intent_def g_def)
  have d: "map si_submissionId (map g (intents st)) = map si_submissionId (intents st)"
    "map source_of (map g (intents st)) = map source_of (intents st)"
    using ids by (simp_all add: identity_of_def source_of_def)
  have "row_ok (g r)" if r: "r \<in> set (intents st)" for r
  proof -
    have "si_text (g r) = si_text r" "si_input (g r) = si_input r"
      "coreReceiptMatchesIntent (g r) rc = coreReceiptMatchesIntent r rc" for rc
      using ids [OF r] by (simp_all add: identity_of_def coreReceiptMatchesIntent_def)
    moreover have "row_ok r" using inv r by (simp add: store_inv_def)
    ultimately show ?thesis using row [OF r] unfolding row_ok_def by (auto simp: g_def)
  qed
  then have "\<forall>r \<in> set (map g (intents st)). row_ok r" by simp
  with inv d show "store_inv (fst (update_intent i c f st))" unfolding store_inv_def new d by (simp only: simp_thms)
  show "store_evolves st (fst (update_intent i c f st))"
    unfolding store_evolves_def get_update_intent [OF keep]
  proof (intro allI impI)
    fix j r assume "get_intent j st = Some r"
    then show "\<exists>r'. map_option (\<lambda>r. if si_submissionId r = i \<and> c r then f r else r) (get_intent j st) = Some r' \<and> row_evolves r r'"
      using law [of r] get_intent_Some [of j st r] by simp
  qed
qed

text \<open>The updates the methods make, each lawful on the rows its condition admits.\<close>

definition lawful :: "(SubmissionIntent \<Rightarrow> bool) \<Rightarrow> (SubmissionIntent \<Rightarrow> SubmissionIntent) \<Rightarrow> bool" where
  "lawful c f \<longleftrightarrow> (\<forall>r. si_submissionId (f r) = si_submissionId r)
     \<and> (\<forall>r. row_ok r \<and> c r \<longrightarrow> row_evolves r (f r) \<and> si_state (f r) \<noteq> Recorded
          \<and> (\<forall>rc. si_receipt (f r) = Some rc \<longrightarrow> coreReceiptMatchesIntent r rc))"

lemma lawful_update:
  assumes "store_inv st" "lawful c f"
  shows "store_inv (fst (update_intent i c f st))" "store_evolves st (fst (update_intent i c f st))"
  using update_intent_ok [OF assms(1), of c f i] assms by (auto simp: lawful_def store_inv_def)

lemma lawful_claim: "(\<And>r. c r \<Longrightarrow> si_state r = Recorded \<or> si_state r = UncertainState) \<Longrightarrow>
    lawful c (\<lambda>r. r\<lparr>si_state := Attempting, si_attemptedAt := Some at, si_updatedAt := at\<rparr>)"
  by (fastforce simp: lawful_def row_evolves_def identity_of_def row_ok_def)

lemma lawful_uncertain: "(\<And>r. c r \<Longrightarrow> si_state r = Attempting \<or> si_state r = PreparedState \<or> si_state r = UncertainState) \<Longrightarrow>
    lawful c (\<lambda>r. r\<lparr>si_state := UncertainState, si_uncertainty := Some u, si_updatedAt := un_recordedAt u\<rparr>)"
  by (fastforce simp: lawful_def row_evolves_def identity_of_def row_ok_def)

lemma lawful_rejected:
  "lawful (\<lambda>r. si_state r = Attempting) (\<lambda>r. r\<lparr>si_state := CancelledState, si_cancellation := Some x, si_uncertainty := None,
      si_updatedAt := un_recordedAt x\<rparr>)"
  by (fastforce simp: lawful_def row_evolves_def identity_of_def row_ok_def)

lemma lawful_observed:
  "(\<And>r. c r \<Longrightarrow> si_state r = Attempting \<or> si_state r = PreparedState \<or> si_state r = UncertainState \<or> si_state r = ObservedState) \<Longrightarrow>
   lawful c (\<lambda>r. r\<lparr>si_state := ObservedState, si_updatedAt := at\<rparr>)"
  by (fastforce simp: lawful_def row_evolves_def identity_of_def row_ok_def)

text \<open>Adopting a receipt updates the very row that was read, so the condition is on that row.\<close>

definition adopt :: "CoreSubmissionReceipt \<Rightarrow> SubmissionIntent \<Rightarrow> SubmissionIntent" where
  "adopt receipt r = r\<lparr>si_state := receipt_intent_state (rc_state receipt), si_receipt := Some receipt,
     si_uncertainty := None, si_updatedAt := rc_updatedAt receipt\<rparr>"

lemma adopt_evolves:
  assumes "canAdoptCoreReceipt r receipt"
  shows "row_evolves r (adopt receipt r)" "si_state (adopt receipt r) \<noteq> Recorded"
    "\<forall>rc. si_receipt (adopt receipt r) = Some rc \<longrightarrow> coreReceiptMatchesIntent r rc"
proof -
  have lv: "level (si_state r) \<le> level (receipt_intent_state (rc_state receipt))"
    using assms by (cases "si_state r"; cases "rc_state receipt") (simp_all add: canAdoptCoreReceipt_def split: if_splits)
  have final: "level (si_state r) = 3 \<longrightarrow> receipt_intent_state (rc_state receipt) = si_state r \<and> si_receipt r = Some receipt"
    using assms by (cases "si_state r") (simp_all add: canAdoptCoreReceipt_def split: if_splits)
  show "row_evolves r (adopt receipt r)" using lv final by (simp add: row_evolves_def identity_of_def adopt_def)
  show "si_state (adopt receipt r) \<noteq> Recorded" by (cases "rc_state receipt") (simp_all add: adopt_def)
  show "\<forall>rc. si_receipt (adopt receipt r) = Some rc \<longrightarrow> coreReceiptMatchesIntent r rc"
    using assms by (simp add: adopt_def canAdoptCoreReceipt_def split: if_splits)
qed

lemma adopt_update_ok:
  assumes inv: "store_inv st" and cur: "get_intent i st = Some current" and ok: "canAdoptCoreReceipt current receipt"
  shows "store_inv (fst (update_intent i (\<lambda>r. si_state r = si_state current) (adopt receipt) st))"
    and "store_evolves st (fst (update_intent i (\<lambda>r. si_state r = si_state current) (adopt receipt) st))"
proof -
  have only: "r = current" if "r \<in> set (intents st)" "si_submissionId r = i" for r
    using get_intent_mem [OF inv that(1)] that(2) cur by simp
  let ?c = "\<lambda>r. si_submissionId r = i \<and> si_state r = si_state current"
  have eq: "update_intent i (\<lambda>r. si_state r = si_state current) (adopt receipt) st = update_intent i ?c (adopt receipt) st"
    by (simp add: update_intent_def conj_commute cong: conj_cong)
  have keep: "si_submissionId (adopt receipt r) = si_submissionId r" for r by (simp add: adopt_def)
  have law: "row_evolves r (adopt receipt r) \<and> si_state (adopt receipt r) \<noteq> Recorded
      \<and> (\<forall>rc. si_receipt (adopt receipt r) = Some rc \<longrightarrow> coreReceiptMatchesIntent r rc)"
    if "r \<in> set (intents st)" "?c r" for r
    using only [OF that(1)] that(2) adopt_evolves [OF ok] by simp
  show "store_inv (fst (update_intent i (\<lambda>r. si_state r = si_state current) (adopt receipt) st))"
    "store_evolves st (fst (update_intent i (\<lambda>r. si_state r = si_state current) (adopt receipt) st))"
    unfolding eq using update_intent_ok [OF inv, of ?c "adopt receipt" i] law keep by blast+
qed

subsection \<open>Every method keeps the invariant and the contract\<close>

definition store_ok :: "intent_store \<Rightarrow> intent_store \<Rightarrow> bool" where
  "store_ok st st' \<longleftrightarrow> store_inv st' \<and> store_evolves st st'"

lemma store_ok_trans: "store_ok a b \<Longrightarrow> store_ok b c \<Longrightarrow> store_ok a c"
  using store_evolves_trans by (auto simp: store_ok_def)

lemma store_ok_refl: "store_inv st \<Longrightarrow> store_ok st st"
  by (simp add: store_ok_def)

lemma store_ok_same_rows: "store_inv st \<Longrightarrow> intents st' = intents st \<Longrightarrow> store_ok st st'"
  by (simp add: store_ok_def store_inv_def store_evolves_def get_intent_def)

lemma update_ok: "store_inv st \<Longrightarrow> lawful c f \<Longrightarrow> store_ok st (fst (update_intent i c f st))"
  using lawful_update by (simp add: store_ok_def)

lemma admit_ok:
  assumes inv: "store_inv st" and eq: "admit_intent input st = Inr (st', res)"
  shows "store_ok st st'"
proof (cases "st' = st")
  case False
  then obtain n where n: "findBySource (ad_ingressSource input) (ad_sourceMessageKey input) st = None"
    "get_intent (ad_submissionId input) st = None" "normalizeHumanInput input = Some n"
    "st' = st\<lparr>intents := intents st @ [new_intent input n]\<rparr>"
    using eq by (auto simp: admit_intent_def split: option.splits if_splits)
  have "input_text n = ad_text input"
    using n(3) by (auto simp: normalizeHumanInput_def humanInputMessage_def split: option.splits if_splits)
  with n inv have "store_inv st'"
    by (auto simp: store_inv_def new_intent_def findBySource_def get_intent_def find_None_iff row_ok_def source_of_def)
  moreover have "store_evolves st st'"
    by (auto simp: n(4) store_evolves_def get_intent_def find_append_Some)
  ultimately show ?thesis by (simp add: store_ok_def)
qed (simp add: inv store_ok_refl)

lemma claimRecorded_ok: "store_inv st \<Longrightarrow> store_ok st (fst (claimRecorded i at st))"
  by (auto simp: claimRecorded_def case_prod_unfold intro!: update_ok lawful_claim)

lemma recordUncertain_ok: "store_inv st \<Longrightarrow> store_ok st (fst (recordUncertain i u st))"
  by (auto simp: recordUncertain_def case_prod_unfold intro!: update_ok lawful_uncertain)

lemma recordDefiniteRejection_ok: "store_inv st \<Longrightarrow> store_ok st (fst (recordDefiniteRejection i x st))"
  by (auto simp: recordDefiniteRejection_def case_prod_unfold intro!: update_ok lawful_rejected)

lemma recordReceipt_ok:
  assumes "store_inv st"
  shows "store_ok st (fst (recordReceipt i rc st))"
  using assms adopt_update_ok [OF assms, of i _ rc]
  by (auto simp: recordReceipt_def store_ok_def adopt_def [abs_def] case_prod_unfold split: option.splits)

lemma claim_items_ok: "store_inv st \<Longrightarrow> claim_items at its st = Inr st' \<Longrightarrow> store_ok st st'"
proof (induction its arbitrary: st)
  case Nil
  then show ?case by (simp add: store_ok_refl)
next
  case (Cons it its)
  show ?case
  proof (cases "item_action it = SubmitAction")
    case True
    let ?st = "fst (update_intent (si_submissionId (item_intent it))
             (\<lambda>r. si_state r = Recorded \<and> si_attemptedAt r = None \<or> si_state r = UncertainState \<and> typed_uncertainty r)
             (\<lambda>r. r\<lparr>si_state := Attempting, si_attemptedAt := Some at, si_updatedAt := at\<rparr>) st)"
    have ok: "store_ok st ?st" using Cons.prems(1) by (auto intro!: update_ok lawful_claim)
    have "claim_items at its ?st = Inr st'"
      using Cons.prems(2) True by (auto split: prod.splits bool.splits)
    with Cons.IH [of ?st] ok show ?thesis using store_ok_trans by (auto simp: store_ok_def)
  qed (use Cons in simp)
qed

lemma claimRecoveryWorkPage_ok:
  assumes "store_inv st" "claimRecoveryWorkPage l at st = Inr (st', page)"
  shows "store_ok st st'"
proof -
  obtain st1 where st1: "claim_items at (rp_items (listRecoveryWorkPage l (Option.bind (recovery_scan st) scan_after)
      (case recovery_scan st of None \<Rightarrow> at | Some s \<Rightarrow> scan_cutoff s) st)) st = Inr st1" "intents st' = intents st1"
    using assms(2) by (auto simp: claimRecoveryWorkPage_def Let_def split: sum.splits option.splits)
  from claim_items_ok [OF assms(1) st1(1)] have "store_ok st st1" .
  moreover from this have "store_ok st1 st'" using st1(2) by (intro store_ok_same_rows) (simp_all add: store_ok_def)
  ultimately show ?thesis by (rule store_ok_trans)
qed

lemma apply_outcome_ok:
  assumes inv: "store_inv st" and eq: "apply_outcome oc st = Inr st'"
  shows "store_ok st st'"
proof -
  obtain current where cur: "get_intent (outcome_id oc) st = Some current"
    using eq by (auto simp: apply_outcome_def split: option.splits)
  show ?thesis
  proof (cases oc)
    case (OutcomeReceipt i receipt)
    then show ?thesis
      using eq cur adopt_update_ok [OF inv, of i current receipt]
      by (auto simp: apply_outcome_def store_ok_def adopt_def [abs_def] split: prod.splits bool.splits if_splits)
  next
    case (OutcomeRejected i x)
    then show ?thesis
      using eq cur update_ok [OF inv lawful_rejected, of i x]
      by (auto simp: apply_outcome_def split: prod.splits bool.splits)
  next
    case (OutcomeUncertain i u)
    have "store_ok st (fst (update_intent i (\<lambda>r. si_state r = Attempting \<or> si_state r = PreparedState \<or> si_state r = UncertainState)
        (\<lambda>r. r\<lparr>si_state := UncertainState, si_uncertainty := Some u, si_updatedAt := un_recordedAt u\<rparr>) st))"
      using inv by (auto intro!: update_ok lawful_uncertain)
    then show ?thesis using eq cur OutcomeUncertain by (auto simp: apply_outcome_def split: prod.splits bool.splits)
  qed
qed

lemma apply_outcomes_ok: "store_inv st \<Longrightarrow> apply_outcomes E ocs st = Inr st' \<Longrightarrow> store_ok st st'"
proof (induction ocs arbitrary: E st)
  case Nil
  then show ?case by (simp add: store_ok_refl)
next
  case (Cons oc ocs)
  then obtain st1 where st1: "apply_outcome oc st = Inr st1" "apply_outcomes (E - {outcome_id oc}) ocs st1 = Inr st'"
    by (auto split: if_splits sum.splits)
  from apply_outcome_ok [OF Cons.prems(1) st1(1)] have ok: "store_ok st st1" .
  then have "store_ok st1 st'" using Cons.IH [OF _ st1(2)] by (simp add: store_ok_def)
  with ok show ?case by (rule store_ok_trans)
qed

lemma completeRecoveryWorkPage_ok:
  assumes "store_inv st" "completeRecoveryWorkPage page ocs st = Inr st'"
  shows "store_ok st st'"
proof -
  obtain st1 where st1: "apply_outcomes (set (map (\<lambda>it. si_submissionId (item_intent it)) (rp_items page))) ocs st = Inr st1"
    "intents st' = intents st1"
    using assms(2) by (auto simp: completeRecoveryWorkPage_def split: if_splits sum.splits option.splits)
  from apply_outcomes_ok [OF assms(1) st1(1)] have "store_ok st st1" .
  moreover from this have "store_ok st1 st'" using st1(2) by (intro store_ok_same_rows) (simp_all add: store_ok_def)
  ultimately show ?thesis by (rule store_ok_trans)
qed

lemma clearActive_rows [simp]: "intents (clearActiveCanonicalRecovery i st) = intents st"
  by (simp add: clearActiveCanonicalRecovery_def split: option.splits)

lemma observe_ok:
  assumes inv: "store_inv st"
  shows "store_ok st (fst (observeCanonicalHumanMessage i ev ag ses at st))"
proof -
  have same: "store_ok st st'" if "store_ok st st1" "intents st' = intents st1" for st1 st'
    using store_ok_trans [OF that(1) store_ok_same_rows [OF _ that(2)]] that(1) by (simp add: store_ok_def)
  have seg: "store_ok st (fst (update_intent i
      (\<lambda>r. si_state r = Attempting \<or> si_state r = PreparedState \<or> si_state r = UncertainState \<or> si_state r = ObservedState)
      (\<lambda>r. r\<lparr>si_state := ObservedState, si_updatedAt := at\<rparr>) st))"
    using inv by (auto intro!: update_ok lawful_observed)
  have card: "store_ok st (fst (update_intent i
      (\<lambda>r. si_state r = Attempting \<or> si_state r = PreparedState \<or> si_state r = UncertainState)
      (\<lambda>r. r\<lparr>si_state := ObservedState, si_updatedAt := at\<rparr>) (st\<lparr>input_cards := x\<rparr>)))" for x
  proof -
    have s: "store_ok st (st\<lparr>input_cards := x\<rparr>)" using inv by (intro store_ok_same_rows) simp_all
    then have "store_inv (st\<lparr>input_cards := x\<rparr>)" by (simp add: store_ok_def)
    then show ?thesis by (intro store_ok_trans [OF s update_ok] lawful_observed) auto
  qed
  show ?thesis
    using inv store_ok_refl [OF inv] same [OF seg] same [OF card] same [OF store_ok_refl [OF inv]]
    unfolding observeCanonicalHumanMessage_def Let_def
    by (simp split: option.splits prod.splits)
qed

subsection \<open>Pages\<close>

lemma after_cursor_less: "after_cursor (Some c) r \<longleftrightarrow> c < row_key r"
  by (cases c) (auto simp: after_cursor_def row_key_def less_prod_def' less_le)

lemma after_cursor_Some: "after_cursor (Some c) = (\<lambda>r. c < row_key r)"
  by (rule ext) (rule after_cursor_less)

lemma after_cursor_trans: "after_cursor cursor r \<Longrightarrow> row_key r < row_key q \<Longrightarrow> after_cursor cursor q"
  by (cases cursor) (auto simp: after_cursor_def [of None] after_cursor_less intro: less_trans)

lemma recovery_rows_filter:
  "recovery_rows cursor cutoff st =
     filter (after_cursor cursor) (recovery_rows None cutoff st)"
  unfolding recovery_rows_def order_rows_def filter_sort
  by (simp add: after_cursor_def [of None] conj_assoc)

lemma sorted_rows: "sorted (map row_key (recovery_rows cursor cutoff st))"
  by (simp add: recovery_rows_def order_rows_def)

lemma distinct_rows:
  assumes "store_inv st"
  shows "distinct (map row_key (recovery_rows cursor cutoff st))"
proof -
  have "distinct (map row_key (intents st))"
    using assms by (auto simp: store_inv_def row_key_def distinct_map inj_on_def)
  then show ?thesis by (simp add: recovery_rows_def order_rows_def distinct_map inj_on_def)
qed

lemma distinct_row_ids:
  assumes "store_inv st"
  shows "distinct (map si_submissionId (recovery_rows cursor cutoff st))"
  using assms by (simp add: recovery_rows_def order_rows_def store_inv_def distinct_map inj_on_def)

lemma filter_after_take:
  fixes f :: "'a \<Rightarrow> 'b::linorder"
  assumes "sorted (map f xs)" "distinct (map f xs)" "take n xs \<noteq> []"
  shows "filter (\<lambda>x. f (last (take n xs)) < f x) xs = drop n xs"
proof -
  have split: "xs = take n xs @ drop n xs" by simp
  let ?l = "last (take n xs)"
  have sp: "sorted_wrt (<) (map f (take n xs @ drop n xs))" using assms(1,2) by (simp add: strict_sorted_iff)
  have below: "\<not> f ?l < f x" if "x \<in> set (take n xs)" for x
  proof -
    obtain ys where ys: "take n xs = ys @ [?l]" using assms(3) by (metis append_butlast_last_id)
    have "sorted (map f (ys @ [?l]))" using assms(1) ys by (metis sorted_wrt_take take_map)
    moreover have "x \<in> set (ys @ [?l])" using that ys by metis
    ultimately show ?thesis by (auto simp: sorted_append)
  qed
  have above: "f ?l < f x" if "x \<in> set (drop n xs)" for x
    using sp that assms(3) last_in_set [OF assms(3)]
    unfolding map_append sorted_wrt_append by auto
  have "filter (\<lambda>x. f ?l < f x) xs = filter (\<lambda>x. f ?l < f x) (take n xs) @ filter (\<lambda>x. f ?l < f x) (drop n xs)"
    by (subst split) (rule filter_append)
  also have "filter (\<lambda>x. f ?l < f x) (take n xs) = []" using below by (simp add: filter_empty_conv)
  also have "filter (\<lambda>x. f ?l < f x) (drop n xs) = drop n xs" using above by (simp add: filter_id_conv)
  finally show ?thesis by simp
qed

lemma page_limit_pos: "0 < page_limit l"
  by (simp add: page_limit_def)

lemma page_rows:
  "map item_intent (rp_items (listRecoveryWorkPage l cursor cutoff st)) = take (page_limit l) (recovery_rows cursor cutoff st)"
  "rp_hasMore (listRecoveryWorkPage l cursor cutoff st) \<longleftrightarrow> page_limit l < length (recovery_rows cursor cutoff st)"
  "\<forall>it \<in> set (rp_items (listRecoveryWorkPage l cursor cutoff st)). item_action it = recovery_action (item_intent it)"
  by (auto simp: listRecoveryWorkPage_def Let_def comp_def min_def)

lemma page_next:
  assumes "store_inv st"
  shows "recovery_rows (rp_nextCursor (listRecoveryWorkPage l cursor cutoff st)) cutoff st
       = drop (page_limit l) (recovery_rows cursor cutoff st)"
proof -
  let ?rows = "recovery_rows cursor cutoff st" and ?n = "page_limit l"
  have nx: "rp_nextCursor (listRecoveryWorkPage l cursor cutoff st)
      = (if take ?n ?rows = [] then cursor else Some (row_key (last (take ?n ?rows))))"
    by (simp add: listRecoveryWorkPage_def Let_def list_last_def min_def)
  show ?thesis
  proof (cases "take ?n ?rows = []")
    case True
    then have "?rows = []" using page_limit_pos [of l] by simp
    then show ?thesis using nx True by simp
  next
    case False
    let ?last = "last (take ?n ?rows)"
    have in_rows: "?last \<in> set ?rows" using in_set_takeD [OF last_in_set [OF False]] .
    then have after: "after_cursor cursor ?last"
      by (subst (asm) recovery_rows_filter) simp
    have "recovery_rows (Some (row_key ?last)) cutoff st = filter (\<lambda>r. row_key ?last < row_key r) (recovery_rows None cutoff st)"
      using recovery_rows_filter [of "Some (row_key ?last)" cutoff st] by (simp add: after_cursor_Some)
    also have "\<dots> = filter (\<lambda>r. row_key ?last < row_key r) (filter (after_cursor cursor) (recovery_rows None cutoff st))"
      using after_cursor_trans [OF after] by (auto intro!: filter_cong)
    also have "\<dots> = filter (\<lambda>r. row_key ?last < row_key r) ?rows" by (simp only: recovery_rows_filter [symmetric])
    also have "\<dots> = drop ?n ?rows" by (rule filter_after_take [OF sorted_rows distinct_rows [OF assms] False])
    finally show ?thesis using nx False by simp
  qed
qed

text \<open>Claiming a page cannot fail: a row listed to be submitted satisfies the claim's condition.\<close>

lemma claim_one:
  assumes inv: "store_inv st" and at: "get_intent i st = Some r" and act: "recovery_action r = SubmitAction"
  shows "snd (update_intent i (\<lambda>r. si_state r = Recorded \<and> si_attemptedAt r = None \<or> si_state r = UncertainState \<and> typed_uncertainty r)
             (\<lambda>r. r\<lparr>si_state := Attempting, si_attemptedAt := Some at, si_updatedAt := at\<rparr>) st)"
  unfolding update_intent_changed [OF inv]
  using at act by (auto simp: recovery_action_def canSafelyRetryTypedCapabilityMismatch_def split: if_splits)

lemma claim_items_succeeds:
  assumes "store_inv st" "distinct (map (\<lambda>it. si_submissionId (item_intent it)) its)"
    "\<forall>it \<in> set its. get_intent (si_submissionId (item_intent it)) st = Some (item_intent it)
       \<and> item_action it = recovery_action (item_intent it)"
  shows "\<exists>st'. claim_items at its st = Inr st'"
  using assms
proof (induction its arbitrary: st)
  case (Cons it its)
  let ?i = "si_submissionId (item_intent it)"
  show ?case
  proof (cases "item_action it = SubmitAction")
    case True
    define c where "c = (\<lambda>r. si_state r = Recorded \<and> si_attemptedAt r = None \<or> si_state r = UncertainState \<and> typed_uncertainty r)"
    define f where "f = (\<lambda>r::SubmissionIntent. r\<lparr>si_state := Attempting, si_attemptedAt := Some at, si_updatedAt := at\<rparr>)"
    let ?u = "update_intent ?i c f st"
    have ch: "snd ?u" unfolding c_def f_def
      by (rule claim_one [OF Cons.prems(1)]) (use True Cons.prems(3) in auto)
    have inv': "store_inv (fst ?u)" unfolding c_def f_def using Cons.prems(1) by (intro lawful_update lawful_claim) auto
    have keep: "si_submissionId (f r) = si_submissionId r" for r by (simp add: f_def)
    have rest: "get_intent (si_submissionId (item_intent jt)) (fst ?u) = Some (item_intent jt)" if "jt \<in> set its" for jt
    proof -
      have "get_intent (si_submissionId (item_intent jt)) st = Some (item_intent jt)" using Cons.prems(3) that by simp
      moreover have "si_submissionId (item_intent jt) \<noteq> ?i" using Cons.prems(2) that by (auto simp: image_iff)
      ultimately show ?thesis by (simp add: get_update_intent [OF keep])
    qed
    have "\<exists>st'. claim_items at its (fst ?u) = Inr st'"
      by (rule Cons.IH [OF inv']) (use Cons.prems(2,3) rest in auto)
    moreover have "claim_items at (it # its) st = claim_items at its (fst ?u)"
      using True ch unfolding c_def f_def by (auto split: prod.splits bool.splits)
    ultimately show ?thesis by simp
  next
    case False
    then show ?thesis using Cons.IH [OF Cons.prems(1)] Cons.prems(2,3) by simp
  qed
qed simp

lemma recovery_rows_mem: "r \<in> set (recovery_rows cursor cutoff st) \<Longrightarrow> r \<in> set (intents st)"
  by (auto simp: recovery_rows_def order_rows_def)

lemma claimRecoveryWorkPage_total:
  assumes inv: "store_inv st"
  shows "\<exists>st' page. claimRecoveryWorkPage l at st = Inr (st', page)"
proof -
  let ?cut = "case recovery_scan st of None \<Rightarrow> at | Some s \<Rightarrow> scan_cutoff s"
  let ?cur = "Option.bind (recovery_scan st) scan_after"
  let ?page = "listRecoveryWorkPage l ?cur ?cut st"
  have ids: "map (\<lambda>it. si_submissionId (item_intent it)) (rp_items ?page)
      = map si_submissionId (take (page_limit l) (recovery_rows ?cur ?cut st))"
    unfolding page_rows(1) [of l ?cur ?cut st, symmetric] by simp
  have "distinct (map si_submissionId (recovery_rows ?cur ?cut st))" by (rule distinct_row_ids [OF inv])
  then have dist: "distinct (map (\<lambda>it. si_submissionId (item_intent it)) (rp_items ?page))"
    unfolding ids by (simp add: take_map [symmetric])
  have "item_intent it \<in> set (intents st)" if "it \<in> set (rp_items ?page)" for it
  proof -
    have "item_intent it \<in> set (map item_intent (rp_items ?page))" using that by simp
    then have "item_intent it \<in> set (take (page_limit l) (recovery_rows ?cur ?cut st))" by (simp only: page_rows)
    then show ?thesis using in_set_takeD recovery_rows_mem by fast
  qed
  then have rows: "\<forall>it \<in> set (rp_items ?page). get_intent (si_submissionId (item_intent it)) st = Some (item_intent it)
       \<and> item_action it = recovery_action (item_intent it)"
    using get_intent_mem [OF inv] page_rows(3) [of l ?cur ?cut st] by simp
  obtain st' where "claim_items at (rp_items ?page) st = Inr st'"
    using claim_items_succeeds [OF inv dist rows, of at] by blast
  then show ?thesis by (simp add: claimRecoveryWorkPage_def Let_def)
qed

end
