(* ===== verification/Agent_Input.thy ===== *)
theory Agent_Input
  imports Submission_Intent "HOL-Library.Multiset"
begin

text \<open>
  The Agent Input workflow over the Submission Intent store: the capability gate
  (\<^verbatim>\<open>src/src/runtime/agent-input-capability.ts\<close>), the workflow
  (\<^verbatim>\<open>src/src/coordinator/agent-input-workflow.ts\<close>) and the drainer
  (\<^verbatim>\<open>src/src/coordinator/agent-input-drainer.ts\<close>). An asynchronous method is cut at its awaits;
  what Herdr Core answers arrives as an argument. \<open>agent_step\<close> interleaves the stretches of
  any number of drains and recovery pages, and a crash drops them all. The main result is
  that Core receives at most one \<^verbatim>\<open>submit\<close> for a Submission Intent over any such run.
\<close>

subsection \<open>The capability gate\<close>

record AgentInputCapabilityStatus =
  cap_required :: bool
  cap_detected :: bool
  cap_supported :: bool
  cap_ready :: bool
  cap_error :: "string option"

definition new_gate :: "bool \<Rightarrow> AgentInputCapabilityStatus" where
  "new_gate required =
     \<lparr>cap_required = required, cap_detected = False, cap_supported = False, cap_ready = \<not> required,
      cap_error = (if required then Some ''Herdr Core Agent Input capability has not been detected'' else None)\<rparr>"

text \<open>\<^verbatim>\<open>detect\<close>: the argument is \<^verbatim>\<open>agentInputSubmissionV3 === true\<close>, or \<open>None\<close> when Core's call threw.\<close>

definition gate_detect :: "bool option \<Rightarrow> AgentInputCapabilityStatus \<Rightarrow> AgentInputCapabilityStatus" where
  "gate_detect answer g = (case answer of
     Some v3 \<Rightarrow>
       \<lparr>cap_required = cap_required g, cap_detected = True, cap_supported = v3, cap_ready = \<not> cap_required g \<or> v3,
        cap_error = (if cap_required g \<and> \<not> v3 then Some ''Herdr Core does not advertise agent_input_submission_v3'' else None)\<rparr>
   | None \<Rightarrow>
       \<lparr>cap_required = cap_required g, cap_detected = False, cap_supported = False, cap_ready = \<not> cap_required g,
        cap_error = Some ''Herdr Core Agent Input capability detection failed''\<rparr>)"

subsection \<open>Core's answers\<close>

record AgentInputCoreFailure =
  fail_code :: string
  fail_detail :: "string option"

datatype SubmitAgentInputResult =
    SubmitReceipt CoreSubmissionReceipt
  | SubmitRejected AgentInputCoreFailure
  | SubmitUncertain AgentInputCoreFailure
  | SubmitThrew

datatype QueryAgentInputReceiptResult =
    QueryReceipt CoreSubmissionReceipt
  | QueryAbsent
  | QueryUnavailable AgentInputCoreFailure
  | QueryThrew

record capability_failure =
  cf_code :: string
  cf_detail :: string
  cf_definite :: bool

text \<open>
  \<^verbatim>\<open>typedInputCapabilityFailure\<close>: the second argument is Core's \<^verbatim>\<open>agentInputTypedMessageV1 === true\<close>,
  or \<open>None\<close> when the detection threw.
\<close>

definition typedInputCapabilityFailure :: "SubmissionIntent \<Rightarrow> bool option \<Rightarrow> capability_failure option" where
  "typedInputCapabilityFailure intent caps =
     (if input_choice (si_input intent) = None then None
      else if si_expectedSessionId intent = None
      then Some \<lparr>cf_code = ''typed_input_session_required'',
                 cf_detail = ''Typed Agent Input requires an expected session identity'', cf_definite = True\<rparr>
      else case caps of
        Some True \<Rightarrow> None
      | Some False \<Rightarrow>
          Some \<lparr>cf_code = typed_unavailable,
                cf_detail = ''Herdr Core does not advertise agent_input_typed_message_v1'', cf_definite = False\<rparr>
      | None \<Rightarrow>
          Some \<lparr>cf_code = typed_unavailable,
                cf_detail = ''Herdr Core typed Agent Input capability detection failed'', cf_definite = False\<rparr>)"

subsection \<open>The drainer\<close>

definition markUncertain :: "string \<Rightarrow> string \<Rightarrow> string option \<Rightarrow> timestamp \<Rightarrow> intent_store \<Rightarrow> intent_store \<times> SubmissionIntent option" where
  "markUncertain i code detail now st = recordUncertain i \<lparr>un_code = code, un_detail = detail, un_recordedAt = now\<rparr> st"

text \<open>\<^verbatim>\<open>drain\<close> after a capability failure, and after Core's answer to \<^verbatim>\<open>submit\<close>.\<close>

definition drain_refused :: "string \<Rightarrow> capability_failure \<Rightarrow> timestamp \<Rightarrow> intent_store \<Rightarrow> intent_store \<times> SubmissionIntent option" where
  "drain_refused i f now st =
     (if cf_definite f
      then recordDefiniteRejection i \<lparr>un_code = cf_code f, un_detail = Some (cf_detail f), un_recordedAt = now\<rparr> st
      else markUncertain i (cf_code f) (Some (cf_detail f)) now st)"

definition drain_settle :: "string \<Rightarrow> SubmitAgentInputResult \<Rightarrow> timestamp \<Rightarrow> intent_store \<Rightarrow> intent_store \<times> SubmissionIntent option" where
  "drain_settle i result now st = (case result of
     SubmitReceipt receipt \<Rightarrow>
       (case recordReceipt i receipt st of
          (st', Some intent) \<Rightarrow> (st', Some intent)
        | (st', None) \<Rightarrow>
            markUncertain i ''receipt_not_adopted''
              (Some ''Core receipt did not match the immutable Submission Intent'') now st')
   | SubmitRejected f \<Rightarrow>
       recordDefiniteRejection i \<lparr>un_code = fail_code f, un_detail = fail_detail f, un_recordedAt = now\<rparr> st
   | SubmitUncertain f \<Rightarrow> markUncertain i (fail_code f) (fail_detail f) now st
   | SubmitThrew \<Rightarrow> markUncertain i ''core_submission_failure'' None now st)"

text \<open>The outcomes of a recovery page's items.\<close>

definition recovery_refused :: "SubmissionIntent \<Rightarrow> capability_failure \<Rightarrow> timestamp \<Rightarrow> recovery_outcome" where
  "recovery_refused intent f now =
     (let u = \<lparr>un_code = cf_code f, un_detail = Some (cf_detail f), un_recordedAt = now\<rparr>
      in if cf_definite f then OutcomeRejected (si_submissionId intent) u else OutcomeUncertain (si_submissionId intent) u)"

definition submitRecovery :: "SubmissionIntent \<Rightarrow> SubmitAgentInputResult \<Rightarrow> timestamp \<Rightarrow> recovery_outcome" where
  "submitRecovery intent result now = (case result of
     SubmitReceipt receipt \<Rightarrow> OutcomeReceipt (si_submissionId intent) receipt
   | SubmitRejected f \<Rightarrow>
       OutcomeRejected (si_submissionId intent) \<lparr>un_code = fail_code f, un_detail = fail_detail f, un_recordedAt = now\<rparr>
   | SubmitUncertain f \<Rightarrow>
       OutcomeUncertain (si_submissionId intent) \<lparr>un_code = fail_code f, un_detail = fail_detail f, un_recordedAt = now\<rparr>
   | SubmitThrew \<Rightarrow>
       OutcomeUncertain (si_submissionId intent) \<lparr>un_code = ''core_submission_failure'', un_detail = None, un_recordedAt = now\<rparr>)"

definition queryRecovery :: "SubmissionIntent \<Rightarrow> QueryAgentInputReceiptResult \<Rightarrow> timestamp \<Rightarrow> recovery_outcome" where
  "queryRecovery intent result now = (case result of
     QueryReceipt receipt \<Rightarrow> OutcomeReceipt (si_submissionId intent) receipt
   | QueryAbsent \<Rightarrow>
       OutcomeUncertain (si_submissionId intent)
         \<lparr>un_code = ''receipt_not_found'', un_detail = Some ''Core has no conclusive receipt'', un_recordedAt = now\<rparr>
   | QueryUnavailable f \<Rightarrow>
       OutcomeUncertain (si_submissionId intent) \<lparr>un_code = fail_code f, un_detail = fail_detail f, un_recordedAt = now\<rparr>
   | QueryThrew \<Rightarrow>
       OutcomeUncertain (si_submissionId intent) \<lparr>un_code = ''core_receipt_query_failure'', un_detail = None, un_recordedAt = now\<rparr>)"

definition recoveryRetryDelay :: "int \<Rightarrow> int \<Rightarrow> nat \<Rightarrow> int" where
  "recoveryRetryDelay initialMs maxMs attempt =
     (let start = max 0 initialMs; maximum = max start maxMs in min (start * 2 ^ min attempt 16) maximum)"

subsection \<open>The workflow\<close>

datatype AgentInputOutcome = InputAccepted | InputDuplicate | InputConflict

datatype workflow_error = CapabilityUnavailable string | InputUnavailable | InputDisappeared | AdmissionThrew store_error

definition capability_check :: "AgentInputCapabilityStatus \<Rightarrow> workflow_error option" where
  "capability_check g =
     (if \<not> cap_ready g \<or> \<not> cap_supported g
      then Some (CapabilityUnavailable (opt_or (cap_error g) ''Herdr Core Agent Input capability is unavailable'')) else None)"

text \<open>
  \<^verbatim>\<open>submit\<close> up to the drain it starts: an error, the final conflict, or the admission outcome with
  the id whose drain it awaits; and \<^verbatim>\<open>resume\<close> likewise.
\<close>

definition workflow_submit :: "AgentInputCapabilityStatus \<Rightarrow> AdmitSubmissionIntentInput \<Rightarrow> intent_store
    \<Rightarrow> workflow_error + intent_store \<times> AgentInputOutcome \<times> SubmissionIntent" where
  "workflow_submit g input st = (case capability_check g of
     Some err \<Rightarrow> Inl err
   | None \<Rightarrow>
       (case admit_intent input st of
          Inl err \<Rightarrow> Inl (AdmissionThrew err)
        | Inr (st', AdmitConflict m) \<Rightarrow> Inr (st', InputConflict, m)
        | Inr (st', AdmitDuplicate m) \<Rightarrow> Inr (st', InputDuplicate, m)
        | Inr (st', AdmitAccepted m) \<Rightarrow> Inr (st', InputAccepted, m)))"

definition workflow_resume :: "AgentInputCapabilityStatus \<Rightarrow> string \<Rightarrow> intent_store
    \<Rightarrow> workflow_error + AgentInputOutcome \<times> SubmissionIntent" where
  "workflow_resume g i st = (case capability_check g of
     Some err \<Rightarrow> Inl err
   | None \<Rightarrow>
       (case get_intent i st of
          None \<Rightarrow> Inl InputUnavailable
        | Some before \<Rightarrow> Inr (if si_state before = Recorded then InputAccepted else InputDuplicate, before)))"

subsection \<open>The system\<close>

text \<open>
  An item of a recovery page: to be submitted (its capability check pending), submitted,
  being queried, refused by the capability check, or answered.
\<close>

datatype item_state =
    ItemChecking
  | ItemSubmitting
  | ItemQuerying
  | ItemRefused recovery_outcome
  | ItemDone recovery_outcome

datatype task =
    DrainChecking SubmissionIntent
  | DrainSubmitting SubmissionIntent
  | PageTask recovery_page "(recovery_item \<times> item_state) list"

text \<open>\<open>as_submits\<close> records the submission id of every \<^verbatim>\<open>core.submit\<close> call.\<close>

record agent_system =
  as_store :: intent_store
  as_tasks :: "task list"
  as_submits :: "string list"

definition start_item :: "recovery_item \<Rightarrow> recovery_item \<times> item_state" where
  "start_item it = (it, if item_action it = SubmitAction then ItemChecking else ItemQuerying)"

text \<open>
  What the drainer relies on of Core: a failure of a call that may have had an effect does
  not carry the code by which the Bridge itself marks an input it never submitted.
\<close>

definition submit_answer_ok :: "SubmitAgentInputResult \<Rightarrow> bool" where
  "submit_answer_ok r = (case r of SubmitUncertain f \<Rightarrow> fail_code f \<noteq> typed_unavailable | _ \<Rightarrow> True)"

definition query_answer_ok :: "QueryAgentInputReceiptResult \<Rightarrow> bool" where
  "query_answer_ok r = (case r of QueryUnavailable f \<Rightarrow> fail_code f \<noteq> typed_unavailable | _ \<Rightarrow> True)"

text \<open>One step of a page item: its next state, and whether it calls \<^verbatim>\<open>core.submit\<close>.\<close>

inductive item_step :: "recovery_item \<Rightarrow> item_state \<Rightarrow> item_state \<Rightarrow> bool \<Rightarrow> bool" for it where
  refused: "typedInputCapabilityFailure (item_intent it) caps = Some f \<Longrightarrow>
    item_step it ItemChecking (ItemRefused (recovery_refused (item_intent it) f now)) False"
| submits: "typedInputCapabilityFailure (item_intent it) caps = None \<Longrightarrow> item_step it ItemChecking ItemSubmitting True"
| submitted: "submit_answer_ok r \<Longrightarrow> item_step it ItemSubmitting (ItemDone (submitRecovery (item_intent it) r now)) False"
| queried: "query_answer_ok r \<Longrightarrow> item_step it ItemQuerying (ItemDone (queryRecovery (item_intent it) r now)) False"

fun item_outcome :: "item_state \<Rightarrow> recovery_outcome option" where
  "item_outcome (ItemRefused oc) = Some oc"
| "item_outcome (ItemDone oc) = Some oc"
| "item_outcome _ = None"

inductive agent_step :: "agent_system \<Rightarrow> agent_system \<Rightarrow> bool" where
  admitted: "admit_intent input (as_store s) = Inr (st, res) \<Longrightarrow> agent_step s (s\<lparr>as_store := st\<rparr>)"
| drain_claimed: "claimRecorded i now (as_store s) = (st, Some intent) \<Longrightarrow>
    agent_step s (s\<lparr>as_store := st, as_tasks := as_tasks s @ [DrainChecking intent]\<rparr>)"
| drain_checked: "as_tasks s = xs @ DrainChecking intent # ys \<Longrightarrow> typedInputCapabilityFailure intent caps = Some f \<Longrightarrow>
    agent_step s (s\<lparr>as_store := fst (drain_refused (si_submissionId intent) f now (as_store s)), as_tasks := xs @ ys\<rparr>)"
| drain_submits: "as_tasks s = xs @ DrainChecking intent # ys \<Longrightarrow> typedInputCapabilityFailure intent caps = None \<Longrightarrow>
    agent_step s (s\<lparr>as_tasks := xs @ DrainSubmitting intent # ys, as_submits := si_submissionId intent # as_submits s\<rparr>)"
| drain_settled: "as_tasks s = xs @ DrainSubmitting intent # ys \<Longrightarrow> submit_answer_ok r \<Longrightarrow>
    agent_step s (s\<lparr>as_store := fst (drain_settle (si_submissionId intent) r now (as_store s)), as_tasks := xs @ ys\<rparr>)"
| page_claimed: "claimRecoveryWorkPage l now (as_store s) = Inr (st, page) \<Longrightarrow>
    agent_step s (s\<lparr>as_store := st, as_tasks := as_tasks s @ [PageTask page (map start_item (rp_items page))]\<rparr>)"
| item_moved: "as_tasks s = xs @ PageTask page (as @ (it, p) # bs) # ys \<Longrightarrow> item_step it p p' called \<Longrightarrow>
    agent_step s (s\<lparr>as_tasks := xs @ PageTask page (as @ (it, p') # bs) # ys,
                    as_submits := (if called then [si_submissionId (item_intent it)] else []) @ as_submits s\<rparr>)"
| page_completed: "as_tasks s = xs @ PageTask page its # ys \<Longrightarrow> map (\<lambda>x. item_outcome (snd x)) its = map Some outcomes \<Longrightarrow>
    completeRecoveryWorkPage page outcomes (as_store s) = Inr st \<Longrightarrow>
    agent_step s (s\<lparr>as_store := st, as_tasks := xs @ ys\<rparr>)"
| page_failed: "as_tasks s = xs @ PageTask page its # ys \<Longrightarrow> agent_step s (s\<lparr>as_tasks := xs @ ys\<rparr>)"
| observed: "observeCanonicalHumanMessage i ev ag ses now (as_store s) = (st, res) \<Longrightarrow> agent_step s (s\<lparr>as_store := st\<rparr>)"
| canonical: "intents st = intents (as_store s) \<Longrightarrow> agent_step s (s\<lparr>as_store := st\<rparr>)"
| crashed: "agent_step s (s\<lparr>as_tasks := []\<rparr>)"

inductive agent_reachable :: "agent_system \<Rightarrow> bool" where
  initial: "agent_reachable \<lparr>as_store = empty_store, as_tasks = [], as_submits = []\<rparr>"
| step: "agent_reachable s \<Longrightarrow> agent_step s s' \<Longrightarrow> agent_reachable s'"

subsection \<open>At most one submission\<close>

definition claimable :: "intent_store \<Rightarrow> string \<Rightarrow> bool" where
  "claimable st i \<longleftrightarrow> (\<exists>r. get_intent i st = Some r \<and> (si_state r = Recorded \<or> canSafelyRetryTypedCapabilityMismatch r))"

text \<open>The ids a task has claimed and not submitted.\<close>

fun item_holds :: "recovery_item \<times> item_state \<Rightarrow> string multiset" where
  "item_holds (it, ItemChecking) = {#si_submissionId (item_intent it)#}"
| "item_holds (it, ItemRefused oc) = {#outcome_id oc#}"
| "item_holds (it, _) = {#}"

fun task_holds :: "task \<Rightarrow> string multiset" where
  "task_holds (DrainChecking intent) = {#si_submissionId intent#}"
| "task_holds (DrainSubmitting intent) = {#}"
| "task_holds (PageTask page its) = sum_list (map item_holds its)"

definition attempts :: "agent_system \<Rightarrow> string multiset" where
  "attempts s = mset (as_submits s) + sum_list (map task_holds (as_tasks s))"

fun item_ok :: "recovery_item \<times> item_state \<Rightarrow> bool" where
  "item_ok (it, ItemDone (OutcomeUncertain i u)) = (un_code u \<noteq> typed_unavailable)"
| "item_ok _ = True"

fun task_ok :: "task \<Rightarrow> bool" where
  "task_ok (PageTask page its) = (\<forall>x \<in> set its. item_ok x)"
| "task_ok _ = True"

definition agent_inv :: "agent_system \<Rightarrow> bool" where
  "agent_inv s \<longleftrightarrow> store_inv (as_store s) \<and> (\<forall>t \<in> set (as_tasks s). task_ok t)
     \<and> (\<forall>i. count (attempts s) i \<le> 1)
     \<and> (\<forall>i. i \<in># attempts s \<longrightarrow> get_intent i (as_store s) \<noteq> None \<and> \<not> claimable (as_store s) i)"

text \<open>No update of the store makes a row claimable, except a recorded capability refusal.\<close>

lemma claimable_update:
  assumes keep: "\<And>r. si_submissionId (f r) = si_submissionId r"
    and out: "\<And>r. c r \<Longrightarrow> si_state (f r) \<noteq> Recorded \<and> \<not> canSafelyRetryTypedCapabilityMismatch (f r)"
    and cl: "claimable (fst (update_intent i c f st)) j"
  shows "claimable st j"
  using cl out unfolding claimable_def get_update_intent [OF keep] by (auto split: if_splits)

lemma claimable_update_other:
  assumes keep: "\<And>r. si_submissionId (f r) = si_submissionId r" and "claimable (fst (update_intent i c f st)) j" and "j \<noteq> i"
  shows "claimable st j"
  using assms(2,3) get_intent_Some [of j st] unfolding claimable_def get_update_intent [OF keep]
  by (auto split: if_splits)

lemma update_unclaimable:
  assumes keep: "\<And>r. si_submissionId (f r) = si_submissionId r"
    and out: "\<And>r. si_state (f r) \<noteq> Recorded \<and> \<not> canSafelyRetryTypedCapabilityMismatch (f r)"
    and row: "get_intent i st = Some r" "c r"
  shows "\<not> claimable (fst (update_intent i c f st)) i"
  using row out get_intent_Some [OF row(1)] unfolding claimable_def get_update_intent [OF keep] by auto

lemma retry_attempting [simp]: "\<not> canSafelyRetryTypedCapabilityMismatch (r\<lparr>si_state := Attempting, si_attemptedAt := x, si_updatedAt := y\<rparr>)"
  by (simp add: canSafelyRetryTypedCapabilityMismatch_def)

lemma retry_receipt [simp]: "\<not> canSafelyRetryTypedCapabilityMismatch (adopt rc r)" "si_state (adopt rc r) \<noteq> Recorded"
  by (cases "rc_state rc"; simp add: canSafelyRetryTypedCapabilityMismatch_def adopt_def)+

lemma adopt_id [simp]: "si_submissionId (adopt rc r) = si_submissionId r"
  by (simp add: adopt_def)

lemma uncertain_claimable:
  assumes "claimable (fst (update_intent i c (\<lambda>r. r\<lparr>si_state := UncertainState, si_uncertainty := Some u, si_updatedAt := t\<rparr>) st)) j"
  shows "claimable st j \<or> j = i \<and> un_code u = typed_unavailable"
proof (cases "un_code u = typed_unavailable")
  case True
  then show ?thesis using claimable_update_other [OF _ assms] by (cases "j = i") simp_all
next
  case False
  have "claimable st j"
    by (rule claimable_update [OF _ _ assms])
      (simp_all add: canSafelyRetryTypedCapabilityMismatch_def typed_uncertainty_def False)
  then show ?thesis by simp
qed

lemma claimRecorded_claims:
  assumes inv: "store_inv st" and eq: "claimRecorded i now st = (st', Some intent)"
  shows "claimable st i" "\<not> claimable st' i" "si_submissionId intent = i" "\<And>j. claimable st' j \<Longrightarrow> claimable st j"
proof -
  define c where "c = (\<lambda>r. si_state r = Recorded \<or> si_state r = UncertainState \<and> typed_uncertainty r)"
  define f where "f = (\<lambda>r::SubmissionIntent. r\<lparr>si_state := Attempting, si_attemptedAt := Some now, si_updatedAt := now\<rparr>)"
  have u: "st' = fst (update_intent i c f st)" "snd (update_intent i c f st)" "get_intent i st' = Some intent"
    using eq by (auto simp: claimRecorded_def c_def f_def split: prod.splits if_splits)
  have keep: "si_submissionId (f r) = si_submissionId r" and out: "si_state (f r) \<noteq> Recorded \<and> \<not> canSafelyRetryTypedCapabilityMismatch (f r)" for r
    by (simp_all add: f_def)
  obtain r where r: "get_intent i st = Some r" "c r" using u(2) by (auto simp: update_intent_changed [OF inv])
  show "claimable st i" using r by (auto simp: claimable_def c_def canSafelyRetryTypedCapabilityMismatch_def)
  show "\<not> claimable st' i" unfolding u(1) by (rule update_unclaimable [where f = f and c = c, OF keep out r])
  show "si_submissionId intent = i" using get_intent_Some [OF u(3)] by simp
  show "claimable st j" if "claimable st' j" for j using claimable_update [where f = f and c = c, OF keep out] that unfolding u(1) by blast
qed

lemma recordReceipt_claimable: "claimable (fst (recordReceipt i rc st)) j \<Longrightarrow> claimable st j"
proof -
  have "claimable (fst (update_intent i c (adopt rc) st)) j \<Longrightarrow> claimable st j" for c
    by (rule claimable_update) simp_all
  then show "claimable (fst (recordReceipt i rc st)) j \<Longrightarrow> claimable st j"
    by (auto simp: recordReceipt_def adopt_def [abs_def] case_prod_unfold split: option.splits if_splits)
qed

lemma recordUncertain_claimable:
  assumes "claimable (fst (recordUncertain i u st)) j"
  shows "claimable st j \<or> j = i \<and> un_code u = typed_unavailable"
  using uncertain_claimable [OF assms [unfolded recordUncertain_def case_prod_unfold fst_conv]] .

lemma recordDefiniteRejection_claimable:
  assumes "claimable (fst (recordDefiniteRejection i x st)) j"
  shows "claimable st j"
  by (rule claimable_update [OF _ _ assms [unfolded recordDefiniteRejection_def case_prod_unfold fst_conv]])
    (simp_all add: canSafelyRetryTypedCapabilityMismatch_def)

lemma admit_claimable:
  assumes "admit_intent input st = Inr (st', res)" "claimable st' j"
  shows "claimable st j \<or> get_intent j st = None"
proof (cases "st' = st")
  case False
  then obtain n where n: "get_intent (ad_submissionId input) st = None" "st' = st\<lparr>intents := intents st @ [new_intent input n]\<rparr>"
    using assms(1) by (auto simp: admit_intent_def split: option.splits if_splits)
  show ?thesis
  proof (cases "get_intent j st")
    case (Some r)
    then have "get_intent j st' = Some r" by (simp add: n(2) get_intent_def find_append_Some)
    with Some assms(2) show ?thesis by (simp add: claimable_def)
  qed simp
qed (use assms in simp)

lemma observe_claimable:
  assumes "claimable (fst (observeCanonicalHumanMessage i ev ag ses at st)) j"
  shows "claimable st j"
proof -
  have upd: "claimable (fst (update_intent i c (\<lambda>r. r\<lparr>si_state := ObservedState, si_updatedAt := at\<rparr>) st')) j \<Longrightarrow> claimable st' j" for c st'
    by (rule claimable_update) (simp_all add: canSafelyRetryTypedCapabilityMismatch_def)
  define P where "P st' \<longleftrightarrow> (claimable st' j \<longrightarrow> claimable st j)" for st'
  have same: "P st'" if "P st1" "intents st' = intents st1" for st' st1
    using that by (simp add: P_def claimable_def get_intent_def)
  have "P st" by (simp add: P_def)
  moreover have "P (fst (update_intent i c (\<lambda>r. r\<lparr>si_state := ObservedState, si_updatedAt := at\<rparr>) st'))" if "P st'" for c st'
    using that upd by (auto simp: P_def)
  moreover have "P (st\<lparr>input_cards := x\<rparr>)" for x using same [OF \<open>P st\<close>] by simp
  ultimately have "P (fst (observeCanonicalHumanMessage i ev ag ses at st))"
    using same [OF _ clearActive_rows]
    unfolding observeCanonicalHumanMessage_def Let_def by (simp split: option.splits prod.splits)
  with assms show ?thesis by (simp add: P_def)
qed

fun typed_outcome :: "recovery_outcome \<Rightarrow> bool" where
  "typed_outcome (OutcomeUncertain i u) = (un_code u = typed_unavailable)"
| "typed_outcome _ = False"

lemma apply_outcome_claimable:
  assumes eq: "apply_outcome oc st = Inr st'" and cl: "claimable st' j"
  shows "claimable st j \<or> typed_outcome oc \<and> outcome_id oc = j"
proof -
  obtain current where cur: "get_intent (outcome_id oc) st = Some current"
    using eq by (auto simp: apply_outcome_def split: option.splits)
  note eq' = eq [unfolded apply_outcome_def cur option.case]
  show ?thesis
  proof (cases oc)
    case (OutcomeReceipt i rc)
    then have "st' = fst (update_intent i (\<lambda>r. si_state r = si_state current) (adopt rc) st)"
      using eq' by (simp add: adopt_def [abs_def] split: if_splits prod.splits bool.splits)
    with cl claimable_update [of "adopt rc" _ i st j] show ?thesis by simp
  next
    case (OutcomeRejected i x)
    then have "st' = fst (recordDefiniteRejection i x st)"
      using eq' by (simp add: recordDefiniteRejection_def split: prod.splits bool.splits)
    with cl recordDefiniteRejection_claimable show ?thesis by simp
  next
    case (OutcomeUncertain i u)
    then have "st' = fst (update_intent i (\<lambda>r. si_state r = Attempting \<or> si_state r = PreparedState \<or> si_state r = UncertainState)
      (\<lambda>r. r\<lparr>si_state := UncertainState, si_uncertainty := Some u, si_updatedAt := un_recordedAt u\<rparr>) st)"
      using eq' by (simp split: prod.splits bool.splits)
    with cl have "claimable st j \<or> j = i \<and> un_code u = typed_unavailable" by (intro uncertain_claimable) simp
    then show ?thesis using OutcomeUncertain by auto
  qed
qed

lemma apply_outcomes_claimable:
  "apply_outcomes E ocs st = Inr st' \<Longrightarrow> claimable st' j \<Longrightarrow>
     claimable st j \<or> (\<exists>oc \<in> set ocs. typed_outcome oc \<and> outcome_id oc = j)"
proof (induction ocs arbitrary: E st)
  case (Cons oc ocs)
  then obtain st1 where st1: "apply_outcome oc st = Inr st1" "apply_outcomes (E - {outcome_id oc}) ocs st1 = Inr st'"
    by (auto split: if_splits sum.splits)
  show ?case using Cons.IH [OF st1(2) Cons.prems(2)] apply_outcome_claimable [OF st1(1), of j] by auto
qed simp

lemma complete_claimable:
  assumes "completeRecoveryWorkPage page ocs st = Inr st'" "claimable st' j"
  shows "claimable st j \<or> (\<exists>oc \<in> set ocs. typed_outcome oc \<and> outcome_id oc = j)"
proof -
  obtain E st1 where "apply_outcomes E ocs st = Inr st1" "intents st' = intents st1"
    using assms(1) by (auto simp: completeRecoveryWorkPage_def split: if_splits sum.splits option.splits)
  with apply_outcomes_claimable [of E ocs st st1 j] assms(2) show ?thesis
    by (simp add: claimable_def get_intent_def)
qed

definition submit_ids :: "recovery_item list \<Rightarrow> string list" where
  "submit_ids its = map (\<lambda>it. si_submissionId (item_intent it)) (filter (\<lambda>it. item_action it = SubmitAction) its)"

lemma submit_ids_simps [simp]:
  "submit_ids [] = []"
  "submit_ids (it # its) = (if item_action it = SubmitAction then si_submissionId (item_intent it) # submit_ids its else submit_ids its)"
  by (simp_all add: submit_ids_def)

lemma claim_one_effect:
  assumes inv: "store_inv st"
    and u: "update_intent i (\<lambda>r. si_state r = Recorded \<and> si_attemptedAt r = None \<or> si_state r = UncertainState \<and> typed_uncertainty r)
             (\<lambda>r. r\<lparr>si_state := Attempting, si_attemptedAt := Some at, si_updatedAt := at\<rparr>) st = (st', True)"
  shows "claimable st i" "\<not> claimable st' i" "\<And>j. claimable st' j \<Longrightarrow> claimable st j" "store_inv st'"
proof -
  define c where "c = (\<lambda>r. si_state r = Recorded \<and> si_attemptedAt r = None \<or> si_state r = UncertainState \<and> typed_uncertainty r)"
  define f where "f = (\<lambda>r::SubmissionIntent. r\<lparr>si_state := Attempting, si_attemptedAt := Some at, si_updatedAt := at\<rparr>)"
  have st': "st' = fst (update_intent i c f st)" "snd (update_intent i c f st)" using u by (simp_all add: c_def f_def)
  have keep: "si_submissionId (f r) = si_submissionId r" and out: "si_state (f r) \<noteq> Recorded \<and> \<not> canSafelyRetryTypedCapabilityMismatch (f r)" for r
    by (simp_all add: f_def)
  obtain r where r: "get_intent i st = Some r" "c r" using st'(2) by (auto simp: update_intent_changed [OF inv])
  show "claimable st i" using r by (auto simp: claimable_def c_def canSafelyRetryTypedCapabilityMismatch_def)
  show "\<not> claimable st' i" unfolding st'(1) by (rule update_unclaimable [where f = f and c = c, OF keep out r])
  show "claimable st j" if "claimable st' j" for j
    using claimable_update [where f = f and c = c, OF keep out] that unfolding st'(1) by blast
  show "store_inv st'" unfolding st'(1) c_def f_def using inv by (intro lawful_update lawful_claim) auto
qed

lemma claim_items_claims:
  "store_inv st \<Longrightarrow> claim_items at its st = Inr st' \<Longrightarrow>
     distinct (submit_ids its) \<and> (\<forall>j \<in> set (submit_ids its). claimable st j)
     \<and> (\<forall>j. claimable st' j \<longrightarrow> claimable st j \<and> j \<notin> set (submit_ids its))"
proof (induction its arbitrary: st)
  case (Cons it its)
  show ?case
  proof (cases "item_action it = SubmitAction")
    case True
    then obtain st1 where st1: "update_intent (si_submissionId (item_intent it))
        (\<lambda>r. si_state r = Recorded \<and> si_attemptedAt r = None \<or> si_state r = UncertainState \<and> typed_uncertainty r)
        (\<lambda>r. r\<lparr>si_state := Attempting, si_attemptedAt := Some at, si_updatedAt := at\<rparr>) st = (st1, True)"
      "claim_items at its st1 = Inr st'"
      using Cons.prems(2) by (auto split: prod.splits bool.splits)
    note one = claim_one_effect [OF Cons.prems(1) st1(1)]
    have rest: "distinct (submit_ids its) \<and> (\<forall>j \<in> set (submit_ids its). claimable st1 j)
        \<and> (\<forall>j. claimable st' j \<longrightarrow> claimable st1 j \<and> j \<notin> set (submit_ids its))"
      by (rule Cons.IH [OF one(4) st1(2)])
    then show ?thesis using one(1-3) True by auto
  next
    case False
    with Cons show ?thesis by simp
  qed
qed simp

lemma claimPage_claims:
  assumes inv: "store_inv st" and eq: "claimRecoveryWorkPage l at st = Inr (st', page)"
  shows "distinct (submit_ids (rp_items page))" "\<forall>j \<in> set (submit_ids (rp_items page)). claimable st j"
    "\<forall>j. claimable st' j \<longrightarrow> claimable st j \<and> j \<notin> set (submit_ids (rp_items page))"
proof -
  define pg where "pg = listRecoveryWorkPage l (Option.bind (recovery_scan st) scan_after)
      (case recovery_scan st of None \<Rightarrow> at | Some s \<Rightarrow> scan_cutoff s) st"
  obtain st1 where st1: "claim_items at (rp_items pg) st = Inr st1" "intents st' = intents st1"
    and items: "rp_items page = map (\<lambda>it. it\<lparr>item_intent := the (get_intent (si_submissionId (item_intent it)) st')\<rparr>) (rp_items pg)"
    using eq by (auto simp: claimRecoveryWorkPage_def Let_def pg_def split: sum.splits option.splits)
  have present: "\<exists>r. get_intent (si_submissionId (item_intent it)) st' = Some r" if "it \<in> set (rp_items pg)" for it
  proof -
    have "item_intent it \<in> set (map item_intent (rp_items pg))" using that by simp
    then have "item_intent it \<in> set (intents st)"
      unfolding pg_def page_rows(1) by (rule recovery_rows_mem [OF in_set_takeD])
    then have "get_intent (si_submissionId (item_intent it)) st = Some (item_intent it)" by (rule get_intent_mem [OF inv])
    with claim_items_ok [OF inv st1(1)] obtain r where "get_intent (si_submissionId (item_intent it)) st1 = Some r"
      by (auto simp: store_ok_def store_evolves_def)
    then show ?thesis using st1(2) by (simp add: get_intent_def)
  qed
  have ids: "submit_ids (rp_items page) = submit_ids (rp_items pg)"
  proof -
    have "submit_ids (map (\<lambda>it. it\<lparr>item_intent := the (get_intent (si_submissionId (item_intent it)) st')\<rparr>) its) = submit_ids its"
      if "set its \<subseteq> set (rp_items pg)" for its
      using that
    proof (induction its)
      case (Cons it its)
      then obtain r where r: "get_intent (si_submissionId (item_intent it)) st' = Some r" using present by auto
      with get_intent_Some [OF r] Cons show ?case by simp
    qed simp
    then show ?thesis by (simp add: items)
  qed
  have "claimable st' j = claimable st1 j" for j using st1(2) by (simp add: claimable_def get_intent_def)
  with claim_items_claims [OF inv st1(1)] show "distinct (submit_ids (rp_items page))" "\<forall>j \<in> set (submit_ids (rp_items page)). claimable st j"
    "\<forall>j. claimable st' j \<longrightarrow> claimable st j \<and> j \<notin> set (submit_ids (rp_items page))"
    unfolding ids by auto
qed

subsection \<open>The invariant\<close>

lemma started_holds: "sum_list (map item_holds (map start_item its)) = mset (submit_ids its)"
  by (induction its) (auto simp: start_item_def)

lemma started_ok: "x \<in> set (map start_item its) \<Longrightarrow> item_ok x"
  by (auto simp: start_item_def)

text \<open>The store moves lawfully, no new row becomes claimable, no new attempt is counted.\<close>

lemma agent_inv_frame:
  assumes inv: "agent_inv s" and st: "store_ok (as_store s) (as_store s')"
    and cl: "\<And>j. j \<in># attempts s' \<Longrightarrow> claimable (as_store s') j \<Longrightarrow> claimable (as_store s) j"
    and att: "attempts s' \<subseteq># attempts s" and ok: "\<forall>t \<in> set (as_tasks s'). task_ok t"
  shows "agent_inv s'"
proof -
  have "count (attempts s') i \<le> 1" for i
    using inv att by (metis agent_inv_def mset_subset_eq_count order_trans)
  moreover have "get_intent i (as_store s') \<noteq> None \<and> \<not> claimable (as_store s') i" if "i \<in># attempts s'" for i
  proof -
    have "i \<in># attempts s" using att that mset_subset_eqD by metis
    with inv have old: "get_intent i (as_store s) \<noteq> None" "\<not> claimable (as_store s) i" by (auto simp: agent_inv_def)
    then show ?thesis using st cl [OF that] unfolding store_ok_def store_evolves_def by fastforce
  qed
  ultimately show ?thesis using st ok unfolding agent_inv_def store_ok_def by blast
qed

text \<open>A claim adds attempts, of ids that were claimable and are not any more.\<close>

lemma agent_inv_claim:
  assumes inv: "agent_inv s" and st: "store_ok (as_store s) (as_store s')" and att: "attempts s' = attempts s + mset ids"
    and ids: "distinct ids" "\<forall>j \<in> set ids. claimable (as_store s) j"
    and cl: "\<forall>j. claimable (as_store s') j \<longrightarrow> claimable (as_store s) j \<and> j \<notin> set ids"
    and ok: "\<forall>t \<in> set (as_tasks s'). task_ok t"
  shows "agent_inv s'"
proof -
  have "count (attempts s') i \<le> 1" for i
  proof (cases "i \<in> set ids")
    case True
    then have "i \<notin># attempts s" using inv ids(2) by (auto simp: agent_inv_def)
    then show ?thesis using ids(1) by (simp add: att not_in_iff distinct_count_atmost_1 count_mset)
  next
    case False
    then have "count (attempts s') i = count (attempts s) i" by (simp add: att count_mset_0_iff)
    then show ?thesis using inv unfolding agent_inv_def by metis
  qed
  moreover have "get_intent i (as_store s') \<noteq> None \<and> \<not> claimable (as_store s') i" if "i \<in># attempts s'" for i
  proof -
    have "i \<in># attempts s \<or> i \<in> set ids" using that by (simp add: att)
    then have "get_intent i (as_store s) \<noteq> None" "i \<in> set ids \<or> \<not> claimable (as_store s) i"
      using inv ids(2) by (auto simp: agent_inv_def claimable_def)
    then show ?thesis using st cl unfolding store_ok_def store_evolves_def by fastforce
  qed
  ultimately show ?thesis using st ok unfolding agent_inv_def store_ok_def by blast
qed

lemma drain_refused_ok: "store_inv st \<Longrightarrow> store_ok st (fst (drain_refused i f now st))"
  by (simp add: drain_refused_def markUncertain_def recordDefiniteRejection_ok recordUncertain_ok)

lemma drain_refused_claimable: "claimable (fst (drain_refused i f now st)) j \<Longrightarrow> claimable st j \<or> j = i"
  using recordUncertain_claimable recordDefiniteRejection_claimable
  by (auto simp: drain_refused_def markUncertain_def split: if_splits)

lemma drain_settle_ok:
  assumes "store_inv st"
  shows "store_ok st (fst (drain_settle i r now st))"
proof (cases r)
  case (SubmitReceipt rc)
  obtain st1 o1 where st1: "recordReceipt i rc st = (st1, o1)" by fastforce
  have ok: "store_ok st st1" using recordReceipt_ok [OF assms, of i rc] st1 by simp
  then have "store_ok st (fst (markUncertain i c d now st1))" for c d
    using recordUncertain_ok [of st1 i] store_ok_trans [OF ok] by (simp add: markUncertain_def store_ok_def)
  with ok show ?thesis using SubmitReceipt st1 by (cases o1) (simp_all add: drain_settle_def)
qed (simp_all add: drain_settle_def markUncertain_def recordDefiniteRejection_ok recordUncertain_ok assms)

lemma bridge_codes [simp]:
  "''receipt_not_adopted'' \<noteq> typed_unavailable" "''core_submission_failure'' \<noteq> typed_unavailable"
  "''receipt_not_found'' \<noteq> typed_unavailable" "''core_receipt_query_failure'' \<noteq> typed_unavailable"
  by (simp_all add: typed_unavailable_def)

lemma drain_settle_claimable:
  assumes "submit_answer_ok r" "claimable (fst (drain_settle i r now st)) j"
  shows "claimable st j"
proof (cases r)
  case (SubmitReceipt rc)
  obtain st1 o1 where st1: "recordReceipt i rc st = (st1, o1)" by fastforce
  have "claimable st1 j"
    using assms(2) SubmitReceipt st1 recordUncertain_claimable [of i _ st1 j]
    by (cases o1) (fastforce simp: drain_settle_def markUncertain_def)+
  with recordReceipt_claimable [of i rc st j] st1 show ?thesis by simp
next
  case (SubmitRejected f)
  with assms(2) recordDefiniteRejection_claimable show ?thesis by (simp add: drain_settle_def)
next
  case (SubmitUncertain f)
  with assms recordUncertain_claimable [of i _ st j] show ?thesis
    by (fastforce simp: drain_settle_def markUncertain_def submit_answer_ok_def)
next
  case SubmitThrew
  with assms recordUncertain_claimable [of i _ st j] show ?thesis
    by (fastforce simp: drain_settle_def markUncertain_def)
qed

lemma item_step_ok:
  assumes "item_step it p p' called"
  shows "item_ok (it, p')"
    "item_holds (it, p) = item_holds (it, p') + mset (if called then [si_submissionId (item_intent it)] else [])"
proof -
  show "item_ok (it, p')"
    using assms by cases (auto simp: submitRecovery_def queryRecovery_def submit_answer_ok_def query_answer_ok_def
        split: SubmitAgentInputResult.splits QueryAgentInputReceiptResult.splits)
  show "item_holds (it, p) = item_holds (it, p') + mset (if called then [si_submissionId (item_intent it)] else [])"
    using assms by cases (auto simp: recovery_refused_def Let_def)
qed

text \<open>A page's typed outcomes are refusals, so their ids are held by the page.\<close>

lemma typed_outcomes_held:
  assumes "map (\<lambda>x. item_outcome (snd x)) its = map Some ocs" "\<forall>x \<in> set its. item_ok x" "oc \<in> set ocs" "typed_outcome oc"
  shows "outcome_id oc \<in># sum_list (map item_holds its)"
  using assms
proof (induction its arbitrary: ocs)
  case (Cons x its)
  obtain it p where x: "x = (it, p)" by fastforce
  obtain oc1 rest where ocs: "ocs = oc1 # rest" "item_outcome p = Some oc1" "map (\<lambda>x. item_outcome (snd x)) its = map Some rest"
    using Cons.prems(1) x by (cases ocs) auto
  show ?case
  proof (cases "oc = oc1")
    case True
    have "p = ItemRefused oc1"
    proof (cases p)
      case (ItemDone oc2)
      with ocs(2) True Cons.prems(2,4) x show ?thesis by (cases oc1) simp_all
    qed (use ocs(2) in simp_all)
    with True x show ?thesis by simp
  next
    case False
    then show ?thesis using Cons.IH [OF ocs(3)] Cons.prems ocs(1) by simp
  qed
qed simp

lemma count_once:
  assumes "count (A + B) j \<le> 1" "j \<in># A"
  shows "j \<notin># B"
proof
  assume "j \<in># B"
  then have "0 < count B j" "0 < count A j" using assms(2) by simp_all
  with assms(1) show False unfolding count_union by linarith
qed

lemma attempts_simps:
  "attempts (s\<lparr>as_store := st\<rparr>) = attempts s"
  by (simp add: attempts_def)

lemma agent_inv_step:
  assumes "agent_step s s'" and inv: "agent_inv s"
  shows "agent_inv s'"
proof -
  have sinv: "store_inv (as_store s)" and tasks: "\<forall>t \<in> set (as_tasks s). task_ok t"
    and once: "count (attempts s) i \<le> 1" for i
    using inv by (auto simp: agent_inv_def)
  show ?thesis using assms(1)
  proof cases
    case (admitted input st res)
    show ?thesis
    proof (rule agent_inv_frame [OF inv])
      show "claimable (as_store s) j" if "j \<in># attempts s'" "claimable (as_store s') j" for j
        using admit_claimable [OF admitted(2), of j] that inv admitted(1) by (auto simp: agent_inv_def attempts_simps)
    qed (use admitted admit_ok [OF sinv admitted(2)] tasks in \<open>simp_all add: attempts_simps\<close>)
  next
    case (drain_claimed i now st intent)
    note claims = claimRecorded_claims [OF sinv drain_claimed(2)]
    have "store_ok (as_store s) st" using claimRecorded_ok [OF sinv, of i now] drain_claimed(2) by simp
    then show ?thesis
      using claims tasks drain_claimed(1)
      by (intro agent_inv_claim [OF inv, of s' "[i]"]) (auto simp: attempts_def)
  next
    case (drain_checked xs intent ys caps f now)
    have att: "attempts s = attempts s' + {#si_submissionId intent#}" using drain_checked(1,2) by (simp add: attempts_def)
    show ?thesis
    proof (rule agent_inv_frame [OF inv])
      show "claimable (as_store s) j" if "j \<in># attempts s'" "claimable (as_store s') j" for j
      proof -
        have "j \<noteq> si_submissionId intent" using count_once [OF once [of j, unfolded att] that(1)] by simp
        with drain_refused_claimable [of "si_submissionId intent" f now "as_store s" j] that(2) drain_checked(1) show ?thesis by auto
      qed
    qed (use drain_checked drain_refused_ok [OF sinv] tasks att in auto)
  next
    case (drain_submits xs intent ys caps)
    then show ?thesis
      using tasks by (intro agent_inv_frame [OF inv]) (auto simp: attempts_def store_ok_refl sinv)
  next
    case (drain_settled xs intent ys r now)
    then show ?thesis
      using tasks drain_settle_ok [OF sinv] drain_settle_claimable [OF drain_settled(3)]
      by (intro agent_inv_frame [OF inv]) (auto simp: attempts_def)
  next
    case (page_claimed l now st page)
    note claims = claimPage_claims [OF sinv page_claimed(2)]
    show ?thesis
      using claims tasks page_claimed(1) claimRecoveryWorkPage_ok [OF sinv page_claimed(2)] started_ok
      by (intro agent_inv_claim [OF inv, of s' "submit_ids (rp_items page)"])
        (auto simp: attempts_def started_holds [unfolded map_map] started_holds)
  next
    case (item_moved xs page as it p bs ys p' called)
    have "attempts s' = attempts s"
      using item_step_ok(2) [OF item_moved(3)] item_moved(1,2) by (simp add: attempts_def)
    then show ?thesis
      using tasks item_moved(1,2) item_step_ok(1) [OF item_moved(3)]
      by (intro agent_inv_frame [OF inv]) (auto simp: store_ok_refl sinv)
  next
    case (page_completed xs page its ys outcomes st)
    have att: "attempts s = attempts s' + sum_list (map item_holds its)"
      using page_completed(1,2) by (simp add: attempts_def)
    show ?thesis
    proof (rule agent_inv_frame [OF inv])
      show "claimable (as_store s) j" if "j \<in># attempts s'" "claimable (as_store s') j" for j
      proof (rule ccontr)
        assume "\<not> claimable (as_store s) j"
        with complete_claimable [OF page_completed(4), of j] that(2) page_completed(1)
        obtain oc where oc: "oc \<in> set outcomes" "typed_outcome oc" "outcome_id oc = j" by auto
        have "\<forall>x \<in> set its. item_ok x" using tasks page_completed(2) by auto
        from typed_outcomes_held [OF page_completed(3) this oc(1,2)] oc(3)
        have "j \<in># sum_list (map item_holds its)" by simp
        with count_once [OF once [of j, unfolded att] that(1)] show False by simp
      qed
    qed (use page_completed completeRecoveryWorkPage_ok [OF sinv page_completed(4)] tasks att in auto)
  next
    case (page_failed xs page its ys)
    then show ?thesis
      using tasks by (intro agent_inv_frame [OF inv]) (auto simp: attempts_def store_ok_refl sinv)
  next
    case (observed i ev ag ses now st res)
    then show ?thesis
      using tasks observe_ok [OF sinv, of i ev ag ses now] observe_claimable [of i ev ag ses now "as_store s"]
      by (intro agent_inv_frame [OF inv]) (auto simp: attempts_simps)
  next
    case (canonical st)
    then show ?thesis
      using tasks store_ok_same_rows [OF sinv]
      by (intro agent_inv_frame [OF inv]) (auto simp: attempts_simps claimable_def get_intent_def)
  next
    case crashed
    then show ?thesis by (intro agent_inv_frame [OF inv]) (auto simp: attempts_def store_ok_refl sinv)
  qed
qed

lemma agent_inv_new: "agent_inv \<lparr>as_store = empty_store, as_tasks = [], as_submits = []\<rparr>"
  by (simp add: agent_inv_def empty_store_def store_inv_def attempts_def)

lemma reachable_agent_inv: "agent_reachable s \<Longrightarrow> agent_inv s"
  by (induction rule: agent_reachable.induct) (auto intro: agent_inv_new agent_inv_step)

subsection \<open>Properties\<close>

text \<open>
  C1: Over any run of admissions, drains, recovery pages, canonical observations and crashes,
  interleaved in any order, Herdr Core receives at most one \<^verbatim>\<open>submit\<close> for a Submission
  Intent, and an intent that was submitted is never again in a state that a drain or a
  recovery page would claim for submission. (Core is assumed not to answer with the code
  the Bridge uses for an input it never submitted.)
\<close>
theorem submitted_at_most_once:
  assumes "agent_reachable s"
  shows "count_list (as_submits s) i \<le> 1 \<and> (i \<in> set (as_submits s) \<longrightarrow> \<not> claimable (as_store s) i)"
proof -
  have inv: "agent_inv s" by (rule reachable_agent_inv [OF assms])
  have "count_list (as_submits s) i \<le> count (attempts s) i" by (simp add: attempts_def count_mset)
  also have "\<dots> \<le> 1" using inv unfolding agent_inv_def by metis
  finally show ?thesis using inv by (auto simp: agent_inv_def attempts_def)
qed

text \<open>
  C13: No step of the system changes what admission fixed of a Submission Intent, lowers its
  level (recorded, in progress, observed, final), or touches the state, receipt or
  cancellation of a terminal or cancelled intent; intents are never removed.
\<close>
theorem intents_evolve_monotonically:
  assumes "agent_reachable s" and "agent_step s s'" and "get_intent i (as_store s) = Some r"
  shows "\<exists>r'. get_intent i (as_store s') = Some r' \<and> identity_of r' = identity_of r
           \<and> level (si_state r) \<le> level (si_state r')
           \<and> (level (si_state r) = 3 \<longrightarrow> si_state r' = si_state r \<and> si_receipt r' = si_receipt r
                \<and> si_cancellation r' = si_cancellation r)"
proof -
  have sinv: "store_inv (as_store s)" using reachable_agent_inv [OF assms(1)] by (simp add: agent_inv_def)
  have "store_ok (as_store s) (as_store s')"
    using assms(2)
  proof cases
    case (observed i ev ag ses now st res)
    with observe_ok [OF sinv, of i ev ag ses now] show ?thesis by simp
  next
    case (drain_claimed i now st intent)
    with claimRecorded_ok [OF sinv, of i now] show ?thesis by simp
  qed (auto simp: store_ok_refl sinv drain_refused_ok drain_settle_ok
      dest: admit_ok [OF sinv] claimRecoveryWorkPage_ok [OF sinv] completeRecoveryWorkPage_ok [OF sinv]
      intro: store_ok_same_rows [OF sinv])
  with assms(3) show ?thesis by (auto simp: store_ok_def store_evolves_def row_evolves_def)
qed

text \<open>
  C26: Admission is idempotent per ingress source and message key: after an input has been
  accepted, admitting the same content again, under any submission id, changes nothing and
  returns the accepted intent as a duplicate, and different content under the same key is
  a conflict.
\<close>
theorem admission_idempotent:
  assumes "store_inv st" and "admit_intent input st = Inr (st', AdmitAccepted intent)"
    and "ad_ingressSource again = ad_ingressSource input" and "ad_sourceMessageKey again = ad_sourceMessageKey input"
    and "normalizeHumanInput again = Some n"
  shows "admit_intent again st' = Inr (st', if ad_actor again = ad_actor input
             \<and> normalizeHumanInput again = normalizeHumanInput input \<and> ad_owner again = ad_owner input
             \<and> ad_paneId again = ad_paneId input \<and> ad_terminalId again = ad_terminalId input
             \<and> ad_expectedAgentKind again = ad_expectedAgentKind input
             \<and> ad_expectedSessionId again = ad_expectedSessionId input
           then AdmitDuplicate intent else AdmitConflict intent)"
proof -
  obtain m where m: "findBySource (ad_ingressSource input) (ad_sourceMessageKey input) st = None"
    "normalizeHumanInput input = Some m" "intent = new_intent input m" "st' = st\<lparr>intents := intents st @ [intent]\<rparr>"
    using assms(2) by (auto simp: admit_intent_def split: option.splits if_splits)
  have "find P xs = None \<Longrightarrow> find P (xs @ ys) = find P ys" for P :: "SubmissionIntent \<Rightarrow> bool" and xs ys
    by (induction xs) (auto split: if_splits)
  then have found: "findBySource (ad_ingressSource again) (ad_sourceMessageKey again) st' = Some intent"
    using m(1,3,4) assms(3,4) by (simp add: findBySource_def new_intent_def)
  show ?thesis
    using found assms(5) m(2)
    by (auto simp: admit_intent_def matchesImmutableIdentity_def m(3) new_intent_def)
qed

text \<open>
  The pages of a startup recovery scan cover the recoverable intents in creation order
  without a gap or a repetition: a page is the next rows after the cursor, at most its
  limit, its cursor resumes exactly behind it, and it reports more work exactly when rows remain.
\<close>
lemma recovery_pages_partition_the_scan:
  assumes "store_inv st"
  shows "recovery_rows cursor cutoff st
           = map item_intent (rp_items (listRecoveryWorkPage l cursor cutoff st))
             @ recovery_rows (rp_nextCursor (listRecoveryWorkPage l cursor cutoff st)) cutoff st
       \<and> length (rp_items (listRecoveryWorkPage l cursor cutoff st)) \<le> page_limit l
       \<and> (rp_hasMore (listRecoveryWorkPage l cursor cutoff st)
            \<longleftrightarrow> recovery_rows (rp_nextCursor (listRecoveryWorkPage l cursor cutoff st)) cutoff st \<noteq> [])
       \<and> (\<exists>st' page. claimRecoveryWorkPage l at st = Inr (st', page))"
proof -
  have len: "length (rp_items (listRecoveryWorkPage l cursor cutoff st)) \<le> page_limit l"
    using arg_cong [OF page_rows(1), of length l cursor cutoff st] by simp
  show ?thesis
    using len page_next [OF assms, of l cursor cutoff] page_rows [of l cursor cutoff st] claimRecoveryWorkPage_total [OF assms]
    by auto
qed

text \<open>
  C27: A submission error path cannot lose an input: whatever Core answers to a drain's submit,
  the claimed intent leaves the attempting state, and a receipt that does not match the
  intent is never adopted.
\<close>
theorem drain_settles_the_claim:
  assumes "store_inv st" and "get_intent i st = Some r" and "si_state r = Attempting"
  shows "\<exists>r'. get_intent i (fst (drain_settle i result now st)) = Some r' \<and> si_state r' \<noteq> Attempting \<and> si_state r' \<noteq> Recorded
           \<and> (case result of
                SubmitReceipt rc \<Rightarrow>
                  if coreReceiptMatchesIntent r rc then si_state r' = receipt_intent_state (rc_state rc) \<and> si_receipt r' = Some rc
                  else si_state r' = UncertainState \<and> si_receipt r' = si_receipt r
              | SubmitRejected f \<Rightarrow> si_state r' = CancelledState
              | _ \<Rightarrow> si_state r' = UncertainState)"
proof -
  have i: "si_submissionId r = i" using get_intent_Some [OF assms(2)] by simp
  have unc: "get_intent i (fst (markUncertain i c d now st)) = Some (r\<lparr>si_state := UncertainState,
      si_uncertainty := Some \<lparr>un_code = c, un_detail = d, un_recordedAt = now\<rparr>, si_updatedAt := now\<rparr>)" for c d
    unfolding markUncertain_def recordUncertain_def case_prod_unfold fst_conv
    by (subst get_update_intent) (simp_all add: assms(2,3) i)
  have rej: "get_intent i (fst (recordDefiniteRejection i x st)) = Some (r\<lparr>si_state := CancelledState, si_cancellation := Some x,
      si_uncertainty := None, si_updatedAt := un_recordedAt x\<rparr>)" for x
    unfolding recordDefiniteRejection_def case_prod_unfold fst_conv
    by (subst get_update_intent) (simp_all add: assms(2,3) i)
  show ?thesis
  proof (cases result)
    case (SubmitReceipt rc)
    show ?thesis
    proof (cases "coreReceiptMatchesIntent r rc")
      case True
      let ?u = "update_intent i (\<lambda>q. si_state q = si_state r) (adopt rc) st"
      have ok: "canAdoptCoreReceipt r rc" using True assms(3) by (simp add: canAdoptCoreReceipt_def)
      have ne: "si_state r \<noteq> receipt_intent_state (rc_state rc)" using assms(3) by (cases "rc_state rc") simp_all
      have got: "get_intent i (fst ?u) = Some (adopt rc r)" by (subst get_update_intent) (simp_all add: assms(2) i)
      have "snd ?u" using update_intent_changed [OF assms(1)] assms(2) by auto
      then have "recordReceipt i rc st = (fst ?u, Some (adopt rc r))"
        using assms(2) ok ne got by (simp add: recordReceipt_def adopt_def [abs_def] case_prod_unfold)
      then have "fst (drain_settle i result now st) = fst ?u" using SubmitReceipt by (simp add: drain_settle_def)
      with got True SubmitReceipt show ?thesis
        by (cases "rc_state rc") (simp_all add: adopt_def)
    next
      case False
      then have "recordReceipt i rc st = (st, None)"
        using assms(2) by (simp add: recordReceipt_def canAdoptCoreReceipt_def)
      with False SubmitReceipt unc show ?thesis by (simp add: drain_settle_def)
    qed
  qed (use unc rej in \<open>simp_all add: drain_settle_def\<close>)
qed

subsection \<open>A concrete run\<close>

definition sample_input :: AdmitSubmissionIntentInput where
  "sample_input = \<lparr>ad_submissionId = ''s1'', ad_ingressSource = ''feishu'', ad_sourceMessageKey = ''om_1'',
     ad_actor = \<lparr>actor_kind = HumanActor, actor_id = ''u1'', actor_gatewayId = ''feishu'', actor_chatId = ''c1'',
       actor_topicId = None, actor_rootMessageId = None\<rparr>,
     ad_input = None, ad_text = ''hello'', ad_owner = \<lparr>owner_kind = PrimaryOwner, owner_id = ''b1'', owner_generation = 1\<rparr>,
     ad_paneId = ''p1'', ad_terminalId = ''t1'', ad_expectedAgentKind = Traex, ad_expectedSessionId = None, ad_recordedAt = 1\<rparr>"

definition sample_intent :: SubmissionIntent where
  "sample_intent = new_intent sample_input (humanInputMessage ''hello'' None)"

definition sample_store :: intent_store where
  "sample_store = empty_store\<lparr>intents := [sample_intent]\<rparr>"

definition sample_claimed :: SubmissionIntent where
  "sample_claimed = sample_intent\<lparr>si_state := Attempting, si_attemptedAt := Some 5, si_updatedAt := 5\<rparr>"

definition sample_agents :: agent_system where
  "sample_agents = \<lparr>as_store = sample_store\<lparr>intents := [sample_claimed]\<rparr>, as_tasks = [DrainSubmitting sample_claimed],
     as_submits = [''s1'']\<rparr>"

lemmas sample_defs = sample_input_def sample_intent_def sample_store_def sample_claimed_def new_intent_def
  humanInputMessage_def empty_store_def

lemma sample_admitted: "admit_intent sample_input empty_store = Inr (sample_store, AdmitAccepted sample_intent)"
  by (simp add: admit_intent_def findBySource_def get_intent_def normalizeHumanInput_def sample_defs)

lemma sample_store_reachable: "agent_reachable \<lparr>as_store = sample_store, as_tasks = [], as_submits = []\<rparr>"
  using agent_reachable.step [OF agent_reachable.initial agent_step.admitted, of sample_input sample_store "AdmitAccepted sample_intent"]
    sample_admitted by simp

lemma sample_claim_eq: "claimRecorded ''s1'' 5 sample_store = (sample_store\<lparr>intents := [sample_claimed]\<rparr>, Some sample_claimed)"
  by (simp add: claimRecorded_def update_intent_def get_intent_def sample_defs)

lemma sample_agents_reachable: "agent_reachable sample_agents"
proof -
  let ?st = "sample_store\<lparr>intents := [sample_claimed]\<rparr>"
  have "agent_reachable \<lparr>as_store = ?st, as_tasks = [DrainChecking sample_claimed], as_submits = []\<rparr>"
    using agent_reachable.step [OF sample_store_reachable agent_step.drain_claimed, of "''s1''" 5 ?st sample_claimed] sample_claim_eq by simp
  from agent_reachable.step [OF this agent_step.drain_submits, of "[]" sample_claimed "[]" None]
  show ?thesis by (simp add: sample_agents_def typedInputCapabilityFailure_def sample_defs)
qed

lemma sample_store_inv: "store_inv sample_store"
  using reachable_agent_inv [OF sample_store_reachable] by (simp add: agent_inv_def)

theorem submitted_at_most_once_witness:
  "count_list (as_submits sample_agents) ''s1'' = 1 \<and> \<not> claimable (as_store sample_agents) ''s1''"
  using submitted_at_most_once [OF sample_agents_reachable, of "''s1''"] by (simp add: sample_agents_def)

theorem intents_evolve_monotonically_witness:
  "\<exists>r'. get_intent ''s1'' (fst (drain_settle ''s1'' SubmitThrew 9 (as_store sample_agents))) = Some r'
      \<and> identity_of r' = identity_of sample_intent"
proof -
  let ?st = "fst (drain_settle ''s1'' SubmitThrew 9 (as_store sample_agents))"
  have "agent_step sample_agents (sample_agents\<lparr>as_store := ?st, as_tasks := [] @ []\<rparr>)"
    using agent_step.drain_settled [of sample_agents "[]" sample_claimed "[]" SubmitThrew 9]
    by (simp add: sample_agents_def submit_answer_ok_def sample_defs)
  moreover have "get_intent ''s1'' (as_store sample_agents) = Some sample_claimed"
    by (simp add: sample_agents_def get_intent_def sample_defs)
  moreover have "identity_of sample_claimed = identity_of sample_intent" by (simp add: identity_of_def sample_claimed_def)
  ultimately show ?thesis
    using intents_evolve_monotonically [OF sample_agents_reachable, of _ "''s1''" sample_claimed] by fastforce
qed

theorem admission_idempotent_witness:
  "admit_intent (sample_input\<lparr>ad_submissionId := ''s2''\<rparr>) sample_store = Inr (sample_store, AdmitDuplicate sample_intent)
   \<and> admit_intent (sample_input\<lparr>ad_text := ''other''\<rparr>) sample_store = Inr (sample_store, AdmitConflict sample_intent)"
proof -
  have inv: "store_inv empty_store" by (simp add: empty_store_def store_inv_def)
  have n: "normalizeHumanInput sample_input = Some (humanInputMessage ''hello'' None)"
    "normalizeHumanInput (sample_input\<lparr>ad_submissionId := ''s2''\<rparr>) = Some (humanInputMessage ''hello'' None)"
    "normalizeHumanInput (sample_input\<lparr>ad_text := ''other''\<rparr>) = Some (humanInputMessage ''other'' None)"
    by (simp_all add: normalizeHumanInput_def sample_input_def)
  have "admit_intent (sample_input\<lparr>ad_submissionId := ''s2''\<rparr>) sample_store = Inr (sample_store, AdmitDuplicate sample_intent)"
    using admission_idempotent [OF inv sample_admitted _ _ n(2)] n(1,2) by simp
  moreover have "admit_intent (sample_input\<lparr>ad_text := ''other''\<rparr>) sample_store = Inr (sample_store, AdmitConflict sample_intent)"
    using admission_idempotent [OF inv sample_admitted _ _ n(3)] n(1,3) by (simp add: humanInputMessage_def)
  ultimately show ?thesis by simp
qed

theorem drain_settles_the_claim_witness:
  "\<exists>r'. get_intent ''s1'' (fst (drain_settle ''s1'' (SubmitRejected \<lparr>fail_code = ''agent_not_ready'', fail_detail = None\<rparr>) 9
        (as_store sample_agents))) = Some r' \<and> si_state r' = CancelledState"
proof -
  have inv: "store_inv (as_store sample_agents)" using reachable_agent_inv [OF sample_agents_reachable] by (simp add: agent_inv_def)
  have "get_intent ''s1'' (as_store sample_agents) = Some sample_claimed"
    by (simp add: sample_agents_def get_intent_def sample_defs)
  moreover have "si_state sample_claimed = Attempting" by (simp add: sample_claimed_def)
  ultimately show ?thesis
    using drain_settles_the_claim [OF inv, of "''s1''" sample_claimed "SubmitRejected \<lparr>fail_code = ''agent_not_ready'', fail_detail = None\<rparr>" 9]
    by auto
qed

end
