(* ===== verification/Delivery_Policies.thy ===== *)
theory Delivery_Policies
  imports Complex_Main Delivery_Types
begin

text \<open>
  The pure policies around a delivery: the conflict key that serialises deliveries to one
  surface and the degradation budget (\<^verbatim>\<open>src/src/domain/delivery-conflict.ts\<close>), when a delivery
  may be replayed or retried directly (\<^verbatim>\<open>delivery-replay-safety.ts\<close>) and how a retry is planned
  (\<^verbatim>\<open>delivery-retry-policy.ts\<close>). Texts are over the code units below 256.
\<close>

subsection \<open>Text\<close>

text \<open>\<^verbatim>\<open>String.prototype.trim\<close>, and a number in a template string.\<close>

definition js_space :: "char \<Rightarrow> bool" where
  "js_space c = (let n = of_char c :: nat in 9 \<le> n \<and> n \<le> 13 \<or> n = 32 \<or> n = 160)"

definition js_trim :: "string \<Rightarrow> string" where
  "js_trim s = rev (dropWhile js_space (rev (dropWhile js_space s)))"

definition digit_char :: "nat \<Rightarrow> char" where
  "digit_char d = char_of (48 + d)"

fun show_nat :: "nat \<Rightarrow> string" where
  "show_nat n = (if n < 10 then [digit_char n] else show_nat (n div 10) @ [digit_char (n mod 10)])"

declare show_nat.simps [simp del]

definition show_int :: "int \<Rightarrow> string" where
  "show_int i = (if i < 0 then CHR ''-'' # show_nat (nat (- i)) else show_nat (nat i))"

definition starts_with :: "string \<Rightarrow> string \<Rightarrow> bool" where
  "starts_with p s = (take (length p) s = p)"

subsection \<open>Conflict keys\<close>

record DeliveryConflictIdentityInput =
  ci_gatewayId :: string
  ci_laneKey :: string
  ci_projectionKey :: "string option"
  ci_bindingId :: "string option"
  ci_bindingGeneration :: "int option"
  ci_promptId :: "string option"
  ci_workerTurnId :: "string option"
  ci_workerId :: "string option"
  ci_workerSessionGeneration :: "int option"
  ci_streamPageIndex :: "int option"
  ci_targetRole :: "OutboundTargetRole option"
  ci_kind :: OutboundReplyKind
  ci_rootMessageId :: "string option"

datatype conflict_error = ConflictIdentityRequired

definition requiredPart :: "string \<Rightarrow> conflict_error + string" where
  "requiredPart v = (let r = js_trim v in if r = [] then Inl ConflictIdentityRequired else Inr r)"

text \<open>A truthy text: neither \<^verbatim>\<open>null\<close> nor empty.\<close>

definition truthy :: "string option \<Rightarrow> string option" where
  "truthy s = (case s of Some [] \<Rightarrow> None | _ \<Rightarrow> s)"

definition deliveryConflictKey :: "DeliveryConflictIdentityInput \<Rightarrow> conflict_error + string" where
  "deliveryConflictKey input =
     (case requiredPart (ci_gatewayId input) of
        Inl e \<Rightarrow> Inl e
      | Inr gateway \<Rightarrow>
          let prefix = ''gateway:'' @ gateway in
          (case (truthy (ci_workerTurnId input), truthy (ci_promptId input), ci_streamPageIndex input) of
             (Some t, _, Some page) \<Rightarrow> Inr (prefix @ '':worker-task:'' @ t @ '':'' @ show_int page)
           | (None, Some p, Some page) \<Rightarrow> Inr (prefix @ '':answer-page:'' @ p @ '':'' @ show_int page)
           | _ \<Rightarrow>
               (case (truthy (ci_workerId input), ci_workerSessionGeneration input, ci_kind input = CardUpdate \<or> ci_kind input = GroupCardCreate) of
                  (Some w, Some g, True) \<Rightarrow> Inr (prefix @ '':worker-main:'' @ w @ '':'' @ show_int g)
                | _ \<Rightarrow>
                    (case (truthy (ci_bindingId input), ci_bindingGeneration input, ci_targetRole input = Some SessionStatus) of
                       (Some b, Some g, True) \<Rightarrow> Inr (prefix @ '':primary-main:'' @ b @ '':'' @ show_int g)
                     | _ \<Rightarrow>
                         (case (truthy (ci_rootMessageId input), ci_kind input = CardUpdate \<or> ci_kind input = MessageDelete) of
                            (Some m, True) \<Rightarrow> Inr (prefix @ '':surface:'' @ m)
                          | _ \<Rightarrow>
                              let lane = js_trim (ci_laneKey input) in
                              if lane = [] then Inl ConflictIdentityRequired
                              else if starts_with ''gateway:'' lane then Inr lane else Inr (prefix @ '':'' @ lane))))))"

record DegradationBudget =
  bud_attemptLimit :: int
  bud_durationMs :: int
  bud_deadlineAt :: timestamp

definition deliveryDegradationBudget :: "DeliveryFailureClass \<Rightarrow> DeliveryEffectCertainty \<Rightarrow> timestamp \<Rightarrow> DegradationBudget" where
  "deliveryDegradationBudget cls certainty firstFailedAt =
     (let uncertain = (certainty = Uncertain); duration = (if uncertain then 60000 else 120000)
      in \<lparr>bud_attemptLimit = (if \<not> uncertain \<and> cls = Transient then 5 else 0), bud_durationMs = duration,
          bud_deadlineAt = firstFailedAt + duration\<rparr>)"

subsection \<open>Replay safety\<close>

record ReplaySafeSupersessionFacts =
  rs_effectCertainty :: "DeliveryEffectCertainty option"
  rs_autoRecoveryCount :: int
  rs_kind :: OutboundReplyKind
  rs_idempotencyKey :: "string option"
  rs_projectionKey :: "string option"
  rs_reconstructible :: bool
  rs_targetFrozen :: bool
  rs_providerOperationSafe :: bool
  rs_ownerCurrent :: bool
  rs_hasExternalEffectEvidence :: bool

record DirectDeliveryRetryFacts =
  dr_effectCertainty :: "DeliveryEffectCertainty option"
  dr_autoRecoveryCount :: int
  dr_kind :: OutboundReplyKind
  dr_deliveredMessageId :: "string option"
  dr_cardIdCheckpoint :: "string option"
  dr_gatewayCheckpointJson :: "string option"

definition nonempty :: "string option \<Rightarrow> bool" where
  "nonempty v = (case v of None \<Rightarrow> False | Some s \<Rightarrow> 0 < length (js_trim s))"

definition isReplaySafeSupersession :: "ReplaySafeSupersessionFacts \<Rightarrow> bool" where
  "isReplaySafeSupersession f =
     ((rs_effectCertainty f = Some NotStarted \<or> rs_effectCertainty f = Some Rejected)
      \<and> rs_autoRecoveryCount f = 0 \<and> rs_kind f \<noteq> MessageDelete
      \<and> (nonempty (rs_idempotencyKey f) \<or> nonempty (rs_projectionKey f))
      \<and> rs_reconstructible f \<and> \<not> rs_targetFrozen f \<and> rs_providerOperationSafe f \<and> rs_ownerCurrent f
      \<and> \<not> rs_hasExternalEffectEvidence f)"

definition isDirectDeliveryRetryAllowed :: "DirectDeliveryRetryFacts \<Rightarrow> bool" where
  "isDirectDeliveryRetryAllowed f =
     ((dr_effectCertainty f = Some NotStarted \<or> dr_effectCertainty f = Some Rejected)
      \<and> dr_autoRecoveryCount f = 0
      \<and> (dr_kind f = TextReply \<or> dr_kind f = CardReply \<or> dr_kind f = GroupCardCreate \<or> dr_kind f = StreamCardCreate)
      \<and> dr_deliveredMessageId f = None \<and> dr_cardIdCheckpoint f = None \<and> dr_gatewayCheckpointJson f = None)"

subsection \<open>Retry planning\<close>

record DeliveryRetryPlan =
  retry_attemptCount :: nat
  retry_exhausted :: bool
  retry_nextAttemptAt :: timestamp

text \<open>\<open>random\<close> is the value of \<^verbatim>\<open>Math.random\<close>, in the interval from 0 to 1; \<^verbatim>\<open>Math.round x\<close> is the floor of x + 1/2.\<close>

definition planDeliveryRetry :: "nat \<Rightarrow> int option \<Rightarrow> timestamp \<Rightarrow> rat \<Rightarrow> DeliveryRetryPlan" where
  "planDeliveryRetry previous explicit now random =
     (let attempt = previous + 1;
          exponential = min 60000 (1000 * 2 ^ (attempt - 1)) :: int;
          delay = (case explicit of
                     None \<Rightarrow> \<lfloor>of_int exponential * (8 / 10 + random * (4 / 10)) + 1 / 2\<rfloor>
                   | Some e \<Rightarrow> max exponential (min 3600000 e))
      in \<lparr>retry_attemptCount = attempt, retry_exhausted = (3 \<le> attempt), retry_nextAttemptAt = now + delay\<rparr>)"

subsection \<open>Keys name one surface\<close>

lemma digit_char_inject: "a < 10 \<Longrightarrow> b < 10 \<Longrightarrow> digit_char a = digit_char b \<Longrightarrow> a = b"
proof -
  assume a: "a < 10" and b: "b < 10" and eq: "digit_char a = digit_char b"
  have "(of_char (digit_char a) :: nat) = of_char (digit_char b)" using eq by simp
  then show "a = b" using a b by (simp add: digit_char_def)
qed

lemma show_nat_nonempty: "show_nat n \<noteq> []"
  by (subst show_nat.simps) simp

lemma show_nat_inject [simp]: "show_nat m = show_nat n \<longleftrightarrow> m = n"
proof
  show "show_nat m = show_nat n \<Longrightarrow> m = n"
  proof (induction m arbitrary: n rule: less_induct)
    case (less m)
    show ?case
    proof (cases "m < 10")
      case True
      then have m: "show_nat m = [digit_char m]" by (subst show_nat.simps) simp
      show ?thesis
      proof (cases "n < 10")
        case True
        then have "show_nat n = [digit_char n]" by (subst show_nat.simps) simp
        with m less.prems \<open>m < 10\<close> True show ?thesis by (simp add: digit_char_inject)
      next
        case False
        then have "show_nat n = show_nat (n div 10) @ [digit_char (n mod 10)]" by (subst show_nat.simps) simp
        with m less.prems show_nat_nonempty [of "n div 10"] show ?thesis by (cases "show_nat (n div 10)") auto
      qed
    next
      case False
      then have m: "show_nat m = show_nat (m div 10) @ [digit_char (m mod 10)]" by (subst show_nat.simps) simp
      show ?thesis
      proof (cases "n < 10")
        case True
        then have "show_nat n = [digit_char n]" by (subst show_nat.simps) simp
        with m less.prems show_nat_nonempty [of "m div 10"] show ?thesis by (cases "show_nat (m div 10)") auto
      next
        case n: False
        then have "show_nat n = show_nat (n div 10) @ [digit_char (n mod 10)]" by (subst show_nat.simps) simp
        with m less.prems have "show_nat (m div 10) = show_nat (n div 10)" "digit_char (m mod 10) = digit_char (n mod 10)" by auto
        with less.IH [of "m div 10" "n div 10"] False have "m div 10 = n div 10" "m mod 10 = n mod 10"
          by (auto intro: digit_char_inject)
        then show ?thesis by (metis div_mult_mod_eq)
      qed
    qed
  qed
qed simp

lemma digit_not: "d < 10 \<Longrightarrow> digit_char d \<noteq> CHR '':''" "d < 10 \<Longrightarrow> digit_char d \<noteq> CHR ''-''"
proof -
  have c: "(of_char (digit_char d) :: nat) = 48 + d" if "d < 10" using that by (simp add: digit_char_def)
  have "(of_char (CHR '':'') :: nat) = 58" "(of_char (CHR ''-'') :: nat) = 45" by simp_all
  with c show "d < 10 \<Longrightarrow> digit_char d \<noteq> CHR '':''" "d < 10 \<Longrightarrow> digit_char d \<noteq> CHR ''-''" by auto
qed

lemma show_nat_chars: "CHR '':'' \<notin> set (show_nat n)" "CHR ''-'' \<notin> set (show_nat n)"
proof -
  have "CHR '':'' \<notin> set (show_nat n) \<and> CHR ''-'' \<notin> set (show_nat n)"
  proof (induction n rule: less_induct)
    case (less n)
    then show ?case using digit_not [of "n mod 10"] digit_not [of n]
      by (subst (1 2) show_nat.simps) (auto dest: sym)
  qed
  then show "CHR '':'' \<notin> set (show_nat n)" "CHR ''-'' \<notin> set (show_nat n)" by auto
qed

lemma show_int_inject [simp]: "show_int i = show_int j \<longleftrightarrow> i = j"
proof
  assume eq: "show_int i = show_int j"
  show "i = j"
  proof (cases "i < 0"; cases "j < 0")
    assume "i < 0" "\<not> j < 0"
    with eq have "CHR ''-'' \<in> set (show_nat (nat j))" by (metis list.set_intros(1) show_int_def)
    with show_nat_chars(2) show ?thesis by simp
  next
    assume "\<not> i < 0" "j < 0"
    with eq have "CHR ''-'' \<in> set (show_nat (nat i))" by (metis list.set_intros(1) show_int_def)
    with show_nat_chars(2) show ?thesis by simp
  qed (use eq in \<open>auto simp: show_int_def\<close>)
qed simp

lemma show_int_colon: "CHR '':'' \<notin> set (show_int i)"
  using show_nat_chars(1) by (simp add: show_int_def)

text \<open>A text followed by a colon and a number determines both: the last colon splits it.\<close>

lemma split_last_colon:
  assumes "a @ CHR '':'' # x = b @ CHR '':'' # y" "CHR '':'' \<notin> set x" "CHR '':'' \<notin> set y"
  shows "a = b \<and> x = y"
proof -
  have rx: "takeWhile (\<lambda>c. c \<noteq> CHR '':'') (rev (u @ CHR '':'' # v)) = rev v" if "CHR '':'' \<notin> set v" for u v
  proof -
    have "takeWhile (\<lambda>c. c \<noteq> CHR '':'') (rev v @ CHR '':'' # rev u) = rev v @ takeWhile (\<lambda>c. c \<noteq> CHR '':'') (CHR '':'' # rev u)"
      using that by (intro takeWhile_append2) auto
    then show ?thesis by simp
  qed
  have "rev x = rev y" using rx [OF assms(2), of a] rx [OF assms(3), of b] assms(1) by simp
  with assms(1) show ?thesis by simp
qed

lemma numbered_key_inject:
  "p @ q @ a @ '':'' @ show_int i = p @ q @ b @ '':'' @ show_int j \<longleftrightarrow> a = b \<and> i = j"
  using split_last_colon [of a "show_int i" b "show_int j"] show_int_colon by auto

text \<open>
  Conflict keys of numbered surfaces are faithful: two inputs of one Gateway that are both
  answer pages (or both Worker task pages) get the same key only for the same Prompt (or
  Worker turn) and the same page, so distinct pages are never serialised against each other.
\<close>
lemma page_conflict_keys_are_faithful:
  assumes "requiredPart (ci_gatewayId a) = Inr g" and "requiredPart (ci_gatewayId b) = Inr g"
    and "ci_streamPageIndex a = Some i" and "ci_streamPageIndex b = Some j"
  shows "(truthy (ci_workerTurnId a) = Some t \<and> truthy (ci_workerTurnId b) = Some u \<longrightarrow>
            (deliveryConflictKey a = deliveryConflictKey b \<longleftrightarrow> t = u \<and> i = j))
       \<and> (truthy (ci_workerTurnId a) = None \<and> truthy (ci_workerTurnId b) = None
            \<and> truthy (ci_promptId a) = Some p \<and> truthy (ci_promptId b) = Some q \<longrightarrow>
            (deliveryConflictKey a = deliveryConflictKey b \<longleftrightarrow> p = q \<and> i = j))"
proof -
  have task: "deliveryConflictKey a = Inr ((''gateway:'' @ g) @ '':worker-task:'' @ t @ '':'' @ show_int i)
      \<and> deliveryConflictKey b = Inr ((''gateway:'' @ g) @ '':worker-task:'' @ u @ '':'' @ show_int j)"
    if "truthy (ci_workerTurnId a) = Some t" "truthy (ci_workerTurnId b) = Some u"
    using assms that by (simp add: deliveryConflictKey_def Let_def)
  have page: "deliveryConflictKey a = Inr ((''gateway:'' @ g) @ '':answer-page:'' @ p @ '':'' @ show_int i)
      \<and> deliveryConflictKey b = Inr ((''gateway:'' @ g) @ '':answer-page:'' @ q @ '':'' @ show_int j)"
    if "truthy (ci_workerTurnId a) = None" "truthy (ci_workerTurnId b) = None"
      "truthy (ci_promptId a) = Some p" "truthy (ci_promptId b) = Some q"
    using assms that by (simp add: deliveryConflictKey_def Let_def)
  show ?thesis
  proof (intro conjI impI; elim conjE)
    assume "truthy (ci_workerTurnId a) = Some t" "truthy (ci_workerTurnId b) = Some u"
    from task [OF this] show "deliveryConflictKey a = deliveryConflictKey b \<longleftrightarrow> t = u \<and> i = j"
      by (elim conjE) (simp only: sum.inject(2) numbered_key_inject)
  next
    assume "truthy (ci_workerTurnId a) = None" "truthy (ci_workerTurnId b) = None"
      "truthy (ci_promptId a) = Some p" "truthy (ci_promptId b) = Some q"
    from page [OF this] show "deliveryConflictKey a = deliveryConflictKey b \<longleftrightarrow> p = q \<and> i = j"
      by (elim conjE) (simp only: sum.inject(2) numbered_key_inject)
  qed
qed



end
