(* ===== verification/Instance_Lease.thy ===== *)
theory Instance_Lease
  imports Delivery_Policies "HOL-Library.Char_ord" "HOL-Library.List_Lexorder"
begin

text \<open>
  The single-writer lease of the Bridge database: the lease row and its methods
  (\<^verbatim>\<open>src/src/store/sqlite/lease-store.ts\<close>, \<^verbatim>\<open>lease-time.ts\<close>), the write fence that every fenced
  table checks, and the heartbeat controller (\<^verbatim>\<open>src/src/runtime/instance-lease.ts\<close>) with its
  bounded retry of a busy database. Each method is one transaction on the row; a thrown
  error is an \<open>Inl\<close>.
\<close>

subsection \<open>The lease row\<close>

text \<open>\<open>lr_expiresAtMs\<close> is \<open>None\<close> on a database that has no such column yet.\<close>

record lease_row =
  lr_ownerId :: string
  lr_fencingToken :: int
  lr_expiresAt :: timestamp
  lr_expiresAtMs :: "timestamp option"
  lr_updatedAt :: timestamp

record InstanceLease =
  lease_ownerId :: string
  lease_fencingToken :: int
  lease_expiresAt :: timestamp
  lease_updatedAt :: timestamp

record lease_db =
  db_lease :: "lease_row option"
  db_hasExpiryMs :: bool

datatype lease_error = LeaseExpiryDisagrees | StaleInstanceLease | LeaseContended | LeaseNotHeld | StaleClaimChanged

definition leaseExpiryMs :: "lease_row \<Rightarrow> lease_error + timestamp" where
  "leaseExpiryMs row = (case lr_expiresAtMs row of
     Some ms \<Rightarrow> if ms \<noteq> lr_expiresAt row then Inl LeaseExpiryDisagrees else Inr ms
   | None \<Rightarrow> Inr (lr_expiresAt row))"

definition mapInstanceLease :: "lease_row \<Rightarrow> InstanceLease" where
  "mapInstanceLease row = \<lparr>lease_ownerId = lr_ownerId row, lease_fencingToken = lr_fencingToken row,
     lease_expiresAt = lr_expiresAt row, lease_updatedAt = lr_updatedAt row\<rparr>"

definition lease_written :: "lease_db \<Rightarrow> string \<Rightarrow> int \<Rightarrow> timestamp \<Rightarrow> timestamp \<Rightarrow> lease_row" where
  "lease_written db owner token expires now =
     \<lparr>lr_ownerId = owner, lr_fencingToken = token, lr_expiresAt = expires,
      lr_expiresAtMs = (if db_hasExpiryMs db then Some expires else None), lr_updatedAt = now\<rparr>"

definition acquireInstanceLease :: "string \<Rightarrow> timestamp \<Rightarrow> timestamp \<Rightarrow> lease_db \<Rightarrow> lease_error + lease_db \<times> InstanceLease option" where
  "acquireInstanceLease owner now expires db =
     (case db_lease db of
        None \<Rightarrow>
          let row = lease_written db owner 1 expires now in Inr (db\<lparr>db_lease := Some row\<rparr>, Some (mapInstanceLease row))
      | Some row \<Rightarrow>
          (case leaseExpiryMs row of
             Inl err \<Rightarrow> Inl err
           | Inr expiry \<Rightarrow>
               if lr_ownerId row = owner then
                 (let row' = lease_written db owner (lr_fencingToken row) expires now
                  in Inr (db\<lparr>db_lease := Some row'\<rparr>, Some (mapInstanceLease row')))
               else if expiry \<le> now then
                 (let row' = lease_written db owner (lr_fencingToken row + 1) expires now
                  in Inr (db\<lparr>db_lease := Some row'\<rparr>, Some (mapInstanceLease row')))
               else Inr (db, None)))"

definition renewInstanceLease :: "string \<Rightarrow> int \<Rightarrow> timestamp \<Rightarrow> timestamp \<Rightarrow> lease_db \<Rightarrow> lease_error + lease_db \<times> InstanceLease option" where
  "renewInstanceLease owner token ttlMs now db =
     (case db_lease db of
        None \<Rightarrow> Inr (db, None)
      | Some row \<Rightarrow>
          if lr_ownerId row \<noteq> owner \<or> lr_fencingToken row \<noteq> token then Inr (db, None)
          else (case leaseExpiryMs row of
             Inl err \<Rightarrow> Inl err
           | Inr expiry \<Rightarrow>
               if expiry \<le> now then Inr (db, None)
               else let row' = lease_written db owner token (now + ttlMs) now
                    in Inr (db\<lparr>db_lease := Some row'\<rparr>, Some (mapInstanceLease row'))))"

definition releaseInstanceLease :: "string \<Rightarrow> int \<Rightarrow> lease_db \<Rightarrow> lease_db \<times> bool" where
  "releaseInstanceLease owner token db =
     (case db_lease db of
        Some row \<Rightarrow> if lr_ownerId row = owner \<and> lr_fencingToken row = token then (db\<lparr>db_lease := None\<rparr>, True) else (db, False)
      | None \<Rightarrow> (db, False))"

text \<open>
  The condition of the fence triggers and of \<^verbatim>\<open>assertWriteFence\<close>: they read \<^verbatim>\<open>expires_at_ms\<close>, so a
  row without it admits no fenced write.
\<close>

definition fence_valid :: "string \<Rightarrow> int \<Rightarrow> timestamp \<Rightarrow> lease_db \<Rightarrow> bool" where
  "fence_valid owner token now db = (case db_lease db of
     None \<Rightarrow> False
   | Some row \<Rightarrow> lr_ownerId row = owner \<and> lr_fencingToken row = token
       \<and> (case lr_expiresAtMs row of None \<Rightarrow> False | Some ms \<Rightarrow> now < ms))"

subsection \<open>Claims of a prior owner\<close>

record delivery_claim_row =
  cl_id :: string
  cl_laneKey :: string
  cl_conflictKey :: string
  cl_attemptId :: "string option"
  cl_ownerId :: "string option"
  cl_fence :: "int option"
  cl_deadLetteredAt :: "timestamp option"
  cl_effectUncertain :: bool

record lane_quarantine =
  lq_failedReplyId :: string
  lq_conflictKey :: string
  lq_firstFailedAt :: timestamp
  lq_graceDeadlineAt :: timestamp
  lq_attemptLimit :: int
  lq_durationMs :: int

record claim_db =
  cdb_rows :: "delivery_claim_row list"
  cdb_quarantines :: "string \<rightharpoonup> lane_quarantine"

record StaleDeliveryClaimCursor =
  cur_afterId :: string
  cur_highWaterId :: string

record StaleDeliveryClaimBatchResult =
  batch_recoveredCount :: nat
  batch_next :: "StaleDeliveryClaimCursor option"
  batch_hasMore :: bool

definition stale_claim :: "string \<Rightarrow> int \<Rightarrow> delivery_claim_row \<Rightarrow> bool" where
  "stale_claim owner token r = (cl_attemptId r \<noteq> None \<and> (cl_ownerId r \<noteq> Some owner \<or> cl_fence r \<noteq> Some token))"

definition dead_letter :: "timestamp \<Rightarrow> delivery_claim_row \<Rightarrow> delivery_claim_row" where
  "dead_letter t r = r\<lparr>cl_attemptId := None, cl_ownerId := None, cl_fence := None, cl_deadLetteredAt := Some t, cl_effectUncertain := True\<rparr>"

definition quarantine_of :: "timestamp \<Rightarrow> delivery_claim_row \<Rightarrow> lane_quarantine" where
  "quarantine_of t c =
     (let budget = deliveryDegradationBudget UnknownFailure Uncertain t
      in \<lparr>lq_failedReplyId = cl_id c, lq_conflictKey = cl_conflictKey c, lq_firstFailedAt = t,
          lq_graceDeadlineAt = bud_deadlineAt budget, lq_attemptLimit = bud_attemptLimit budget,
          lq_durationMs = bud_durationMs budget\<rparr>)"

text \<open>The loop over the page; \<open>Inl\<close> when the \<^verbatim>\<open>UPDATE\<close> of a claim changed no row.\<close>

fun settle_claims :: "string \<Rightarrow> int \<Rightarrow> timestamp \<Rightarrow> delivery_claim_row list \<Rightarrow> claim_db \<Rightarrow> lease_error + claim_db" where
  "settle_claims owner token t [] db = Inr db"
| "settle_claims owner token t (c # cs) db =
     (if \<exists>r \<in> set (cdb_rows db). cl_id r = cl_id c \<and> cl_attemptId r = cl_attemptId c \<and> stale_claim owner token r
      then settle_claims owner token t cs
        (db\<lparr>cdb_rows := map (\<lambda>r. if cl_id r = cl_id c \<and> cl_attemptId r = cl_attemptId c \<and> stale_claim owner token r
                              then dead_letter t r else r) (cdb_rows db),
            cdb_quarantines := (cdb_quarantines db)(cl_laneKey c \<mapsto> quarantine_of t c)\<rparr>)
      else Inl StaleClaimChanged)"

definition claim_page :: "string \<Rightarrow> int \<Rightarrow> string \<Rightarrow> string \<Rightarrow> claim_db \<Rightarrow> delivery_claim_row list" where
  "claim_page owner token afterId high db =
     sort_key cl_id (filter (\<lambda>r. stale_claim owner token r \<and> afterId < cl_id r \<and> cl_id r \<le> high) (cdb_rows db))"

definition highest_claim :: "string \<Rightarrow> int \<Rightarrow> claim_db \<Rightarrow> string option" where
  "highest_claim owner token db =
     list_last (sort (map cl_id (filter (stale_claim owner token) (cdb_rows db))))"

text \<open>The first two arguments are the caller's owner and token, \<open>fence\<close> the active fence that \<^verbatim>\<open>assertWriteFence\<close> passed.\<close>

definition recoverPriorOwnerClaimsBatch :: "string \<Rightarrow> int \<Rightarrow> (string \<times> int) option \<Rightarrow> StaleDeliveryClaimCursor option \<Rightarrow> int \<Rightarrow> timestamp
    \<Rightarrow> claim_db \<Rightarrow> lease_error + claim_db \<times> StaleDeliveryClaimBatchResult" where
  "recoverPriorOwnerClaimsBatch owner token fence after l t db =
     (let bound = nat (max 1 (min 1000 l)) in
      if fence \<noteq> Some (owner, token) then Inl StaleInstanceLease
      else case (case after of Some c \<Rightarrow> Some (cur_highWaterId c) | None \<Rightarrow> highest_claim owner token db) of
        None \<Rightarrow> Inr (db, \<lparr>batch_recoveredCount = 0, batch_next = after, batch_hasMore = False\<rparr>)
      | Some high \<Rightarrow>
          if high = [] then Inr (db, \<lparr>batch_recoveredCount = 0, batch_next = after, batch_hasMore = False\<rparr>)
          else
            let afterId = (case after of Some c \<Rightarrow> cur_afterId c | None \<Rightarrow> []);
                candidates = take (bound + 1) (claim_page owner token afterId high db);
                page = take bound candidates
            in (case settle_claims owner token t page db of
                  Inl err \<Rightarrow> Inl err
                | Inr db' \<Rightarrow>
                    Inr (db', \<lparr>batch_recoveredCount = length page,
                               batch_next = (case list_last page of
                                  Some r \<Rightarrow> Some \<lparr>cur_afterId = cl_id r, cur_highWaterId = high\<rparr> | None \<Rightarrow> after),
                               batch_hasMore = (bound < length candidates)\<rparr>)))"

subsection \<open>The heartbeat controller\<close>

record lease_options =
  opt_ttlMs :: int
  opt_busyTimeoutMs :: int
  opt_retryBudgetMs :: int

record InstanceLeaseStatus =
  st_held :: bool
  st_fencingToken :: "int option"
  st_expiresAt :: "timestamp option"
  st_lastRenewedAt :: "timestamp option"
  st_error :: "string option"

definition new_status :: InstanceLeaseStatus where
  "new_status = \<lparr>st_held = False, st_fencingToken = None, st_expiresAt = None, st_lastRenewedAt = None, st_error = None\<rparr>"

definition lease_acquire :: "string \<Rightarrow> lease_options \<Rightarrow> timestamp \<Rightarrow> InstanceLeaseStatus \<Rightarrow> lease_db
    \<Rightarrow> InstanceLeaseStatus \<times> lease_db \<times> lease_error option" where
  "lease_acquire owner opts now st db =
     (case acquireInstanceLease owner now (now + opt_ttlMs opts) db of
        Inl err \<Rightarrow> (st, db, Some err)
      | Inr (db', None) \<Rightarrow>
          (st\<lparr>st_held := False, st_error := Some ''Lease is held by another bridge instance''\<rparr>, db', Some LeaseContended)
      | Inr (db', Some l) \<Rightarrow>
          (\<lparr>st_held = True, st_fencingToken = Some (lease_fencingToken l), st_expiresAt = Some (lease_expiresAt l),
            st_lastRenewedAt = Some (lease_updatedAt l), st_error = None\<rparr>, db', None))"

definition lose :: "string \<Rightarrow> InstanceLeaseStatus \<Rightarrow> InstanceLeaseStatus" where
  "lose reason st = st\<lparr>st_held := False, st_error := Some reason\<rparr>"

definition lease_release :: "string \<Rightarrow> InstanceLeaseStatus \<Rightarrow> lease_db \<Rightarrow> InstanceLeaseStatus \<times> lease_db" where
  "lease_release owner st db =
     (case (st_held st, st_fencingToken st) of
        (True, Some token) \<Rightarrow> (st\<lparr>st_held := False, st_expiresAt := None\<rparr>, fst (releaseInstanceLease owner token db))
      | _ \<Rightarrow> (st, db))"

definition writeFence :: "InstanceLeaseStatus \<Rightarrow> lease_error + int" where
  "writeFence st = (case (st_held st, st_fencingToken st) of (True, Some token) \<Rightarrow> Inr token | _ \<Rightarrow> Inl LeaseNotHeld)"

text \<open>\<open>None\<close> is \<^verbatim>\<open>Number.POSITIVE_INFINITY\<close>.\<close>

definition renewalDeadline :: "lease_options \<Rightarrow> InstanceLeaseStatus \<Rightarrow> timestamp \<Rightarrow> timestamp" where
  "renewalDeadline opts st startedAt =
     (let budget = startedAt + opt_busyTimeoutMs opts + opt_retryBudgetMs opts
      in case st_expiresAt st of None \<Rightarrow> budget | Some e \<Rightarrow> min budget e)"

definition hasAttemptRoom :: "lease_options \<Rightarrow> timestamp \<Rightarrow> timestamp \<Rightarrow> bool" where
  "hasAttemptRoom opts now deadline = (now + opt_busyTimeoutMs opts \<le> deadline)"

text \<open>\<open>jitter\<close> stands for \<^verbatim>\<open>Math.floor(random() * jitterCapMs)\<close>, a function of the cap.\<close>

definition retryDelay :: "lease_options \<Rightarrow> (int \<Rightarrow> int) \<Rightarrow> nat \<Rightarrow> timestamp \<Rightarrow> timestamp \<Rightarrow> int" where
  "retryDelay opts jitter attempt now deadline =
     (let room = deadline - now - opt_busyTimeoutMs opts;
          cap = max 1 (min room (25 * 2 ^ min (attempt - 1) 3))
      in max 1 (jitter cap))"

text \<open>
  One turn of the loop in \<^verbatim>\<open>performRenewal\<close>: the clock before the store call, what the call
  did, and, when the database was busy, the clock after it, whether the wait ended by its
  timer (and not by a cancellation), and the clock after the wait.
\<close>

datatype store_answer = StoreLease InstanceLease | StoreNone | StoreFailed string | StoreBusy

record renewal_turn =
  rt_before :: timestamp
  rt_answer :: store_answer
  rt_after :: timestamp
  rt_timerFired :: bool
  rt_resumed :: timestamp

text \<open>
  The loop: the status it leaves, the result (\<open>None\<close> while more turns are needed) and the
  times of the store calls it made, latest first.
\<close>

definition exhausted_text :: string where
  "exhausted_text = ''SQLite lock retry deadline exhausted before lease renewal''"

fun performRenewal :: "lease_options \<Rightarrow> timestamp \<Rightarrow> timestamp option \<Rightarrow> InstanceLeaseStatus \<Rightarrow> timestamp list \<Rightarrow> renewal_turn list
    \<Rightarrow> InstanceLeaseStatus \<times> bool option \<times> timestamp list" where
  "performRenewal opts started deadline st calls [] = (st, None, calls)"
| "performRenewal opts started deadline st calls (t # ts) =
     (if \<not> st_held st \<or> st_fencingToken st = None then (st, Some False, calls)
      else if (case deadline of None \<Rightarrow> False | Some d \<Rightarrow> \<not> hasAttemptRoom opts (rt_before t) d)
      then (lose exhausted_text st, Some False, calls)
      else
        (case rt_answer t of
           StoreLease l \<Rightarrow>
             (st\<lparr>st_expiresAt := Some (lease_expiresAt l), st_lastRenewedAt := Some (lease_updatedAt l), st_error := None\<rparr>,
              Some True, rt_before t # calls)
         | StoreNone \<Rightarrow> (lose ''Lease ownership, fencing token, or expiry changed'' st, Some False, rt_before t # calls)
         | StoreFailed m \<Rightarrow> (lose m st, Some False, rt_before t # calls)
         | StoreBusy \<Rightarrow>
             if opt_retryBudgetMs opts \<le> 0 then (lose ''SQLite busy prevented lease renewal'' st, Some False, rt_before t # calls)
             else
               let d = (case deadline of None \<Rightarrow> renewalDeadline opts st started | Some x \<Rightarrow> x)
               in if \<not> hasAttemptRoom opts (rt_after t) d then (lose exhausted_text st, Some False, rt_before t # calls)
                  else if \<not> rt_timerFired t then (st, Some False, rt_before t # calls)
                  else if \<not> hasAttemptRoom opts (rt_resumed t) d then (lose exhausted_text st, Some False, rt_before t # calls)
                  else performRenewal opts started (Some d) st (rt_before t # calls) ts))"

subsection \<open>The lease is exclusive and fenced\<close>

definition lease_inv :: "lease_db \<Rightarrow> bool" where
  "lease_inv db \<longleftrightarrow> (case db_lease db of None \<Rightarrow> True | Some row \<Rightarrow> 1 \<le> lr_fencingToken row \<and>
     lr_expiresAtMs row = (if db_hasExpiryMs db then Some (lr_expiresAt row) else None))"

datatype lease_op = Acquire string timestamp timestamp | Renew string int timestamp timestamp | Release string int

text \<open>One method call on the row; a call that throws leaves it.\<close>

fun lease_step :: "lease_op \<Rightarrow> lease_db \<Rightarrow> lease_db" where
  "lease_step (Acquire owner now expires) db = (case acquireInstanceLease owner now expires db of Inl _ \<Rightarrow> db | Inr (db', _) \<Rightarrow> db')"
| "lease_step (Renew owner token ttl now) db = (case renewInstanceLease owner token ttl now db of Inl _ \<Rightarrow> db | Inr (db', _) \<Rightarrow> db')"
| "lease_step (Release owner token) db = fst (releaseInstanceLease owner token db)"

lemma lease_inv_step: "lease_inv db \<Longrightarrow> lease_inv (lease_step op db)"
  by (cases op) (auto simp: lease_inv_def acquireInstanceLease_def renewInstanceLease_def releaseInstanceLease_def
      leaseExpiryMs_def lease_written_def Let_def split: option.splits if_splits)

lemma lease_expiry_inv: "lease_inv db \<Longrightarrow> db_lease db = Some row \<Longrightarrow> leaseExpiryMs row = Inr (lr_expiresAt row)"
  by (auto simp: lease_inv_def leaseExpiryMs_def split: if_splits option.splits)

definition holder :: "lease_db \<Rightarrow> string option" where
  "holder db = map_option lr_ownerId (db_lease db)"

lemma holder_step:
  assumes "holder db \<noteq> Some o1" and "\<And>now ex. op \<noteq> Acquire o1 now ex"
  shows "holder (lease_step op db) \<noteq> Some o1"
  using assms
  by (cases op) (auto simp: holder_def acquireInstanceLease_def renewInstanceLease_def releaseInstanceLease_def
      lease_written_def leaseExpiryMs_def Let_def split: option.splits if_splits)

lemma holder_run:
  assumes "holder db \<noteq> Some o1" and "\<forall>op \<in> set ops. \<forall>now ex. op \<noteq> Acquire o1 now ex"
  shows "holder (fold lease_step ops db) \<noteq> Some o1"
  using assms by (induction ops arbitrary: db) (auto simp: holder_step)

text \<open>
  C3: Taking over the lease. Another owner obtains the lease only when the recorded expiry has
  passed (or no lease exists); the takeover raises the fencing token by one; and from then
  on, whatever any owner does, the former owner's write fence stays invalid under every
  token and its renewals fail, until it acquires the lease again.
\<close>
theorem takeover_fences_out_the_former_owner:
  assumes "lease_inv db" and "db_lease db = Some row" and "lr_ownerId row \<noteq> new"
    and "acquireInstanceLease new now expires db = Inr (db', Some lease)"
    and "\<forall>op \<in> set ops. \<forall>when ex. op \<noteq> Acquire (lr_ownerId row) when ex"
  shows "lr_expiresAt row \<le> now \<and> lease_fencingToken lease = lr_fencingToken row + 1
       \<and> \<not> fence_valid (lr_ownerId row) token later (fold lease_step ops db')
       \<and> (\<exists>db''. renewInstanceLease (lr_ownerId row) token ttl later (fold lease_step ops db') = Inr (db'', None))"
proof -
  have exp: "lr_expiresAt row \<le> now" and db': "db' = db\<lparr>db_lease := Some (lease_written db new (lr_fencingToken row + 1) expires now)\<rparr>"
    and tok: "lease_fencingToken lease = lr_fencingToken row + 1"
    using assms(2-4) lease_expiry_inv [OF assms(1,2)]
    by (auto simp: acquireInstanceLease_def mapInstanceLease_def lease_written_def Let_def split: if_splits)
  have "holder (fold lease_step ops db') \<noteq> Some (lr_ownerId row)"
    using assms(3,5) by (intro holder_run) (auto simp: db' holder_def lease_written_def)
  then show ?thesis using exp tok
    by (auto simp: fence_valid_def renewInstanceLease_def holder_def split: option.splits)
qed

text \<open>
  A controller's renewal never enters the database when the call could outlast the lease:
  every retried store call starts with the busy timeout still fitting before the expiry
  known when the renewal began, and the retries end within the configured budget.
\<close>
lemma renewal_attempts_fit_before_expiry:
  assumes "performRenewal opts started None st [] turns = (st', result, calls)" and "st_expiresAt st = Some e"
  shows "\<forall>c \<in> set (butlast calls). c + opt_busyTimeoutMs opts \<le> e
           \<and> c \<le> started + opt_retryBudgetMs opts"
proof -
  let ?d = "renewalDeadline opts st started"
  have gen: "\<forall>c \<in> set (butlast calls'). c + opt_busyTimeoutMs opts \<le> ?d"
    if "performRenewal opts started dl st cs ts = (s', r', calls')" "dl = None \<and> cs = [] \<or> dl = Some ?d \<and> cs \<noteq> []"
      "\<forall>c \<in> set (butlast cs). c + opt_busyTimeoutMs opts \<le> ?d" for dl cs ts s' r' calls'
    using that
  proof (induction ts arbitrary: dl cs)
    case Nil
    then show ?case by simp
  next
    case (Cons t ts)
    have bl: "butlast (rt_before t # cs) = (if cs = [] then [] else rt_before t # butlast cs)" by simp
    have new: "\<forall>c \<in> set (butlast (rt_before t # cs)). c + opt_busyTimeoutMs opts \<le> ?d"
      if "dl = Some ?d \<longrightarrow> hasAttemptRoom opts (rt_before t) ?d"
      using that Cons.prems(2,3) unfolding bl by (auto simp: hasAttemptRoom_def)
    show ?case
    proof (cases "rt_answer t = StoreBusy \<and> st_held st \<and> st_fencingToken st \<noteq> None \<and> 0 < opt_retryBudgetMs opts
        \<and> (dl = Some ?d \<longrightarrow> hasAttemptRoom opts (rt_before t) ?d)
        \<and> hasAttemptRoom opts (rt_after t) ?d \<and> rt_timerFired t \<and> hasAttemptRoom opts (rt_resumed t) ?d")
      case True
      have d: "(case dl of None \<Rightarrow> ?d | Some x \<Rightarrow> x) = ?d" using Cons.prems(2) by auto
      have "performRenewal opts started (Some ?d) st (rt_before t # cs) ts = (s', r', calls')"
        using Cons.prems(1,2) True by (auto simp: Let_def d)
      from Cons.IH [OF this] show ?thesis using new True by auto
    next
      case False
      have d: "(case dl of None \<Rightarrow> ?d | Some x \<Rightarrow> x) = ?d" using Cons.prems(2) by auto
      have "calls' = cs \<or> calls' = rt_before t # cs \<and> (dl = Some ?d \<longrightarrow> hasAttemptRoom opts (rt_before t) ?d)"
        using Cons.prems(1,2) False by (auto simp: Let_def d split: store_answer.splits if_splits)
      then show ?thesis using new Cons.prems(3) by auto
    qed
  qed
  have "?d \<le> e" "?d \<le> started + opt_busyTimeoutMs opts + opt_retryBudgetMs opts"
    using assms(2) by (simp_all add: renewalDeadline_def Let_def)
  with gen [OF assms(1)] show ?thesis by fastforce
qed

text \<open>
  The token alone does not order the owners: releasing deletes the row, so the next owner
  starts again at token 1, and a fence is told apart from an earlier one with the same
  token only by its owner id.
\<close>
lemma release_restarts_the_fencing_token:
  assumes "db_lease db = Some row"
  shows "\<exists>db' lease. acquireInstanceLease new now expires (fst (releaseInstanceLease (lr_ownerId row) (lr_fencingToken row) db))
           = Inr (db', Some lease) \<and> lease_fencingToken lease = 1"
  using assms by (simp add: releaseInstanceLease_def acquireInstanceLease_def mapInstanceLease_def lease_written_def Let_def)

subsection \<open>Recovering claims\<close>

lemma settle_claims_effect:
  assumes "distinct (map cl_id (cdb_rows db))" "distinct (map cl_id cs)"
    "\<forall>c \<in> set cs. c \<in> set (cdb_rows db) \<and> stale_claim owner token c"
  shows "\<exists>db'. settle_claims owner token t cs db = Inr db'
     \<and> cdb_rows db' = map (\<lambda>r. if cl_id r \<in> cl_id ` set cs then dead_letter t r else r) (cdb_rows db)"
  using assms
proof (induction cs arbitrary: db)
  case Nil
  then show ?case by simp
next
  case (Cons c cs)
  define g where "g = (\<lambda>r. if cl_id r = cl_id c \<and> cl_attemptId r = cl_attemptId c \<and> stale_claim owner token r then dead_letter t r else r)"
  define db1 where "db1 = db\<lparr>cdb_rows := map g (cdb_rows db), cdb_quarantines := (cdb_quarantines db)(cl_laneKey c \<mapsto> quarantine_of t c)\<rparr>"
  have c: "c \<in> set (cdb_rows db)" "stale_claim owner token c" using Cons.prems(3) by auto
  have uniq: "r = c" if "r \<in> set (cdb_rows db)" "cl_id r = cl_id c" for r
    using Cons.prems(1) c(1) that by (auto simp: distinct_map inj_on_def)
  have g: "g r = (if cl_id r = cl_id c then dead_letter t r else r)" if "r \<in> set (cdb_rows db)" for r
    using uniq [OF that] c(2) by (auto simp: g_def)
  have gid: "cl_id (g r) = cl_id r" for r by (simp add: g_def dead_letter_def)
  have ids: "map cl_id (cdb_rows db1) = map cl_id (cdb_rows db)" by (simp add: db1_def gid)
  have rest: "\<forall>x \<in> set cs. x \<in> set (cdb_rows db1) \<and> stale_claim owner token x"
  proof
    fix x assume x: "x \<in> set cs"
    then have "cl_id x \<noteq> cl_id c" using Cons.prems(2) by (force simp: image_iff)
    then have "g x = x" by (simp add: g_def)
    then show "x \<in> set (cdb_rows db1) \<and> stale_claim owner token x"
      using Cons.prems(3) x by (auto simp: db1_def image_iff) metis
  qed
  obtain db' where db': "settle_claims owner token t cs db1 = Inr db'"
    "cdb_rows db' = map (\<lambda>r. if cl_id r \<in> cl_id ` set cs then dead_letter t r else r) (cdb_rows db1)"
    using Cons.IH [of db1] ids rest Cons.prems(1,2) by auto
  have "settle_claims owner token t (c # cs) db = Inr db'"
    using c db'(1) by (auto simp: db1_def g_def)
  moreover have "cdb_rows db' = map (\<lambda>r. if cl_id r \<in> cl_id ` set (c # cs) then dead_letter t r else r) (cdb_rows db)"
    using Cons.prems(2) by (auto simp: db'(2) db1_def g gid dead_letter_def)
  ultimately show ?case by blast
qed

text \<open>
  A recovery batch under a valid fence settles exactly a page of claims held under another
  owner or token: it returns, the page has at most the batch limit, its claims become dead
  letters with an uncertain effect (never pending again), the new owner's own claims and
  every other row are untouched, and when it reports no more work, no stale claim of the
  scanned range is left.
\<close>
lemma stale_claims_are_settled_once:
  assumes "distinct (map cl_id (cdb_rows db))" and "after = Some \<lparr>cur_afterId = a, cur_highWaterId = h\<rparr>" and "h \<noteq> []"
  shows "\<exists>db' res. recoverPriorOwnerClaimsBatch owner token (Some (owner, token)) after l t db = Inr (db', res)
           \<and> batch_recoveredCount res \<le> nat (max 1 (min 1000 l))
           \<and> (\<forall>r \<in> set (cdb_rows db). \<not> stale_claim owner token r \<longrightarrow> r \<in> set (cdb_rows db'))
           \<and> (\<forall>r \<in> set (cdb_rows db'). r \<in> set (cdb_rows db) \<or> cl_attemptId r = None \<and> cl_effectUncertain r \<and> cl_deadLetteredAt r = Some t)
           \<and> (\<not> batch_hasMore res \<longrightarrow> (\<forall>r \<in> set (cdb_rows db'). a < cl_id r \<and> cl_id r \<le> h \<longrightarrow> \<not> stale_claim owner token r))"
proof -
  define bound where "bound = nat (max 1 (min 1000 l))"
  define all where "all = claim_page owner token a h db"
  define page where "page = take bound all"
  have mem: "r \<in> set all \<longleftrightarrow> r \<in> set (cdb_rows db) \<and> stale_claim owner token r \<and> a < cl_id r \<and> cl_id r \<le> h" for r
    by (auto simp: all_def claim_page_def)
  have "distinct (map cl_id all)" using assms(1) by (simp add: all_def claim_page_def distinct_map inj_on_def)
  then have dist: "distinct (map cl_id page)" by (simp add: page_def take_map [symmetric])
  have sub: "\<forall>c \<in> set page. c \<in> set (cdb_rows db) \<and> stale_claim owner token c"
    using mem in_set_takeD [of _ bound all] by (auto simp: page_def)
  obtain db' where db': "settle_claims owner token t page db = Inr db'"
    "cdb_rows db' = map (\<lambda>r. if cl_id r \<in> cl_id ` set page then dead_letter t r else r) (cdb_rows db)"
    using settle_claims_effect [OF assms(1) dist sub] by blast
  have same: "r = c" if "r \<in> set (cdb_rows db)" "c \<in> set page" "cl_id r = cl_id c" for r c
    using assms(1) sub that by (auto simp: distinct_map inj_on_def)
  let ?res = "\<lparr>batch_recoveredCount = length page,
      batch_next = (case list_last page of Some r \<Rightarrow> Some \<lparr>cur_afterId = cl_id r, cur_highWaterId = h\<rparr> | None \<Rightarrow> after),
      batch_hasMore = (bound < length (take (bound + 1) all))\<rparr>"
  have run: "recoverPriorOwnerClaimsBatch owner token (Some (owner, token)) after l t db = Inr (db', ?res)"
  proof -
    have pg: "take bound (take (bound + 1) all) = page" by (simp add: page_def min_absorb1)
    have "recoverPriorOwnerClaimsBatch owner token (Some (owner, token)) after l t db =
        (case settle_claims owner token t (take bound (take (bound + 1) all)) db of
           Inl err \<Rightarrow> Inl err
         | Inr db' \<Rightarrow> Inr (db', \<lparr>batch_recoveredCount = length (take bound (take (bound + 1) all)),
             batch_next = (case list_last (take bound (take (bound + 1) all)) of
                Some r \<Rightarrow> Some \<lparr>cur_afterId = cl_id r, cur_highWaterId = h\<rparr> | None \<Rightarrow> after),
             batch_hasMore = (bound < length (take (bound + 1) all))\<rparr>))"
      unfolding recoverPriorOwnerClaimsBatch_def bound_def all_def Let_def assms(2)
        by (simp only: option.case StaleDeliveryClaimCursor.simps simp_thms if_False assms(3))
    then show ?thesis by (simp only: pg db'(1) sum.case)
  qed
  have own: "r \<in> set (cdb_rows db')" if "r \<in> set (cdb_rows db)" "\<not> stale_claim owner token r" for r
    using that same [of r] sub by (force simp: db'(2))
  have dead: "r \<in> set (cdb_rows db) \<or> cl_attemptId r = None \<and> cl_effectUncertain r \<and> cl_deadLetteredAt r = Some t" if "r \<in> set (cdb_rows db')" for r
    using that by (auto simp: db'(2) dead_letter_def split: if_splits)
  have clean: "\<not> stale_claim owner token r" if "\<not> bound < length (take (bound + 1) all)" "r \<in> set (cdb_rows db')" "a < cl_id r" "cl_id r \<le> h" for r
  proof -
    have "page = all" using that(1) by (simp add: page_def min_def split: if_splits)
    then show ?thesis using that(2-4) mem by (auto simp: db'(2) dead_letter_def stale_claim_def split: if_splits)
  qed
  show ?thesis
    by (intro exI [of _ db'] exI [of _ ?res] conjI run) (use own dead clean in \<open>auto simp: page_def bound_def\<close>)
qed

subsection \<open>Concrete instances\<close>

definition sample_lease :: lease_db where
  "sample_lease = \<lparr>db_lease = Some \<lparr>lr_ownerId = ''a'', lr_fencingToken = 4, lr_expiresAt = 100, lr_expiresAtMs = Some 100, lr_updatedAt = 10\<rparr>,
     db_hasExpiryMs = True\<rparr>"

theorem takeover_fences_out_the_former_owner_witness:
  "\<exists>db' lease. acquireInstanceLease ''b'' 150 250 sample_lease = Inr (db', Some lease) \<and> lease_fencingToken lease = 5
     \<and> \<not> fence_valid ''a'' 4 160 (fold lease_step [Renew ''b'' 5 100 160, Renew ''a'' 4 100 160] db')"
proof -
  obtain db' lease where eq: "acquireInstanceLease ''b'' 150 250 sample_lease = Inr (db', Some lease)"
    by (simp add: acquireInstanceLease_def sample_lease_def leaseExpiryMs_def Let_def)
  moreover have "lease_inv sample_lease" by (simp add: lease_inv_def sample_lease_def)
  ultimately have "lease_fencingToken lease = 5
     \<and> \<not> fence_valid ''a'' 4 160 (fold lease_step [Renew ''b'' 5 100 160, Renew ''a'' 4 100 160] db')"
    using takeover_fences_out_the_former_owner [of sample_lease "the (db_lease sample_lease)" "''b''" 150 250 db' lease
        "[Renew ''b'' 5 100 160, Renew ''a'' 4 100 160]" 4 160 100]
    by (simp add: sample_lease_def)
  with eq show ?thesis by blast
qed

definition sample_claims :: claim_db where
  "sample_claims = \<lparr>cdb_rows = [\<lparr>cl_id = ''r1'', cl_laneKey = ''l1'', cl_conflictKey = ''k1'', cl_attemptId = Some ''x'',
       cl_ownerId = Some ''a'', cl_fence = Some 4, cl_deadLetteredAt = None, cl_effectUncertain = False\<rparr>],
     cdb_quarantines = Map.empty\<rparr>"

end
