(* ===== verification/Circuit_Breaker.thy ===== *)
theory Circuit_Breaker
  imports Prelude "HOL-Library.Sublist"
begin

text \<open>
  The circuit breaker in front of the Herdr transport
  (\<^verbatim>\<open>src/src/runtime/herdr-circuit-breaker.ts\<close>): the classification of transport failures,
  the admission of a call, the accounting when a call settles, and the port methods with
  the way each one passes the breaker. Calls overlap, so the breaker is a step relation on
  its fields and the admissions of the calls in flight. Logging is left out; the text kept
  as the last failure is the logger's redacted message, a field of the error here.
\<close>

subsection \<open>Errors and their classification\<close>

datatype error_class = CircuitOpenClass | CommandErrorClass bool | OtherClass

record herdr_error =
  he_class :: error_class
  he_code :: "string option"
  he_message :: string
  he_logged :: string

definition lower_char :: "char \<Rightarrow> char" where
  "lower_char c = (if 65 \<le> (of_char c :: nat) \<and> (of_char c :: nat) \<le> 90 then char_of ((of_char c :: nat) + 32) else c)"

text \<open>A literal alternative of a regular expression with the \<^verbatim>\<open>i\<close> flag: the text contains it, ASCII case aside.\<close>

definition matches_literal :: "string \<Rightarrow> string \<Rightarrow> bool" where
  "matches_literal pat s = sublist (map lower_char pat) (map lower_char s)"

definition transport_codes :: "string list" where
  "transport_codes = [''ECONNREFUSED'', ''ECONNRESET'', ''EPIPE'', ''ENOENT'', ''ETIMEDOUT'']"

definition transport_texts :: "string list" where
  "transport_texts = transport_codes
     @ concat (map (\<lambda>sep. map (\<lambda>w. ''socket'' @ sep @ w)
         [''closed'', ''stopped'', ''unavailable'', ''disconnected'', ''request_timeout'']) [''_'', '' ''])
     @ map (\<lambda>w. ''connection '' @ w) [''closed'', ''lost'', ''refused'', ''reset'']
     @ [''could not reach Herdr'', ''failed to connect'']
     @ map (\<lambda>w. ''transport '' @ w) [''closed'', ''unavailable'']"

definition isHerdrTransportFailure :: "herdr_error \<Rightarrow> bool" where
  "isHerdrTransportFailure e =
     (if he_class e = CircuitOpenClass then False
      else if he_class e = CommandErrorClass True then True
      else if opt_or (he_code e) [] \<in> set transport_codes then True
      else \<exists>p \<in> set transport_texts. matches_literal p (he_message e))"

subsection \<open>The breaker\<close>

datatype CircuitState = Closed | Open | HalfOpen
datatype OperationKind = Probe | Command

record HerdrCircuitBreakerOptions =
  cb_failureThreshold :: nat
  cb_openMs :: int

record HerdrCircuitBreaker =
  cb_state :: CircuitState
  cb_consecutiveFailures :: nat
  cb_totalTransportFailures :: nat
  cb_rejectedCalls :: nat
  cb_successfulProbes :: nat
  cb_openedAt :: "timestamp option"
  cb_nextProbeAt :: "timestamp option"
  cb_lastFailureAt :: "timestamp option"
  cb_lastFailure :: "string option"

definition new_breaker :: HerdrCircuitBreaker where
  "new_breaker = \<lparr>cb_state = Closed, cb_consecutiveFailures = 0, cb_totalTransportFailures = 0, cb_rejectedCalls = 0,
     cb_successfulProbes = 0, cb_openedAt = None, cb_nextProbeAt = None, cb_lastFailureAt = None, cb_lastFailure = None\<rparr>"

text \<open>The two messages of \<^verbatim>\<open>HerdrCircuitOpenError\<close>.\<close>

datatype HerdrCircuitOpenError = OpenUntil timestamp | HalfOpenProbing

definition circuit_open_error :: "timestamp option \<Rightarrow> HerdrCircuitOpenError" where
  "circuit_open_error nextProbeAt = (case nextProbeAt of Some t \<Rightarrow> OpenUntil t | None \<Rightarrow> HalfOpenProbing)"

definition admit :: "OperationKind \<Rightarrow> timestamp \<Rightarrow> HerdrCircuitBreaker \<Rightarrow> HerdrCircuitBreaker \<times> (HerdrCircuitOpenError + CircuitState)" where
  "admit kind now b =
     (if cb_state b = Closed then (b, Inr Closed)
      else if cb_state b = Open \<and> kind = Probe \<and> (case cb_nextProbeAt b of None \<Rightarrow> False | Some t \<Rightarrow> t \<le> now)
      then (b\<lparr>cb_state := HalfOpen\<rparr>, Inr HalfOpen)
      else (b\<lparr>cb_rejectedCalls := cb_rejectedCalls b + 1\<rparr>, Inl (circuit_open_error (cb_nextProbeAt b))))"

definition open_circuit :: "HerdrCircuitBreakerOptions \<Rightarrow> timestamp \<Rightarrow> HerdrCircuitBreaker \<Rightarrow> HerdrCircuitBreaker" where
  "open_circuit opts now b = b\<lparr>cb_state := Open, cb_openedAt := Some now, cb_nextProbeAt := Some (now + cb_openMs opts)\<rparr>"

text \<open>\<open>now2\<close> is the second reading of the clock, in \<^verbatim>\<open>reopen\<close>.\<close>

definition reopen :: "HerdrCircuitBreakerOptions \<Rightarrow> timestamp \<Rightarrow> HerdrCircuitBreaker \<Rightarrow> HerdrCircuitBreaker" where
  "reopen opts now2 b = b\<lparr>cb_state := Open, cb_openedAt := Some now2, cb_nextProbeAt := Some (now2 + cb_openMs opts)\<rparr>"

definition close_circuit :: "HerdrCircuitBreaker \<Rightarrow> HerdrCircuitBreaker" where
  "close_circuit b = b\<lparr>cb_state := Closed, cb_consecutiveFailures := 0, cb_openedAt := None, cb_nextProbeAt := None,
     cb_successfulProbes := cb_successfulProbes b + 1\<rparr>"

definition recordFailure :: "HerdrCircuitBreakerOptions \<Rightarrow> herdr_error \<Rightarrow> CircuitState \<Rightarrow> timestamp \<Rightarrow> timestamp
    \<Rightarrow> HerdrCircuitBreaker \<Rightarrow> HerdrCircuitBreaker" where
  "recordFailure opts e admission now now2 b0 =
     (let b = b0\<lparr>cb_totalTransportFailures := cb_totalTransportFailures b0 + 1, cb_lastFailureAt := Some now,
                 cb_lastFailure := Some (he_logged e)\<rparr>
      in if admission = HalfOpen then reopen opts now2 b
         else if cb_state b \<noteq> Closed then b
         else let b' = b\<lparr>cb_consecutiveFailures := cb_consecutiveFailures b + 1\<rparr>
              in if cb_failureThreshold opts \<le> cb_consecutiveFailures b' then open_circuit opts now b' else b')"

text \<open>
  \<^verbatim>\<open>call\<close> from the point its operation settles: with a value (\<open>None\<close>) or an error. What
  happens before is \<^const>\<open>admit\<close>, which throws before the operation starts.
\<close>

definition settle_call :: "HerdrCircuitBreakerOptions \<Rightarrow> CircuitState \<Rightarrow> herdr_error option \<Rightarrow> timestamp \<Rightarrow> timestamp
    \<Rightarrow> HerdrCircuitBreaker \<Rightarrow> HerdrCircuitBreaker" where
  "settle_call opts admission outcome now now2 b =
     (case outcome of
        None \<Rightarrow>
          if admission = HalfOpen \<and> cb_state b = HalfOpen then close_circuit b
          else if admission = Closed \<and> cb_state b = Closed then b\<lparr>cb_consecutiveFailures := 0\<rparr>
          else b
      | Some e \<Rightarrow>
          if isHerdrTransportFailure e then recordFailure opts e admission now now2 b
          else if admission = HalfOpen \<and> cb_state b = HalfOpen then close_circuit b
          else b)"

subsection \<open>The port methods\<close>

datatype herdr_method =
    AssertWorkspace | ListWorkspaces | ListAllPanes | ListPanes | GetPane | GetActiveTurn | ObserveRuntime
  | WaitForRuntimeChange | CreatePane | SupportsPaneCreationV2 | CreatePaneV2 | SupportsPaneIdentityReconcileV1
  | ReconcilePaneIdentityV1 | StartTraex | StartAgent | RunPrompt | SupportsPromptQueue | QueuePrompt
  | SupportsModelPrompt | SupportsSessionRotation | RotateSession | QueueModelPrompt | WaitForAgent | SendEscape
  | InterruptAgent | RenamePane | ClosePane

text \<open>What a method answers when the delegate does not have it; \<open>Required\<close> for the mandatory ones.\<close>

datatype missing_answer = Required | Throws string | AnswersNull | AnswersFalse | AnswersNothing
  | AnswersUnavailable string string | AnswersUnsupported string

definition unsupported_text :: "string \<Rightarrow> string" where
  "unsupported_text what = ''Herdr adapter does not support '' @ what"

fun missing_method :: "herdr_method \<Rightarrow> missing_answer" where
  "missing_method ListWorkspaces = Throws (unsupported_text ''Workspace discovery'')"
| "missing_method ListAllPanes = Throws (unsupported_text ''an all-workspace snapshot'')"
| "missing_method GetActiveTurn = AnswersNull"
| "missing_method WaitForRuntimeChange = AnswersNothing"
| "missing_method SupportsPaneCreationV2 = AnswersFalse"
| "missing_method CreatePaneV2 = AnswersUnavailable ''tab.create.v2'' (unsupported_text ''tab.create.v2'')"
| "missing_method SupportsPaneIdentityReconcileV1 = AnswersFalse"
| "missing_method ReconcilePaneIdentityV1 = AnswersUnavailable ''pane.identity_reconcile.v1'' (unsupported_text ''pane.identity_reconcile.v1'')"
| "missing_method StartAgent = Throws (unsupported_text ''managed agent startup'')"
| "missing_method SupportsPromptQueue = AnswersFalse"
| "missing_method QueuePrompt = Throws (unsupported_text ''native prompt queueing'')"
| "missing_method SupportsModelPrompt = AnswersFalse"
| "missing_method SupportsSessionRotation = AnswersFalse"
| "missing_method RotateSession = Throws (unsupported_text ''session rotation'')"
| "missing_method QueueModelPrompt = Throws (unsupported_text ''native model prompt queueing'')"
| "missing_method WaitForAgent = Throws (unsupported_text ''native Agent wait'')"
| "missing_method SendEscape = Throws (unsupported_text ''Escape control'')"
| "missing_method InterruptAgent = AnswersUnsupported (unsupported_text ''native interruption'')"
| "missing_method _ = Required"

text \<open>The kind a method passes to \<^verbatim>\<open>call\<close>; \<open>None\<close> for the one that goes to the delegate directly.\<close>

fun method_kind :: "herdr_method \<Rightarrow> OperationKind option" where
  "method_kind WaitForRuntimeChange = None"
| "method_kind m =
     (if m \<in> set [AssertWorkspace, ListWorkspaces, ListAllPanes, ListPanes, GetPane, GetActiveTurn, ObserveRuntime,
          SupportsPaneCreationV2, SupportsPaneIdentityReconcileV1, SupportsPromptQueue, SupportsModelPrompt, SupportsSessionRotation]
      then Some Probe else Some Command)"

text \<open>The start of a port call: answered here, rejected by the breaker, or handed to the delegate.\<close>

datatype call_start = Answered missing_answer | Rejected HerdrCircuitOpenError | Delegated "CircuitState option"

definition start_call :: "(herdr_method \<Rightarrow> bool) \<Rightarrow> herdr_method \<Rightarrow> timestamp \<Rightarrow> HerdrCircuitBreaker \<Rightarrow> HerdrCircuitBreaker \<times> call_start" where
  "start_call supported m now b =
     (if missing_method m \<noteq> Required \<and> \<not> supported m then (b, Answered (missing_method m))
      else case method_kind m of
        None \<Rightarrow> (b, Delegated None)
      | Some kind \<Rightarrow>
          (case admit kind now b of
             (b', Inl err) \<Rightarrow> (b', Rejected err)
           | (b', Inr admission) \<Rightarrow> (b', Delegated (Some admission))))"

subsection \<open>Overlapping calls\<close>

text \<open>The breaker with the admissions of the guarded calls in flight.\<close>

type_synonym breaker_system = "HerdrCircuitBreaker \<times> CircuitState list"

inductive breaker_step :: "HerdrCircuitBreakerOptions \<Rightarrow> (herdr_method \<Rightarrow> bool) \<Rightarrow> breaker_system \<Rightarrow> breaker_system \<Rightarrow> bool"
  for opts supported where
  delegated: "start_call supported m now b = (b', Delegated (Some admission)) \<Longrightarrow>
     breaker_step opts supported (b, calls) (b', admission # calls)"
| unguarded: "start_call supported m now b = (b', Delegated None) \<Longrightarrow> breaker_step opts supported (b, calls) (b', calls)"
| answered: "start_call supported m now b = (b', Answered a) \<Longrightarrow> breaker_step opts supported (b, calls) (b', calls)"
| rejected: "start_call supported m now b = (b', Rejected err) \<Longrightarrow> breaker_step opts supported (b, calls) (b', calls)"
| settled: "breaker_step opts supported (b, before @ admission # after) (settle_call opts admission outcome now now2 b, before @ after)"

inductive breaker_reachable :: "HerdrCircuitBreakerOptions \<Rightarrow> (herdr_method \<Rightarrow> bool) \<Rightarrow> breaker_system \<Rightarrow> bool"
  for opts supported where
  initial: "breaker_reachable opts supported (new_breaker, [])"
| step: "breaker_reachable opts supported s \<Longrightarrow> breaker_step opts supported s s' \<Longrightarrow> breaker_reachable opts supported s'"

definition breaker_inv :: "HerdrCircuitBreakerOptions \<Rightarrow> breaker_system \<Rightarrow> bool" where
  "breaker_inv opts = (\<lambda>(b, calls).
     count_list calls HalfOpen = (if cb_state b = HalfOpen then 1 else 0) \<and> Open \<notin> set calls
     \<and> (cb_state b = Closed \<longrightarrow> cb_openedAt b = None \<and> cb_nextProbeAt b = None \<and> cb_consecutiveFailures b < cb_failureThreshold opts)
     \<and> (cb_state b \<noteq> Closed \<longrightarrow> (\<exists>t. cb_openedAt b = Some t \<and> cb_nextProbeAt b = Some (t + cb_openMs opts))))"

lemma start_call_inv:
  assumes "breaker_inv opts (b, calls)" and "start_call supported m now b = (b', r)"
  shows "breaker_inv opts (b', (case r of Delegated (Some a) \<Rightarrow> a # calls | _ \<Rightarrow> calls))"
  using assms
  by (auto simp: breaker_inv_def start_call_def admit_def split: if_splits option.splits prod.splits sum.splits)

lemma settle_call_inv:
  assumes "breaker_inv opts (b, before @ admission # after)" and "0 < cb_failureThreshold opts"
  shows "breaker_inv opts (settle_call opts admission outcome now now2 b, before @ after)"
proof (cases admission)
  case HalfOpen
  then have "cb_state b = HalfOpen" using assms by (auto simp: breaker_inv_def split: if_splits)
  with HalfOpen assms show ?thesis
    by (auto simp: breaker_inv_def settle_call_def close_circuit_def recordFailure_def reopen_def Let_def split: option.splits)
next
  case Closed
  with assms show ?thesis
    by (auto simp: breaker_inv_def settle_call_def recordFailure_def open_circuit_def Let_def split: option.splits)
next
  case Open
  with assms show ?thesis by (simp add: breaker_inv_def)
qed

lemma reachable_breaker_inv:
  assumes "breaker_reachable opts supported s" and "0 < cb_failureThreshold opts"
  shows "breaker_inv opts s"
  using assms(1)
proof induction
  case initial
  then show ?case using assms(2) by (simp add: breaker_inv_def new_breaker_def)
next
  case (step s s')
  from step.hyps(2) show ?case
  proof cases
    case (delegated m now b b' admission calls)
    then show ?thesis using start_call_inv [of opts b calls supported m now b' "Delegated (Some admission)"] step.IH by simp
  next
    case (unguarded m now b b' calls)
    then show ?thesis using start_call_inv [of opts b calls supported m now b' "Delegated None"] step.IH by simp
  next
    case (answered m now b b' a calls)
    then show ?thesis using start_call_inv [of opts b calls supported m now b' "Answered a"] step.IH by simp
  next
    case (rejected m now b b' err calls)
    then show ?thesis using start_call_inv [of opts b calls supported m now b' "Rejected err"] step.IH by simp
  next
    case (settled b before admission after outcome now now2)
    then show ?thesis using settle_call_inv [OF _ assms(2)] step.IH by auto
  qed
qed

text \<open>
  C10: Half-open is a single probe. In every interleaving of calls the circuit is half-open
  exactly while one recovery probe is in flight; a closed circuit has seen fewer consecutive
  failures than the threshold; and while the circuit is not closed no command reaches
  Herdr, no probe does before the open period has passed, and none does beside the
  recovery probe.
\<close>
theorem half_open_is_one_probe:
  assumes "breaker_reachable opts supported (b, calls)" and "0 < cb_failureThreshold opts"
  shows "(cb_state b = HalfOpen \<longleftrightarrow> count_list calls HalfOpen = 1) \<and> count_list calls HalfOpen \<le> 1
    \<and> (cb_state b = Closed \<longrightarrow> cb_consecutiveFailures b < cb_failureThreshold opts)
    \<and> (cb_state b \<noteq> Closed \<and> start_call supported m now b = (b', Delegated (Some admission)) \<longrightarrow>
        method_kind m = Some Probe \<and> cb_state b = Open \<and> admission = HalfOpen \<and> cb_state b' = HalfOpen
        \<and> (\<exists>t. cb_openedAt b = Some t \<and> t + cb_openMs opts \<le> now))"
proof -
  have inv: "breaker_inv opts (b, calls)" using reachable_breaker_inv [OF assms] .
  have "method_kind m = Some Probe \<and> cb_state b = Open \<and> admission = HalfOpen \<and> cb_state b' = HalfOpen
        \<and> (\<exists>t. cb_openedAt b = Some t \<and> t + cb_openMs opts \<le> now)"
    if "cb_state b \<noteq> Closed" "start_call supported m now b = (b', Delegated (Some admission))"
    using that inv by (auto simp: start_call_def admit_def breaker_inv_def split: if_splits option.splits prod.splits sum.splits)
  then show ?thesis using inv by (auto simp: breaker_inv_def split: if_splits)
qed

text \<open>
  The half-open message is never seen: every rejection of a reachable circuit carries a
  next probe time, so \<^verbatim>\<open>HerdrCircuitOpenError\<close> always reports the circuit as open until that
  time, also while the recovery probe runs.
\<close>
lemma rejections_always_name_a_probe_time:
  assumes "breaker_reachable opts supported (b, calls)" and "0 < cb_failureThreshold opts"
    and "start_call supported m now b = (b', Rejected err)"
  shows "\<exists>t. cb_openedAt b = Some t \<and> err = OpenUntil (t + cb_openMs opts) \<and> cb_state b' = cb_state b \<and> cb_state b \<noteq> Closed
     \<and> cb_rejectedCalls b' = cb_rejectedCalls b + 1"
  using reachable_breaker_inv [OF assms(1,2)] assms(3)
  by (auto simp: start_call_def admit_def breaker_inv_def circuit_open_error_def
      split: if_splits option.splits prod.splits sum.splits)

subsection \<open>Opening on consecutive failures\<close>

text \<open>The outcomes of calls admitted by a closed circuit, in the order they settle, with their clock.\<close>

definition settle_all :: "HerdrCircuitBreakerOptions \<Rightarrow> (herdr_error option \<times> timestamp) list \<Rightarrow> HerdrCircuitBreaker" where
  "settle_all opts outs = fold (\<lambda>(outcome, now). settle_call opts Closed outcome now now) outs new_breaker"

definition transport_outcome :: "herdr_error option \<Rightarrow> bool" where
  "transport_outcome out = (case out of None \<Rightarrow> False | Some e \<Rightarrow> isHerdrTransportFailure e)"

text \<open>The outcomes that say something about the transport: successes and transport failures.\<close>

definition transport_history :: "(herdr_error option \<times> timestamp) list \<Rightarrow> bool list" where
  "transport_history outs = map (\<lambda>p. transport_outcome (fst p)) (filter (\<lambda>p. fst p = None \<or> transport_outcome (fst p)) outs)"

definition trailing :: "bool list \<Rightarrow> nat" where
  "trailing xs = length (takeWhile id (rev xs))"

definition has_run :: "nat \<Rightarrow> bool list \<Rightarrow> bool" where
  "has_run n xs \<longleftrightarrow> sublist (replicate n True) xs"

lemma replicate_Suc_snoc: "replicate (Suc n) x = replicate n x @ [x]"
  by (simp add: replicate_append_same)

lemma replicate_suffix_trailing: "suffix (replicate n True) xs \<longleftrightarrow> n \<le> trailing xs"
proof (induction n arbitrary: xs)
  case 0
  then show ?case by simp
next
  case (Suc n)
  show ?case
  proof (cases xs rule: rev_cases)
    case Nil
    then show ?thesis by (simp add: trailing_def)
  next
    case (snoc ys y)
    have "suffix (replicate (Suc n) True) xs \<longleftrightarrow> y \<and> suffix (replicate n True) ys"
      unfolding replicate_Suc_snoc snoc by auto
    then show ?thesis using Suc.IH [of ys] by (simp add: snoc trailing_def)
  qed
qed

lemma has_run_snoc:
  assumes "0 < n"
  shows "has_run n (xs @ [x]) \<longleftrightarrow> has_run n xs \<or> n \<le> trailing (xs @ [x])"
  unfolding has_run_def replicate_suffix_trailing [symmetric] using sublist_snoc [of "replicate n True" xs x] by blast

lemma settle_all_inv:
  assumes "0 < cb_failureThreshold opts"
  shows "(cb_state (settle_all opts outs) = Closed \<longleftrightarrow> \<not> has_run (cb_failureThreshold opts) (transport_history outs))
    \<and> (cb_state (settle_all opts outs) = Closed \<longrightarrow>
         cb_consecutiveFailures (settle_all opts outs) = trailing (transport_history outs))"
proof (induction outs rule: rev_induct)
  case Nil
  then show ?case using assms
    by (simp add: settle_all_def new_breaker_def transport_history_def has_run_def trailing_def)
next
  case (snoc x outs)
  obtain out t where x: "x = (out, t)" by (cases x)
  define b where "b = settle_all opts outs"
  have next_b: "settle_all opts (outs @ [x]) = settle_call opts Closed out t t b" by (simp add: settle_all_def b_def x)
  have stays: "cb_state (settle_call opts Closed out t t b) \<noteq> Closed" if "cb_state b \<noteq> Closed"
    using that by (auto simp: settle_call_def recordFailure_def Let_def split: option.splits)
  let ?n = "cb_failureThreshold opts"
  consider (ok) "out = None" | (transport) e where "out = Some e" "isHerdrTransportFailure e"
    | (other) e where "out = Some e" "\<not> isHerdrTransportFailure e"
    by (cases out) auto
  then show ?case
  proof cases
    case ok
    have h: "transport_history (outs @ [x]) = transport_history outs @ [False]"
      by (simp add: transport_history_def x ok transport_outcome_def)
    show ?thesis
      using snoc.IH assms by (auto simp: next_b b_def [symmetric] settle_call_def ok h has_run_snoc trailing_def)
  next
    case (transport e)
    have h: "transport_history (outs @ [x]) = transport_history outs @ [True]"
      by (simp add: transport_history_def x transport transport_outcome_def)
    have tr: "trailing (transport_history outs @ [True]) = Suc (trailing (transport_history outs))" by (simp add: trailing_def)
    show ?thesis
      using snoc.IH stays assms
      by (auto simp: next_b b_def [symmetric] settle_call_def recordFailure_def open_circuit_def Let_def transport h has_run_snoc tr)
  next
    case (other e)
    have h: "transport_history (outs @ [x]) = transport_history outs"
      by (simp add: transport_history_def x other transport_outcome_def)
    show ?thesis using snoc.IH by (simp add: next_b b_def [symmetric] settle_call_def other h)
  qed
qed

text \<open>
  A fresh circuit opens exactly when the threshold of transport failures settle with no
  success between them: application errors in between neither count nor reset the count,
  and a late success of an earlier call does not close an open circuit.
\<close>
lemma opens_on_consecutive_transport_failures:
  assumes "0 < cb_failureThreshold opts"
  shows "cb_state (settle_all opts outs) \<noteq> Closed
     \<longleftrightarrow> sublist (replicate (cb_failureThreshold opts) True) (transport_history outs)"
  using settle_all_inv [OF assms, of outs] by (auto simp: has_run_def)

subsection \<open>Concrete instances\<close>

definition sample_breaker_options :: HerdrCircuitBreakerOptions where
  "sample_breaker_options = \<lparr>cb_failureThreshold = 2, cb_openMs = 100\<rparr>"

definition sample_transport_error :: herdr_error where
  "sample_transport_error = \<lparr>he_class = CommandErrorClass True, he_code = None, he_message = ''timed out'', he_logged = ''timed out''\<rparr>"

definition tripped :: HerdrCircuitBreaker where
  "tripped = settle_call sample_breaker_options Closed (Some sample_transport_error) 2 2
     (settle_call sample_breaker_options Closed (Some sample_transport_error) 1 1 new_breaker)"

lemma tripped_reachable: "breaker_reachable sample_breaker_options (\<lambda>_. True) (tripped, [])"
proof -
  let ?o = sample_breaker_options and ?r = "breaker_reachable sample_breaker_options (\<lambda>_. True)"
  have start: "start_call (\<lambda>_. True) CreatePane 0 new_breaker = (new_breaker, Delegated (Some Closed))"
    by (simp add: start_call_def admit_def new_breaker_def)
  have "?r (new_breaker, [Closed])" using breaker_reachable.step [OF breaker_reachable.initial breaker_step.delegated [OF start]] .
  then have "?r (new_breaker, [Closed, Closed])" using breaker_reachable.step breaker_step.delegated [OF start] by blast
  then have "?r (settle_call ?o Closed (Some sample_transport_error) 1 1 new_breaker, [Closed])"
    using breaker_reachable.step breaker_step.settled [of ?o "\<lambda>_. True" new_breaker "[]" Closed "[Closed]"] by fastforce
  then show ?thesis
    using breaker_reachable.step breaker_step.settled [of ?o "\<lambda>_. True" _ "[]" Closed "[]"] unfolding tripped_def by fastforce
qed

lemma tripped_open: "cb_state tripped = Open" "cb_openedAt tripped = Some 2" "cb_nextProbeAt tripped = Some 102"
  by (simp_all add: tripped_def settle_call_def recordFailure_def open_circuit_def isHerdrTransportFailure_def
      sample_breaker_options_def sample_transport_error_def new_breaker_def Let_def)

theorem half_open_is_one_probe_witness:
  "count_list ([] :: CircuitState list) HalfOpen \<le> 1 \<and> cb_state tripped = Open
   \<and> start_call (\<lambda>_. True) GetPane 150 tripped = (tripped\<lparr>cb_state := HalfOpen\<rparr>, Delegated (Some HalfOpen))
   \<and> (\<exists>t. cb_openedAt tripped = Some t \<and> t + 100 \<le> (150::int))"
proof -
  have s: "start_call (\<lambda>_. True) GetPane 150 tripped = (tripped\<lparr>cb_state := HalfOpen\<rparr>, Delegated (Some HalfOpen))"
    by (simp add: start_call_def admit_def tripped_open)
  show ?thesis
    using half_open_is_one_probe [OF tripped_reachable, of GetPane 150 "tripped\<lparr>cb_state := HalfOpen\<rparr>" HalfOpen] s tripped_open
    by (simp add: sample_breaker_options_def)
qed

end
