(* ===== verification/Transition_System.thy ===== *)
theory Transition_System
  imports Prelude
begin

text \<open>
  The event-loop components are transition systems: a predicate for the state a component
  is constructed in and a step relation with one rule for each synchronous stretch of its
  code. Their reachable states and the invariance rule are the same for all of them; a
  component interprets \<open>invariant_system\<close> on its own step relation and invariant.
\<close>

inductive reach :: "('s \<Rightarrow> bool) \<Rightarrow> ('s \<Rightarrow> 's \<Rightarrow> bool) \<Rightarrow> 's \<Rightarrow> bool" for start step where
  reach_start: "start s \<Longrightarrow> reach start step s"
| reach_step: "reach start step s \<Longrightarrow> step s s' \<Longrightarrow> reach start step s'"

locale invariant_system =
  fixes start :: "'s \<Rightarrow> bool" and step :: "'s \<Rightarrow> 's \<Rightarrow> bool" and inv :: "'s \<Rightarrow> bool"
  assumes start_inv: "start s \<Longrightarrow> inv s"
    and step_inv: "inv s \<Longrightarrow> step s s' \<Longrightarrow> inv s'"
begin

lemma reach_inv: "reach start step s \<Longrightarrow> inv s"
  by (induction rule: reach.induct) (auto intro: start_inv step_inv)

lemma reach_steps:
  assumes "reach start step s" and "step\<^sup>*\<^sup>* s s'"
  shows "inv s' \<and> reach start step s'"
  using assms(2)
proof induction
  case base
  then show ?case using assms(1) reach_inv by blast
next
  case (step s1 s2)
  then show ?case using reach_step step_inv by metis
qed

end

end
