(* ===== verification/Card_Scheduler.thy ===== *)
theory Card_Scheduler
  imports Transition_System
begin

text \<open>
  The scheduler that coalesces card updates (\<^verbatim>\<open>src/src/events/card-update-scheduler.ts\<close>). Each
  card key has one pending update with the version it should reach, a timer or a delivery
  in flight. An asynchronous flush is cut at its await: \<open>flush_begin\<close> runs up to the
  delivery, \<open>flush_settle\<close> from its outcome on. Timers and settlements interleave in the
  step relation \<open>card_step\<close>, which also keeps, as history variables, the newest version
  requested and the newest version delivered for each key. The two observer callbacks are
  left out: they have no effect on the scheduler.
\<close>

subsection \<open>State\<close>

datatype CardUpdatePriority = NormalPriority | InteractivePriority | TerminalPriority

fun priorityRank :: "CardUpdatePriority \<Rightarrow> nat" where
  "priorityRank TerminalPriority = 2"
| "priorityRank InteractivePriority = 1"
| "priorityRank NormalPriority = 0"

text \<open>
  \<open>cu_timer\<close> is the time an armed timer fires; \<open>cu_dueAt\<close> is \<open>None\<close> for
  \<^verbatim>\<open>Number.POSITIVE_INFINITY\<close>.
\<close>

record PendingCardUpdate =
  cu_desiredVersion :: int
  cu_timer :: "timestamp option"
  cu_dueAt :: "timestamp option"
  cu_requestedAt :: timestamp
  cu_inFlight :: bool
  cu_requestedWhileInFlight :: bool
  cu_priority :: CardUpdatePriority
  cu_consecutiveFailures :: nat

record CardUpdateScheduler =
  cs_pending :: "(string \<times> PendingCardUpdate) list"
  cs_stopped :: bool
  cs_intervalMs :: int
  cs_coalesced :: nat
  cs_failures :: nat
  cs_lastSuccessfulFlushAt :: "timestamp option"

definition new_card_scheduler :: "int \<Rightarrow> CardUpdateScheduler" where
  "new_card_scheduler interval = \<lparr>cs_pending = [], cs_stopped = False, cs_intervalMs = interval, cs_coalesced = 0,
     cs_failures = 0, cs_lastSuccessfulFlushAt = None\<rparr>"

abbreviation pending_at :: "CardUpdateScheduler \<Rightarrow> string \<rightharpoonup> PendingCardUpdate" where
  "pending_at s \<equiv> map_of (cs_pending s)"

definition put_item :: "string \<Rightarrow> PendingCardUpdate \<Rightarrow> CardUpdateScheduler \<Rightarrow> CardUpdateScheduler" where
  "put_item key item s = s\<lparr>cs_pending := AList.update key item (cs_pending s)\<rparr>"

text \<open>A delivery under way, with what the flush captured before its await.\<close>

record card_flight =
  fl_key :: string
  fl_version :: int
  fl_priority :: CardUpdatePriority
  fl_startedAt :: timestamp

subsection \<open>Operations\<close>

definition flush_begin :: "string \<Rightarrow> timestamp \<Rightarrow> CardUpdateScheduler \<Rightarrow> CardUpdateScheduler \<times> card_flight option" where
  "flush_begin key now s =
     (case pending_at s key of
        None \<Rightarrow> (s, None)
      | Some item \<Rightarrow>
          if cu_inFlight item \<or> cs_stopped s then (s, None)
          else (put_item key (item\<lparr>cu_inFlight := True, cu_requestedWhileInFlight := False, cu_priority := NormalPriority,
                  cu_dueAt := None\<rparr>) s,
                Some \<lparr>fl_key = key, fl_version = cu_desiredVersion item, fl_priority = cu_priority item, fl_startedAt = now\<rparr>))"

text \<open>A timer of infinite delay fires after one millisecond.\<close>

definition arm :: "string \<Rightarrow> PendingCardUpdate \<Rightarrow> timestamp \<Rightarrow> CardUpdateScheduler \<Rightarrow> CardUpdateScheduler \<times> card_flight option" where
  "arm key item now s =
     (case cu_dueAt item of
        None \<Rightarrow> (put_item key (item\<lparr>cu_timer := Some (now + 1)\<rparr>) s, None)
      | Some due \<Rightarrow>
          let delayMs = max 0 (due - now)
          in if delayMs = 0 then flush_begin key now (put_item key (item\<lparr>cu_timer := None\<rparr>) s)
             else (put_item key (item\<lparr>cu_timer := Some (now + delayMs)\<rparr>) s, None))"

datatype schedule_options = Immediate bool | ScheduleOptions "CardUpdatePriority option" "int option"

fun option_priority :: "schedule_options \<Rightarrow> CardUpdatePriority" where
  "option_priority (Immediate b) = (if b then TerminalPriority else NormalPriority)"
| "option_priority (ScheduleOptions p _) = opt_or p NormalPriority"

definition option_delay :: "int \<Rightarrow> schedule_options \<Rightarrow> int" where
  "option_delay interval opts =
     (if option_priority opts = TerminalPriority then 0
      else case opts of ScheduleOptions _ (Some d) \<Rightarrow> max 0 d | _ \<Rightarrow> interval)"

text \<open>The item as a request leaves it, before it is armed.\<close>

definition fresh_item :: "int \<Rightarrow> CardUpdatePriority \<Rightarrow> int \<Rightarrow> timestamp \<Rightarrow> PendingCardUpdate" where
  "fresh_item version priority delayMs now =
     \<lparr>cu_desiredVersion = version, cu_timer = None, cu_dueAt = Some (now + delayMs), cu_requestedAt = now,
      cu_inFlight = False, cu_requestedWhileInFlight = False, cu_priority = priority, cu_consecutiveFailures = 0\<rparr>"

definition requested_item :: "int \<Rightarrow> CardUpdatePriority \<Rightarrow> int \<Rightarrow> timestamp \<Rightarrow> PendingCardUpdate \<Rightarrow> PendingCardUpdate" where
  "requested_item version priority delayMs now item =
     item\<lparr>cu_desiredVersion := max (cu_desiredVersion item) version,
          cu_dueAt := (if priority = NormalPriority \<and> cu_priority item = NormalPriority then Some (now + delayMs)
                       else Some (case cu_dueAt item of None \<Rightarrow> now + delayMs | Some d \<Rightarrow> min d (now + delayMs))),
          cu_requestedWhileInFlight := (cu_requestedWhileInFlight item
             \<or> cu_inFlight item \<and> (cu_desiredVersion item < version \<or> priority = TerminalPriority)),
          cu_priority := (if priorityRank (cu_priority item) < priorityRank priority then priority else cu_priority item)\<rparr>"

definition schedule :: "string \<Rightarrow> int \<Rightarrow> schedule_options \<Rightarrow> timestamp \<Rightarrow> CardUpdateScheduler \<Rightarrow> CardUpdateScheduler \<times> card_flight option" where
  "schedule key version opts now s =
     (if cs_stopped s then (s, None)
      else
        let priority = option_priority opts; delayMs = option_delay (cs_intervalMs s) opts in
        (case pending_at s key of
           None \<Rightarrow> arm key (requested_item version priority delayMs now (fresh_item version priority delayMs now)) now s
         | Some item \<Rightarrow>
             let item' = requested_item version priority delayMs now item; s1 = s\<lparr>cs_coalesced := cs_coalesced s + 1\<rparr>
             in if cu_inFlight item then (put_item key item' s1, None) else arm key item' now s1))"

definition timer_fires :: "string \<Rightarrow> timestamp \<Rightarrow> CardUpdateScheduler \<Rightarrow> CardUpdateScheduler \<times> card_flight option" where
  "timer_fires key now s =
     (case pending_at s key of
        None \<Rightarrow> (s, None)
      | Some item \<Rightarrow> flush_begin key now (put_item key (item\<lparr>cu_timer := None\<rparr>) s))"

definition retry_delay :: "int \<Rightarrow> nat \<Rightarrow> int" where
  "retry_delay interval failures = min (max 1 interval * 2 ^ (failures - 1)) 30000"

definition flush_settle :: "card_flight \<Rightarrow> bool \<Rightarrow> timestamp \<Rightarrow> CardUpdateScheduler \<Rightarrow> CardUpdateScheduler \<times> card_flight option" where
  "flush_settle f ok now s =
     (let s1 = (if ok then s\<lparr>cs_lastSuccessfulFlushAt := Some now\<rparr> else s\<lparr>cs_failures := cs_failures s + 1\<rparr>)
      in if cs_stopped s then (s1, None)
         else case pending_at s (fl_key f) of
           None \<Rightarrow> (s1, None)
         | Some item0 \<Rightarrow>
             let item = item0\<lparr>cu_inFlight := False,
                              cu_consecutiveFailures := (if ok then 0 else cu_consecutiveFailures item0 + 1)\<rparr>
             in if \<not> ok \<or> fl_version f < cu_desiredVersion item \<or> cu_requestedWhileInFlight item
                then
                  (if ok \<and> priorityRank (cu_priority item) = priorityRank TerminalPriority
                   then flush_begin (fl_key f) now (put_item (fl_key f) item s1)
                   else arm (fl_key f)
                          (item\<lparr>cu_dueAt := (if \<not> ok then Some (now + retry_delay (cs_intervalMs s) (cu_consecutiveFailures item))
                             else if cu_dueAt item = None then Some (now + cs_intervalMs s) else cu_dueAt item)\<rparr>) now s1)
                else (s1\<lparr>cs_pending := AList.delete (fl_key f) (cs_pending s1)\<rparr>, None))"

definition stop_cards :: "CardUpdateScheduler \<Rightarrow> CardUpdateScheduler" where
  "stop_cards s = s\<lparr>cs_stopped := True, cs_pending := []\<rparr>"

record CardUpdateSchedulerDiagnostics =
  diag_pending :: nat
  diag_answer :: nat
  diag_main :: nat
  diag_unknown :: nat
  diag_inFlight :: nat
  diag_oldestPendingAgeMs :: "int option"

definition diagnostics :: "timestamp \<Rightarrow> CardUpdateScheduler \<Rightarrow> CardUpdateSchedulerDiagnostics" where
  "diagnostics now s =
     (let keys = map fst (cs_pending s);
          answer = (\<lambda>k. take 7 k = ''answer:''); main = (\<lambda>k. take 5 k = ''main:'')
      in \<lparr>diag_pending = length (cs_pending s),
          diag_answer = length (filter answer keys),
          diag_main = length (filter (\<lambda>k. \<not> answer k \<and> main k) keys),
          diag_unknown = length (filter (\<lambda>k. \<not> answer k \<and> \<not> main k) keys),
          diag_inFlight = length (filter (\<lambda>p. cu_inFlight (snd p)) (cs_pending s)),
          diag_oldestPendingAgeMs = (if cs_pending s = [] then None
             else Some (Max (set (map (\<lambda>p. max 0 (now - cu_requestedAt (snd p))) (cs_pending s)))))\<rparr>)"

subsection \<open>Interleavings\<close>

record card_system =
  sys_sched :: CardUpdateScheduler
  sys_flights :: "card_flight list"
  sys_requested :: "string \<rightharpoonup> int"
  sys_delivered :: "string \<rightharpoonup> int"

definition launched :: "card_flight option \<Rightarrow> card_flight list \<Rightarrow> card_flight list" where
  "launched fl fls = (case fl of None \<Rightarrow> fls | Some f \<Rightarrow> f # fls)"

definition note_version :: "string \<Rightarrow> int \<Rightarrow> (string \<rightharpoonup> int) \<Rightarrow> (string \<rightharpoonup> int)" where
  "note_version key v m = m(key \<mapsto> (case m key of None \<Rightarrow> v | Some u \<Rightarrow> max u v))"

inductive card_step :: "card_system \<Rightarrow> card_system \<Rightarrow> bool" where
  scheduled: "schedule key v opts now (sys_sched x) = (s', fl) \<Longrightarrow>
     card_step x (x\<lparr>sys_sched := s', sys_flights := launched fl (sys_flights x),
       sys_requested := (if cs_stopped (sys_sched x) then sys_requested x else note_version key v (sys_requested x))\<rparr>)"
| fired: "pending_at (sys_sched x) key = Some item \<Longrightarrow> cu_timer item = Some t \<Longrightarrow> t \<le> now \<Longrightarrow>
     timer_fires key now (sys_sched x) = (s', fl) \<Longrightarrow>
     card_step x (x\<lparr>sys_sched := s', sys_flights := launched fl (sys_flights x)\<rparr>)"
| flushed: "sys_flights x = before @ f # after \<Longrightarrow> flush_settle f ok now (sys_sched x) = (s', fl) \<Longrightarrow>
     card_step x (x\<lparr>sys_sched := s', sys_flights := launched fl (before @ after),
       sys_delivered := (if ok then note_version (fl_key f) (fl_version f) (sys_delivered x) else sys_delivered x)\<rparr>)"
| halted: "card_step x (x\<lparr>sys_sched := stop_cards (sys_sched x)\<rparr>)"

definition card_start :: "int \<Rightarrow> card_system \<Rightarrow> bool" where
  "card_start interval x \<longleftrightarrow> x = \<lparr>sys_sched = new_card_scheduler interval, sys_flights = [], sys_requested = Map.empty,
     sys_delivered = Map.empty\<rparr>"

subsection \<open>The invariant\<close>

definition key_ok :: "card_flight list \<Rightarrow> string \<Rightarrow> PendingCardUpdate option \<Rightarrow> bool" where
  "key_ok fls key it = (case it of
     None \<Rightarrow> key \<notin> set (map fl_key fls)
   | Some item \<Rightarrow>
       if cu_inFlight item
       then cu_timer item = None \<and> (\<exists>f \<in> set fls. fl_key f = key \<and> fl_version f \<le> cu_desiredVersion item)
       else cu_timer item \<noteq> None \<and> key \<notin> set (map fl_key fls))"

definition owed :: "int option \<Rightarrow> int option \<Rightarrow> PendingCardUpdate option \<Rightarrow> bool" where
  "owed req done it = (case req of None \<Rightarrow> True
     | Some v \<Rightarrow> (\<exists>d. done = Some d \<and> v \<le> d) \<or> (\<exists>item. it = Some item \<and> v \<le> cu_desiredVersion item))"

definition card_inv :: "card_system \<Rightarrow> bool" where
  "card_inv x \<longleftrightarrow> distinct (map fl_key (sys_flights x))
     \<and> (\<not> cs_stopped (sys_sched x) \<longrightarrow> (\<forall>key. key_ok (sys_flights x) key (pending_at (sys_sched x) key)
          \<and> owed (sys_requested x key) (sys_delivered x key) (pending_at (sys_sched x) key)))"

text \<open>
  What an operation on one key leaves: other keys alone, and under its key an item of the
  given version that is armed, or in flight when the operation launched a delivery.
\<close>

definition leaves :: "string \<Rightarrow> int \<Rightarrow> CardUpdateScheduler \<Rightarrow> CardUpdateScheduler \<times> card_flight option \<Rightarrow> bool" where
  "leaves key v s r \<longleftrightarrow> cs_stopped (fst r) = cs_stopped s \<and> (\<forall>k. k \<noteq> key \<longrightarrow> pending_at (fst r) k = pending_at s k)
     \<and> (\<exists>item. pending_at (fst r) key = Some item \<and> cu_desiredVersion item = v
          \<and> (case snd r of
               None \<Rightarrow> \<not> cu_inFlight item \<and> cu_timer item \<noteq> None
             | Some f \<Rightarrow> cu_inFlight item \<and> cu_timer item = None \<and> fl_key f = key \<and> fl_version f = v))"

lemma put_item_simps [simp]:
  "pending_at (put_item key item s) k = (if k = key then Some item else pending_at s k)"
  "cs_stopped (put_item key item s) = cs_stopped s"
  "cs_intervalMs (put_item key item s) = cs_intervalMs s"
  by (simp_all add: put_item_def)

lemma flush_begin_leaves:
  assumes "\<not> cs_stopped s" "\<not> cu_inFlight item" "cu_timer item = None"
  shows "leaves key (cu_desiredVersion item) s (flush_begin key now (put_item key item s))"
  using assms by (simp add: flush_begin_def leaves_def)

lemma arm_leaves:
  assumes "\<not> cs_stopped s" "\<not> cu_inFlight item"
  shows "leaves key (cu_desiredVersion item) s (arm key item now s)"
proof (cases "\<exists>due. cu_dueAt item = Some due \<and> due \<le> now")
  case True
  then obtain due where "cu_dueAt item = Some due" "max 0 (due - now) = 0" by auto
  then show ?thesis using flush_begin_leaves [of s "item\<lparr>cu_timer := None\<rparr>" key now] assms by (simp add: arm_def)
next
  case False
  then show ?thesis using assms by (auto simp: arm_def leaves_def Let_def split: option.splits)
qed

lemma leaves_cong: "leaves key v s1 r \<Longrightarrow> cs_stopped s1 = cs_stopped s \<Longrightarrow> cs_pending s1 = cs_pending s \<Longrightarrow> leaves key v s r"
  by (simp add: leaves_def)

lemma requested_item_simps [simp]:
  "cu_desiredVersion (requested_item v p d now item) = max (cu_desiredVersion item) v"
  "cu_inFlight (requested_item v p d now item) = cu_inFlight item"
  "cu_timer (requested_item v p d now item) = cu_timer item"
  by (simp_all add: requested_item_def)

lemma fresh_item_simps [simp]:
  "cu_desiredVersion (fresh_item v p d now) = v" "\<not> cu_inFlight (fresh_item v p d now)"
  by (simp_all add: fresh_item_def)

lemma schedule_leaves:
  assumes "\<not> cs_stopped s" and "\<And>item. pending_at s key = Some item \<Longrightarrow> \<not> cu_inFlight item"
  shows "leaves key (case pending_at s key of None \<Rightarrow> v | Some item \<Rightarrow> max (cu_desiredVersion item) v) s (schedule key v opts now s)"
proof (cases "pending_at s key")
  case None
  then show ?thesis
    using assms(1) arm_leaves [of s "requested_item v (option_priority opts) (option_delay (cs_intervalMs s) opts) now
        (fresh_item v (option_priority opts) (option_delay (cs_intervalMs s) opts) now)" key now]
    by (simp add: schedule_def Let_def)
next
  case (Some item)
  then show ?thesis
    using assms leaves_cong [OF arm_leaves [of "s\<lparr>cs_coalesced := cs_coalesced s + 1\<rparr>"
        "requested_item v (option_priority opts) (option_delay (cs_intervalMs s) opts) now item" key now], of s]
    by (simp add: schedule_def Let_def)
qed

lemma schedule_in_flight:
  assumes "\<not> cs_stopped s" and "pending_at s key = Some item" and "cu_inFlight item"
  shows "\<exists>item'. schedule key v opts now s = (put_item key item' (s\<lparr>cs_coalesced := cs_coalesced s + 1\<rparr>), None)
     \<and> cu_inFlight item' \<and> cu_timer item' = cu_timer item \<and> cu_desiredVersion item' = max (cu_desiredVersion item) v"
  using assms by (auto simp: schedule_def Let_def)

lemma key_ok_launched:
  assumes "k \<noteq> key" and "\<And>f. fl = Some f \<Longrightarrow> fl_key f = key"
  shows "key_ok (launched fl fls) k it = key_ok fls k it"
  using assms by (cases fl) (auto simp: launched_def key_ok_def split: option.splits)

lemma leaves_flight: "leaves key v s (s', Some f) \<Longrightarrow> fl_key f = key"
  by (auto simp: leaves_def)

text \<open>An operation that leaves its key as above keeps the invariant, when its key had no delivery in flight before.\<close>

lemma leaves_inv:
  assumes inv: "distinct (map fl_key fls)" "key \<notin> set (map fl_key fls)"
    "\<forall>k. k \<noteq> key \<longrightarrow> key_ok fls k (pending_at s k) \<and> owed (req k) (done k) (pending_at s k)"
    and l: "leaves key v s (s', fl)"
    and o: "\<forall>k. k \<noteq> key \<longrightarrow> req' k = req k \<and> done' k = done k" "\<And>u. req' key = Some u \<Longrightarrow> u \<le> v \<or> (\<exists>d. done' key = Some d \<and> u \<le> d)"
  shows "distinct (map fl_key (launched fl fls))
     \<and> (\<forall>k. key_ok (launched fl fls) k (pending_at s' k) \<and> owed (req' k) (done' k) (pending_at s' k))"
proof -
  have dist: "distinct (map fl_key (launched fl fls))"
    using inv(1,2) l by (auto simp: launched_def leaves_def split: option.splits)
  have others: "key_ok (launched fl fls) k (pending_at s' k) \<and> owed (req' k) (done' k) (pending_at s' k)" if "k \<noteq> key" for k
  proof -
    have same: "pending_at s' k = pending_at s k" using l that by (simp add: leaves_def)
    have "key_ok (launched fl fls) k (pending_at s k) = key_ok fls k (pending_at s k)"
      using that l leaves_flight by (intro key_ok_launched) auto
    then show ?thesis using inv(3) o(1) that same by simp
  qed
  have own: "key_ok (launched fl fls) key (pending_at s' key) \<and> owed (req' key) (done' key) (pending_at s' key)"
    using inv(2) l o(2) by (auto simp: launched_def leaves_def key_ok_def owed_def split: option.splits)
  from dist others own show ?thesis by metis
qed

lemma settle_leaves:
  assumes "\<not> cs_stopped s" and "pending_at s (fl_key f) = Some item" and "cu_timer item = None"
    and "\<not> ok \<or> fl_version f < cu_desiredVersion item \<or> cu_requestedWhileInFlight item"
  shows "leaves (fl_key f) (cu_desiredVersion item) s (flush_settle f ok now s)"
proof (cases "ok \<and> priorityRank (cu_priority item) = 2")
  case True
  then show ?thesis
    using assms leaves_cong [OF flush_begin_leaves [of "s\<lparr>cs_lastSuccessfulFlushAt := Some now\<rparr>"
        "item\<lparr>cu_inFlight := False, cu_consecutiveFailures := 0\<rparr>" "fl_key f" now], of s]
    by (auto simp: flush_settle_def Let_def)
next
  case False
  define item1 where "item1 = item\<lparr>cu_inFlight := False, cu_consecutiveFailures := (if ok then 0 else cu_consecutiveFailures item + 1)\<rparr>"
  define item2 where "item2 = item1\<lparr>cu_dueAt := (if \<not> ok then Some (now + retry_delay (cs_intervalMs s) (cu_consecutiveFailures item1))
      else if cu_dueAt item1 = None then Some (now + cs_intervalMs s) else cu_dueAt item1)\<rparr>"
  define s1 where "s1 = (if ok then s\<lparr>cs_lastSuccessfulFlushAt := Some now\<rparr> else s\<lparr>cs_failures := cs_failures s + 1\<rparr>)"
  have eq: "flush_settle f ok now s = arm (fl_key f) item2 now s1"
    using assms False by (auto simp: flush_settle_def Let_def item1_def item2_def s1_def)
  have "leaves (fl_key f) (cu_desiredVersion item2) s1 (arm (fl_key f) item2 now s1)"
    by (rule arm_leaves) (use assms in \<open>auto simp: s1_def item1_def item2_def\<close>)
  then show ?thesis unfolding eq by (rule leaves_cong [THEN back_subst [of "\<lambda>z. leaves (fl_key f) z s _"]]) (auto simp: s1_def item1_def item2_def)
qed

lemma flight_item:
  assumes "key_ok fls (fl_key f) it" and "f \<in> set fls"
  shows "\<exists>item. it = Some item \<and> cu_inFlight item \<and> cu_timer item = None"
  using assms by (auto simp: key_ok_def split: option.splits if_splits)

lemma flight_version:
  assumes "key_ok fls (fl_key f) (Some item)" and "f \<in> set fls" and "distinct (map fl_key fls)"
  shows "fl_version f \<le> cu_desiredVersion item"
proof -
  obtain g where g: "g \<in> set fls" "fl_key g = fl_key f" "fl_version g \<le> cu_desiredVersion item"
    using assms(1,2) by (auto simp: key_ok_def split: if_splits)
  then have "g = f" using assms(2,3) by (auto simp: distinct_map inj_on_def)
  with g show ?thesis by simp
qed

lemma card_inv_scheduled:
  assumes "card_inv x" and "schedule key v opts now (sys_sched x) = (s', fl)"
  shows "card_inv (x\<lparr>sys_sched := s', sys_flights := launched fl (sys_flights x),
       sys_requested := (if cs_stopped (sys_sched x) then sys_requested x else note_version key v (sys_requested x))\<rparr>)"
proof (cases "cs_stopped (sys_sched x)")
  case True
  then show ?thesis using assms by (auto simp: schedule_def card_inv_def launched_def)
next
  case False
  let ?s = "sys_sched x" and ?fls = "sys_flights x"
  have inv: "distinct (map fl_key ?fls)" "\<And>k. key_ok ?fls k (pending_at ?s k) \<and> owed (sys_requested x k) (sys_delivered x k) (pending_at ?s k)"
    using assms(1) False by (auto simp: card_inv_def)
  show ?thesis
  proof (cases "\<exists>item. pending_at ?s key = Some item \<and> cu_inFlight item")
    case True
    then obtain item where item: "pending_at ?s key = Some item" "cu_inFlight item" by blast
    obtain item' where r: "schedule key v opts now ?s = (put_item key item' (?s\<lparr>cs_coalesced := cs_coalesced ?s + 1\<rparr>), None)"
      and i: "cu_inFlight item'" "cu_timer item' = cu_timer item" "cu_desiredVersion item' = max (cu_desiredVersion item) v"
      using schedule_in_flight [OF False item] by blast
    have "key_ok ?fls key (Some item')" using inv(2) [of key] item i by (auto simp: key_ok_def)
    moreover have "owed (note_version key v (sys_requested x) key) (sys_delivered x key) (Some item')"
      using inv(2) [of key] item i by (auto simp: owed_def note_version_def split: option.splits)
    ultimately show ?thesis using False assms(2) r inv by (auto simp: card_inv_def launched_def note_version_def)
  next
    case none: False
    then have "key \<notin> set (map fl_key ?fls)" using inv(2) [of key] by (auto simp: key_ok_def split: option.splits if_splits)
    moreover have l: "leaves key (case pending_at ?s key of None \<Rightarrow> v | Some item \<Rightarrow> max (cu_desiredVersion item) v) ?s (s', fl)"
      using schedule_leaves [OF False, of key v opts now] none assms(2) by auto
    moreover have "u \<le> (case pending_at ?s key of None \<Rightarrow> v | Some item \<Rightarrow> max (cu_desiredVersion item) v) \<or> (\<exists>d. sys_delivered x key = Some d \<and> u \<le> d)"
      if "note_version key v (sys_requested x) key = Some u" for u
      using inv(2) [of key] that by (cases "pending_at ?s key"; cases "sys_requested x key") (auto simp: owed_def note_version_def max_def split: if_splits)
    ultimately have "distinct (map fl_key (launched fl ?fls))
       \<and> (\<forall>k. key_ok (launched fl ?fls) k (pending_at s' k) \<and> owed (note_version key v (sys_requested x) k) (sys_delivered x k) (pending_at s' k))"
      using inv(2) by (intro leaves_inv [OF inv(1) _ _ l]) (auto simp: note_version_def)
    then show ?thesis using False l by (auto simp: card_inv_def leaves_def)
  qed
qed

lemma card_inv_fired:
  assumes "card_inv x" and "pending_at (sys_sched x) key = Some item" and "cu_timer item = Some t"
    and "timer_fires key now (sys_sched x) = (s', fl)"
  shows "card_inv (x\<lparr>sys_sched := s', sys_flights := launched fl (sys_flights x)\<rparr>)"
proof (cases "cs_stopped (sys_sched x)")
  case True
  then show ?thesis using assms by (auto simp: timer_fires_def flush_begin_def card_inv_def launched_def)
next
  case False
  let ?s = "sys_sched x" and ?fls = "sys_flights x"
  have inv: "distinct (map fl_key ?fls)" "\<And>k. key_ok ?fls k (pending_at ?s k) \<and> owed (sys_requested x k) (sys_delivered x k) (pending_at ?s k)"
    using assms(1) False by (auto simp: card_inv_def)
  have nf: "\<not> cu_inFlight item" "key \<notin> set (map fl_key ?fls)" using inv(2) [of key] assms(2,3) by (auto simp: key_ok_def split: if_splits)
  have l: "leaves key (cu_desiredVersion item) ?s (s', fl)"
    using flush_begin_leaves [OF False, of "item\<lparr>cu_timer := None\<rparr>" key now] nf(1) assms(2,4) by (simp add: timer_fires_def)
  have "distinct (map fl_key (launched fl ?fls))
       \<and> (\<forall>k. key_ok (launched fl ?fls) k (pending_at s' k) \<and> owed (sys_requested x k) (sys_delivered x k) (pending_at s' k))"
    using inv nf(2) assms(2) inv(2) [of key] by (intro leaves_inv [OF inv(1) _ _ l]) (auto simp: owed_def)
  then show ?thesis using False l by (auto simp: card_inv_def leaves_def)
qed

lemma card_inv_flushed:
  assumes "card_inv x" and "sys_flights x = before @ f # after" and "flush_settle f ok now (sys_sched x) = (s', fl)"
  shows "card_inv (x\<lparr>sys_sched := s', sys_flights := launched fl (before @ after),
       sys_delivered := (if ok then note_version (fl_key f) (fl_version f) (sys_delivered x) else sys_delivered x)\<rparr>)"
proof (cases "cs_stopped (sys_sched x)")
  case True
  then show ?thesis using assms by (auto simp: flush_settle_def card_inv_def launched_def Let_def split: if_splits)
next
  case False
  let ?s = "sys_sched x" and ?fls = "before @ after"
  let ?done = "if ok then note_version (fl_key f) (fl_version f) (sys_delivered x) else sys_delivered x"
  have inv: "distinct (map fl_key (sys_flights x))" "\<And>k. key_ok (sys_flights x) k (pending_at ?s k) \<and> owed (sys_requested x k) (sys_delivered x k) (pending_at ?s k)"
    using assms(1) False by (auto simp: card_inv_def)
  have f: "f \<in> set (sys_flights x)" by (simp add: assms(2))
  obtain item where item: "pending_at ?s (fl_key f) = Some item" "cu_inFlight item" "cu_timer item = None"
    using flight_item [OF _ f] inv(2) [of "fl_key f"] by blast
  have ver: "fl_version f \<le> cu_desiredVersion item" using flight_version [OF _ f inv(1)] inv(2) [of "fl_key f"] item(1) by simp
  have dist: "distinct (map fl_key ?fls)" "fl_key f \<notin> set (map fl_key ?fls)" using inv(1) by (auto simp: assms(2))
  have others: "key_ok ?fls k (pending_at ?s k) \<and> owed (sys_requested x k) (sys_delivered x k) (pending_at ?s k)" if "k \<noteq> fl_key f" for k
    using inv(2) [of k] that by (auto simp: key_ok_def assms(2) split: option.splits if_splits)
  show ?thesis
  proof (cases "\<not> ok \<or> fl_version f < cu_desiredVersion item \<or> cu_requestedWhileInFlight item")
    case True
    have l: "leaves (fl_key f) (cu_desiredVersion item) ?s (s', fl)"
      using settle_leaves [OF False item(1,3) True, of now] assms(3) by simp
    have own: "u \<le> cu_desiredVersion item \<or> (\<exists>d. ?done (fl_key f) = Some d \<and> u \<le> d)" if "sys_requested x (fl_key f) = Some u" for u
      using inv(2) [of "fl_key f"] item(1) that by (auto simp: owed_def note_version_def le_max_iff_disj split: option.splits)
    have "distinct (map fl_key (launched fl ?fls))
       \<and> (\<forall>k. key_ok (launched fl ?fls) k (pending_at s' k) \<and> owed (sys_requested x k) (?done k) (pending_at s' k))"
      using others own by (intro leaves_inv [OF dist _ l]) (auto simp: note_version_def)
    then show ?thesis using False l by (auto simp: card_inv_def leaves_def)
  next
    case no_more: False
    then have ok: "ok" "fl_version f = cu_desiredVersion item" using ver by auto
    have r: "s' = ?s\<lparr>cs_lastSuccessfulFlushAt := Some now, cs_pending := AList.delete (fl_key f) (cs_pending ?s)\<rparr>" "fl = None"
      using assms(3) False item no_more ok by (auto simp: flush_settle_def Let_def)
    have own: "owed (sys_requested x (fl_key f)) (?done (fl_key f)) None"
      using inv(2) [of "fl_key f"] item(1) ok by (auto simp: owed_def note_version_def split: option.splits)
    have "key_ok ?fls k (pending_at s' k) \<and> owed (sys_requested x k) (?done k) (pending_at s' k)" for k
    proof (cases "k = fl_key f")
      case True
      then show ?thesis using own dist(2) by (simp add: r key_ok_def)
    next
      case False
      then show ?thesis using others [OF False] by (simp add: r note_version_def)
    qed
    then show ?thesis using dist r False by (simp add: card_inv_def launched_def)
  qed
qed

interpretation cards: invariant_system "card_start interval" card_step card_inv for interval
proof
  fix x assume "card_start interval x"
  then show "card_inv x" by (simp add: card_start_def card_inv_def new_card_scheduler_def key_ok_def owed_def)
next
  fix x y assume "card_inv x" "card_step x y"
  from this(2,1) show "card_inv y"
  proof cases
    case (scheduled key v opts now s' fl)
    then show ?thesis using card_inv_scheduled \<open>card_inv x\<close> by blast
  next
    case (fired key item t now s' fl)
    then show ?thesis using card_inv_fired \<open>card_inv x\<close> by blast
  next
    case (flushed before f after ok now s' fl)
    then show ?thesis using card_inv_flushed \<open>card_inv x\<close> by blast
  next
    case halted
    then show ?thesis using \<open>card_inv x\<close> by (simp add: card_inv_def stop_cards_def)
  qed
qed

text \<open>
  Updates of one card never overlap and never stall: in every interleaving of requests,
  timers and settlements there is at most one delivery in flight for a card, and as long as
  the scheduler runs, every pending card either has that delivery in flight or has a timer
  armed, and when the timer fires the newest version requested goes out.
\<close>
lemma card_updates_are_serialised_and_armed:
  assumes "reach (card_start interval) card_step x"
  shows "distinct (map fl_key (sys_flights x))
    \<and> (\<not> cs_stopped (sys_sched x) \<and> pending_at (sys_sched x) key = Some item \<longrightarrow>
        (cu_inFlight item \<longleftrightarrow> key \<in> set (map fl_key (sys_flights x)))
        \<and> (\<not> cu_inFlight item \<longrightarrow> (\<exists>t. cu_timer item = Some t)
             \<and> (\<exists>s' f. timer_fires key now (sys_sched x) = (s', Some f) \<and> fl_key f = key \<and> fl_version f = cu_desiredVersion item)))"
proof -
  have inv: "card_inv x" using cards.reach_inv [OF assms] .
  have "(cu_inFlight item \<longleftrightarrow> key \<in> set (map fl_key (sys_flights x)))
        \<and> (\<not> cu_inFlight item \<longrightarrow> (\<exists>t. cu_timer item = Some t)
             \<and> (\<exists>s' f. timer_fires key now (sys_sched x) = (s', Some f) \<and> fl_key f = key \<and> fl_version f = cu_desiredVersion item))"
    if run: "\<not> cs_stopped (sys_sched x)" "pending_at (sys_sched x) key = Some item"
  proof -
    have "key_ok (sys_flights x) key (Some item)" using inv run by (simp add: card_inv_def) metis
    then show ?thesis using run by (auto simp: key_ok_def timer_fires_def flush_begin_def split: if_splits)
  qed
  then show ?thesis using inv by (auto simp: card_inv_def)
qed

text \<open>
  C12: No requested version is lost: while the scheduler has not been stopped, the newest
  version requested for a card has been delivered (or a newer one), or the card is still
  pending with at least that version.
\<close>
theorem newest_card_version_is_never_lost:
  assumes "reach (card_start interval) card_step x" and "\<not> cs_stopped (sys_sched x)" and "sys_requested x key = Some v"
  shows "(\<exists>d. sys_delivered x key = Some d \<and> v \<le> d)
     \<or> (\<exists>item. pending_at (sys_sched x) key = Some item \<and> v \<le> cu_desiredVersion item)"
  using cards.reach_inv [OF assms(1)] assms(2,3) by (auto simp: card_inv_def owed_def split: option.splits)

text \<open>
  A failed delivery is always tried again: the settlement of a failed flush leaves the
  card pending with its newest version and a timer between one millisecond and thirty
  seconds ahead, however often it failed before.
\<close>
lemma failed_card_update_is_retried:
  assumes "reach (card_start interval) card_step x" and "\<not> cs_stopped (sys_sched x)"
    and "sys_flights x = before @ f # after"
  shows "\<exists>s' item item' t. flush_settle f False now (sys_sched x) = (s', None) \<and> pending_at (sys_sched x) (fl_key f) = Some item
     \<and> pending_at s' (fl_key f) = Some item' \<and> cu_desiredVersion item' = cu_desiredVersion item \<and> fl_version f \<le> cu_desiredVersion item'
     \<and> cu_timer item' = Some t \<and> now < t \<and> t \<le> now + 30000"
proof -
  have inv: "card_inv x" using cards.reach_inv [OF assms(1)] .
  have f: "f \<in> set (sys_flights x)" by (simp add: assms(3))
  have ok: "key_ok (sys_flights x) (fl_key f) (pending_at (sys_sched x) (fl_key f))" "distinct (map fl_key (sys_flights x))"
    using inv assms(2) by (auto simp: card_inv_def)
  obtain item where item: "pending_at (sys_sched x) (fl_key f) = Some item" "cu_timer item = None"
    using flight_item [OF ok(1) f] by blast
  have ver: "fl_version f \<le> cu_desiredVersion item" using flight_version [OF _ f ok(2), of item] ok(1) item by simp
  let ?d = "retry_delay (cs_intervalMs (sys_sched x)) (Suc (cu_consecutiveFailures item))"
  have "(1::int) * 1 \<le> max 1 (cs_intervalMs (sys_sched x)) * 2 ^ cu_consecutiveFailures item"
    by (intro mult_mono) auto
  then have d: "1 \<le> ?d" "?d \<le> 30000" by (simp_all add: retry_delay_def)
  define item' where "item' = item\<lparr>cu_inFlight := False, cu_consecutiveFailures := cu_consecutiveFailures item + 1,
     cu_dueAt := Some (now + ?d), cu_timer := Some (now + ?d)\<rparr>"
  have "flush_settle f False now (sys_sched x) = (put_item (fl_key f) item' ((sys_sched x)\<lparr>cs_failures := cs_failures (sys_sched x) + 1\<rparr>), None)"
    using assms(2) item d by (simp add: flush_settle_def arm_def Let_def item'_def)
  then show ?thesis using item ver d by (auto simp: item'_def)
qed

subsection \<open>Concrete instances\<close>

definition sample_cards :: card_system where
  "sample_cards = (let x = \<lparr>sys_sched = new_card_scheduler 500, sys_flights = [], sys_requested = Map.empty, sys_delivered = Map.empty\<rparr>;
       r = schedule ''main:1'' 3 (Immediate True) 10 (sys_sched x)
     in x\<lparr>sys_sched := fst r, sys_flights := launched (snd r) [], sys_requested := note_version ''main:1'' 3 Map.empty\<rparr>)"

lemma sample_cards_value:
  "sys_flights sample_cards = [] @ \<lparr>fl_key = ''main:1'', fl_version = 3, fl_priority = TerminalPriority, fl_startedAt = 10\<rparr> # []"
  "\<not> cs_stopped (sys_sched sample_cards)" "sys_requested sample_cards ''main:1'' = Some 3"
  by (simp_all add: sample_cards_def schedule_def option_delay_def requested_item_def fresh_item_def arm_def flush_begin_def put_item_def
      launched_def note_version_def new_card_scheduler_def Let_def)

lemma sample_cards_reachable: "reach (card_start 500) card_step sample_cards"
proof -
  let ?x = "\<lparr>sys_sched = new_card_scheduler 500, sys_flights = [], sys_requested = Map.empty, sys_delivered = Map.empty\<rparr>"
  have "card_step ?x sample_cards"
    using card_step.scheduled [of "''main:1''" 3 "Immediate True" 10 ?x, OF surjective_pairing]
    by (simp add: sample_cards_def new_card_scheduler_def Let_def)
  moreover have "card_start 500 ?x" by (simp add: card_start_def)
  ultimately show ?thesis using reach_start reach_step by metis
qed

theorem newest_card_version_is_never_lost_witness:
  "(\<exists>d. sys_delivered sample_cards ''main:1'' = Some d \<and> 3 \<le> d)
     \<or> (\<exists>item. pending_at (sys_sched sample_cards) ''main:1'' = Some item \<and> 3 \<le> cu_desiredVersion item)"
  using newest_card_version_is_never_lost [OF sample_cards_reachable sample_cards_value(2,3)] .

end
