(* ===== verification/Reconciliation_Runner.thy ===== *)
theory Reconciliation_Runner
  imports Transition_System "HOL-Library.Multiset"
begin

text \<open>
  The runner that orders reconciliation passes by priority
  (\<^verbatim>\<open>src/src/runtime/priority-reconciliation-runner.ts\<close>) and its run metrics
  (\<^verbatim>\<open>reconciliation-run-metrics.ts\<close>). Requests for Panes, Workspaces or everything are
  merged while a pass runs; one drain at a time takes them in priority order. A drain is
  cut at the await of a pass: \<open>drain_turn\<close> starts the next pass, \<open>pass_settled\<close> continues
  when it ends, and \<open>drain_finished\<close> is the \<^verbatim>\<open>finally\<close> callback of its promise. A promise
  handed to a caller is a waiter; its request is kept with it as a history value.
\<close>

subsection \<open>Metrics of the passes\<close>

text \<open>A reported failure: an object with an optional Workspace and the text of its message, or another value as text.\<close>

datatype failure_value = FailureObject "string option" string | FailureText string

record ReconciliationFailure =
  rf_workspaceId :: "string option"
  rf_message :: string

definition boundedMessage :: "string \<Rightarrow> string" where
  "boundedMessage v = take 500 v"

fun bounded_failure :: "failure_value \<Rightarrow> ReconciliationFailure" where
  "bounded_failure (FailureText t) = \<lparr>rf_workspaceId = None, rf_message = boundedMessage t\<rparr>"
| "bounded_failure (FailureObject ws m) = \<lparr>rf_workspaceId = map_option (take 200) ws, rf_message = boundedMessage m\<rparr>"

text \<open>What a pass ends with: the failures its result contains, or the text of the error it threw.\<close>

datatype pass_result = PassReturned "failure_value list" | PassThrew string

definition containedFailures :: "failure_value list \<Rightarrow> ReconciliationFailure list" where
  "containedFailures fs = map bounded_failure (take 20 fs)"

record ReconciliationRunMetrics =
  m_runCount :: nat
  m_successCount :: nat
  m_failureCount :: nat
  m_coalescedRequestCount :: nat
  m_lastStartedAt :: "timestamp option"
  m_lastCompletedAt :: "timestamp option"
  m_lastDurationMs :: "int option"
  m_maxDurationMs :: "int option"
  m_lastOutcome :: "bool option"
  m_lastFailures :: "ReconciliationFailure list"

definition new_metrics :: ReconciliationRunMetrics where
  "new_metrics = \<lparr>m_runCount = 0, m_successCount = 0, m_failureCount = 0, m_coalescedRequestCount = 0, m_lastStartedAt = None,
     m_lastCompletedAt = None, m_lastDurationMs = None, m_maxDurationMs = None, m_lastOutcome = None, m_lastFailures = []\<rparr>"

definition markCoalesced :: "ReconciliationRunMetrics \<Rightarrow> ReconciliationRunMetrics" where
  "markCoalesced m = m\<lparr>m_coalescedRequestCount := m_coalescedRequestCount m + 1\<rparr>"

definition measure_begin :: "timestamp \<Rightarrow> ReconciliationRunMetrics \<Rightarrow> ReconciliationRunMetrics" where
  "measure_begin now m = m\<lparr>m_runCount := m_runCount m + 1, m_lastStartedAt := Some now\<rparr>"

definition measure_end :: "timestamp \<Rightarrow> pass_result \<Rightarrow> timestamp \<Rightarrow> ReconciliationRunMetrics \<Rightarrow> ReconciliationRunMetrics" where
  "measure_end started res now m =
     (let failures = (case res of PassReturned fs \<Rightarrow> containedFailures fs | PassThrew e \<Rightarrow> [\<lparr>rf_workspaceId = None, rf_message = boundedMessage e\<rparr>]);
          m1 = (if failures \<noteq> []
                then m\<lparr>m_failureCount := m_failureCount m + 1, m_lastOutcome := Some False, m_lastFailures := failures\<rparr>
                else m\<lparr>m_successCount := m_successCount m + 1, m_lastOutcome := Some True, m_lastFailures := []\<rparr>);
          duration = max 0 (now - started)
      in m1\<lparr>m_lastDurationMs := Some duration, m_maxDurationMs := Some (max (opt_or (m_maxDurationMs m) 0) duration),
            m_lastCompletedAt := Some now\<rparr>)"

subsection \<open>The runner\<close>

datatype PriorityReconciliationScope = PanesScope "string list" | WorkspacesScope "string list" | AllScope

datatype scope_kind = PanesKind | WorkspacesKind | AllKind

fun scope_kind_of :: "PriorityReconciliationScope \<Rightarrow> scope_kind" where
  "scope_kind_of (PanesScope _) = PanesKind"
| "scope_kind_of (WorkspacesScope _) = WorkspacesKind"
| "scope_kind_of AllScope = AllKind"

record waiter =
  w_id :: nat
  w_scope :: PriorityReconciliationScope

record PendingIds =
  p_ids :: "string list"
  p_waiters :: "waiter list"
  p_acceptedAt :: "timestamp option"

record PendingAll =
  a_requested :: bool
  a_waiters :: "waiter list"
  a_acceptedAt :: "timestamp option"

record pass =
  ps_scope :: PriorityReconciliationScope
  ps_waiters :: "waiter list"
  ps_startedAt :: timestamp

text \<open>The drain: none, awaiting a pass, or ended with its promise settled but the \<^verbatim>\<open>finally\<close> callback still to run.\<close>

datatype drain_phase = DrainIdle | DrainRunning pass | DrainEnded

record PriorityReconciliationRunner =
  rn_panes :: PendingIds
  rn_workspaces :: PendingIds
  rn_all :: PendingAll
  rn_phase :: drain_phase
  rn_firstError :: "string option"
  rn_stopping :: bool
  rn_promotions :: nat
  rn_metrics :: ReconciliationRunMetrics
  rn_lastDelay :: "scope_kind \<Rightarrow> int option"
  rn_maxDelay :: "scope_kind \<Rightarrow> int option"

definition no_ids :: PendingIds where
  "no_ids = \<lparr>p_ids = [], p_waiters = [], p_acceptedAt = None\<rparr>"

definition no_all :: PendingAll where
  "no_all = \<lparr>a_requested = False, a_waiters = [], a_acceptedAt = None\<rparr>"

definition new_runner :: PriorityReconciliationRunner where
  "new_runner = \<lparr>rn_panes = no_ids, rn_workspaces = no_ids, rn_all = no_all, rn_phase = DrainIdle, rn_firstError = None,
     rn_stopping = False, rn_promotions = 0, rn_metrics = new_metrics, rn_lastDelay = (\<lambda>_. None), rn_maxDelay = (\<lambda>_. None)\<rparr>"

text \<open>\<^verbatim>\<open>Set.add\<close> for each id, in insertion order.\<close>

definition set_add :: "string \<Rightarrow> string list \<Rightarrow> string list" where
  "set_add x xs = (if x \<in> set xs then xs else xs @ [x])"

definition add_ids :: "string list \<Rightarrow> waiter \<Rightarrow> timestamp \<Rightarrow> PendingIds \<Rightarrow> PendingIds" where
  "add_ids ids w now p = \<lparr>p_ids = fold set_add ids (p_ids p), p_waiters = p_waiters p @ [w],
     p_acceptedAt = nullish (p_acceptedAt p) (Some now)\<rparr>"

definition hasPending :: "PriorityReconciliationRunner \<Rightarrow> bool" where
  "hasPending r = (p_waiters (rn_panes r) \<noteq> [] \<or> p_waiters (rn_workspaces r) \<noteq> [] \<or> a_requested (rn_all r))"

definition activeScopeCovers :: "PriorityReconciliationScope \<Rightarrow> PriorityReconciliationScope \<Rightarrow> bool" where
  "activeScopeCovers active requested =
     (case active of
        AllScope \<Rightarrow> requested = AllScope
      | PanesScope _ \<Rightarrow> False
      | WorkspacesScope act \<Rightarrow> (case requested of WorkspacesScope req \<Rightarrow> set req \<subseteq> set act | _ \<Rightarrow> False))"

definition takeNext :: "timestamp \<Rightarrow> PriorityReconciliationRunner
    \<Rightarrow> PriorityReconciliationRunner \<times> (PriorityReconciliationScope \<times> waiter list \<times> timestamp) option" where
  "takeNext now r =
     (let panes = rn_panes r; workspaces = rn_workspaces r; all = rn_all r in
      if p_waiters panes \<noteq> [] then
        (r\<lparr>rn_panes := no_ids,
           rn_promotions := rn_promotions r + (if p_waiters workspaces \<noteq> [] \<or> a_requested all then 1 else 0)\<rparr>,
         Some (PanesScope (p_ids panes), p_waiters panes, opt_or (p_acceptedAt panes) now))
      else if p_waiters workspaces \<noteq> [] then
        (r\<lparr>rn_workspaces := no_ids, rn_promotions := rn_promotions r + (if a_requested all then 1 else 0)\<rparr>,
         Some (WorkspacesScope (p_ids workspaces), p_waiters workspaces, opt_or (p_acceptedAt workspaces) now))
      else if a_requested all then
        (r\<lparr>rn_all := no_all\<rparr>, Some (AllScope, a_waiters all, opt_or (a_acceptedAt all) now))
      else (r, None))"

definition recordStartDelay :: "scope_kind \<Rightarrow> timestamp \<Rightarrow> timestamp \<Rightarrow> PriorityReconciliationRunner \<Rightarrow> PriorityReconciliationRunner" where
  "recordStartDelay k acceptedAt now r =
     (let delay = max 0 (now - acceptedAt)
      in r\<lparr>rn_lastDelay := (rn_lastDelay r)(k := Some delay),
           rn_maxDelay := (rn_maxDelay r)(k := Some (max (opt_or (rn_maxDelay r k) 0) delay))\<rparr>)"

text \<open>One turn of the loop in \<^verbatim>\<open>drain\<close>, up to the await of the pass it starts.\<close>

definition drain_turn :: "timestamp \<Rightarrow> PriorityReconciliationRunner \<Rightarrow> PriorityReconciliationRunner" where
  "drain_turn now r =
     (if rn_stopping r then r\<lparr>rn_phase := DrainEnded\<rparr>
      else case takeNext now r of
        (r1, None) \<Rightarrow> r1\<lparr>rn_phase := DrainEnded\<rparr>
      | (r1, Some (sc, ws, acceptedAt)) \<Rightarrow>
          (recordStartDelay (scope_kind_of sc) acceptedAt now r1)
            \<lparr>rn_metrics := measure_begin now (rn_metrics r1),
             rn_phase := DrainRunning \<lparr>ps_scope = sc, ps_waiters = ws, ps_startedAt = now\<rparr>\<rparr>)"

definition startDrain :: "timestamp \<Rightarrow> PriorityReconciliationRunner \<Rightarrow> PriorityReconciliationRunner" where
  "startDrain now r = drain_turn now (r\<lparr>rn_firstError := None\<rparr>)"

datatype request_answer = RequestIgnored | JoinedActive | RequestQueued

definition enqueue_request :: "waiter \<Rightarrow> timestamp \<Rightarrow> PriorityReconciliationRunner \<Rightarrow> PriorityReconciliationRunner" where
  "enqueue_request w now r =
     (case w_scope w of
        PanesScope ids \<Rightarrow> r\<lparr>rn_panes := add_ids ids w now (rn_panes r)\<rparr>
      | WorkspacesScope ids \<Rightarrow> r\<lparr>rn_workspaces := add_ids ids w now (rn_workspaces r)\<rparr>
      | AllScope \<Rightarrow> r\<lparr>rn_all := \<lparr>a_requested = True, a_waiters = a_waiters (rn_all r) @ [w],
            a_acceptedAt = nullish (a_acceptedAt (rn_all r)) (Some now)\<rparr>\<rparr>)"

definition run_request :: "waiter \<Rightarrow> bool \<Rightarrow> timestamp \<Rightarrow> PriorityReconciliationRunner \<Rightarrow> PriorityReconciliationRunner \<times> request_answer" where
  "run_request w allowActiveCoverage now r =
     (if rn_stopping r then (r, RequestIgnored)
      else if allowActiveCoverage \<and> (case rn_phase r of DrainRunning p \<Rightarrow> activeScopeCovers (ps_scope p) (w_scope w) | _ \<Rightarrow> False)
      then (r\<lparr>rn_metrics := markCoalesced (rn_metrics r)\<rparr>, JoinedActive)
      else
        let r1 = (if rn_phase r \<noteq> DrainIdle then r\<lparr>rn_metrics := markCoalesced (rn_metrics r)\<rparr> else r);
            r2 = enqueue_request w now r1
        in (if rn_phase r = DrainIdle then startDrain now r2 else r2, RequestQueued))"

text \<open>The pass under way ends: its waiters are resolved or rejected, and the loop goes on.\<close>

definition pass_settled :: "pass_result \<Rightarrow> timestamp \<Rightarrow> PriorityReconciliationRunner \<Rightarrow> PriorityReconciliationRunner \<times> (waiter \<times> string option) list" where
  "pass_settled res now r =
     (case rn_phase r of
        DrainRunning p \<Rightarrow>
          let err = (case res of PassThrew e \<Rightarrow> Some e | PassReturned _ \<Rightarrow> None);
              r1 = r\<lparr>rn_metrics := measure_end (ps_startedAt p) res now (rn_metrics r),
                     rn_firstError := nullish (rn_firstError r) err\<rparr>
          in (drain_turn now r1, map (\<lambda>w. (w, err)) (ps_waiters p))
      | _ \<Rightarrow> (r, []))"

definition drain_finished :: "timestamp \<Rightarrow> PriorityReconciliationRunner \<Rightarrow> PriorityReconciliationRunner" where
  "drain_finished now r =
     (let r1 = r\<lparr>rn_phase := DrainIdle\<rparr> in if \<not> rn_stopping r1 \<and> hasPending r1 then startDrain now r1 else r1)"

definition pending_waiters :: "PriorityReconciliationRunner \<Rightarrow> waiter list" where
  "pending_waiters r = p_waiters (rn_panes r) @ p_waiters (rn_workspaces r) @ a_waiters (rn_all r)"

definition stop_runner :: "PriorityReconciliationRunner \<Rightarrow> PriorityReconciliationRunner \<times> (waiter \<times> string option) list" where
  "stop_runner r =
     (r\<lparr>rn_stopping := True, rn_panes := no_ids, rn_workspaces := no_ids, rn_all := no_all\<rparr>,
      map (\<lambda>w. (w, None)) (pending_waiters r))"

subsection \<open>Interleavings\<close>

text \<open>The runner with the accepted waiters and the waiters settled so far; a joined caller awaits the drain and is not among them.\<close>

record runner_system =
  rs_runner :: PriorityReconciliationRunner
  rs_accepted :: "waiter list"
  rs_settled :: "(waiter \<times> string option) list"

inductive runner_step :: "runner_system \<Rightarrow> runner_system \<Rightarrow> bool" where
  requested: "run_request w cov now (rs_runner x) = (r', ans) \<Longrightarrow>
     runner_step x (x\<lparr>rs_runner := r', rs_accepted := (if ans = RequestQueued then w # rs_accepted x else rs_accepted x)\<rparr>)"
| settled: "rn_phase (rs_runner x) = DrainRunning p \<Longrightarrow> pass_settled res now (rs_runner x) = (r', outs) \<Longrightarrow>
     runner_step x (x\<lparr>rs_runner := r', rs_settled := outs @ rs_settled x\<rparr>)"
| finished: "rn_phase (rs_runner x) = DrainEnded \<Longrightarrow> runner_step x (x\<lparr>rs_runner := drain_finished now (rs_runner x)\<rparr>)"
| stopped: "stop_runner (rs_runner x) = (r', outs) \<Longrightarrow> runner_step x (x\<lparr>rs_runner := r', rs_settled := outs @ rs_settled x\<rparr>)"

definition runner_start :: "runner_system \<Rightarrow> bool" where
  "runner_start x \<longleftrightarrow> x = \<lparr>rs_runner = new_runner, rs_accepted = [], rs_settled = []\<rparr>"

subsection \<open>Invariant\<close>

definition scope_within :: "PriorityReconciliationScope \<Rightarrow> PriorityReconciliationScope \<Rightarrow> bool" where
  "scope_within req done = (case (req, done) of
     (PanesScope a, PanesScope b) \<Rightarrow> set a \<subseteq> set b
   | (WorkspacesScope a, WorkspacesScope b) \<Rightarrow> set a \<subseteq> set b
   | (AllScope, AllScope) \<Rightarrow> True
   | _ \<Rightarrow> False)"

fun running_waiters :: "drain_phase \<Rightarrow> waiter list" where
  "running_waiters (DrainRunning p) = ps_waiters p"
| "running_waiters _ = []"

fun phase_ok :: "drain_phase \<Rightarrow> bool" where
  "phase_ok (DrainRunning p) = (\<forall>w \<in> set (ps_waiters p). scope_within (w_scope w) (ps_scope p))"
| "phase_ok _ = True"

definition queues_ok :: "PriorityReconciliationRunner \<Rightarrow> bool" where
  "queues_ok r \<longleftrightarrow> (\<forall>w \<in> set (p_waiters (rn_panes r)). scope_within (w_scope w) (PanesScope (p_ids (rn_panes r))))
     \<and> (\<forall>w \<in> set (p_waiters (rn_workspaces r)). scope_within (w_scope w) (WorkspacesScope (p_ids (rn_workspaces r))))
     \<and> (\<forall>w \<in> set (a_waiters (rn_all r)). w_scope w = AllScope) \<and> (a_requested (rn_all r) \<longleftrightarrow> a_waiters (rn_all r) \<noteq> [])"

definition runner_ok :: "PriorityReconciliationRunner \<Rightarrow> bool" where
  "runner_ok r \<longleftrightarrow> queues_ok r \<and> phase_ok (rn_phase r) \<and> (hasPending r \<longrightarrow> rn_phase r \<noteq> DrainIdle)
     \<and> (rn_stopping r \<longrightarrow> pending_waiters r = [])"

definition held_waiters :: "PriorityReconciliationRunner \<Rightarrow> waiter multiset" where
  "held_waiters r = mset (pending_waiters r) + mset (running_waiters (rn_phase r))"

definition runner_inv :: "runner_system \<Rightarrow> bool" where
  "runner_inv x \<longleftrightarrow> runner_ok (rs_runner x) \<and> mset (rs_accepted x) = held_waiters (rs_runner x) + mset (map fst (rs_settled x))"

lemmas runner_records = no_ids_def no_all_def pending_waiters_def held_waiters_def hasPending_def

lemma set_fold_set_add: "set (fold set_add ids xs) = set ids \<union> set xs"
  by (induction ids arbitrary: xs) (auto simp: set_add_def)

lemma hasPending_iff: "queues_ok r \<Longrightarrow> hasPending r \<longleftrightarrow> pending_waiters r \<noteq> []"
  by (auto simp: queues_ok_def runner_records)

text \<open>A turn of the loop moves whole queues into a pass and loses no waiter.\<close>

lemma runner_turn_ok:
  assumes "queues_ok r" and "rn_stopping r \<longrightarrow> pending_waiters r = []"
  shows "runner_ok (drain_turn now r) \<and> held_waiters (drain_turn now r) = mset (pending_waiters r)"
proof -
  consider (stop) "rn_stopping r" | (panes) "\<not> rn_stopping r" "p_waiters (rn_panes r) \<noteq> []"
    | (workspaces) "\<not> rn_stopping r" "p_waiters (rn_panes r) = []" "p_waiters (rn_workspaces r) \<noteq> []"
    | (all) "\<not> rn_stopping r" "p_waiters (rn_panes r) = []" "p_waiters (rn_workspaces r) = []"
    by blast
  then show ?thesis
  proof cases
    case stop
    then show ?thesis using assms by (simp add: drain_turn_def runner_ok_def queues_ok_def runner_records)
  next
    case panes
    then show ?thesis using assms(1)
      by (simp add: drain_turn_def takeNext_def recordStartDelay_def Let_def runner_ok_def queues_ok_def runner_records)
  next
    case workspaces
    then show ?thesis using assms(1)
      by (simp add: drain_turn_def takeNext_def recordStartDelay_def Let_def runner_ok_def queues_ok_def runner_records)
  next
    case all
    then show ?thesis using assms(1)
      by (auto simp: drain_turn_def takeNext_def recordStartDelay_def Let_def runner_ok_def queues_ok_def runner_records scope_within_def)
  qed
qed

lemma enqueue_request_ok:
  assumes "queues_ok r"
  shows "queues_ok (enqueue_request w now r) \<and> mset (pending_waiters (enqueue_request w now r)) = add_mset w (mset (pending_waiters r))
     \<and> rn_phase (enqueue_request w now r) = rn_phase r \<and> rn_stopping (enqueue_request w now r) = rn_stopping r"
proof (cases "w_scope w")
  case (PanesScope ids)
  then show ?thesis using assms
    by (fastforce simp: enqueue_request_def queues_ok_def add_ids_def scope_within_def set_fold_set_add pending_waiters_def
        split: PriorityReconciliationScope.splits)
next
  case (WorkspacesScope ids)
  then show ?thesis using assms
    by (fastforce simp: enqueue_request_def queues_ok_def add_ids_def scope_within_def set_fold_set_add pending_waiters_def
        split: PriorityReconciliationScope.splits)
next
  case AllScope
  then show ?thesis using assms by (auto simp: enqueue_request_def queues_ok_def pending_waiters_def)
qed

lemma runner_frame:
  "runner_ok (r\<lparr>rn_metrics := m\<rparr>) = runner_ok r" "held_waiters (r\<lparr>rn_metrics := m\<rparr>) = held_waiters r"
  "queues_ok (r\<lparr>rn_metrics := m\<rparr>) = queues_ok r" "pending_waiters (r\<lparr>rn_metrics := m\<rparr>) = pending_waiters r"
  "queues_ok (r\<lparr>rn_firstError := e\<rparr>) = queues_ok r" "pending_waiters (r\<lparr>rn_firstError := e\<rparr>) = pending_waiters r"
  "queues_ok (r\<lparr>rn_phase := p\<rparr>) = queues_ok r" "pending_waiters (r\<lparr>rn_phase := p\<rparr>) = pending_waiters r"
  by (simp_all add: runner_ok_def queues_ok_def runner_records)

lemma run_request_ok:
  assumes "runner_ok r" and "run_request w cov now r = (r', ans)"
  shows "runner_ok r' \<and> held_waiters r' = (if ans = RequestQueued then add_mset w (held_waiters r) else held_waiters r)"
proof (cases "ans = RequestQueued")
  case False
  then show ?thesis using assms by (auto simp: run_request_def Let_def runner_frame split: if_splits)
next
  case True
  define r1 where "r1 = (if rn_phase r \<noteq> DrainIdle then r\<lparr>rn_metrics := markCoalesced (rn_metrics r)\<rparr> else r)"
  have q: "queues_ok r1" "pending_waiters r1 = pending_waiters r" "rn_phase r1 = rn_phase r" "rn_stopping r1 = rn_stopping r"
    using assms(1) by (auto simp: r1_def runner_ok_def runner_frame)
  note e = enqueue_request_ok [OF q(1), of w now]
  have run: "\<not> rn_stopping r" "r' = (if rn_phase r = DrainIdle then startDrain now (enqueue_request w now r1) else enqueue_request w now r1)"
    using assms(2) True by (auto simp: run_request_def Let_def r1_def split: if_splits)
  show ?thesis
  proof (cases "rn_phase r = DrainIdle")
    case idle: True
    then have "r' = drain_turn now ((enqueue_request w now r1)\<lparr>rn_firstError := None\<rparr>)" using run(2) by (simp add: startDrain_def)
    then have "runner_ok r' \<and> held_waiters r' = mset (pending_waiters ((enqueue_request w now r1)\<lparr>rn_firstError := None\<rparr>))"
      using runner_turn_ok [of "(enqueue_request w now r1)\<lparr>rn_firstError := None\<rparr>" now] e run(1) q by (simp add: runner_frame)
    then show ?thesis using True idle e q by (simp add: runner_frame held_waiters_def)
  next
    case busy: False
    have "runner_ok (enqueue_request w now r1)"
      using e q busy run(1) assms(1) by (auto simp: runner_ok_def)
    then show ?thesis using True busy e q run(2) by (simp add: held_waiters_def)
  qed
qed

lemma pass_settled_ok:
  assumes "runner_ok r" and "rn_phase r = DrainRunning p" and "pass_settled res now r = (r', outs)"
  shows "runner_ok r' \<and> held_waiters r = held_waiters r' + mset (map fst outs)"
proof -
  obtain r1 where r1: "r' = drain_turn now r1" "queues_ok r1" "pending_waiters r1 = pending_waiters r" "rn_stopping r1 = rn_stopping r"
    and o: "map fst outs = ps_waiters p"
    using assms by (auto simp: pass_settled_def Let_def runner_ok_def runner_frame comp_def)
  have "runner_ok r' \<and> held_waiters r' = mset (pending_waiters r)"
    using runner_turn_ok [of r1 now] r1 assms(1) by (simp add: runner_ok_def)
  then show ?thesis using o assms(2) by (simp add: held_waiters_def)
qed

lemma drain_finished_ok:
  assumes "runner_ok r" and "rn_phase r = DrainEnded"
  shows "runner_ok (drain_finished now r) \<and> held_waiters (drain_finished now r) = held_waiters r"
proof (cases "\<not> rn_stopping r \<and> hasPending r")
  case True
  have "runner_ok (startDrain now (r\<lparr>rn_phase := DrainIdle\<rparr>)) \<and> held_waiters (startDrain now (r\<lparr>rn_phase := DrainIdle\<rparr>)) = mset (pending_waiters r)"
    using runner_turn_ok [of "r\<lparr>rn_phase := DrainIdle, rn_firstError := None\<rparr>" now] assms(1) True
    by (simp add: startDrain_def runner_frame runner_ok_def)
  then show ?thesis using True assms(2) by (simp add: drain_finished_def hasPending_def held_waiters_def)
next
  case False
  then show ?thesis using assms hasPending_iff [of r]
    by (auto simp: drain_finished_def runner_ok_def queues_ok_def runner_records)
qed

lemma stop_runner_ok:
  assumes "runner_ok r" and "stop_runner r = (r', outs)"
  shows "runner_ok r' \<and> held_waiters r = held_waiters r' + mset (map fst outs)"
proof -
  have "map fst outs = pending_waiters r" "pending_waiters r' = []" "rn_phase r' = rn_phase r" "runner_ok r'"
    using assms by (auto simp: stop_runner_def runner_ok_def queues_ok_def no_ids_def no_all_def hasPending_def pending_waiters_def comp_def)
  then show ?thesis by (simp only: held_waiters_def) (simp add: union_commute)
qed

interpretation runner: invariant_system runner_start runner_step runner_inv
proof
  fix x assume "runner_start x"
  then show "runner_inv x"
    by (simp add: runner_start_def runner_inv_def new_runner_def runner_ok_def queues_ok_def runner_records)
next
  fix x y assume inv: "runner_inv x" and "runner_step x y"
  from this(2) show "runner_inv y"
  proof cases
    case (requested w cov now r' ans)
    then show ?thesis using inv run_request_ok [of "rs_runner x" w cov now r' ans] by (auto simp: runner_inv_def)
  next
    case (settled p res now r' outs)
    then show ?thesis using inv pass_settled_ok [of "rs_runner x" p res now r' outs] by (simp add: runner_inv_def)
  next
    case (finished now)
    then show ?thesis using inv drain_finished_ok [of "rs_runner x" now] by (simp add: runner_inv_def)
  next
    case (stopped r' outs)
    then show ?thesis using inv stop_runner_ok [of "rs_runner x" r' outs] by (simp add: runner_inv_def)
  qed
qed


text \<open>
  Narrow requests go first: whenever a turn of the drain starts a pass, it takes all pending
  Pane requests if there are any, else all pending Workspace requests, else the full pass,
  and it takes nothing exactly when nothing is pending.
\<close>
lemma drain_takes_the_narrowest_scope:
  assumes "queues_ok r" and "\<not> rn_stopping r"
  shows "case rn_phase (drain_turn now r) of
      DrainRunning p \<Rightarrow>
        (if p_waiters (rn_panes r) \<noteq> [] then ps_scope p = PanesScope (p_ids (rn_panes r)) \<and> ps_waiters p = p_waiters (rn_panes r)
         else if p_waiters (rn_workspaces r) \<noteq> [] then ps_scope p = WorkspacesScope (p_ids (rn_workspaces r)) \<and> ps_waiters p = p_waiters (rn_workspaces r)
         else ps_scope p = AllScope \<and> ps_waiters p = a_waiters (rn_all r))
    | DrainEnded \<Rightarrow> pending_waiters r = []
    | DrainIdle \<Rightarrow> False"
  using assms by (auto simp: drain_turn_def takeNext_def recordStartDelay_def Let_def queues_ok_def runner_records)

subsection \<open>Concrete instances\<close>

definition sample_request :: waiter where
  "sample_request = \<lparr>w_id = 1, w_scope = PanesScope [''p1'']\<rparr>"

definition sample_runner :: runner_system where
  "sample_runner = \<lparr>rs_runner = fst (run_request sample_request False 5 new_runner), rs_accepted = [sample_request], rs_settled = []\<rparr>"

lemma sample_runner_reachable: "reach runner_start runner_step sample_runner"
proof -
  let ?x = "\<lparr>rs_runner = new_runner, rs_accepted = [], rs_settled = []\<rparr>"
  have ans: "snd (run_request sample_request False 5 new_runner) = RequestQueued"
    by (simp add: run_request_def new_runner_def Let_def)
  have "runner_step ?x sample_runner"
    using runner_step.requested [of sample_request False 5 ?x, OF surjective_pairing] ans by (simp add: sample_runner_def)
  moreover have "runner_start ?x" by (simp add: runner_start_def)
  ultimately show ?thesis using reach_start reach_step by metis
qed


end
