(* ===== verification/Runtime_Caches.thy ===== *)
theory Runtime_Caches
  imports Prelude
begin

text \<open>
  Two small in-memory helpers: the bounded map with least-recently-used eviction
  (\<^verbatim>\<open>src/src/runtime/lru-map.ts\<close>) and the gate that turns repeated failures into a first
  report and periodic summaries (\<^verbatim>\<open>src/src/runtime/failure-log-gate.ts\<close>).
\<close>

subsection \<open>The bounded map\<close>

text \<open>\<^verbatim>\<open>Map\<close> keeps insertion order: the head of the list is the entry the next eviction removes.\<close>

record ('k, 'v) LruMap =
  lru_values :: "('k \<times> 'v) list"
  lru_capacity :: nat

text \<open>The constructor throws for a capacity that is not positive.\<close>

definition new_lru :: "int \<Rightarrow> ('k, 'v) LruMap option" where
  "new_lru capacity = (if capacity < 1 then None else Some \<lparr>lru_values = [], lru_capacity = nat capacity\<rparr>)"

definition move_to_end :: "'k \<Rightarrow> 'v \<Rightarrow> ('k \<times> 'v) list \<Rightarrow> ('k \<times> 'v) list" where
  "move_to_end k v xs = AList.delete k xs @ [(k, v)]"

definition lru_get :: "'k \<Rightarrow> ('k, 'v) LruMap \<Rightarrow> ('k, 'v) LruMap \<times> 'v option" where
  "lru_get k m = (case map_of (lru_values m) k of
     None \<Rightarrow> (m, None)
   | Some v \<Rightarrow> (m\<lparr>lru_values := move_to_end k v (lru_values m)\<rparr>, Some v))"

fun evict :: "nat \<Rightarrow> ('k \<times> 'v) list \<Rightarrow> ('k \<times> 'v) list" where
  "evict capacity [] = []"
| "evict capacity (x # xs) = (if capacity < length (x # xs) then evict capacity xs else x # xs)"

definition lru_set :: "'k \<Rightarrow> 'v \<Rightarrow> ('k, 'v) LruMap \<Rightarrow> ('k, 'v) LruMap" where
  "lru_set k v m = m\<lparr>lru_values := evict (lru_capacity m) (move_to_end k v (lru_values m))\<rparr>"

definition lru_delete :: "'k \<Rightarrow> ('k, 'v) LruMap \<Rightarrow> ('k, 'v) LruMap \<times> bool" where
  "lru_delete k m = (m\<lparr>lru_values := AList.delete k (lru_values m)\<rparr>, map_of (lru_values m) k \<noteq> None)"

definition lru_clear :: "('k, 'v) LruMap \<Rightarrow> ('k, 'v) LruMap" where
  "lru_clear m = m\<lparr>lru_values := []\<rparr>"

definition lru_size :: "('k, 'v) LruMap \<Rightarrow> nat" where
  "lru_size m = length (lru_values m)"

lemma evict_drop: "evict c xs = drop (length xs - c) xs"
proof (induction xs)
  case Nil
  then show ?case by simp
next
  case (Cons x xs)
  then show ?case by (cases "c < length (x # xs)") (auto simp: Suc_diff_le less_Suc_eq_le)
qed

datatype ('k, 'v) lru_op = LruGet 'k | LruSet 'k 'v | LruDelete 'k | LruClear

fun lru_step :: "('k, 'v) lru_op \<Rightarrow> ('k, 'v) LruMap \<Rightarrow> ('k, 'v) LruMap" where
  "lru_step (LruGet k) m = fst (lru_get k m)"
| "lru_step (LruSet k v) m = lru_set k v m"
| "lru_step (LruDelete k) m = fst (lru_delete k m)"
| "lru_step LruClear m = lru_clear m"

definition lru_inv :: "('k, 'v) LruMap \<Rightarrow> bool" where
  "lru_inv m \<longleftrightarrow> distinct (map fst (lru_values m)) \<and> length (lru_values m) \<le> lru_capacity m"

lemma keys_delete: "map fst (AList.delete k xs) = filter (\<lambda>j. j \<noteq> k) (map fst xs)"
  by (induction xs) auto

lemma delete_length: "length (AList.delete k xs) \<le> length xs"
  by (simp add: AList.delete_eq)

lemma delete_length_present: "map_of xs k \<noteq> None \<Longrightarrow> length (AList.delete k xs) < length xs"
proof (induction xs)
  case Nil
  then show ?case by simp
next
  case (Cons x xs)
  have "length (AList.delete k xs) \<le> length xs" by (rule delete_length)
  with Cons show ?case by (cases x) (auto split: if_splits)
qed

lemma lru_inv_step: "lru_inv m \<Longrightarrow> lru_inv (lru_step op m)"
proof (cases op)
  case (LruGet k)
  assume "lru_inv m"
  then show ?thesis using LruGet delete_length_present [of "lru_values m" k]
    by (cases "map_of (lru_values m) k") (auto simp: lru_inv_def lru_get_def move_to_end_def keys_delete)
next
  case (LruSet k v)
  assume "lru_inv m"
  have "map fst (evict c (move_to_end k v (lru_values m))) = drop (length (move_to_end k v (lru_values m)) - c) (map fst (move_to_end k v (lru_values m)))" for c
    by (simp only: evict_drop drop_map)
  moreover have "distinct (map fst (move_to_end k v (lru_values m)))"
    using \<open>lru_inv m\<close> by (simp add: lru_inv_def move_to_end_def keys_delete)
  ultimately show ?thesis using LruSet by (simp only: lru_inv_def lru_step.simps lru_set_def) (simp add: evict_drop distinct_drop)
next
  case (LruDelete k)
  assume "lru_inv m"
  then show ?thesis using LruDelete delete_length [of k "lru_values m"] by (auto simp: lru_inv_def lru_delete_def keys_delete)
next
  case LruClear
  then show ?thesis by (simp add: lru_inv_def lru_clear_def)
qed

fun touched_key :: "('k, 'v) lru_op \<Rightarrow> 'k set" where
  "touched_key (LruGet k) = {k}"
| "touched_key (LruSet k v) = {k}"
| "touched_key _ = {}"

fun spares :: "'k \<Rightarrow> ('k, 'v) lru_op \<Rightarrow> bool" where
  "spares k (LruSet j v) = (j \<noteq> k)"
| "spares k (LruDelete j) = (j \<noteq> k)"
| "spares k LruClear = False"
| "spares k (LruGet j) = True"

definition touched_keys :: "'k \<Rightarrow> ('k, 'v) lru_op list \<Rightarrow> 'k set" where
  "touched_keys k ops = (\<Union>op \<in> set ops. touched_key op) - {k}"

text \<open>The entry of \<open>k\<close> with the keys used after it, all among \<open>T\<close>.\<close>

definition recent_in :: "'k \<Rightarrow> 'v \<Rightarrow> 'k set \<Rightarrow> ('k, 'v) LruMap \<Rightarrow> bool" where
  "recent_in k v T m \<longleftrightarrow> lru_inv m \<and> (\<exists>xs ys. lru_values m = xs @ (k, v) # ys \<and> set (map fst ys) \<subseteq> T)"

lemma delete_around:
  assumes "distinct (map fst (xs @ (k, v) # ys))" and "j \<noteq> k"
  shows "AList.delete j (xs @ (k, v) # ys) = AList.delete j xs @ (k, v) # AList.delete j ys"
  using assms by (simp add: AList.delete_eq)

lemma move_other:
  assumes "distinct (map fst (xs @ (k, v) # ys))" and "j \<noteq> k"
  shows "move_to_end j w (xs @ (k, v) # ys) = AList.delete j xs @ (k, v) # move_to_end j w ys"
  using delete_around [OF assms] by (simp add: move_to_end_def)

lemma recent_step:
  assumes "recent_in k v T m" and "spares k op" and "finite T" and "card (T \<union> (touched_key op - {k})) < lru_capacity m"
  shows "recent_in k v (T \<union> (touched_key op - {k})) (lru_step op m)"
proof -
  obtain xs ys where val: "lru_values m = xs @ (k, v) # ys" "set (map fst ys) \<subseteq> T" and inv: "lru_inv m"
    using assms(1) by (auto simp: recent_in_def)
  have dist: "distinct (map fst (xs @ (k, v) # ys))" using inv val by (simp add: lru_inv_def)
  have inv': "lru_inv (lru_step op m)" using inv by (rule lru_inv_step)
  show ?thesis
  proof (cases op)
    case (LruGet j)
    show ?thesis
    proof (cases "j = k")
      case True
      have "map_of (lru_values m) k = Some v" using dist val by (auto simp: map_of_eq_None_iff map_add_Some_iff image_iff)
      then have "lru_values (lru_step op m) = AList.delete k (lru_values m) @ (k, v) # []"
        by (simp add: LruGet True lru_get_def move_to_end_def)
      then show ?thesis unfolding recent_in_def using inv' by fastforce
    next
      case False
      show ?thesis
      proof (cases "map_of (lru_values m) j")
        case None
        then have "lru_step op m = m" by (simp add: LruGet lru_get_def)
        then show ?thesis using inv val unfolding recent_in_def by (metis le_supI1)
      next
        case (Some w)
        have "lru_values (lru_step op m) = AList.delete j xs @ (k, v) # move_to_end j w ys"
          using Some move_other [OF dist False] val by (simp add: LruGet lru_get_def)
        moreover have "set (map fst (move_to_end j w ys)) \<subseteq> T \<union> (touched_key op - {k})"
          using val(2) False by (auto simp: move_to_end_def LruGet AList.delete_eq)
        ultimately show ?thesis unfolding recent_in_def using inv' by blast
      qed
    qed
  next
    case (LruSet j w)
    then have jk: "j \<noteq> k" using assms(2) by simp
    let ?us = "AList.delete j xs" and ?vs = "move_to_end j w ys"
    have sub: "set (map fst ?vs) \<subseteq> T \<union> (touched_key op - {k})" using val(2) jk by (auto simp: move_to_end_def LruSet AList.delete_eq)
    have "distinct (map fst ?vs)" using dist by (auto simp: move_to_end_def keys_delete)
    then have "length ?vs \<le> card (T \<union> (touched_key op - {k}))"
      using sub card_mono [of "T \<union> (touched_key op - {k})" "set (map fst ?vs)"] assms(3) distinct_card [of "map fst ?vs"] by (simp add: LruSet)
    then have fit: "Suc (length ?vs) \<le> lru_capacity m" using assms(4) by simp
    have "lru_values (lru_step op m) = evict (lru_capacity m) (?us @ (k, v) # ?vs)"
      using move_other [OF dist jk] val by (simp add: LruSet lru_set_def)
    also have "\<dots> = drop (length (?us @ (k, v) # ?vs) - lru_capacity m) ?us @ (k, v) # ?vs"
      using fit by (simp add: evict_drop)
    finally show ?thesis unfolding recent_in_def using inv' sub by blast
  next
    case (LruDelete j)
    then have "lru_values (lru_step op m) = AList.delete j xs @ (k, v) # AList.delete j ys"
      using assms(2) delete_around [OF dist, of j] val by (simp add: lru_delete_def)
    moreover have "set (map fst (AList.delete j ys)) \<subseteq> T" using val(2) by (auto simp: AList.delete_eq)
    ultimately show ?thesis unfolding recent_in_def using inv' by blast
  next
    case LruClear
    then show ?thesis using assms(2) by simp
  qed
qed

lemma lru_capacity_step: "lru_capacity (lru_step op m) = lru_capacity m"
  by (cases op) (simp_all add: lru_get_def lru_set_def lru_delete_def lru_clear_def split: option.splits)

lemma recent_run:
  assumes "recent_in k v T m" and "finite T" and "\<forall>op \<in> set ops. spares k op" and "card (T \<union> touched_keys k ops) < lru_capacity m"
  shows "recent_in k v (T \<union> touched_keys k ops) (fold lru_step ops m)"
  using assms
proof (induction ops arbitrary: T m)
  case Nil
  then show ?case by (simp add: touched_keys_def)
next
  case (Cons op ops)
  let ?T = "T \<union> (touched_key op - {k})"
  have un: "?T \<union> touched_keys k ops = T \<union> touched_keys k (op # ops)" by (auto simp: touched_keys_def)
  have fin: "finite ?T" "finite (touched_keys k (op # ops))"
    using Cons.prems(2) by (cases op; auto simp: touched_keys_def intro!: finite_UN_I; metis finite.emptyI finite.insertI touched_key.simps lru_op.exhaust)+
  have "card ?T \<le> card (T \<union> touched_keys k (op # ops))" using fin Cons.prems(2) un by (intro card_mono) auto
  then have "recent_in k v ?T (lru_step op m)" using recent_step Cons.prems by fastforce
  then show ?case using Cons.IH [of ?T "lru_step op m"] Cons.prems un fin by (simp add: lru_capacity_step)
qed

text \<open>
  The map never exceeds its capacity, and eviction spares what was used recently: a value
  that was set is still found as long as fewer other keys than the capacity were used
  since, whatever order the uses came in.
\<close>
lemma lru_keeps_recent_entries:
  assumes "lru_inv m" and "\<forall>op \<in> set ops. spares k op" and "card (touched_keys k ops) < lru_capacity m"
  shows "lru_size (fold lru_step ops (lru_set k v m)) \<le> lru_capacity m
     \<and> snd (lru_get k (fold lru_step ops (lru_set k v m))) = Some v"
proof -
  have pos: "0 < lru_capacity m" using assms(3) by simp
  have "lru_values (lru_set k v m) = drop (length (move_to_end k v (lru_values m)) - lru_capacity m) (AList.delete k (lru_values m)) @ (k, v) # []"
    using pos by (simp add: lru_set_def evict_drop move_to_end_def)
  moreover have inv: "lru_inv (lru_set k v m)" using lru_inv_step [OF assms(1), of "LruSet k v"] by simp
  ultimately have "recent_in k v {} (lru_set k v m)" unfolding recent_in_def by fastforce
  moreover have cap: "lru_capacity (lru_set k v m) = lru_capacity m" by (simp add: lru_set_def)
  ultimately have r: "recent_in k v (touched_keys k ops) (fold lru_step ops (lru_set k v m))"
    using recent_run [of k v "{}" "lru_set k v m" ops] assms(2,3) by simp
  let ?m = "fold lru_step ops (lru_set k v m)"
  have "lru_capacity ?m = lru_capacity m" by (induction ops rule: rev_induct) (simp_all add: lru_capacity_step cap)
  moreover have "map_of (lru_values ?m) k = Some v"
    using r by (auto simp: recent_in_def lru_inv_def map_of_eq_None_iff map_add_Some_iff image_iff)
  ultimately show ?thesis using r by (simp add: recent_in_def lru_inv_def lru_size_def lru_get_def)
qed

subsection \<open>The failure gate\<close>

datatype FailureLogDecision = FirstFailure timestamp | FailureSummary nat timestamp | FailureSuppressed

record FailureState =
  fs_key :: string
  fs_count :: nat
  fs_firstAt :: timestamp
  fs_lastSummaryAt :: timestamp

type_synonym failure_gate = "string \<rightharpoonup> FailureState"

definition gate_fail :: "int \<Rightarrow> string \<Rightarrow> string \<Rightarrow> timestamp \<Rightarrow> failure_gate \<Rightarrow> failure_gate \<times> FailureLogDecision" where
  "gate_fail interval sc key now g =
     (let first = (g(sc \<mapsto> \<lparr>fs_key = key, fs_count = 1, fs_firstAt = now, fs_lastSummaryAt = now\<rparr>), FirstFailure now)
      in case g sc of
           None \<Rightarrow> first
         | Some cur \<Rightarrow>
             if fs_key cur \<noteq> key then first
             else
               let cur1 = cur\<lparr>fs_count := fs_count cur + 1\<rparr>
               in if now - fs_lastSummaryAt cur < interval then (g(sc \<mapsto> cur1), FailureSuppressed)
                  else (g(sc \<mapsto> cur1\<lparr>fs_lastSummaryAt := now\<rparr>), FailureSummary (fs_count cur1) (fs_firstAt cur)))"

definition gate_recover :: "string \<Rightarrow> timestamp \<Rightarrow> failure_gate \<Rightarrow> failure_gate \<times> (nat \<times> timestamp \<times> int) option" where
  "gate_recover sc now g = (case g sc of
     None \<Rightarrow> (g, None)
   | Some cur \<Rightarrow> (g(sc := None), Some (fs_count cur, fs_firstAt cur, max 0 (now - fs_firstAt cur))))"

text \<open>The failures of one scope and key at the given times, with the times at which something was reported.\<close>

fun gate_run :: "int \<Rightarrow> string \<Rightarrow> string \<Rightarrow> timestamp list \<Rightarrow> failure_gate \<Rightarrow> failure_gate \<times> timestamp list" where
  "gate_run interval sc key [] g = (g, [])"
| "gate_run interval sc key (t # ts) g =
     (case gate_fail interval sc key t g of (g1, d) \<Rightarrow>
        (case gate_run interval sc key ts g1 of (g2, reported) \<Rightarrow> (g2, (if d = FailureSuppressed then [] else [t]) @ reported)))"

lemma gate_run_inv:
  assumes "g sc = Some cur" and "fs_key cur = key" and "gate_run interval sc key ts g = (g', reported)" and "0 \<le> interval"
  shows "\<exists>cur'. g' sc = Some cur' \<and> fs_count cur' = fs_count cur + length ts \<and> fs_firstAt cur' = fs_firstAt cur
     \<and> sorted_wrt (\<lambda>a b. a + interval \<le> b) (fs_lastSummaryAt cur # reported)"
  using assms
proof (induction ts arbitrary: g cur g' reported)
  case Nil
  then show ?case by auto
next
  case (Cons t ts)
  define cur1 where "cur1 = cur\<lparr>fs_count := fs_count cur + 1\<rparr>"
  obtain g1 d where f: "gate_fail interval sc key t g = (g1, d)" by (cases "gate_fail interval sc key t g")
  obtain g2 rep where r: "gate_run interval sc key ts g1 = (g2, rep)" by (cases "gate_run interval sc key ts g1")
  have eq: "g' = g2" "reported = (if d = FailureSuppressed then [] else [t]) @ rep" using Cons.prems(3) f r by auto
  show ?case
  proof (cases "t - fs_lastSummaryAt cur < interval")
    case True
    then have g1: "g1 sc = Some cur1" "d = FailureSuppressed" using f Cons.prems(1,2) by (auto simp: gate_fail_def Let_def cur1_def)
    show ?thesis using Cons.IH [OF g1(1) _ r Cons.prems(4)] Cons.prems(2) eq g1(2) by (auto simp: cur1_def)
  next
    case False
    then have g1: "g1 sc = Some (cur1\<lparr>fs_lastSummaryAt := t\<rparr>)" "d \<noteq> FailureSuppressed"
      using f Cons.prems(1,2) by (auto simp: gate_fail_def Let_def cur1_def)
    obtain cur' where c: "g2 sc = Some cur'" "fs_count cur' = fs_count cur + Suc (length ts)" "fs_firstAt cur' = fs_firstAt cur"
      "sorted_wrt (\<lambda>a b. a + interval \<le> b) (t # rep)"
      using Cons.IH [OF g1(1) _ r Cons.prems(4)] Cons.prems(2) by (auto simp: cur1_def)
    then show ?thesis using False eq g1(2) Cons.prems(4) by fastforce
  qed
qed

text \<open>
  The gate loses no failure and floods no log: over any run of the same failure the count it
  keeps is the number of failures since the first, recovery reports exactly that count, and
  two reports of the run are at least the summary interval apart.
\<close>
lemma failure_gate_counts_exactly:
  assumes "g sc = None" and "gate_run interval sc key (t # ts) g = (g', reported)" and "0 \<le> interval"
  shows "snd (gate_recover sc now g') = Some (Suc (length ts), t, max 0 (now - t))
     \<and> hd reported = t \<and> sorted_wrt (\<lambda>a b. a + interval \<le> b) reported"
proof -
  define cur where "cur = \<lparr>fs_key = key, fs_count = 1, fs_firstAt = t, fs_lastSummaryAt = t\<rparr>"
  have first: "gate_fail interval sc key t g = (g(sc \<mapsto> cur), FirstFailure t)" using assms(1) by (simp add: gate_fail_def cur_def Let_def)
  obtain g2 rep where r: "gate_run interval sc key ts (g(sc \<mapsto> cur)) = (g2, rep)" by (cases "gate_run interval sc key ts (g(sc \<mapsto> cur))")
  have eq: "g' = g2" "reported = t # rep" using assms(2) first r by auto
  show ?thesis using gate_run_inv [OF _ _ r assms(3), of cur] eq by (auto simp: cur_def gate_recover_def)
qed

end
