(* ===== verification/Async_Primitives.thy ===== *)
theory Async_Primitives
  imports Transition_System
begin

text \<open>
  The asynchronous building blocks: the drain that coalesces wake-ups
  (\<^verbatim>\<open>src/src/runtime/coalescing-drain.ts\<close>), the queue that serialises work by key
  (\<^verbatim>\<open>keyed-serial-work-queue.ts\<close>) and the bounded parallel map (\<^verbatim>\<open>map-with-concurrency.ts\<close>).
  Each is a transition system whose steps are the synchronous stretches of the code: a
  call, the start or settlement of a piece of work, a promise callback.
\<close>

subsection \<open>The coalescing drain\<close>

text \<open>The run: none, awaiting \<^verbatim>\<open>drain\<close>, or ended with its \<^verbatim>\<open>finally\<close> callback still to come.\<close>

datatype run_phase = RunNone | RunDraining | RunEnded

record CoalescingDrain =
  cd_phase :: run_phase
  cd_hasInterval :: bool
  cd_requested :: bool
  cd_stopping :: bool

datatype drain_state = DrainStateIdle | DrainStateRunning | DrainStateStopping

definition new_drain :: CoalescingDrain where
  "new_drain = \<lparr>cd_phase = RunNone, cd_hasInterval = False, cd_requested = False, cd_stopping = True\<rparr>"

definition drain_snapshot :: "CoalescingDrain \<Rightarrow> drain_state \<times> bool" where
  "drain_snapshot d = (if cd_stopping d then DrainStateStopping else if cd_phase d \<noteq> RunNone then DrainStateRunning else DrainStateIdle,
     cd_requested d)"

text \<open>The condition of the loop in \<^verbatim>\<open>run\<close>, and its body up to the await; the flag tells whether a drain started.\<close>

definition run_turn :: "CoalescingDrain \<Rightarrow> CoalescingDrain \<times> bool" where
  "run_turn d = (if cd_requested d \<and> \<not> cd_stopping d then (d\<lparr>cd_requested := False, cd_phase := RunDraining\<rparr>, True)
     else (d\<lparr>cd_phase := RunEnded\<rparr>, False))"

definition activate :: "CoalescingDrain \<Rightarrow> CoalescingDrain \<times> bool" where
  "activate d = run_turn d"

definition drain_request :: "CoalescingDrain \<Rightarrow> CoalescingDrain \<times> bool" where
  "drain_request d =
     (if cd_stopping d then (d, False)
      else let d1 = d\<lparr>cd_requested := True\<rparr> in if cd_phase d1 = RunNone then activate d1 else (d1, False))"

definition drain_start :: "int option \<Rightarrow> CoalescingDrain \<Rightarrow> CoalescingDrain \<times> bool" where
  "drain_start intervalMs d =
     drain_request (d\<lparr>cd_stopping := False,
       cd_hasInterval := (cd_hasInterval d \<or> (case intervalMs of None \<Rightarrow> False | Some i \<Rightarrow> 0 < i))\<rparr>)"

definition drain_stop :: "CoalescingDrain \<Rightarrow> CoalescingDrain" where
  "drain_stop d = d\<lparr>cd_stopping := True, cd_hasInterval := False\<rparr>"

text \<open>The awaited drain resolves (the loop goes on) or rejects (the run ends after \<^verbatim>\<open>onError\<close>).\<close>

definition drain_resolved :: "CoalescingDrain \<Rightarrow> CoalescingDrain \<times> bool" where
  "drain_resolved d = run_turn d"

definition drain_rejected :: "CoalescingDrain \<Rightarrow> CoalescingDrain" where
  "drain_rejected d = d\<lparr>cd_phase := RunEnded\<rparr>"

definition run_finally :: "CoalescingDrain \<Rightarrow> CoalescingDrain \<times> bool" where
  "run_finally d =
     (let d1 = d\<lparr>cd_phase := RunNone\<rparr> in if cd_requested d1 \<and> \<not> cd_stopping d1 then activate d1 else (d1, False))"

text \<open>With it, the number of accepted requests and how many of them the latest drain saw when it started.\<close>

record drain_system =
  ds_drain :: CoalescingDrain
  ds_requests :: nat
  ds_seen :: nat

definition observe_start :: "CoalescingDrain \<times> bool \<Rightarrow> nat \<Rightarrow> drain_system \<Rightarrow> drain_system" where
  "observe_start r n x = x\<lparr>ds_drain := fst r, ds_requests := n, ds_seen := (if snd r then n else ds_seen x)\<rparr>"

inductive drain_step :: "drain_system \<Rightarrow> drain_system \<Rightarrow> bool" where
  requested: "drain_step x (observe_start (drain_request (ds_drain x))
     (if cd_stopping (ds_drain x) then ds_requests x else Suc (ds_requests x)) x)"
| started: "drain_step x (observe_start (drain_start interval (ds_drain x)) (Suc (ds_requests x)) x)"
| stopped: "drain_step x (x\<lparr>ds_drain := drain_stop (ds_drain x)\<rparr>)"
| resolved: "cd_phase (ds_drain x) = RunDraining \<Longrightarrow> drain_step x (observe_start (drain_resolved (ds_drain x)) (ds_requests x) x)"
| rejected: "cd_phase (ds_drain x) = RunDraining \<Longrightarrow> drain_step x (x\<lparr>ds_drain := drain_rejected (ds_drain x)\<rparr>)"
| finished: "cd_phase (ds_drain x) = RunEnded \<Longrightarrow> drain_step x (observe_start (run_finally (ds_drain x)) (ds_requests x) x)"

definition drain_init :: "drain_system \<Rightarrow> bool" where
  "drain_init x \<longleftrightarrow> x = \<lparr>ds_drain = new_drain, ds_requests = 0, ds_seen = 0\<rparr>"

definition drain_inv :: "drain_system \<Rightarrow> bool" where
  "drain_inv x \<longleftrightarrow> ds_seen x \<le> ds_requests x \<and> (cd_requested (ds_drain x) \<longleftrightarrow> ds_seen x < ds_requests x)
     \<and> (cd_requested (ds_drain x) \<and> \<not> cd_stopping (ds_drain x) \<longrightarrow> cd_phase (ds_drain x) \<noteq> RunNone)"

lemmas drain_ops = drain_request_def drain_start_def drain_stop_def drain_resolved_def drain_rejected_def run_finally_def
  activate_def run_turn_def Let_def

text \<open>
  A stop may leave a request unserved, and the run that ends afterwards does not serve it; the
  invariant holds across it because a later start requests again and so runs the drain.
\<close>

interpretation drain: invariant_system drain_init drain_step drain_inv
proof
  fix x assume "drain_init x"
  then show "drain_inv x" by (simp add: drain_init_def drain_inv_def new_drain_def)
next
  fix x y assume inv: "drain_inv x" and "drain_step x y"
  from this(2) show "drain_inv y"
  proof cases
    case requested
    then show ?thesis using inv by (auto simp: drain_inv_def observe_start_def drain_ops)
  next
    case (started interval)
    then show ?thesis using inv by (auto simp: drain_inv_def observe_start_def drain_ops)
  next
    case stopped
    then show ?thesis using inv by (auto simp: drain_inv_def drain_ops)
  next
    case resolved
    then show ?thesis using inv by (auto simp: drain_inv_def observe_start_def drain_ops)
  next
    case rejected
    then show ?thesis using inv by (auto simp: drain_inv_def drain_ops)
  next
    case finished
    then show ?thesis using inv by (auto simp: drain_inv_def observe_start_def drain_ops)
  qed
qed

text \<open>
  C23: No wake-up is lost: whenever the coalescing drain is idle and not stopped, a drain has
  started after every request accepted so far, although any number of requests share one
  drain; and while a request is unserved, a run is under way that will look at it.
\<close>
theorem no_wake_up_is_lost:
  assumes "reach drain_init drain_step x" and "\<not> cd_stopping (ds_drain x)"
  shows "(fst (drain_snapshot (ds_drain x)) = DrainStateIdle \<longrightarrow> ds_seen x = ds_requests x)
     \<and> (ds_seen x < ds_requests x \<longrightarrow> fst (drain_snapshot (ds_drain x)) = DrainStateRunning \<and> cd_requested (ds_drain x))"
  using drain.reach_inv [OF assms(1)] assms(2) by (auto simp: drain_inv_def drain_snapshot_def split: if_splits)

subsection \<open>The keyed serial queue\<close>

datatype job_state = JobWaiting | JobRunning | JobSettled

text \<open>A job is numbered by its place in the list of jobs; \<open>job_previous\<close> is the tail it was chained to.\<close>

record 'k job =
  job_key :: 'k
  job_previous :: "nat option"
  job_state :: job_state

record 'k KeyedSerialWorkQueue =
  ks_jobs :: "'k job list"
  ks_tails :: "'k \<rightharpoonup> nat"
  ks_stopping :: bool

definition new_queue :: "'k KeyedSerialWorkQueue" where
  "new_queue = \<lparr>ks_jobs = [], ks_tails = Map.empty, ks_stopping = False\<rparr>"

definition queue_enqueue :: "'k \<Rightarrow> 'k KeyedSerialWorkQueue \<Rightarrow> 'k KeyedSerialWorkQueue" where
  "queue_enqueue k q =
     (if ks_stopping q then q
      else q\<lparr>ks_jobs := ks_jobs q @ [\<lparr>job_key = k, job_previous = ks_tails q k, job_state = JobWaiting\<rparr>],
             ks_tails := (ks_tails q)(k \<mapsto> length (ks_jobs q))\<rparr>)"

definition set_job_state :: "nat \<Rightarrow> job_state \<Rightarrow> 'k KeyedSerialWorkQueue \<Rightarrow> 'k KeyedSerialWorkQueue" where
  "set_job_state j st q = q\<lparr>ks_jobs := (ks_jobs q)[j := (ks_jobs q ! j)\<lparr>job_state := st\<rparr>]\<rparr>"

text \<open>The work of a job may start when the promise it was chained to has settled.\<close>

definition job_ready :: "nat \<Rightarrow> 'k KeyedSerialWorkQueue \<Rightarrow> bool" where
  "job_ready j q = (j < length (ks_jobs q) \<and> job_state (ks_jobs q ! j) = JobWaiting
     \<and> (case job_previous (ks_jobs q ! j) of None \<Rightarrow> True | Some p \<Rightarrow> job_state (ks_jobs q ! p) = JobSettled))"

definition job_cleanup :: "nat \<Rightarrow> 'k KeyedSerialWorkQueue \<Rightarrow> 'k KeyedSerialWorkQueue" where
  "job_cleanup j q = (let k = job_key (ks_jobs q ! j) in
     if ks_tails q k = Some j then q\<lparr>ks_tails := (ks_tails q)(k := None)\<rparr> else q)"

inductive queue_step :: "'k KeyedSerialWorkQueue \<Rightarrow> 'k KeyedSerialWorkQueue \<Rightarrow> bool" where
  enqueued: "queue_step q (queue_enqueue k q)"
| started: "job_ready j q \<Longrightarrow> queue_step q (set_job_state j JobRunning q)"
| settled: "j < length (ks_jobs q) \<Longrightarrow> job_state (ks_jobs q ! j) = JobRunning \<Longrightarrow> queue_step q (set_job_state j JobSettled q)"
| cleaned: "j < length (ks_jobs q) \<Longrightarrow> job_state (ks_jobs q ! j) = JobSettled \<Longrightarrow> queue_step q (job_cleanup j q)"
| stopping: "queue_step q (q\<lparr>ks_stopping := True\<rparr>)"

definition queue_init :: "'k KeyedSerialWorkQueue \<Rightarrow> bool" where
  "queue_init q \<longleftrightarrow> q = new_queue"

definition settled_before :: "'k job list \<Rightarrow> 'k \<Rightarrow> nat \<Rightarrow> bool" where
  "settled_before js k n \<longleftrightarrow> (\<forall>i < n. i < length js \<and> job_key (js ! i) = k \<longrightarrow> job_state (js ! i) = JobSettled)"

text \<open>The last job of a key before position \<open>n\<close>.\<close>

definition last_of_key :: "'k job list \<Rightarrow> 'k \<Rightarrow> nat \<Rightarrow> nat \<Rightarrow> bool" where
  "last_of_key js k n p \<longleftrightarrow> p < n \<and> p < length js \<and> job_key (js ! p) = k \<and> (\<forall>i. p < i \<and> i < n \<longrightarrow> job_key (js ! i) \<noteq> k)"

text \<open>What a chain link promises: all earlier work of the key has settled, or the link is the latest of it.\<close>

definition link_ok :: "'k job list \<Rightarrow> 'k \<Rightarrow> nat \<Rightarrow> nat option \<Rightarrow> bool" where
  "link_ok js k n l = (case l of None \<Rightarrow> settled_before js k n | Some p \<Rightarrow> last_of_key js k n p)"

definition queue_inv :: "'k KeyedSerialWorkQueue \<Rightarrow> bool" where
  "queue_inv q \<longleftrightarrow> (\<forall>k. link_ok (ks_jobs q) k (length (ks_jobs q)) (ks_tails q k))
   \<and> (\<forall>j < length (ks_jobs q). link_ok (ks_jobs q) (job_key (ks_jobs q ! j)) j (job_previous (ks_jobs q ! j))
        \<and> (job_state (ks_jobs q ! j) \<noteq> JobWaiting \<longrightarrow> settled_before (ks_jobs q) (job_key (ks_jobs q ! j)) j))"

lemma link_ok_append: "n \<le> length js \<Longrightarrow> link_ok (js @ [x]) k n l = link_ok js k n l"
  "n \<le> length js \<Longrightarrow> settled_before (js @ [x]) k n = settled_before js k n"
  by (auto simp: link_ok_def settled_before_def last_of_key_def nth_append split: option.splits)

lemma link_ok_other:
  assumes "link_ok js k (length js) l" and "job_key x \<noteq> k"
  shows "link_ok (js @ [x]) k (Suc (length js)) l"
  using assms by (auto simp: link_ok_def settled_before_def last_of_key_def nth_append less_Suc_eq split: option.splits)

lemma list_update_nth_if: "xs[j := x] ! i = (if i = j \<and> j < length xs then x else xs ! i)"
  by (metis list_update_beyond not_less nth_list_update_eq nth_list_update_neq)

lemma job_update_simps [simp]:
  "job_key (js[j := (js ! j)\<lparr>job_state := st\<rparr>] ! i) = job_key (js ! i)"
  "job_previous (js[j := (js ! j)\<lparr>job_state := st\<rparr>] ! i) = job_previous (js ! i)"
  "job_state (js[j := (js ! j)\<lparr>job_state := st\<rparr>] ! i) = (if i = j \<and> j < length js then st else job_state (js ! i))"
  by (simp_all add: list_update_nth_if)

lemma settled_before_update:
  assumes "settled_before js k n" and "st = JobSettled \<or> job_state (js ! j) \<noteq> JobSettled"
  shows "settled_before (js[j := (js ! j)\<lparr>job_state := st\<rparr>]) k n"
  using assms by (auto simp: settled_before_def)

lemma link_ok_update:
  assumes "link_ok js k n l" and "st = JobSettled \<or> job_state (js ! j) \<noteq> JobSettled"
  shows "link_ok (js[j := (js ! j)\<lparr>job_state := st\<rparr>]) k n l"
  using assms settled_before_update [OF _ assms(2)] by (auto simp: link_ok_def last_of_key_def split: option.splits)

lemma queue_inv_update:
  assumes inv: "queue_inv q" and st: "st = JobSettled \<or> job_state (ks_jobs q ! j) \<noteq> JobSettled"
    and own: "settled_before (ks_jobs q) (job_key (ks_jobs q ! j)) j"
  shows "queue_inv (set_job_state j st q)"
proof -
  let ?js = "(ks_jobs q)[j := (ks_jobs q ! j)\<lparr>job_state := st\<rparr>]"
  have tails: "link_ok ?js k (length (ks_jobs q)) (ks_tails q k)" for k
    using inv link_ok_update [OF _ st] by (simp add: queue_inv_def)
  have links: "link_ok ?js (job_key (ks_jobs q ! i)) i (job_previous (ks_jobs q ! i))" if "i < length (ks_jobs q)" for i
    using inv that link_ok_update [OF _ st] by (simp add: queue_inv_def)
  have begun: "settled_before ?js (job_key (ks_jobs q ! i)) i" if "i < length (ks_jobs q)" "job_state (?js ! i) \<noteq> JobWaiting" for i
  proof -
    have "settled_before (ks_jobs q) (job_key (ks_jobs q ! i)) i" using inv own that by (cases "i = j") (simp_all add: queue_inv_def)
    then show ?thesis by (rule settled_before_update [OF _ st])
  qed
  show ?thesis unfolding queue_inv_def set_job_state_def using tails links begun by simp
qed

lemma link_settled:
  assumes "link_ok js k n l" and "\<And>p. l = Some p \<Longrightarrow> job_state (js ! p) = JobSettled \<and> settled_before js k p"
  shows "settled_before js k n"
proof (cases l)
  case None
  then show ?thesis using assms(1) by (simp add: link_ok_def)
next
  case (Some p)
  then have p: "last_of_key js k n p" "job_state (js ! p) = JobSettled" "settled_before js k p" using assms by (auto simp: link_ok_def)
  show ?thesis unfolding settled_before_def
  proof (intro allI impI)
    fix i assume "i < n" "i < length js \<and> job_key (js ! i) = k"
    then show "job_state (js ! i) = JobSettled" using p by (cases "i < p"; cases "i = p") (auto simp: settled_before_def last_of_key_def)
  qed
qed

lemma ready_settled:
  assumes inv: "queue_inv q" and "job_ready j q"
  shows "settled_before (ks_jobs q) (job_key (ks_jobs q ! j)) j"
proof (rule link_settled)
  show l: "link_ok (ks_jobs q) (job_key (ks_jobs q ! j)) j (job_previous (ks_jobs q ! j))"
    using assms by (auto simp: queue_inv_def job_ready_def)
  fix p assume p: "job_previous (ks_jobs q ! j) = Some p"
  then have "p < length (ks_jobs q)" "job_key (ks_jobs q ! p) = job_key (ks_jobs q ! j)" using l by (auto simp: link_ok_def last_of_key_def)
  moreover have "job_state (ks_jobs q ! p) = JobSettled" using assms(2) p by (simp add: job_ready_def)
  ultimately show "job_state (ks_jobs q ! p) = JobSettled \<and> settled_before (ks_jobs q) (job_key (ks_jobs q ! j)) p"
    using inv by (auto simp: queue_inv_def)
qed

lemma queue_inv_enqueue:
  assumes "queue_inv q"
  shows "queue_inv (queue_enqueue k q)"
proof (cases "ks_stopping q")
  case True
  then show ?thesis using assms by (simp add: queue_enqueue_def)
next
  case False
  let ?js = "ks_jobs q" and ?new = "\<lparr>job_key = k, job_previous = ks_tails q k, job_state = JobWaiting\<rparr>"
  have own: "link_ok (?js @ [?new]) k (Suc (length ?js)) (Some (length ?js))" by (auto simp: link_ok_def last_of_key_def)
  have tails: "link_ok (?js @ [?new]) i (Suc (length ?js)) (((ks_tails q)(k \<mapsto> length ?js)) i)" for i
    using own assms by (auto simp: queue_inv_def intro!: link_ok_other)
  have links: "link_ok (?js @ [?new]) (job_key ((?js @ [?new]) ! j)) j (job_previous ((?js @ [?new]) ! j))
      \<and> (job_state ((?js @ [?new]) ! j) \<noteq> JobWaiting \<longrightarrow> settled_before (?js @ [?new]) (job_key ((?js @ [?new]) ! j)) j)" if "j < Suc (length ?js)" for j
    using assms that by (cases "j = length ?js") (auto simp: queue_inv_def nth_append link_ok_append)
  show ?thesis using False tails links by (simp add: queue_inv_def queue_enqueue_def)
qed

lemma queue_inv_cleanup:
  assumes inv: "queue_inv q" and j: "j < length (ks_jobs q)" "job_state (ks_jobs q ! j) = JobSettled"
  shows "queue_inv (job_cleanup j q)"
proof (cases "ks_tails q (job_key (ks_jobs q ! j)) = Some j")
  case False
  then show ?thesis using inv by (simp add: job_cleanup_def Let_def)
next
  case True
  let ?js = "ks_jobs q" and ?k = "job_key (ks_jobs q ! j)"
  have "settled_before ?js ?k (length ?js)"
    by (rule link_settled [of ?js ?k "length ?js" "Some j"]) (use inv True j in \<open>auto simp: queue_inv_def\<close>, metis)
  then have "link_ok ?js i (length ?js) (((ks_tails q)(?k := None)) i)" for i
    using inv by (auto simp: queue_inv_def link_ok_def)
  then show ?thesis using inv True by (simp add: queue_inv_def job_cleanup_def Let_def)
qed

interpretation serial: invariant_system "queue_init :: 'k KeyedSerialWorkQueue \<Rightarrow> bool" queue_step queue_inv
proof
  fix q :: "'k KeyedSerialWorkQueue" assume "queue_init q"
  then show "queue_inv q" by (simp add: queue_init_def new_queue_def queue_inv_def settled_before_def link_ok_def)
next
  fix q q' :: "'k KeyedSerialWorkQueue" assume inv: "queue_inv q" and "queue_step q q'"
  from this(2) show "queue_inv q'"
  proof cases
    case (enqueued k)
    then show ?thesis using queue_inv_enqueue [OF inv] by simp
  next
    case (started j)
    then show ?thesis using queue_inv_update [OF inv, of JobRunning j] ready_settled [OF inv, of j] by (simp add: job_ready_def)
  next
    case (settled j)
    then have "settled_before (ks_jobs q) (job_key (ks_jobs q ! j)) j" using inv by (simp add: queue_inv_def)
    then show ?thesis using settled queue_inv_update [OF inv, of JobSettled j] by simp
  next
    case (cleaned j)
    then show ?thesis using queue_inv_cleanup [OF inv] by simp
  next
    case stopping
    then show ?thesis using inv by (simp add: queue_inv_def)
  qed
qed

text \<open>
  Work under one key runs one piece at a time and in the order it was enqueued, and a failed
  piece does not hold up the next: in every reachable state, when a piece of work has
  started, every earlier piece under the same key has settled (with a value or an error).
\<close>
lemma keyed_work_is_serial_and_fifo:
  assumes "reach queue_init queue_step q" and "i < j" and "j < length (ks_jobs q)"
    and "job_key (ks_jobs q ! i) = job_key (ks_jobs q ! j)" and "job_state (ks_jobs q ! j) \<noteq> JobWaiting"
  shows "job_state (ks_jobs q ! i) = JobSettled"
  using serial.reach_inv [OF assms(1)] assms(2-5) by (auto simp: queue_inv_def settled_before_def)

text \<open>
  The queue never blocks a key for good: as long as some piece of work under a key has not
  settled, one of that key is running or may start, whatever cleanups of the tails happened
  in between.
\<close>
lemma keyed_work_never_blocks:
  assumes "reach queue_init queue_step q" and "j < length (ks_jobs q)" and "job_state (ks_jobs q ! j) \<noteq> JobSettled"
  shows "\<exists>i \<le> j. job_key (ks_jobs q ! i) = job_key (ks_jobs q ! j) \<and> (job_state (ks_jobs q ! i) = JobRunning \<or> job_ready i q)"
proof -
  let ?js = "ks_jobs q" and ?P = "\<lambda>i. i < length (ks_jobs q) \<and> job_key (ks_jobs q ! i) = job_key (ks_jobs q ! j) \<and> job_state (ks_jobs q ! i) \<noteq> JobSettled"
  have inv: "queue_inv q" using serial.reach_inv [OF assms(1)] .
  define i where "i = (LEAST i. ?P i)"
  have Pj: "?P j" using assms(2,3) by simp
  have i: "?P i" "i \<le> j" unfolding i_def using LeastI [of ?P, OF Pj] Least_le [of ?P, OF Pj] by blast+
  have early: "job_state (?js ! p) = JobSettled" if "p < i" "job_key (?js ! p) = job_key (?js ! i)" for p
    using not_less_Least [of p ?P] that i unfolding i_def by auto
  show ?thesis
  proof (cases "job_state (?js ! i)")
    case JobWaiting
    have "job_state (?js ! p) = JobSettled" if "job_previous (?js ! i) = Some p" for p
      using inv i(1) that early by (auto simp: queue_inv_def link_ok_def last_of_key_def)
    then show ?thesis using i JobWaiting by (auto simp: job_ready_def split: option.splits)
  qed (use i in auto)
qed

subsection \<open>The bounded parallel map\<close>

text \<open>The shared index, the items in flight (one for each busy worker), and the results so far.\<close>

record 'r parallel_map =
  pm_count :: nat
  pm_next :: nat
  pm_running :: "nat list"
  pm_results :: "nat \<rightharpoonup> 'r"
  pm_failed :: bool

definition parallel_start :: "int \<Rightarrow> nat \<Rightarrow> 'r parallel_map option" where
  "parallel_start concurrency n =
     (if concurrency < 1 then None
      else let k = min (nat concurrency) n
           in Some \<lparr>pm_count = n, pm_next = k, pm_running = [0..<k], pm_results = Map.empty, pm_failed = False\<rparr>)"

text \<open>A worker whose operation resolved stores the result and takes the next item; one whose operation rejected ends.\<close>

definition worker_resolved :: "nat \<Rightarrow> 'r \<Rightarrow> 'r parallel_map \<Rightarrow> 'r parallel_map" where
  "worker_resolved i r m =
     (let m1 = m\<lparr>pm_results := (pm_results m)(i \<mapsto> r), pm_running := remove1 i (pm_running m)\<rparr>
      in if pm_next m1 < pm_count m1 then m1\<lparr>pm_running := pm_next m1 # pm_running m1, pm_next := pm_next m1 + 1\<rparr> else m1)"

definition worker_rejected :: "nat \<Rightarrow> 'r parallel_map \<Rightarrow> 'r parallel_map" where
  "worker_rejected i m = m\<lparr>pm_running := remove1 i (pm_running m), pm_failed := True\<rparr>"

inductive parallel_step :: "(nat \<Rightarrow> 'r) \<Rightarrow> 'r parallel_map \<Rightarrow> 'r parallel_map \<Rightarrow> bool" for operation where
  item_resolved: "i \<in> set (pm_running m) \<Longrightarrow> parallel_step operation m (worker_resolved i (operation i) m)"
| item_rejected: "i \<in> set (pm_running m) \<Longrightarrow> parallel_step operation m (worker_rejected i m)"

definition parallel_init :: "int \<Rightarrow> nat \<Rightarrow> 'r parallel_map \<Rightarrow> bool" where
  "parallel_init concurrency n m \<longleftrightarrow> parallel_start concurrency n = Some m"

definition parallel_inv :: "int \<Rightarrow> nat \<Rightarrow> (nat \<Rightarrow> 'r) \<Rightarrow> 'r parallel_map \<Rightarrow> bool" where
  "parallel_inv concurrency n operation m \<longleftrightarrow> pm_count m = n \<and> pm_next m \<le> n \<and> distinct (pm_running m)
     \<and> length (pm_running m) \<le> nat concurrency \<and> set (pm_running m) \<inter> dom (pm_results m) = {}
     \<and> (if pm_failed m then set (pm_running m) \<union> dom (pm_results m) \<subseteq> {..<pm_next m}
        else set (pm_running m) \<union> dom (pm_results m) = {..<pm_next m} \<and> (pm_next m < n \<longrightarrow> pm_running m \<noteq> []))
     \<and> (\<forall>i r. pm_results m i = Some r \<longrightarrow> r = operation i)"

interpretation parallel: invariant_system "parallel_init concurrency n" "parallel_step operation" "parallel_inv concurrency n operation"
  for concurrency n and operation :: "nat \<Rightarrow> 'r"
proof
  fix m :: "'r parallel_map" assume "parallel_init concurrency n m"
  then show "parallel_inv concurrency n operation m"
    by (auto simp: parallel_init_def parallel_start_def parallel_inv_def Let_def min_def split: if_splits)
next
  fix m m' :: "'r parallel_map" assume inv: "parallel_inv concurrency n operation m" and "parallel_step operation m m'"
  from this(2) show "parallel_inv concurrency n operation m'"
  proof cases
    case (item_resolved i)
    have len: "Suc (length (remove1 i (pm_running m))) = length (pm_running m)"
      using item_resolved by (simp add: length_remove1) (metis Suc_pred length_pos_if_in_set)
    have facts: "pm_count m = n" "pm_next m \<le> n" "distinct (pm_running m)" "length (pm_running m) \<le> nat concurrency"
      "set (pm_running m) \<inter> dom (pm_results m) = {}" "\<And>j r. pm_results m j = Some r \<Longrightarrow> r = operation j"
      using inv by (simp_all add: parallel_inv_def)
    have used: "set (pm_running m) \<union> dom (pm_results m) \<subseteq> {..<pm_next m}"
      and full: "\<not> pm_failed m \<Longrightarrow> set (pm_running m) \<union> dom (pm_results m) = {..<pm_next m}"
      using inv by (auto simp: parallel_inv_def split: if_splits)
    have rem: "set (remove1 i (pm_running m)) = set (pm_running m) - {i}" "distinct (remove1 i (pm_running m))"
      using facts(3) by (simp_all add: set_remove1_eq)
    have res: "insert i (dom (pm_results m)) \<inter> (set (pm_running m) - {i}) = {}" using facts(5) by blast
    have un: "(set (pm_running m) - {i}) \<union> insert i (dom (pm_results m)) = set (pm_running m) \<union> dom (pm_results m)"
      using item_resolved by blast
    show ?thesis
    proof (cases "pm_next m < n")
      case True
      have eq: "m' = m\<lparr>pm_results := (pm_results m)(i \<mapsto> operation i), pm_running := pm_next m # remove1 i (pm_running m), pm_next := pm_next m + 1\<rparr>"
        using item_resolved True facts(1) by (simp add: worker_resolved_def Let_def)
      have fresh: "pm_next m \<notin> set (pm_running m) \<union> dom (pm_results m)" using used by auto
      have ins: "insert (pm_next m) ((set (pm_running m) - {i}) \<union> insert i (dom (pm_results m))) \<subseteq> {..<Suc (pm_next m)}"
        using un used by auto
      have ins_full: "insert (pm_next m) ((set (pm_running m) - {i}) \<union> insert i (dom (pm_results m))) = {..<Suc (pm_next m)}" if "\<not> pm_failed m"
        using un full [OF that] by (simp add: lessThan_Suc)
      have ne: "pm_next m \<noteq> i" using fresh item_resolved by auto
      show ?thesis unfolding parallel_inv_def eq using facts rem res len True fresh ins ins_full ne
        by (auto simp: Un_assoc)
    next
      case False
      have eq: "m' = m\<lparr>pm_results := (pm_results m)(i \<mapsto> operation i), pm_running := remove1 i (pm_running m)\<rparr>"
        using item_resolved False facts(1) by (simp add: worker_resolved_def Let_def)
      show ?thesis unfolding parallel_inv_def eq using facts rem res len False un used full by auto
    qed
  next
    case (item_rejected i)
    have used: "set (pm_running m) \<union> dom (pm_results m) \<subseteq> {..<pm_next m}" using inv by (auto simp: parallel_inv_def split: if_splits)
    have "set (remove1 i (pm_running m)) \<union> dom (pm_results m) \<subseteq> {..<pm_next m}"
      "set (remove1 i (pm_running m)) \<inter> dom (pm_results m) = {}"
      using inv used notin_set_remove1 by (fastforce simp: parallel_inv_def)+
    moreover have "length (remove1 i (pm_running m)) \<le> nat concurrency"
      using inv le_trans [OF diff_le_self] by (simp add: parallel_inv_def length_remove1)
    ultimately show ?thesis using inv item_rejected by (simp add: parallel_inv_def worker_rejected_def)
  qed
qed

text \<open>
  The parallel map runs at most the given number of operations at once, never runs one item
  twice, and when every worker has ended without an error the results are exactly the
  operation applied to each item, in the order of the items.
\<close>
lemma parallel_map_is_bounded_and_complete:
  assumes "reach (parallel_init concurrency n) (parallel_step operation) m"
  shows "int (length (pm_running m)) \<le> max 0 concurrency \<and> distinct (pm_running m) \<and> set (pm_running m) \<inter> dom (pm_results m) = {}
    \<and> (pm_running m = [] \<and> \<not> pm_failed m \<longrightarrow> map (pm_results m) [0..<n] = map (Some \<circ> operation) [0..<n])"
proof -
  have inv: "parallel_inv concurrency n operation m" using parallel.reach_inv [OF assms] .
  have complete: "map (pm_results m) [0..<n] = map (Some \<circ> operation) [0..<n]" if r: "pm_running m = []" "\<not> pm_failed m"
  proof (rule map_cong [OF refl])
    fix i assume i: "i \<in> set [0..<n]"
    have "dom (pm_results m) = {..<pm_next m}" "pm_next m = n" using inv r by (simp_all add: parallel_inv_def)
    with i have "i \<in> dom (pm_results m)" by simp
    then obtain y where "pm_results m i = Some y" by (auto simp: dom_def)
    then show "pm_results m i = (Some \<circ> operation) i" using inv by (simp add: parallel_inv_def)
  qed
  have "length (pm_running m) \<le> nat concurrency" "distinct (pm_running m)" "set (pm_running m) \<inter> dom (pm_results m) = {}"
    using inv by (simp_all add: parallel_inv_def)
  then show ?thesis using complete by auto
qed

subsection \<open>Concrete instances\<close>

definition sample_drain :: drain_system where
  "sample_drain = observe_start (drain_request (fst (drain_start None new_drain))) 2
     (observe_start (drain_start None new_drain) 1 \<lparr>ds_drain = new_drain, ds_requests = 0, ds_seen = 0\<rparr>)"

lemma sample_drain_reachable: "reach drain_init drain_step sample_drain"
proof -
  let ?x = "\<lparr>ds_drain = new_drain, ds_requests = 0, ds_seen = 0\<rparr>"
  let ?y = "observe_start (drain_start None new_drain) 1 ?x"
  have "reach drain_init drain_step ?x" by (rule reach_start) (simp add: drain_init_def)
  from reach_step [OF this drain_step.started [of ?x None]] have "reach drain_init drain_step ?y" by simp
  from reach_step [OF this drain_step.requested [of ?y]] show ?thesis
    by (simp add: sample_drain_def observe_start_def drain_ops new_drain_def numeral_2_eq_2)
qed

theorem no_wake_up_is_lost_witness:
  "ds_seen sample_drain = 1 \<and> ds_requests sample_drain = 2
   \<and> fst (drain_snapshot (ds_drain sample_drain)) = DrainStateRunning \<and> cd_requested (ds_drain sample_drain)"
proof -
  have state: "ds_seen sample_drain = 1" "ds_requests sample_drain = 2" "\<not> cd_stopping (ds_drain sample_drain)"
    by (simp_all add: sample_drain_def observe_start_def drain_ops new_drain_def)
  then show ?thesis using no_wake_up_is_lost [OF sample_drain_reachable] by simp
qed

end
