(* ===== verification/Session_Lifecycle.thy ===== *)
theory Session_Lifecycle
  imports Transition_System
begin

text \<open>
  The lifecycle of a pane-thread session (\<^verbatim>\<open>src/src/domain/pane-thread-lifecycle.ts\<close>) and
  the two operations of the binding store that drive it
  (\<^verbatim>\<open>transitionBinding\<close> and \<^verbatim>\<open>attachBindingPane\<close> of
  \<^verbatim>\<open>src/src/store/sqlite/binding-store.ts\<close>). A refused transition throws; the thrown text
  is the left value of the result. The row keeps the columns the two operations write;
  the capability table is the set of its keys.
\<close>

subsection \<open>States and transitions\<close>

datatype AgentState = Agent_idle | Agent_working | Agent_blocked | Agent_done | Agent_unknown
datatype SessionLifecycle = Provisioning | Active | Draining | Archived | LClosed | Failed
datatype AttachmentState = Unattached | Attached | Degraded | Orphaned
datatype ProvisioningCheckpoint = Ck_selected | Ck_pane_created | Ck_runtime_started | Ck_thread_created | Ck_activated
datatype SessionPhase = Phase_provisioning | Phase_ready | Phase_running | Phase_blocked | Phase_done | Phase_degraded
  | Phase_orphaned | Phase_draining | Phase_archived | Phase_closed | Phase_failed

record PaneThreadSessionState =
  lifecycle :: SessionLifecycle
  attachment :: AttachmentState
  runtime :: AgentState
  generation :: int
  provisioningCheckpoint :: ProvisioningCheckpoint
  degradationCount :: int
  hasCompletedTurn :: bool

datatype SessionTransition =
    PaneCreated
  | RuntimeStarted "AgentState option"
  | ThreadCreated
  | Activate "AgentState option"
  | ProvisioningFailed
  | ArchiveRequested (hasActiveTurn: bool)
  | DrainCompleted
  | SessionClosed
  | PaneProbeFailed (confirmedMissing: bool) (orphanThreshold: int)
  | AgentUnregistered
  | PaneObserved AgentState
  | PaneReattached (replacement: bool)
  | RecoverFailed AgentState
  | RetryFailedProvisioning AgentState
  | TurnCompleted

fun transition_name :: "SessionTransition \<Rightarrow> string" where
  "transition_name PaneCreated = ''pane_created''"
| "transition_name (RuntimeStarted _) = ''runtime_started''"
| "transition_name ThreadCreated = ''thread_created''"
| "transition_name (Activate _) = ''activate''"
| "transition_name ProvisioningFailed = ''provisioning_failed''"
| "transition_name (ArchiveRequested _) = ''archive_requested''"
| "transition_name DrainCompleted = ''drain_completed''"
| "transition_name SessionClosed = ''closed''"
| "transition_name (PaneProbeFailed _ _) = ''pane_probe_failed''"
| "transition_name AgentUnregistered = ''agent_unregistered''"
| "transition_name (PaneObserved _) = ''pane_observed''"
| "transition_name (PaneReattached _) = ''pane_reattached''"
| "transition_name (RecoverFailed _) = ''recover_failed''"
| "transition_name (RetryFailedProvisioning _) = ''retry_failed_provisioning''"
| "transition_name TurnCompleted = ''turn_completed''"

fun lifecycle_name :: "SessionLifecycle \<Rightarrow> string" where
  "lifecycle_name Provisioning = ''provisioning''"
| "lifecycle_name Active = ''active''"
| "lifecycle_name Draining = ''draining''"
| "lifecycle_name Archived = ''archived''"
| "lifecycle_name LClosed = ''closed''"
| "lifecycle_name Failed = ''failed''"

fun attachment_name :: "AttachmentState \<Rightarrow> string" where
  "attachment_name Unattached = ''unattached''"
| "attachment_name Attached = ''attached''"
| "attachment_name Degraded = ''degraded''"
| "attachment_name Orphaned = ''orphaned''"

definition invalidTransition :: "PaneThreadSessionState \<Rightarrow> SessionTransition \<Rightarrow> string" where
  "invalidTransition s t = ''Cannot '' @ transition_name t @ '' session in '' @ lifecycle_name (lifecycle s) @ ''/''
     @ attachment_name (attachment s)"

definition requireLifecycle :: "PaneThreadSessionState \<Rightarrow> SessionTransition \<Rightarrow> SessionLifecycle list
    \<Rightarrow> PaneThreadSessionState \<Rightarrow> (string, PaneThreadSessionState) result" where
  "requireLifecycle s t allowed s' = (if lifecycle s \<in> set allowed then Inr s' else Inl (invalidTransition s t))"

fun transitionSession :: "PaneThreadSessionState \<Rightarrow> SessionTransition \<Rightarrow> (string, PaneThreadSessionState) result" where
  "transitionSession s PaneCreated = requireLifecycle s PaneCreated [Provisioning]
     (s\<lparr>attachment := Attached, provisioningCheckpoint := Ck_pane_created\<rparr>)"
| "transitionSession s (RuntimeStarted r) = requireLifecycle s (RuntimeStarted r) [Provisioning]
     (s\<lparr>runtime := opt_or r Agent_idle, provisioningCheckpoint := Ck_runtime_started\<rparr>)"
| "transitionSession s ThreadCreated = requireLifecycle s ThreadCreated [Provisioning]
     (s\<lparr>provisioningCheckpoint := Ck_thread_created\<rparr>)"
| "transitionSession s (Activate r) = requireLifecycle s (Activate r) [Provisioning, Archived]
     (s\<lparr>lifecycle := Active, attachment := Attached, runtime := opt_or r (runtime s),
        provisioningCheckpoint := Ck_activated, degradationCount := 0\<rparr>)"
| "transitionSession s ProvisioningFailed = requireLifecycle s ProvisioningFailed [Provisioning] (s\<lparr>lifecycle := Failed\<rparr>)"
| "transitionSession s (ArchiveRequested busy) = requireLifecycle s (ArchiveRequested busy) [Active]
     (s\<lparr>lifecycle := if busy then Draining else Archived\<rparr>)"
| "transitionSession s DrainCompleted = requireLifecycle s DrainCompleted [Draining] (s\<lparr>lifecycle := Archived\<rparr>)"
| "transitionSession s SessionClosed = requireLifecycle s SessionClosed [Archived]
     (s\<lparr>lifecycle := LClosed, attachment := Unattached, runtime := Agent_unknown\<rparr>)"
| "transitionSession s (PaneProbeFailed missing threshold) = requireLifecycle s (PaneProbeFailed missing threshold) [Active, Draining]
     (let count = degradationCount s + 1
      in s\<lparr>attachment := if missing \<or> threshold \<le> count then Orphaned else Degraded, degradationCount := count\<rparr>)"
| "transitionSession s AgentUnregistered = requireLifecycle s AgentUnregistered [Active, Draining]
     (s\<lparr>attachment := Degraded, runtime := Agent_unknown\<rparr>)"
| "transitionSession s (PaneObserved r) = requireLifecycle s (PaneObserved r) [Provisioning, Active, Draining]
     (s\<lparr>attachment := Attached, degradationCount := 0, runtime := r\<rparr>)"
| "transitionSession s (PaneReattached replaced) =
     (if attachment s \<noteq> Orphaned then Inl (invalidTransition s (PaneReattached replaced))
      else requireLifecycle s (PaneReattached replaced) [Active, Archived, Draining]
        (s\<lparr>lifecycle := Active, attachment := Attached, runtime := Agent_unknown, degradationCount := 0,
           generation := generation s + (if replaced then 1 else 0)\<rparr>))"
| "transitionSession s (RecoverFailed r) = requireLifecycle s (RecoverFailed r) [Failed]
     (s\<lparr>lifecycle := Active, attachment := Attached, runtime := r, provisioningCheckpoint := Ck_activated, degradationCount := 0\<rparr>)"
| "transitionSession s (RetryFailedProvisioning r) = requireLifecycle s (RetryFailedProvisioning r) [Failed]
     (s\<lparr>lifecycle := Provisioning, attachment := Unattached, runtime := r, provisioningCheckpoint := Ck_runtime_started,
        degradationCount := 0\<rparr>)"
| "transitionSession s TurnCompleted = requireLifecycle s TurnCompleted [Active, Draining]
     (s\<lparr>runtime := Agent_done, hasCompletedTurn := True\<rparr>)"

fun lifecycle_phase :: "SessionLifecycle \<Rightarrow> SessionPhase option" where
  "lifecycle_phase Active = None"
| "lifecycle_phase Provisioning = Some Phase_provisioning"
| "lifecycle_phase Draining = Some Phase_draining"
| "lifecycle_phase Archived = Some Phase_archived"
| "lifecycle_phase LClosed = Some Phase_closed"
| "lifecycle_phase Failed = Some Phase_failed"

definition deriveSessionPhase :: "PaneThreadSessionState \<Rightarrow> SessionPhase" where
  "deriveSessionPhase s =
     (case lifecycle_phase (lifecycle s) of
        Some p \<Rightarrow> p
      | None \<Rightarrow>
          if attachment s = Orphaned then Phase_orphaned
          else if attachment s = Degraded then Phase_degraded
          else if runtime s = Agent_working then Phase_running
          else if runtime s = Agent_blocked then Phase_blocked
          else if runtime s = Agent_done \<and> hasCompletedTurn s then Phase_done
          else Phase_ready)"

subsection \<open>The binding row\<close>

datatype BindingState = B_pending | B_active | B_orphaned | B_archived | B_failed

record session_identity =
  si_source :: string
  si_agent :: string
  si_kind :: string
  si_value :: string

record HerdrPane =
  hp_paneId :: ident
  hp_paneToken :: "ident option"
  hp_terminalId :: "ident option"
  hp_agentSession :: "session_identity option"
  hp_workspaceId :: ident

record Binding =
  bi_id :: ident
  bi_session :: PaneThreadSessionState
  bi_state :: BindingState
  bi_paneId :: "ident option"
  bi_paneToken :: "ident option"
  bi_traexSessionId :: "ident option"
  bi_agentSession :: "session_identity option"
  bi_workspaceId :: ident
  bi_lastObservedAt :: "timestamp option"
  bi_archivedAt :: "timestamp option"
  bi_updatedAt :: timestamp

definition binding_state :: "PaneThreadSessionState \<Rightarrow> BindingState" where
  "binding_state next_s =
     (if attachment next_s = Orphaned \<and> lifecycle next_s \<noteq> Archived \<and> lifecycle next_s \<noteq> LClosed then B_orphaned
      else if lifecycle next_s = Provisioning then B_pending
      else if lifecycle next_s = Active \<or> lifecycle next_s = Draining then B_active
      else if lifecycle next_s = Archived \<or> lifecycle next_s = LClosed then B_archived
      else B_failed)"

definition is_pane_observed :: "SessionTransition \<Rightarrow> bool" where
  "is_pane_observed t = (case t of PaneObserved _ \<Rightarrow> True | _ \<Rightarrow> False)"

definition transitionBinding :: "SessionTransition \<Rightarrow> timestamp \<Rightarrow> Binding \<Rightarrow> (string, Binding) result" where
  "transitionBinding t now b =
     (case transitionSession (bi_session b) t of
        Inl err \<Rightarrow> Inl err
      | Inr s \<Rightarrow> Inr (b\<lparr>bi_session := s, bi_state := binding_state s,
          bi_lastObservedAt := if is_pane_observed t then Some now else bi_lastObservedAt b,
          bi_archivedAt := if lifecycle s = Archived then Some (opt_or (bi_archivedAt b) now) else bi_archivedAt b,
          bi_updatedAt := now\<rparr>))"

type_synonym capabilities = "(ident \<times> int) set"

definition attachBindingPane :: "HerdrPane \<Rightarrow> bool \<Rightarrow> timestamp \<Rightarrow> Binding \<Rightarrow> capabilities
    \<Rightarrow> (string, Binding \<times> capabilities) result" where
  "attachBindingPane pane replaced now b caps =
     (case transitionSession (bi_session b) (PaneReattached replaced) of
        Inl err \<Rightarrow> Inl err
      | Inr reattached \<Rightarrow> (case transitionSession reattached (ArchiveRequested False) of
          Inl err \<Rightarrow> Inl err
        | Inr suspended \<Rightarrow> Inr
            (b\<lparr>bi_session := (bi_session b)\<lparr>lifecycle := lifecycle suspended, attachment := attachment suspended,
                 generation := generation suspended, runtime := runtime suspended, degradationCount := 0\<rparr>,
               bi_state := B_archived, bi_paneId := Some (hp_paneId pane), bi_paneToken := hp_paneToken pane,
               bi_traexSessionId := hp_terminalId pane, bi_agentSession := hp_agentSession pane,
               bi_workspaceId := hp_workspaceId pane, bi_lastObservedAt := Some now, bi_archivedAt := Some now,
               bi_updatedAt := now\<rparr>,
             if replaced then caps else caps - {(bi_id b, generation suspended)})))"

text \<open>The row \<^verbatim>\<open>createPendingBinding\<close> inserts, with the column defaults.\<close>

definition pending_session :: PaneThreadSessionState where
  "pending_session = \<lparr>lifecycle = Provisioning, attachment = Unattached, runtime = Agent_unknown, generation = 1,
     provisioningCheckpoint = Ck_selected, degradationCount = 0, hasCompletedTurn = False\<rparr>"

definition createPendingBinding :: "ident \<Rightarrow> ident \<Rightarrow> timestamp \<Rightarrow> Binding" where
  "createPendingBinding i workspaceId now = \<lparr>bi_id = i, bi_session = pending_session, bi_state = B_pending, bi_paneId = None,
     bi_paneToken = None, bi_traexSessionId = None, bi_agentSession = None, bi_workspaceId = workspaceId,
     bi_lastObservedAt = None, bi_archivedAt = None, bi_updatedAt = now\<rparr>"

subsection \<open>Consistency of the row\<close>

definition session_inv :: "PaneThreadSessionState \<Rightarrow> bool" where
  "session_inv s \<longleftrightarrow>
     (lifecycle s \<in> {Provisioning, Failed} \<longleftrightarrow> provisioningCheckpoint s \<noteq> Ck_activated)
     \<and> (lifecycle s \<in> {Provisioning, Failed} \<longrightarrow> attachment s \<in> {Unattached, Attached} \<and> degradationCount s = 0)
     \<and> (lifecycle s \<in> {Active, Draining, Archived} \<longrightarrow> attachment s \<noteq> Unattached)
     \<and> (lifecycle s = LClosed \<longrightarrow> attachment s = Unattached \<and> runtime s = Agent_unknown)
     \<and> (attachment s = Attached \<longrightarrow> degradationCount s = 0)
     \<and> (attachment s = Orphaned \<longrightarrow> 1 \<le> degradationCount s)
     \<and> 0 \<le> degradationCount s \<and> 1 \<le> generation s"

lemma requireLifecycle_Inr [simp]:
  "requireLifecycle s t allowed s' = Inr s'' \<longleftrightarrow> lifecycle s \<in> set allowed \<and> s'' = s'"
  by (auto simp: requireLifecycle_def)

lemma transitionSession_inv [inv_preserved]:
  assumes "session_inv s" and "transitionSession s t = Inr s'"
  shows "session_inv s'"
  using assms by (cases t; cases "lifecycle s") (auto simp: session_inv_def Let_def split: if_splits)

lemma transitionSession_progress:
  assumes "transitionSession s t = Inr s'"
  shows "lifecycle s \<noteq> LClosed \<and> generation s \<le> generation s' \<and> generation s' \<le> generation s + 1
    \<and> (hasCompletedTurn s \<longrightarrow> hasCompletedTurn s')
    \<and> (generation s' \<noteq> generation s \<longrightarrow> attachment s = Orphaned \<and> t = PaneReattached True)"
  using assms by (cases t) (auto simp: Let_def split: if_splits)

lemma transitionSession_closes:
  assumes "transitionSession s t = Inr s'" and "lifecycle s' = LClosed"
  shows "lifecycle s = Archived"
  using assms by (cases t) (auto simp: Let_def split: if_splits)

definition binding_inv :: "Binding \<times> capabilities \<Rightarrow> bool" where
  "binding_inv p \<longleftrightarrow> session_inv (bi_session (fst p)) \<and> bi_state (fst p) = binding_state (bi_session (fst p))
     \<and> (lifecycle (bi_session (fst p)) \<in> {Archived, LClosed} \<longrightarrow> bi_archivedAt (fst p) \<noteq> None)"

definition binding_start :: "Binding \<times> capabilities \<Rightarrow> bool" where
  "binding_start p \<longleftrightarrow> (\<exists>i w now. fst p = createPendingBinding i w now)"

inductive binding_step :: "Binding \<times> capabilities \<Rightarrow> Binding \<times> capabilities \<Rightarrow> bool" where
  transitioned: "transitionBinding t now b = Inr b' \<Longrightarrow> binding_step (b, caps) (b', caps)"
| reattached: "attachBindingPane pane replaced now b caps = Inr (b', caps') \<Longrightarrow> binding_step (b, caps) (b', caps')"

lemma transitionBinding_Inr:
  "transitionBinding t now b = Inr b' \<longleftrightarrow>
     (\<exists>s. transitionSession (bi_session b) t = Inr s \<and>
       b' = b\<lparr>bi_session := s, bi_state := binding_state s,
          bi_lastObservedAt := if is_pane_observed t then Some now else bi_lastObservedAt b,
          bi_archivedAt := if lifecycle s = Archived then Some (opt_or (bi_archivedAt b) now) else bi_archivedAt b,
          bi_updatedAt := now\<rparr>)"
  by (auto simp: transitionBinding_def split: sum.splits)

lemma attachBindingPane_Inr:
  "attachBindingPane pane replaced now b caps = Inr (b', caps') \<longleftrightarrow>
     attachment (bi_session b) = Orphaned \<and> lifecycle (bi_session b) \<in> {Active, Archived, Draining} \<and>
     b' = b\<lparr>bi_session := (bi_session b)\<lparr>lifecycle := Archived, attachment := Attached, runtime := Agent_unknown,
              degradationCount := 0, generation := generation (bi_session b) + (if replaced then 1 else 0)\<rparr>,
            bi_state := B_archived, bi_paneId := Some (hp_paneId pane), bi_paneToken := hp_paneToken pane,
            bi_traexSessionId := hp_terminalId pane, bi_agentSession := hp_agentSession pane,
            bi_workspaceId := hp_workspaceId pane, bi_lastObservedAt := Some now, bi_archivedAt := Some now,
            bi_updatedAt := now\<rparr> \<and>
     caps' = (if replaced then caps else caps - {(bi_id b, generation (bi_session b))})"
  by (auto simp: attachBindingPane_def requireLifecycle_def split: if_splits)

lemma transitionBinding_inv [inv_preserved]:
  assumes "binding_inv (b, caps)" and "transitionBinding t now b = Inr b'"
  shows "binding_inv (b', caps)"
proof -
  from assms(2) obtain s where s: "transitionSession (bi_session b) t = Inr s"
    and b': "b' = b\<lparr>bi_session := s, bi_state := binding_state s,
          bi_lastObservedAt := if is_pane_observed t then Some now else bi_lastObservedAt b,
          bi_archivedAt := if lifecycle s = Archived then Some (opt_or (bi_archivedAt b) now) else bi_archivedAt b,
          bi_updatedAt := now\<rparr>"
    unfolding transitionBinding_Inr by blast
  have "session_inv s" using transitionSession_inv [OF _ s] assms(1) by (simp add: binding_inv_def)
  moreover have "lifecycle s = LClosed \<Longrightarrow> bi_archivedAt b \<noteq> None"
    using transitionSession_closes [OF s] assms(1) by (simp add: binding_inv_def)
  ultimately show ?thesis by (simp add: binding_inv_def b')
qed

lemma attachBindingPane_inv [inv_preserved]:
  assumes "binding_inv (b, caps)" and "attachBindingPane pane replaced now b caps = Inr (b', caps')"
  shows "binding_inv (b', caps')"
proof -
  from assms(2) have b': "bi_session b' = (bi_session b)\<lparr>lifecycle := Archived, attachment := Attached, runtime := Agent_unknown,
        degradationCount := 0, generation := generation (bi_session b) + (if replaced then 1 else 0)\<rparr>"
    "bi_state b' = B_archived" "bi_archivedAt b' = Some now" "lifecycle (bi_session b) \<in> {Active, Archived, Draining}"
    by (simp_all add: attachBindingPane_Inr)
  from assms(1) have "session_inv (bi_session b)" by (simp add: binding_inv_def)
  with b'(4) have "provisioningCheckpoint (bi_session b) = Ck_activated" "1 \<le> generation (bi_session b)"
    by (auto simp: session_inv_def)
  then show ?thesis by (simp add: binding_inv_def b' session_inv_def binding_state_def)
qed

interpretation bindings: invariant_system binding_start binding_step binding_inv
proof unfold_locales
  fix p assume "binding_start p"
  then obtain i w now where "fst p = createPendingBinding i w now" by (auto simp: binding_start_def)
  then show "binding_inv p"
    by (simp add: binding_inv_def createPendingBinding_def pending_session_def session_inv_def binding_state_def)
next
  fix p q assume inv: "binding_inv p" and step: "binding_step p q"
  from step inv show "binding_inv q"
    by cases (blast intro: transitionBinding_inv attachBindingPane_inv)+
qed

lemma binding_step_progress:
  assumes "binding_step (b, caps) (b', caps')"
  shows "lifecycle (bi_session b) \<noteq> LClosed \<and> bi_id b' = bi_id b \<and> generation (bi_session b) \<le> generation (bi_session b')
    \<and> (hasCompletedTurn (bi_session b) \<longrightarrow> hasCompletedTurn (bi_session b'))"
  using assms
proof cases
  case (transitioned t now)
  then show ?thesis using transitionSession_progress [of "bi_session b" t] by (auto simp: transitionBinding_Inr)
next
  case (reattached pane replaced now)
  then show ?thesis by (auto simp: attachBindingPane_Inr)
qed

lemma binding_steps_progress:
  assumes "binding_step\<^sup>*\<^sup>* p q"
  shows "bi_id (fst q) = bi_id (fst p) \<and> generation (bi_session (fst p)) \<le> generation (bi_session (fst q))
    \<and> (hasCompletedTurn (bi_session (fst p)) \<longrightarrow> hasCompletedTurn (bi_session (fst q)))
    \<and> (lifecycle (bi_session (fst p)) = LClosed \<longrightarrow> q = p)"
  using assms
proof induction
  case base
  then show ?case by simp
next
  case (step q r)
  then show ?case using binding_step_progress [of "fst q" "snd q" "fst r" "snd r"] by auto
qed

text \<open>
  C9: Every row that \<^verbatim>\<open>transitionBinding\<close> and \<^verbatim>\<open>attachBindingPane\<close> can produce is
  consistent. The stored state column is the one derived from lifecycle and attachment; a
  session past provisioning is checkpointed as activated and has a pane until it is closed;
  an attached session has no failed probes counted and an orphaned one has; a session shows
  a working phase exactly when it is active and attached; an archived row has its time. From
  there generation and the completed-turn mark never go back, and a closed session never
  changes again.
\<close>
theorem session_rows_stay_consistent:
  assumes "reach binding_start binding_step (b, caps)"
  shows "bi_state b = binding_state (bi_session b)
    \<and> (lifecycle (bi_session b) \<in> {Provisioning, Failed} \<longleftrightarrow> provisioningCheckpoint (bi_session b) \<noteq> Ck_activated)
    \<and> (lifecycle (bi_session b) \<in> {Active, Draining, Archived} \<longrightarrow> attachment (bi_session b) \<noteq> Unattached)
    \<and> (attachment (bi_session b) = Attached \<longrightarrow> degradationCount (bi_session b) = 0)
    \<and> (attachment (bi_session b) = Orphaned \<longrightarrow> 1 \<le> degradationCount (bi_session b))
    \<and> (deriveSessionPhase (bi_session b) \<in> {Phase_ready, Phase_running, Phase_blocked, Phase_done}
        \<longleftrightarrow> lifecycle (bi_session b) = Active \<and> attachment (bi_session b) = Attached)
    \<and> (bi_state b = B_archived \<longrightarrow> bi_archivedAt b \<noteq> None)
    \<and> (binding_step\<^sup>*\<^sup>* (b, caps) (b', caps') \<longrightarrow>
        generation (bi_session b) \<le> generation (bi_session b')
        \<and> (hasCompletedTurn (bi_session b) \<longrightarrow> hasCompletedTurn (bi_session b'))
        \<and> (lifecycle (bi_session b) = LClosed \<longrightarrow> b' = b \<and> caps' = caps))"
proof -
  have inv: "binding_inv (b, caps)" using bindings.reach_inv [OF assms] .
  have phase: "deriveSessionPhase (bi_session b) \<in> {Phase_ready, Phase_running, Phase_blocked, Phase_done}
        \<longleftrightarrow> lifecycle (bi_session b) = Active \<and> attachment (bi_session b) = Attached"
    using inv
    by (cases "lifecycle (bi_session b)"; cases "attachment (bi_session b)")
      (auto simp: deriveSessionPhase_def binding_inv_def session_inv_def)
  have state: "bi_state b = B_archived \<longrightarrow> bi_archivedAt b \<noteq> None"
    using inv by (auto simp: binding_inv_def binding_state_def split: if_splits)
  show ?thesis
    using inv phase state binding_steps_progress [of "(b, caps)" "(b', caps')"]
    by (simp add: binding_inv_def session_inv_def)
qed

subsection \<open>Losing and regaining the pane\<close>

text \<open>A run of \<open>n\<close> failed probes that do not confirm the pane missing.\<close>

fun failed_probes :: "nat \<Rightarrow> int \<Rightarrow> PaneThreadSessionState \<Rightarrow> (string, PaneThreadSessionState) result" where
  "failed_probes 0 threshold s = Inr s"
| "failed_probes (Suc n) threshold s =
     (case failed_probes n threshold s of
        Inl err \<Rightarrow> Inl err
      | Inr s' \<Rightarrow> transitionSession s' (PaneProbeFailed False threshold))"

lemma failed_probes_eq:
  assumes "lifecycle s \<in> {Active, Draining}"
  shows "failed_probes n threshold s = Inr (s\<lparr>degradationCount := degradationCount s + int n,
      attachment := if n = 0 then attachment s else if threshold \<le> degradationCount s + int n then Orphaned else Degraded\<rparr>)"
  using assms by (induction n) (auto simp: requireLifecycle_def Let_def)

text \<open>
  A live session survives failed probes up to the threshold. After \<open>n\<close> inconclusive
  probe failures in a row since the pane was last seen the session is orphaned exactly when
  \<open>n\<close> has reached the threshold; only then can a pane be attached anew, and attaching
  leaves the session archived with the pane attached, one generation later and with its
  capabilities kept for the old generation when the pane is a replacement, and otherwise in
  the same generation with that generation's capability revoked; one \<open>activate\<close> makes it
  ready again.
\<close>
lemma orphaned_at_threshold_then_reattached:
  assumes "lifecycle (bi_session b) \<in> {Active, Draining}" and "attachment (bi_session b) = Attached"
    and "degradationCount (bi_session b) = 0" and "0 < n"
    and "failed_probes n threshold (bi_session b) = Inr s"
  shows "(attachment s = Orphaned \<longleftrightarrow> threshold \<le> int n) \<and> lifecycle s = lifecycle (bi_session b)
    \<and> ((\<exists>r. attachBindingPane pane replaced now (b\<lparr>bi_session := s\<rparr>) caps = Inr r) \<longleftrightarrow> threshold \<le> int n)
    \<and> (\<forall>b' caps'. attachBindingPane pane replaced now (b\<lparr>bi_session := s\<rparr>) caps = Inr (b', caps') \<longrightarrow>
         lifecycle (bi_session b') = Archived \<and> attachment (bi_session b') = Attached \<and> bi_paneId b' = Some (hp_paneId pane)
         \<and> generation (bi_session b') = generation (bi_session b) + (if replaced then 1 else 0)
         \<and> caps' = (if replaced then caps else caps - {(bi_id b, generation (bi_session b))})
         \<and> (\<exists>b''. transitionBinding (Activate None) now b' = Inr b''
              \<and> deriveSessionPhase (bi_session b'') = Phase_ready \<and> bi_state b'' = B_active))"
proof -
  have s: "s = (bi_session b)\<lparr>degradationCount := int n, attachment := if threshold \<le> int n then Orphaned else Degraded\<rparr>"
    using assms failed_probes_eq [OF assms(1), of n threshold] by simp
  have orphaned: "attachment s = Orphaned \<longleftrightarrow> threshold \<le> int n" and kept: "lifecycle s = lifecycle (bi_session b)"
    "generation s = generation (bi_session b)"
    by (simp_all add: s)
  have attach: "(\<exists>r. attachBindingPane pane replaced now (b\<lparr>bi_session := s\<rparr>) caps = Inr r) \<longleftrightarrow> threshold \<le> int n"
    using assms(1) orphaned kept by (auto simp: attachBindingPane_def requireLifecycle_def)
  have activate: "\<exists>b''. transitionBinding (Activate None) now b' = Inr b''
      \<and> deriveSessionPhase (bi_session b'') = Phase_ready \<and> bi_state b'' = B_active"
    if "lifecycle (bi_session b') = Archived" "runtime (bi_session b') = Agent_unknown" for b'
    using that by (simp add: transitionBinding_def requireLifecycle_def deriveSessionPhase_def binding_state_def)
  show ?thesis
    using orphaned kept attach activate by (auto simp: attachBindingPane_Inr)
qed

subsection \<open>Concrete instances\<close>

definition active_binding :: Binding where
  "active_binding = (createPendingBinding ''b'' ''w'' 0)\<lparr>bi_session := pending_session\<lparr>lifecycle := Active, attachment := Attached,
     provisioningCheckpoint := Ck_activated\<rparr>, bi_state := B_active, bi_updatedAt := 5\<rparr>"

lemma active_binding_reachable: "reach binding_start binding_step (active_binding, {})"
proof -
  have "transitionBinding (Activate None) 5 (createPendingBinding ''b'' ''w'' 0) = Inr active_binding"
    by (simp add: transitionBinding_def requireLifecycle_def createPendingBinding_def pending_session_def active_binding_def
        binding_state_def is_pane_observed_def)
  then have "binding_step (createPendingBinding ''b'' ''w'' 0, {}) (active_binding, {})" by (rule transitioned)
  moreover have "reach binding_start binding_step (createPendingBinding ''b'' ''w'' 0, {})"
    by (rule reach_start) (auto simp: binding_start_def)
  ultimately show ?thesis using reach_step by metis
qed

theorem session_rows_stay_consistent_witness:
  "bi_state active_binding = binding_state (bi_session active_binding) \<and> deriveSessionPhase (bi_session active_binding) = Phase_ready"
  using session_rows_stay_consistent [OF active_binding_reachable]
  by (auto simp: active_binding_def deriveSessionPhase_def pending_session_def)

end
