(* ===== verification/Retention_Barrier.thy ===== *)
theory Retention_Barrier
  imports Prelude
begin

text \<open>
  The barrier in front of the retention sweep (\<^verbatim>\<open>src/src/domain/retention-barrier.ts\<close>): the
  evidence a record must show before its payload may be compacted, and the canonical
  timestamp texts the evidence is written in. \<^verbatim>\<open>Date.parse\<close> and \<^verbatim>\<open>toISOString\<close> are modelled
  from the definition of the language's time values. A JavaScript number is an
  \<open>int option\<close> here, \<open>None\<close> for one that is not an integer.
\<close>

subsection \<open>The calendar\<close>

definition is_leap :: "int \<Rightarrow> bool" where
  "is_leap y \<longleftrightarrow> (y mod 4 = 0 \<and> y mod 100 \<noteq> 0) \<or> y mod 400 = 0"

definition days_in_year :: "int \<Rightarrow> nat" where
  "days_in_year y = (if is_leap y then 366 else 365)"

text \<open>\<^verbatim>\<open>DayFromYear\<close>: the day number of the first day of the year, counted from 1970-01-01.\<close>

definition day_from_year :: "int \<Rightarrow> int" where
  "day_from_year y = 365 * (y - 1970) + (y - 1969) div 4 - (y - 1901) div 100 + (y - 1601) div 400"

definition month_lengths :: "int \<Rightarrow> nat list" where
  "month_lengths y = [31, if is_leap y then 29 else 28, 31, 30, 31, 30, 31, 31, 30, 31, 30, 31]"

function year_from :: "int \<Rightarrow> nat \<Rightarrow> int \<times> nat" where
  "year_from y d = (if d < days_in_year y then (y, d) else year_from (y + 1) (d - days_in_year y))"
  by pat_completeness auto
termination
  by (relation "measure snd") (auto simp: days_in_year_def)

declare year_from.simps [simp del]

fun month_from :: "nat \<Rightarrow> nat list \<Rightarrow> nat \<Rightarrow> nat \<times> nat" where
  "month_from m [] d = (m, d)"
| "month_from m (l # ls) d = (if d < l then (m, d) else month_from (Suc m) ls (d - l))"

lemma div_succ:
  assumes "0 < (n :: int)"
  shows "(x + 1) div n = x div n + (if (x + 1) mod n = 0 then 1 else 0)"
proof (cases "x mod n + 1 < n")
  case True
  have x: "x + 1 = n * (x div n) + (x mod n + 1)" by simp
  have "0 \<le> x mod n" using assms by simp
  then show ?thesis using int_div_pos_eq [OF x _ True] int_mod_pos_eq [OF x _ True] by auto
next
  case False
  have "x mod n < n" using assms by simp
  with False have r: "x mod n = n - 1" by simp
  have "x + 1 = n * (x div n) + (x mod n + 1)" by simp
  then have x: "x + 1 = n * (x div n + 1) + 0" using r by (simp add: algebra_simps)
  show ?thesis using int_div_pos_eq [OF x _ assms] int_mod_pos_eq [OF x _ assms] by simp
qed

lemma leap_div_succ:
  assumes "0 < (n :: int)"
  shows "(y + 1 - (k * n + 1)) div n = (y - (k * n + 1)) div n + (if y mod n = 0 then 1 else 0)"
proof -
  have "(y - k * n) mod n = y mod n" using mod_mult_self2 [of "y - k * n" n k] by (simp add: mult.commute)
  moreover have "y + 1 - (k * n + 1) = y - k * n" "y - (k * n + 1) + 1 = y - k * n" by simp_all
  ultimately show ?thesis using div_succ [OF assms, of "y - (k * n + 1)"] by simp
qed

lemma days_in_year_eq:
  "int (days_in_year y) = 365 + (if y mod 4 = 0 then 1 else 0) - (if y mod 100 = 0 then 1 else 0) + (if y mod 400 = 0 then 1 else 0)"
proof -
  have "y mod 100 = 0 \<Longrightarrow> y mod 4 = 0" "y mod 400 = 0 \<Longrightarrow> y mod 100 = 0"
    using mod_mod_cancel [of 4 100 y] mod_mod_cancel [of 100 400 y] by simp_all
  then show ?thesis by (auto simp: days_in_year_def is_leap_def)
qed

lemma day_from_year_Suc: "day_from_year (y + 1) = day_from_year y + int (days_in_year y)"
proof -
  have numerals: "492 * 4 + 1 = (1969 :: int)" "19 * 100 + 1 = (1901 :: int)" "4 * 400 + 1 = (1601 :: int)" by simp_all
  have add_up: "365 * (y + 1 - 1970) + (a + p) - (b + q) + (c + r) = 365 * (y - 1970) + a - b + c + (365 + p - q + r)"
    for a b c p q r :: int by simp
  have steps: "(y + 1 - 1969) div 4 = (y - 1969) div 4 + (if y mod 4 = 0 then 1 else 0)"
    "(y + 1 - 1901) div 100 = (y - 1901) div 100 + (if y mod 100 = 0 then 1 else 0)"
    "(y + 1 - 1601) div 400 = (y - 1601) div 400 + (if y mod 400 = 0 then 1 else 0)"
    by (rule leap_div_succ [where k = 492 and n = 4, unfolded numerals] leap_div_succ [where k = 19 and n = 100, unfolded numerals]
        leap_div_succ [where k = 4 and n = 400, unfolded numerals], simp only: zero_less_numeral)+
  show ?thesis unfolding day_from_year_def days_in_year_eq steps by (rule add_up)
qed

lemma day_from_year_mono: "y \<le> y' \<Longrightarrow> day_from_year y \<le> day_from_year y'"
proof (induction y' rule: int_ge_induct)
  case base
  then show ?case by simp
next
  case (step i)
  then show ?case by (simp add: day_from_year_Suc)
qed

lemma year_from_correct:
  "year_from y d = (y', r) \<Longrightarrow> r < days_in_year y' \<and> int d + day_from_year y = int r + day_from_year y' \<and> y \<le> y'"
proof (induction y d arbitrary: y' r rule: year_from.induct)
  case (1 y d)
  show ?case
  proof (cases "d < days_in_year y")
    case True
    with "1.prems" show ?thesis by (subst (asm) year_from.simps) auto
  next
    case False
    with "1.prems" have "year_from (y + 1) (d - days_in_year y) = (y', r)" by (subst (asm) year_from.simps) auto
    from "1.IH" [OF False this] False show ?thesis by (auto simp: day_from_year_Suc of_nat_diff)
  qed
qed

lemma month_from_correct:
  "month_from m ls d = (m', r) \<Longrightarrow> d < sum_list ls \<Longrightarrow>
     m \<le> m' \<and> m' < m + length ls \<and> r < ls ! (m' - m) \<and> d = sum_list (take (m' - m) ls) + r"
proof (induction ls arbitrary: m d)
  case Nil
  then show ?case by simp
next
  case (Cons l ls)
  show ?case
  proof (cases "d < l")
    case True
    with Cons.prems show ?thesis by auto
  next
    case False
    with Cons.prems have "month_from (Suc m) ls (d - l) = (m', r)" "d - l < sum_list ls" by auto
    from Cons.IH [OF this] False show ?thesis by (auto simp: nth_Cons' take_Cons' Suc_diff_Suc numeral_eq_Suc)
  qed
qed

lemma sum_month_lengths: "sum_list (month_lengths y) = days_in_year y"
  by (simp add: month_lengths_def days_in_year_def)

lemma length_month_lengths: "length (month_lengths y) = 12"
  by (simp add: month_lengths_def)

subsection \<open>Timestamp texts\<close>

definition digit_char :: "nat \<Rightarrow> char" where
  "digit_char n = char_of (48 + n)"

definition digit_value :: "char \<Rightarrow> nat" where
  "digit_value c = of_char c - 48"

definition is_digit :: "char \<Rightarrow> bool" where
  "is_digit c \<longleftrightarrow> 48 \<le> (of_char c :: nat) \<and> (of_char c :: nat) \<le> 57"

fun pad_digits :: "nat \<Rightarrow> nat \<Rightarrow> string" where
  "pad_digits 0 n = []"
| "pad_digits (Suc k) n = pad_digits k (n div 10) @ [digit_char (n mod 10)]"

definition digits_value :: "string \<Rightarrow> nat" where
  "digits_value s = foldl (\<lambda>a c. a * 10 + digit_value c) 0 s"

lemma length_pad_digits [simp]: "length (pad_digits k n) = k"
  by (induction k arbitrary: n) simp_all

lemma of_char_digit: "n < 10 \<Longrightarrow> of_char (digit_char n) = (48 + n :: nat)"
  by (simp add: digit_char_def of_char_of)

lemma pad_digits_are_digits: "list_all is_digit (pad_digits k n)"
  by (induction k arbitrary: n) (simp_all add: is_digit_def of_char_digit)

lemma digits_value_pad [simp]: "n < 10 ^ k \<Longrightarrow> digits_value (pad_digits k n) = n"
proof (induction k arbitrary: n)
  case 0
  then show ?case by (simp add: digits_value_def)
next
  case (Suc k)
  then have "digits_value (pad_digits k (n div 10)) = n div 10" by (simp add: less_mult_imp_div_less)
  then show ?case by (simp add: digits_value_def digit_value_def of_char_digit)
qed

definition msPerDay :: int where
  "msPerDay = 86400000"

text \<open>\<^verbatim>\<open>new Date(ms).toISOString()\<close> for \<open>0 \<le> ms\<close>.\<close>

definition toISOString :: "int \<Rightarrow> string" where
  "toISOString ms =
     (let (y, yd) = year_from 1970 (nat (ms div msPerDay));
          (m, md) = month_from 1 (month_lengths y) yd;
          t = nat (ms mod msPerDay)
      in (if y \<le> 9999 then pad_digits 4 (nat y) else ''+'' @ pad_digits 6 (nat y)) @ ''-'' @ pad_digits 2 m @ ''-'' @ pad_digits 2 (md + 1)
         @ ''T'' @ pad_digits 2 (t div 3600000) @ '':'' @ pad_digits 2 (t div 60000 mod 60)
         @ '':'' @ pad_digits 2 (t div 1000 mod 60) @ ''.'' @ pad_digits 3 (t mod 1000) @ ''Z'')"

definition timestamp_template :: string where
  "timestamp_template = ''dddd-dd-ddTdd:dd:dd.dddZ''"

text \<open>The regular expression \<^verbatim>\<open>CANONICAL_RETENTION_TIMESTAMP\<close>: a digit where the template has \<open>d\<close>.\<close>

definition canonical_timestamp :: "string \<Rightarrow> bool" where
  "canonical_timestamp s = list_all2 (\<lambda>p c. if p = CHR ''d'' then is_digit c else c = p) timestamp_template s"

definition text_field :: "nat \<Rightarrow> nat \<Rightarrow> string \<Rightarrow> nat" where
  "text_field i k s = digits_value (take k (drop i s))"

text \<open>
  \<^verbatim>\<open>Date.parse\<close> on a text of the canonical shape: \<open>None\<close> is \<^verbatim>\<open>NaN\<close>, for a field out of its
  range; a day past the end of its month is a day of the next one.
\<close>

definition date_parse :: "string \<Rightarrow> int option" where
  "date_parse s =
     (let y = int (text_field 0 4 s); m = text_field 5 2 s; d = text_field 8 2 s;
          h = text_field 11 2 s; mi = text_field 14 2 s; sec = text_field 17 2 s; ms = text_field 20 3 s
      in if 1 \<le> m \<and> m \<le> 12 \<and> 1 \<le> d \<and> d \<le> 31 \<and> mi \<le> 59 \<and> sec \<le> 59
            \<and> (h \<le> 23 \<or> h = 24 \<and> mi = 0 \<and> sec = 0 \<and> ms = 0)
         then Some ((day_from_year y + int (sum_list (take (m - 1) (month_lengths y))) + int d - 1) * msPerDay
                + int h * 3600000 + int mi * 60000 + int sec * 1000 + int ms)
         else None)"

definition max_safe_integer :: int where
  "max_safe_integer = 9007199254740991"

definition is_safe_integer :: "int option \<Rightarrow> bool" where
  "is_safe_integer v = (case v of None \<Rightarrow> False | Some n \<Rightarrow> - max_safe_integer \<le> n \<and> n \<le> max_safe_integer)"

definition parseRetentionTimestampMs :: "string \<Rightarrow> timestamp option" where
  "parseRetentionTimestampMs value =
     (if \<not> canonical_timestamp value then None
      else case date_parse value of
        None \<Rightarrow> None
      | Some parsed \<Rightarrow>
          if \<not> is_safe_integer (Some parsed) \<or> parsed < 0 then None
          else if toISOString parsed = value then Some parsed else None)"

subsection \<open>The barrier\<close>

definition RETENTION_WINDOW_MS :: int where
  "RETENTION_WINDOW_MS = 30 * 24 * 60 * 60 * 1000"

definition CORE_EVENT_RETENTION_WINDOW_MS :: int where
  "CORE_EVENT_RETENTION_WINDOW_MS = 24 * 60 * 60 * 1000"

datatype RetentionRefusalReason = Invalid_evidence | Not_terminal | Retention_window_open | Referenced | Checkpoint_incomplete
  | Open_gap | Uncertain_effect | Quarantined | Unresolved_recovery | Pending_prerequisite | Replacement_incomplete
  | Projection_not_reconstructible | Human_input_retained

datatype effect_certainty = Effect_certain | Effect_uncertain
datatype replacement_state = Replacement_not_required | Replacement_complete | Replacement_pending

record RetentionBarrierFacts =
  rf_terminal :: bool
  rf_terminalAt :: string
  rf_now :: string
  rf_referenceCount :: "int option"
  rf_checkpointSettled :: bool
  rf_openGapCount :: "int option"
  rf_effect :: effect_certainty
  rf_activeQuarantineCount :: "int option"
  rf_unresolvedRecoveryCount :: "int option"
  rf_pendingPrerequisiteCount :: "int option"
  rf_replacement :: replacement_state
  rf_projectionReconstructible :: bool
  rf_retentionWindowMs :: "int option option"

datatype RetentionBarrierDecision = Eligible | Refused RetentionRefusalReason

definition valid_count :: "int option \<Rightarrow> bool" where
  "valid_count v \<longleftrightarrow> is_safe_integer v \<and> 0 \<le> opt_or v 0"

definition validFacts :: "RetentionBarrierFacts \<Rightarrow> bool" where
  "validFacts f = list_all valid_count [rf_referenceCount f, rf_openGapCount f, rf_activeQuarantineCount f,
     rf_unresolvedRecoveryCount f, rf_pendingPrerequisiteCount f]"

definition positive :: "int option \<Rightarrow> bool" where
  "positive v = (case v of None \<Rightarrow> False | Some n \<Rightarrow> 0 < n)"

definition evaluateRetentionBarrier :: "RetentionBarrierFacts \<Rightarrow> RetentionBarrierDecision" where
  "evaluateRetentionBarrier f =
     (case (parseRetentionTimestampMs (rf_terminalAt f), parseRetentionTimestampMs (rf_now f)) of
        (Some terminalAtMs, Some nowMs) \<Rightarrow>
          if \<not> validFacts f then Refused Invalid_evidence
          else if \<not> rf_terminal f then Refused Not_terminal
          else let retentionWindowMs = opt_or (rf_retentionWindowMs f) (Some RETENTION_WINDOW_MS) in
            if \<not> valid_count retentionWindowMs then Refused Invalid_evidence
            else if nowMs - terminalAtMs \<le> opt_or retentionWindowMs 0 then Refused Retention_window_open
            else if positive (rf_referenceCount f) then Refused Referenced
            else if \<not> rf_checkpointSettled f then Refused Checkpoint_incomplete
            else if positive (rf_openGapCount f) then Refused Open_gap
            else if rf_effect f = Effect_uncertain then Refused Uncertain_effect
            else if positive (rf_activeQuarantineCount f) then Refused Quarantined
            else if positive (rf_unresolvedRecoveryCount f) then Refused Unresolved_recovery
            else if positive (rf_pendingPrerequisiteCount f) then Refused Pending_prerequisite
            else if rf_replacement f = Replacement_pending then Refused Replacement_incomplete
            else if \<not> rf_projectionReconstructible f then Refused Projection_not_reconstructible
            else Eligible
      | _ \<Rightarrow> Refused Invalid_evidence)"

subsection \<open>Texts and counts correspond\<close>

lemma digit_field:
  "list_all2 (\<lambda>p c. if p = CHR ''d'' then is_digit c else c = p) (replicate k (CHR ''d'') @ ps) (pad_digits k n @ cs)
     \<longleftrightarrow> list_all2 (\<lambda>p c. if p = CHR ''d'' then is_digit c else c = p) ps cs"
proof -
  have "list_all2 (\<lambda>p c. if p = CHR ''d'' then is_digit c else c = p) (replicate k (CHR ''d'')) (pad_digits k n)"
    using pad_digits_are_digits [of k n] by (simp add: list_all2_conv_all_nth list_all_length)
  then show ?thesis by (simp add: list_all2_append)
qed

lemma canonical_toISOString:
  assumes "year_from 1970 (nat (ms div msPerDay)) = (y, yd)" and "y \<le> 9999"
  shows "canonical_timestamp (toISOString ms)"
proof -
  obtain m md where m: "month_from 1 (month_lengths y) yd = (m, md)" by fastforce
  have template: "timestamp_template = replicate 4 (CHR ''d'') @ ''-'' @ replicate 2 (CHR ''d'') @ ''-'' @ replicate 2 (CHR ''d'')
      @ ''T'' @ replicate 2 (CHR ''d'') @ '':'' @ replicate 2 (CHR ''d'') @ '':'' @ replicate 2 (CHR ''d'') @ ''.''
      @ replicate 3 (CHR ''d'') @ ''Z''"
    by (simp add: timestamp_template_def numeral_eq_Suc)
  show ?thesis
    unfolding canonical_timestamp_def toISOString_def assms(1) template Let_def prod.case m if_P [OF assms(2)]
    by (simp only: digit_field append_Cons append_Nil list.rel_inject) simp
qed

lemma time_of_day_split:
  "(t :: nat) = t div 3600000 * 3600000 + t div 60000 mod 60 * 60000 + t div 1000 mod 60 * 1000 + t mod 1000"
proof -
  have "t div 60000 = t div 1000 div 60" "t div 3600000 = t div 60000 div 60" by (simp_all add: div_mult2_eq [symmetric])
  then show ?thesis
    using div_mult_mod_eq [of t 1000] div_mult_mod_eq [of "t div 1000" 60] div_mult_mod_eq [of "t div 60000" 60] by linarith
qed

lemma epoch_year_bound:
  assumes "int d = int yd + day_from_year y" and "int d < 2932897"
  shows "y \<le> 9999"
proof (rule ccontr)
  assume "\<not> y \<le> 9999"
  then have "day_from_year 10000 \<le> day_from_year y" by (intro day_from_year_mono) simp
  moreover have "day_from_year 10000 = 2932897" by (simp add: day_from_year_def)
  ultimately show False using assms by linarith
qed

lemma month_from_bounds:
  assumes "month_from 1 (month_lengths y) yd = (m, md)" and "yd < days_in_year y"
  shows "1 \<le> m \<and> m \<le> 12 \<and> md < 31 \<and> yd = sum_list (take (m - 1) (month_lengths y)) + md"
proof -
  have md: "1 \<le> m" "m < 1 + 12" "md < month_lengths y ! (m - 1)" "yd = sum_list (take (m - 1) (month_lengths y)) + md"
    using month_from_correct [OF assms(1)] assms(2) unfolding sum_month_lengths length_month_lengths by blast+
  have "month_lengths y ! (m - 1) \<in> set (month_lengths y)" using md(1,2) by (intro nth_mem) (simp add: length_month_lengths)
  then have "month_lengths y ! (m - 1) \<le> 31" by (auto simp: month_lengths_def)
  with md show ?thesis by linarith
qed

text \<open>The fields of a written text are read back.\<close>

lemma date_parse_fields:
  assumes "0 \<le> y" "y \<le> 9999" "1 \<le> m" "m \<le> 12" "md < 31" "h < 24" "mi < 60" "sec < 60" "ms < 1000"
  shows "date_parse (pad_digits 4 (nat y) @ ''-'' @ pad_digits 2 m @ ''-'' @ pad_digits 2 (md + 1) @ ''T'' @ pad_digits 2 h
      @ '':'' @ pad_digits 2 mi @ '':'' @ pad_digits 2 sec @ ''.'' @ pad_digits 3 ms @ ''Z'')
    = Some ((day_from_year y + int (sum_list (take (m - 1) (month_lengths y))) + int md) * msPerDay
        + int h * 3600000 + int mi * 60000 + int sec * 1000 + int ms)"
    (is "date_parse ?s = _")
proof -
  have fields: "text_field 0 4 ?s = nat y" "text_field 5 2 ?s = m" "text_field 8 2 ?s = md + 1" "text_field 11 2 ?s = h"
    "text_field 14 2 ?s = mi" "text_field 17 2 ?s = sec" "text_field 20 3 ?s = ms"
    using assms by (simp_all add: text_field_def)
  show ?thesis using assms unfolding date_parse_def fields by (simp add: Let_def)
qed

lemma date_parse_toISOString:
  assumes "0 \<le> ms" and "ms < 253402300800000"
  shows "date_parse (toISOString ms) = Some ms \<and> canonical_timestamp (toISOString ms)"
proof -
  define d where "d = nat (ms div msPerDay)"
  define t where "t = nat (ms mod msPerDay)"
  have pos: "0 < msPerDay" by (simp add: msPerDay_def)
  have d: "int d = ms div msPerDay" using assms(1) pos by (simp add: d_def pos_imp_zdiv_nonneg_iff)
  have t: "int t = ms mod msPerDay" using pos by (simp add: t_def)
  have "t < 86400000" using t pos_mod_bound [OF pos, of ms] by (simp add: msPerDay_def)
  then have h: "t div 3600000 < 24" by (simp add: less_mult_imp_div_less)
  obtain y yd where y: "year_from 1970 d = (y, yd)" by fastforce
  have yd: "yd < days_in_year y" "int d = int yd + day_from_year y" "0 \<le> y"
    using year_from_correct [OF y] by (simp_all add: day_from_year_def)
  have "ms div msPerDay < 2932897" using assms(2) by (simp add: msPerDay_def div_less_iff_less_mult)
  then have "y \<le> 9999" using epoch_year_bound [OF yd(2)] d by simp
  obtain m md where m: "month_from 1 (month_lengths y) yd = (m, md)" by fastforce
  note md = month_from_bounds [OF m yd(1)]
  have iso: "toISOString ms = pad_digits 4 (nat y) @ ''-'' @ pad_digits 2 m @ ''-'' @ pad_digits 2 (md + 1)
         @ ''T'' @ pad_digits 2 (t div 3600000) @ '':'' @ pad_digits 2 (t div 60000 mod 60)
         @ '':'' @ pad_digits 2 (t div 1000 mod 60) @ ''.'' @ pad_digits 3 (t mod 1000) @ ''Z''"
    unfolding toISOString_def d_def [symmetric] t_def [symmetric] y Let_def prod.case m if_P [OF \<open>y \<le> 9999\<close>] by (rule refl)
  have day: "day_from_year y + int (sum_list (take (m - 1) (month_lengths y))) + int md = ms div msPerDay"
    using yd(2) d md by linarith
  have "date_parse (toISOString ms) = Some (ms div msPerDay * msPerDay
      + int (t div 3600000) * 3600000 + int (t div 60000 mod 60) * 60000 + int (t div 1000 mod 60) * 1000 + int (t mod 1000))"
    unfolding iso day [symmetric] using yd(3) \<open>y \<le> 9999\<close> md h by (intro date_parse_fields) simp_all
  also have "\<dots> = Some (ms div msPerDay * msPerDay + int t)"
    by (subst (5) time_of_day_split [of t]) (simp only: of_nat_add of_nat_mult of_nat_numeral ac_simps)
  finally show ?thesis using canonical_toISOString [of ms y yd] y \<open>y \<le> 9999\<close> by (simp add: d_def t)
qed

text \<open>
  The canonical timestamp texts and the millisecond counts correspond one to one: every
  count from the epoch to the end of the year 9999 is written as a text that is read back
  as the same count, and a text that is read at all is exactly the one its count is
  written as, so an impossible date, an out-of-range field or a date before the epoch is
  never evidence.
\<close>
lemma retention_timestamps_round_trip:
  "(0 \<le> ms \<and> ms < 253402300800000 \<longrightarrow> parseRetentionTimestampMs (toISOString ms) = Some ms)
   \<and> (parseRetentionTimestampMs value = Some ms \<longrightarrow> toISOString ms = value \<and> 0 \<le> ms)"
  using date_parse_toISOString [of ms]
  by (auto simp: parseRetentionTimestampMs_def is_safe_integer_def max_safe_integer_def split: option.splits if_splits)

text \<open>
  C24: A record may be compacted exactly when it is terminal, its evidence is well formed, it
  has been terminal for strictly longer than the window (thirty days unless the caller
  gives another), nothing refers to it, its checkpoint is settled, no gap, quarantine,
  unresolved recovery or prerequisite is open, its effect is certain, its replacement is
  not outstanding and its projection can be rebuilt.
\<close>
theorem retention_needs_every_condition:
  "evaluateRetentionBarrier f = Eligible \<longleftrightarrow>
     rf_terminal f \<and> rf_checkpointSettled f \<and> rf_effect f = Effect_certain \<and> rf_replacement f \<noteq> Replacement_pending
     \<and> rf_projectionReconstructible f
     \<and> rf_referenceCount f = Some 0 \<and> rf_openGapCount f = Some 0 \<and> rf_activeQuarantineCount f = Some 0
     \<and> rf_unresolvedRecoveryCount f = Some 0 \<and> rf_pendingPrerequisiteCount f = Some 0
     \<and> (\<exists>terminalAt now window. 0 \<le> terminalAt \<and> toISOString terminalAt = rf_terminalAt f
          \<and> parseRetentionTimestampMs (rf_terminalAt f) = Some terminalAt
          \<and> parseRetentionTimestampMs (rf_now f) = Some now
          \<and> opt_or (rf_retentionWindowMs f) (Some (30 * 86400000)) = Some window
          \<and> 0 \<le> window \<and> window \<le> max_safe_integer \<and> terminalAt + window < now)"
proof -
  have zero: "valid_count v \<and> \<not> positive v \<longleftrightarrow> v = Some 0" for v
    by (cases v) (auto simp: valid_count_def is_safe_integer_def positive_def max_safe_integer_def)
  have window: "valid_count v \<and> \<not> now - from \<le> opt_or v 0 \<longleftrightarrow>
      (\<exists>w. v = Some w \<and> 0 \<le> w \<and> w \<le> max_safe_integer \<and> from + w < now)" for v now "from"
    by (cases v) (auto simp: valid_count_def is_safe_integer_def max_safe_integer_def)
  have written: "parseRetentionTimestampMs s = Some t \<Longrightarrow> 0 \<le> t \<and> toISOString t = s" for s t
    by (auto simp: parseRetentionTimestampMs_def split: option.splits if_splits)
  have eligible: "evaluateRetentionBarrier f = Eligible \<longleftrightarrow>
     (\<exists>terminalAt now. parseRetentionTimestampMs (rf_terminalAt f) = Some terminalAt \<and> parseRetentionTimestampMs (rf_now f) = Some now
       \<and> validFacts f \<and> rf_terminal f
       \<and> (valid_count (opt_or (rf_retentionWindowMs f) (Some RETENTION_WINDOW_MS))
           \<and> \<not> now - terminalAt \<le> opt_or (opt_or (rf_retentionWindowMs f) (Some RETENTION_WINDOW_MS)) 0)
       \<and> \<not> positive (rf_referenceCount f) \<and> rf_checkpointSettled f \<and> \<not> positive (rf_openGapCount f)
       \<and> rf_effect f \<noteq> Effect_uncertain \<and> \<not> positive (rf_activeQuarantineCount f) \<and> \<not> positive (rf_unresolvedRecoveryCount f)
       \<and> \<not> positive (rf_pendingPrerequisiteCount f) \<and> rf_replacement f \<noteq> Replacement_pending \<and> rf_projectionReconstructible f)"
    by (simp add: evaluateRetentionBarrier_def Let_def split: option.splits)
  have effect: "rf_effect f \<noteq> Effect_uncertain \<longleftrightarrow> rf_effect f = Effect_certain" by (cases "rf_effect f") simp_all
  have counts: "validFacts f \<and> \<not> positive (rf_referenceCount f) \<and> \<not> positive (rf_openGapCount f) \<and> \<not> positive (rf_activeQuarantineCount f)
      \<and> \<not> positive (rf_unresolvedRecoveryCount f) \<and> \<not> positive (rf_pendingPrerequisiteCount f) \<longleftrightarrow>
      rf_referenceCount f = Some 0 \<and> rf_openGapCount f = Some 0 \<and> rf_activeQuarantineCount f = Some 0
      \<and> rf_unresolvedRecoveryCount f = Some 0 \<and> rf_pendingPrerequisiteCount f = Some 0"
    unfolding zero [symmetric] by (auto simp: validFacts_def)
  show ?thesis
    unfolding eligible window effect using counts written by (auto simp: RETENTION_WINDOW_MS_def)
qed

end
