(* ===== verification/Input_Batch.thy ===== *)
theory Input_Batch
  imports Prelude "HOL-Library.Sublist"
begin

text \<open>
  The text of a native input batch (\<^verbatim>\<open>src/src/domain/native-input-batch.ts\<close>): one to three
  Feishu messages joined under numbered headers, the reply context joined without them, and
  the parser that takes a batch apart again.
\<close>

subsection \<open>Printing and parsing\<close>

definition newline :: char where
  "newline = CHR 0x0A"

definition header_label :: "nat \<Rightarrow> nat \<Rightarrow> string" where
  "header_label k n = ''[Feishu message '' @ [char_of (48 + k)] @ ''/'' @ [char_of (48 + n)] @ '']''"

text \<open>The header of message \<open>k\<close> of \<open>n\<close>; both are at most three, so each is one digit.\<close>

definition message_header :: "nat \<Rightarrow> nat \<Rightarrow> string" where
  "message_header k n = header_label k n @ [newline]"

definition batch_size_error :: string where
  "batch_size_error = ''Native Input Batch requires one to three messages''"

fun join_paragraphs :: "string list \<Rightarrow> string" where
  "join_paragraphs [] = []"
| "join_paragraphs [x] = x"
| "join_paragraphs (x # xs) = x @ [newline, newline] @ join_paragraphs xs"

definition formatNativeInputBatch :: "string list \<Rightarrow> (string, string) result" where
  "formatNativeInputBatch bodies =
     (if length bodies = 0 \<or> 3 < length bodies then Inl batch_size_error
      else Inr (join_paragraphs (map (\<lambda>(i, body). message_header (i + 1) (length bodies) @ body) (enumerate 0 bodies))))"

definition formatNativeInputReplyContext :: "string list \<Rightarrow> (string, string) result" where
  "formatNativeInputReplyContext bodies =
     (if length bodies = 0 \<or> 3 < length bodies then Inl batch_size_error else Inr (join_paragraphs bodies))"

text \<open>\<^verbatim>\<open>s.indexOf(pat)\<close>; \<open>None\<close> is \<open>-1\<close>.\<close>

fun index_of :: "string \<Rightarrow> string \<Rightarrow> nat option" where
  "index_of pat [] = (if pat = [] then Some 0 else None)"
| "index_of pat (c # s) = (if prefix pat (c # s) then Some 0 else map_option Suc (index_of pat s))"

definition next_header :: "nat \<Rightarrow> nat \<Rightarrow> string" where
  "next_header k n = [newline, newline] @ message_header k n"

text \<open>
  The loop of the parser, from message \<open>index\<close> on: \<open>left\<close> messages are still to be
  separated off, \<open>rest\<close> is the value from \<^verbatim>\<open>bodyStart\<close>.
\<close>

fun split_bodies :: "nat \<Rightarrow> nat \<Rightarrow> nat \<Rightarrow> string \<Rightarrow> string list option" where
  "split_bodies 0 index count rest = Some [rest]"
| "split_bodies (Suc left) index count rest =
     (case index_of (next_header (index + 1) count) rest of
        None \<Rightarrow> None
      | Some p \<Rightarrow> map_option ((#) (take p rest))
          (split_bodies left (index + 1) count (drop (p + length (next_header (index + 1) count)) rest)))"

text \<open>The first header: the count it names, when the value starts with one.\<close>

definition first_header :: "string \<Rightarrow> nat option" where
  "first_header value = find (\<lambda>n. prefix (message_header 1 n) value) [1, 2, 3]"

definition parseNativeInputBatch :: "string \<Rightarrow> string list option" where
  "parseNativeInputBatch value =
     (case first_header value of
        None \<Rightarrow> None
      | Some count \<Rightarrow>
          (case split_bodies (count - 1) 1 count (drop (length (message_header 1 count)) value) of
             None \<Rightarrow> None
           | Some bodies \<Rightarrow> if formatNativeInputBatch bodies = Inr value then Some bodies else None))"

subsection \<open>Finding the next header\<close>

lemma length_header_label [simp]: "length (header_label k n) = 20"
  by (simp add: header_label_def)

lemma length_message_header [simp]: "length (message_header k n) = 21"
  by (simp add: message_header_def)

lemma length_next_header [simp]: "length (next_header k n) = 23"
  by (simp add: next_header_def)

lemma digit_not_bracket: "m \<le> 3 \<Longrightarrow> char_of (48 + m :: nat) \<noteq> CHR '']''"
proof
  assume "m \<le> 3" and "char_of (48 + m) = CHR '']''"
  from arg_cong [OF this(2), of "of_char :: char \<Rightarrow> nat"] \<open>m \<le> 3\<close> show False by (simp add: of_char_of)
qed

text \<open>A closing bracket stands at one place of a header only, so a header overlaps itself by its last character at most.\<close>

lemma bracket_position:
  assumes "k \<le> 3" "n \<le> 3" "i < 23" "next_header k n ! i = CHR '']''"
  shows "i = 21"
proof -
  define before where "before = [newline, newline] @ ''[Feishu message '' @ [char_of (48 + k)] @ ''/'' @ [char_of (48 + n)]"
  have split: "next_header k n = before @ [CHR '']'', newline]" "length before = 21"
    by (simp_all add: before_def next_header_def message_header_def header_label_def)
  have "CHR '']'' \<notin> set before"
    using digit_not_bracket [OF assms(1)] digit_not_bracket [OF assms(2)] by (auto simp: before_def newline_def)
  then have "before ! i \<noteq> CHR '']''" if "i < 21" using that split(2) nth_mem [of i before] by metis
  then have "\<not> i < 21" using assms(4) split by (auto simp: nth_append)
  moreover have "i \<noteq> 22" using assms(4) split by (auto simp: nth_append newline_def)
  ultimately show ?thesis using assms(3) by linarith
qed

definition next_label :: "nat \<Rightarrow> nat \<Rightarrow> string" where
  "next_label k n = [newline, newline] @ header_label k n"

lemma next_header_label: "next_header k n = next_label k n @ [newline]"
  by (simp add: next_header_def next_label_def message_header_def)

lemma length_next_label [simp]: "length (next_label k n) = 22"
  by (simp add: next_label_def)

lemma no_earlier_header:
  assumes "k \<le> 3" "n \<le> 3" and free: "\<not> sublist (next_label k n) body" and "q < length body"
  shows "\<not> prefix (next_header k n) (drop q (body @ next_header k n @ rest))"
proof
  assume "prefix (next_header k n) (drop q (body @ next_header k n @ rest))"
  then obtain zs where "drop q (body @ next_header k n @ rest) = next_header k n @ zs" by (auto simp only: prefix_def)
  then have tk: "take 23 (drop q (body @ next_header k n @ rest)) = next_header k n" by (simp only:) simp
  then have char: "(body @ next_header k n @ rest) ! (q + i) = next_header k n ! i" if "i < 23" for i
    using that assms(4) by (metis (no_types, lifting) nth_take nth_drop length_append length_next_header le_add1 less_imp_le_nat le_trans)
  show False
  proof (cases "q + 22 \<le> length body")
    case True
    have "take 22 (take 23 (drop q (body @ next_header k n @ rest))) = next_label k n"
      unfolding tk by (simp add: next_header_label)
    then have "take 22 (drop q body) = next_label k n" using True by simp
    then have "sublist (next_label k n) body"
      by (metis sublist_drop sublist_take sublist_order.order_trans)
    with free show False ..
  next
    case False
    define i where "i = q + 21 - length body"
    have "i < 21" "q + 21 = length body + i" using False assms(4) by (simp_all add: i_def)
    then have "next_header k n ! i = next_header k n ! 21" using char [of 21] by (simp add: nth_append)
    moreover have "next_header k n ! 21 = CHR '']''" by (simp add: next_header_def message_header_def header_label_def)
    ultimately have "i = 21" using bracket_position [OF assms(1,2), of i] \<open>i < 21\<close> by simp
    with \<open>i < 21\<close> show False by simp
  qed
qed

lemma index_of_first:
  assumes "\<forall>q < length xs. \<not> prefix pat (drop q (xs @ pat @ ys))"
  shows "index_of pat (xs @ pat @ ys) = Some (length xs)"
  using assms
proof (induction xs)
  case Nil
  have "prefix pat (pat @ ys)" by simp
  then show ?case by (cases "pat @ ys") auto
next
  case (Cons x xs)
  have "\<not> prefix pat (x # xs @ pat @ ys)" using Cons.prems [rule_format, of 0] by simp
  moreover have "\<forall>q < length xs. \<not> prefix pat (drop q (xs @ pat @ ys))"
    using Cons.prems by (metis Suc_less_eq append_Cons drop_Suc_Cons length_Cons)
  ultimately show ?case using Cons.IH by simp
qed

lemma index_of_next_header:
  assumes "k \<le> 3" "n \<le> 3" "\<not> sublist (next_label k n) body"
  shows "index_of (next_header k n) (body @ next_header k n @ rest) = Some (length body)"
  using no_earlier_header [OF assms] by (intro index_of_first) blast

lemma first_header_message_header:
  assumes "1 \<le> n" "n \<le> 3"
  shows "first_header (message_header 1 n @ rest) = Some n"
proof -
  have "message_header 1 m \<noteq> message_header 1 n" if "m \<noteq> n" "m \<le> 3" for m
  proof
    assume "message_header 1 m = message_header 1 n"
    then have "char_of (48 + m) = (char_of (48 + n) :: char)" by (simp add: message_header_def header_label_def)
    from arg_cong [OF this, of "of_char :: char \<Rightarrow> nat"] that assms show False by (simp add: of_char_of)
  qed
  then have "prefix (message_header 1 m) (message_header 1 n @ rest) \<longleftrightarrow> m = n" if "m \<le> 3" for m
    using that by (metis append_eq_append_conv length_message_header prefixI prefixE)
  then show ?thesis using assms by (auto simp: first_header_def)
qed

subsection \<open>Round trip\<close>

text \<open>No message but the last contains, after an empty line, the label of the message that follows it.\<close>

definition separable :: "string list \<Rightarrow> bool" where
  "separable bodies \<longleftrightarrow> (\<forall>i < length bodies - 1. \<not> sublist (next_label (i + 2) (length bodies)) (bodies ! i))"

lemma format_succeeds: "(\<exists>v. formatNativeInputBatch bodies = Inr v) \<longleftrightarrow> length bodies \<in> {1, 2, 3}"
proof -
  have "\<not> (length bodies = 0 \<or> 3 < length bodies) \<longleftrightarrow> length bodies \<in> {1, 2, 3}"
    unfolding insert_iff empty_iff by presburger
  then show ?thesis unfolding formatNativeInputBatch_def by auto
qed

lemma format_one: "formatNativeInputBatch [a] = Inr (message_header 1 1 @ a)"
  by (simp add: formatNativeInputBatch_def)

lemma format_two: "formatNativeInputBatch [a, b] = Inr (message_header 1 2 @ a @ next_header 2 2 @ b)"
  by (simp add: formatNativeInputBatch_def next_header_def numeral_2_eq_2)

lemma format_three:
  "formatNativeInputBatch [a, b, c] = Inr (message_header 1 3 @ a @ next_header 2 3 @ b @ next_header 3 3 @ c)"
  by (simp add: formatNativeInputBatch_def next_header_def eval_nat_numeral)

lemma split_off:
  assumes "index \<le> 2" "count \<le> 3" "\<not> sublist (next_label (index + 1) count) body"
  shows "split_bodies (Suc left) index count (body @ next_header (index + 1) count @ rest)
    = map_option ((#) body) (split_bodies left (index + 1) count rest)"
  using index_of_next_header [of "index + 1" count body rest] assms by simp

lemmas format_shapes = format_one format_two format_three

lemma parse_format:
  assumes "formatNativeInputBatch bodies = Inr value" and "separable bodies"
  shows "parseNativeInputBatch value = Some bodies"
proof -
  from assms(1) have "length bodies \<in> {1, 2, 3}" using format_succeeds by blast
  then consider (one) a where "bodies = [a]" | (two) a b where "bodies = [a, b]" | (three) a b c where "bodies = [a, b, c]"
    by (auto simp: length_Suc_conv numeral_eq_Suc)
  then show ?thesis
  proof cases
    case one
    with assms(1) have "value = message_header 1 1 @ a" by (simp only: format_one sum.inject)
    then show ?thesis using one
      by (simp add: parseNativeInputBatch_def first_header_message_header [of 1, simplified] format_one [simplified])
  next
    case two
    have free: "\<not> sublist (next_label (1 + 1) 2) a" using assms(2) two by (simp add: separable_def numeral_2_eq_2)
    have v: "value = message_header 1 2 @ a @ next_header (1 + 1) 2 @ b"
      using assms(1) unfolding two format_two one_add_one by simp
    have "split_bodies (2 - 1) 1 2 (drop (length (message_header 1 2)) value) = Some bodies"
      using split_off [of 1 2 a 0 b] free unfolding v two by (simp del: split_bodies.simps(2))
    then show ?thesis using assms(1) first_header_message_header [of 2 "a @ next_header (1 + 1) 2 @ b"] v
      by (simp add: parseNativeInputBatch_def del: split_bodies.simps(2))
  next
    case three
    have free: "\<not> sublist (next_label (1 + 1) 3) a" "\<not> sublist (next_label (2 + 1) 3) b"
      using assms(2) three by (auto simp: separable_def eval_nat_numeral All_less_Suc)
    have v: "value = message_header 1 3 @ a @ next_header (1 + 1) 3 @ b @ next_header (2 + 1) 3 @ c"
      using assms(1) unfolding three format_three by (simp add: eval_nat_numeral)
    have "split_bodies 2 1 3 (drop (length (message_header 1 3)) value) = Some bodies"
      using split_off [of 1 3 a 1 "b @ next_header (2 + 1) 3 @ c"] split_off [of 2 3 b 0 c] free unfolding v three
      by (simp add: numeral_2_eq_2 del: split_bodies.simps(2))
    then show ?thesis using assms(1) first_header_message_header [of 3 "a @ next_header (1 + 1) 3 @ b @ next_header (2 + 1) 3 @ c"] v
      by (simp add: parseNativeInputBatch_def del: split_bodies.simps(2))
  qed
qed

lemma quoted_header_splits_the_batch:
  "\<exists>value. formatNativeInputBatch [''x'' @ next_header 2 2 @ ''y'', ''z''] = Inr value
     \<and> parseNativeInputBatch value = Some [''x'', ''y'' @ next_header 2 2 @ ''z'']"
proof -
  have "separable [''x'', ''y'' @ next_header 2 2 @ ''z'']"
    by (simp add: separable_def sublist_Cons_right next_label_def newline_def prefix_Cons)
  then show ?thesis
    using parse_format [of "[''x'', ''y'' @ next_header 2 2 @ ''z'']"] by (simp add: format_two)
qed

text \<open>
  C25: A batch of one to three messages is read back exactly as it was written, provided no
  message but the last contains, after an empty line, the label of its successor; and
  whatever the parser accepts is a batch that is written as the very text it was read from.
  No other number of messages is ever written. The provision is needed: a first message
  that quotes the header of the second is taken apart at the quotation.
\<close>
theorem input_batches_round_trip:
  "(separable bodies \<and> formatNativeInputBatch bodies = Inr value \<longrightarrow> parseNativeInputBatch value = Some bodies)
   \<and> (parseNativeInputBatch value = Some bodies \<longrightarrow> formatNativeInputBatch bodies = Inr value)
   \<and> ((\<exists>v. formatNativeInputBatch bodies = Inr v) \<longleftrightarrow> length bodies \<in> {1, 2, 3})
   \<and> (\<exists>v. formatNativeInputBatch [''x'' @ next_header 2 2 @ ''y'', ''z''] = Inr v
        \<and> parseNativeInputBatch v = Some [''x'', ''y'' @ next_header 2 2 @ ''z''])"
proof -
  have "parseNativeInputBatch value = Some bodies \<longrightarrow> formatNativeInputBatch bodies = Inr value"
    by (auto simp: parseNativeInputBatch_def split: option.splits if_splits)
  then show ?thesis using parse_format format_succeeds quoted_header_splits_the_batch by blast
qed

theorem input_batches_round_trip_witness:
  "parseNativeInputBatch (message_header 1 2 @ ''hello'' @ next_header 2 2 @ ''world'') = Some [''hello'', ''world'']"
proof -
  have "separable [''hello'', ''world'']"
    by (simp add: separable_def sublist_Cons_right next_label_def newline_def)
  then show ?thesis
    using input_batches_round_trip [of "[''hello'', ''world'']" "message_header 1 2 @ ''hello'' @ next_header 2 2 @ ''world''"] format_two
    by blast
qed

end
