(* ===== verification/Turn_Output.thy ===== *)
theory Turn_Output
  imports Prelude "HOL-Library.Sublist"
begin

text \<open>
  The bounded text of a turn's answer (\<^verbatim>\<open>src/src/runtime/bounded-turn-output.ts\<close>). A text is a
  list of UTF-16 code units, since the bounds count code units and the truncation marker
  holds an ellipsis.
\<close>

type_synonym js_text = "nat list"

definition MAX_TURN_OUTPUT_CHARS :: nat where
  "MAX_TURN_OUTPUT_CHARS = 512 * 1024"

definition LEGACY_MAX_TURN_OUTPUT_CHARS :: nat where
  "LEGACY_MAX_TURN_OUTPUT_CHARS = 64 * 1024"

definition units :: "string \<Rightarrow> js_text" where
  "units s = map of_char s"

definition TURN_OUTPUT_TRUNCATION_MARKER :: js_text where
  "TURN_OUTPUT_TRUNCATION_MARKER = [10, 10, 8230] @ units '' output truncated''"

text \<open>\<^verbatim>\<open>String.prototype.trimEnd\<close>: the white space and line terminators of the language.\<close>

definition space_unit :: "nat \<Rightarrow> bool" where
  "space_unit u = (u \<in> set [9, 10, 11, 12, 13, 32, 160, 5760, 8232, 8233, 8239, 8287, 12288, 65279] \<or> (8192 \<le> u \<and> u \<le> 8202))"

definition trimEnd :: "js_text \<Rightarrow> js_text" where
  "trimEnd s = rev (dropWhile space_unit (rev s))"

record BoundedTurnOutput =
  out_text :: js_text
  out_truncated :: bool

definition isPersistedTruncatedTurnOutput :: "js_text \<Rightarrow> bool" where
  "isPersistedTruncatedTurnOutput s =
     (suffix TURN_OUTPUT_TRUNCATION_MARKER s \<and> (length s = LEGACY_MAX_TURN_OUTPUT_CHARS \<or> length s = MAX_TURN_OUTPUT_CHARS))"

definition truncate_output :: "js_text \<Rightarrow> BoundedTurnOutput" where
  "truncate_output v =
     (let prefixLength = MAX_TURN_OUTPUT_CHARS - length TURN_OUTPUT_TRUNCATION_MARKER
      in \<lparr>out_text = take MAX_TURN_OUTPUT_CHARS (trimEnd (take prefixLength v) @ TURN_OUTPUT_TRUNCATION_MARKER),
          out_truncated = True\<rparr>)"

definition createBoundedTurnOutput :: "js_text \<Rightarrow> BoundedTurnOutput" where
  "createBoundedTurnOutput s =
     (if isPersistedTruncatedTurnOutput s then \<lparr>out_text = s, out_truncated = True\<rparr>
      else if length s \<le> MAX_TURN_OUTPUT_CHARS then \<lparr>out_text = s, out_truncated = False\<rparr>
      else truncate_output s)"

definition appendTurnOutput :: "BoundedTurnOutput \<Rightarrow> js_text \<Rightarrow> BoundedTurnOutput" where
  "appendTurnOutput current fragment =
     (if fragment = [] \<or> out_truncated current then current
      else
        let separator = (if out_text current \<noteq> [] then [10, 10] else [])
        in if length (out_text current) + length separator + length fragment \<le> MAX_TURN_OUTPUT_CHARS
           then \<lparr>out_text = out_text current @ separator @ fragment, out_truncated = False\<rparr>
           else truncate_output (out_text current @ separator @ fragment))"

definition legacyTruncatedTurnOutputPrefix :: "js_text \<Rightarrow> js_text option" where
  "legacyTruncatedTurnOutputPrefix s =
     (if length s = LEGACY_MAX_TURN_OUTPUT_CHARS \<and> suffix TURN_OUTPUT_TRUNCATION_MARKER s
      then Some (take (length s - length TURN_OUTPUT_TRUNCATION_MARKER) s) else None)"

subsection \<open>The text stays bounded\<close>

text \<open>What an unbounded output would hold: the fragments that are not empty, a blank line between two.\<close>

fun joined :: "js_text list \<Rightarrow> js_text" where
  "joined [] = []"
| "joined [f] = f"
| "joined (f # g # fs) = f @ [10, 10] @ joined (g # fs)"

definition nonempty_fragments :: "js_text list \<Rightarrow> js_text list" where
  "nonempty_fragments fs = filter (\<lambda>f. f \<noteq> []) fs"

lemma joined_snoc: "fs \<noteq> [] \<Longrightarrow> joined (fs @ [f]) = joined fs @ [10, 10] @ f"
  by (induction fs rule: joined.induct) auto

lemma joined_eq_Nil: "\<forall>f \<in> set fs. f \<noteq> [] \<Longrightarrow> joined fs = [] \<longleftrightarrow> fs = []"
  by (induction fs rule: joined.induct) auto

lemma marker_length: "length TURN_OUTPUT_TRUNCATION_MARKER = 20"
  by (simp add: TURN_OUTPUT_TRUNCATION_MARKER_def units_def)

lemma marker_fits: "length (trimEnd (take (MAX_TURN_OUTPUT_CHARS - length TURN_OUTPUT_TRUNCATION_MARKER) v) @ TURN_OUTPUT_TRUNCATION_MARKER) \<le> MAX_TURN_OUTPUT_CHARS"
proof -
  have "length (trimEnd (take n v)) \<le> n" for n
    unfolding trimEnd_def using length_dropWhile_le [of space_unit "rev (take n v)"] by simp
  then show ?thesis by (simp add: marker_length MAX_TURN_OUTPUT_CHARS_def order.trans [OF add_mono])
qed

lemma truncate_output_text:
  "out_text (truncate_output v) = trimEnd (take (MAX_TURN_OUTPUT_CHARS - 20) v) @ TURN_OUTPUT_TRUNCATION_MARKER"
  "out_truncated (truncate_output v)"
  using marker_fits [of v] by (simp_all add: truncate_output_def Let_def marker_length)

definition output_ok :: "BoundedTurnOutput \<Rightarrow> bool" where
  "output_ok x \<longleftrightarrow> length (out_text x) \<le> MAX_TURN_OUTPUT_CHARS \<and> (out_truncated x \<longrightarrow> suffix TURN_OUTPUT_TRUNCATION_MARKER (out_text x))"

lemma truncate_output_ok: "output_ok (truncate_output v)"
  using marker_fits [of v] by (simp add: output_ok_def truncate_output_text marker_length suffix_def)

lemma append_noop: "f = [] \<or> out_truncated x \<Longrightarrow> appendTurnOutput x f = x"
  by (simp add: appendTurnOutput_def)

lemma append_text:
  assumes "f \<noteq> []" and "\<not> out_truncated (appendTurnOutput x f)"
  shows "\<not> out_truncated x \<and> out_text (appendTurnOutput x f) = out_text x @ (if out_text x \<noteq> [] then [10, 10] else []) @ f"
  using assms by (auto simp: appendTurnOutput_def Let_def truncate_output_text split: if_splits)

lemma create_ok: "output_ok (createBoundedTurnOutput s)"
  by (auto simp: createBoundedTurnOutput_def truncate_output_ok)
     (auto simp: output_ok_def isPersistedTruncatedTurnOutput_def MAX_TURN_OUTPUT_CHARS_def LEGACY_MAX_TURN_OUTPUT_CHARS_def)

lemma append_ok: "output_ok x \<Longrightarrow> output_ok (appendTurnOutput x f)"
  by (auto simp: appendTurnOutput_def Let_def truncate_output_ok) (auto simp: output_ok_def)

text \<open>
  However many fragments a turn produces, its text never exceeds the limit; a truncated
  text ends with the marker and is never changed again; and as long as the text is not
  truncated it is exactly the fragments joined by blank lines, empty fragments left out.
\<close>
lemma turn_output_is_bounded:
  "length (out_text (foldl appendTurnOutput (createBoundedTurnOutput []) fs)) \<le> MAX_TURN_OUTPUT_CHARS
   \<and> (if out_truncated (foldl appendTurnOutput (createBoundedTurnOutput []) fs)
      then suffix TURN_OUTPUT_TRUNCATION_MARKER (out_text (foldl appendTurnOutput (createBoundedTurnOutput []) fs))
        \<and> foldl appendTurnOutput (createBoundedTurnOutput []) (fs @ more_fragments) = foldl appendTurnOutput (createBoundedTurnOutput []) fs
      else out_text (foldl appendTurnOutput (createBoundedTurnOutput []) fs) = joined (nonempty_fragments fs))"
proof -
  let ?run = "foldl appendTurnOutput (createBoundedTurnOutput [])"
  have ok: "output_ok (?run fs)" by (induction fs rule: rev_induct) (auto simp: create_ok append_ok)
  have stays: "foldl appendTurnOutput x gs = x" if "out_truncated x" for x gs
    using that by (induction gs) (auto simp: append_noop)
  have exact: "\<not> out_truncated (?run fs) \<longrightarrow> out_text (?run fs) = joined (nonempty_fragments fs)"
  proof (induction fs rule: rev_induct)
    case Nil
    have "\<not> suffix TURN_OUTPUT_TRUNCATION_MARKER ([] :: js_text)" using marker_length by (auto simp: suffix_def)
    then show ?case by (simp add: createBoundedTurnOutput_def isPersistedTruncatedTurnOutput_def nonempty_fragments_def)
  next
    case (snoc f fs)
    have eq: "?run (fs @ [f]) = appendTurnOutput (?run fs) f" by simp
    show ?case
    proof (cases "f = []")
      case True
      then show ?thesis using snoc append_noop [of f "?run fs"] by (simp only: eq) (simp add: nonempty_fragments_def)
    next
      case False
      have ne: "joined (nonempty_fragments fs) = [] \<longleftrightarrow> nonempty_fragments fs = []"
        by (rule joined_eq_Nil) (simp add: nonempty_fragments_def)
      have "nonempty_fragments (fs @ [f]) = nonempty_fragments fs @ [f]" using False by (simp add: nonempty_fragments_def)
      then show ?thesis unfolding eq using snoc append_text [OF False, of "?run fs"] ne joined_snoc [of "nonempty_fragments fs" f]
        by (auto split: if_splits)
    qed
  qed
  show ?thesis using ok exact stays [of "?run fs" more_fragments] by (simp add: output_ok_def)
qed

subsection \<open>Reloading a persisted text\<close>

lemma trimEnd_length: "length (trimEnd s) = length s \<longleftrightarrow> s = [] \<or> \<not> space_unit (last s)"
proof (cases s rule: rev_cases)
  case Nil
  then show ?thesis by (simp add: trimEnd_def)
next
  case (snoc ys y)
  have "length (dropWhile space_unit (rev ys)) < Suc (length ys)"
    using length_dropWhile_le [of space_unit "rev ys"] by simp
  then show ?thesis by (auto simp: snoc trimEnd_def)
qed

text \<open>
  The fence of a truncated text survives a reload only by luck: the reloaded text counts
  as truncated exactly when the cut fell behind a code unit that is not white space (or
  the trimmed text happens to have the legacy length). Otherwise it is taken for a
  complete answer and later output is appended behind the truncation marker.
\<close>
lemma truncation_fence_lost_on_reload:
  assumes "MAX_TURN_OUTPUT_CHARS < length v"
  shows "out_truncated (createBoundedTurnOutput (out_text (truncate_output v)))
     \<longleftrightarrow> \<not> space_unit (v ! (MAX_TURN_OUTPUT_CHARS - 21)) \<or> length (out_text (truncate_output v)) = LEGACY_MAX_TURN_OUTPUT_CHARS"
proof -
  let ?p = "take (MAX_TURN_OUTPUT_CHARS - 20) v"
  have max: "MAX_TURN_OUTPUT_CHARS = 524288" by (simp add: MAX_TURN_OUTPUT_CHARS_def)
  have len: "length ?p = MAX_TURN_OUTPUT_CHARS - 20" "?p \<noteq> []" using assms by (auto simp: max)
  have last: "last ?p = v ! (MAX_TURN_OUTPUT_CHARS - 21)" using len assms by (simp add: last_conv_nth max)
  have le: "length (out_text (truncate_output v)) \<le> MAX_TURN_OUTPUT_CHARS" using truncate_output_ok [of v] by (simp add: output_ok_def)
  have full: "length (out_text (truncate_output v)) = MAX_TURN_OUTPUT_CHARS \<longleftrightarrow> \<not> space_unit (v ! (MAX_TURN_OUTPUT_CHARS - 21))"
    using trimEnd_length [of ?p] len last by (simp add: truncate_output_text marker_length max)
  show ?thesis
    using le full truncate_output_ok [of v]
    by (auto simp: createBoundedTurnOutput_def isPersistedTruncatedTurnOutput_def output_ok_def truncate_output_text(2))
qed

end
