(* ===== verification/Answer_Timeline.thy ===== *)
theory Answer_Timeline
  imports Turn_Output
begin

text \<open>
  The timeline under an answer (\<^verbatim>\<open>src/src/domain/answer-timeline.ts\<close>): upserts by stable id,
  the check of the canonical order and the closing of tools left running. An item is
  compared by its fields; the source compares the JSON texts, which also tell apart two
  objects whose fields were set in another order.
\<close>

datatype AnswerTimelineToolCategory = Tool_read | Tool_search | Tool_edit | Tool_command | Tool_test | Tool_skill | Tool_tool | Tool_step
datatype AnswerTimelineToolState = Tool_running | Tool_succeeded | Tool_failed
datatype tool_outcome = Outcome_success | Outcome_failure | Outcome_timeout
datatype timeline_status = Status_running | Status_completed | Status_blocked | Status_failed | Status_interrupted
  | Status_cancelled | Status_warning

record AnswerTimelineCanonicalPosition =
  laneSequence :: int
  itemOrdinal :: int

record timeline_tool =
  tl_category :: AnswerTimelineToolCategory
  tl_label :: js_text
  tl_action :: "js_text option"
  tl_target :: "js_text option"
  tl_context :: "js_text option"
  tl_command :: "js_text option"
  tl_result :: "js_text option"
  tl_resultPreview :: "js_text option"
  tl_resultSummary :: "(tool_outcome \<times> js_text) option"
  tl_diff :: "js_text option"
  tl_parentToolId :: "ident option"
  tl_continuation :: "bool option"
  tl_groupChildCount :: "int option"
  tl_nested :: "bool option"
  tl_state :: AnswerTimelineToolState

record timeline_status_item =
  ts_label :: js_text
  ts_detail :: "js_text option"
  ts_detailTruncated :: "bool option"
  ts_state :: timeline_status

datatype timeline_kind =
    Human_message js_text
  | Agent_message js_text
  | Thinking js_text "js_text option"
  | Tool timeline_tool
  | Status timeline_status_item
  | Final_answer js_text

record AnswerTimelineItem =
  ti_id :: ident
  ti_sequence :: int
  ti_canonicalPosition :: "AnswerTimelineCanonicalPosition option"
  ti_kind :: timeline_kind

definition mergeAnswerTimelineItem :: "AnswerTimelineItem option \<Rightarrow> AnswerTimelineItem \<Rightarrow> AnswerTimelineItem" where
  "mergeAnswerTimelineItem prior nxt =
     (case (map_option ti_kind prior, ti_kind nxt) of
        (Some (Status p), Status n) \<Rightarrow>
          if ts_detail n = None \<and> ts_detail p \<noteq> None
          then nxt\<lparr>ti_kind := Status (n\<lparr>ts_detail := ts_detail p,
                 ts_detailTruncated := nullish (ts_detailTruncated p) (ts_detailTruncated n)\<rparr>)\<rparr>
          else nxt
      | _ \<Rightarrow> nxt)"

definition before_position :: "AnswerTimelineCanonicalPosition \<Rightarrow> AnswerTimelineCanonicalPosition \<Rightarrow> bool" where
  "before_position p q \<longleftrightarrow>
     \<not> (laneSequence q < laneSequence p \<or> laneSequence q = laneSequence p \<and> itemOrdinal q \<le> itemOrdinal p)"

datatype timeline_error = Not_in_canonical_order | Positions_missing

text \<open>The loop of \<^verbatim>\<open>assertCanonicalTimelineOrder\<close>: the number of positioned items, or the error.\<close>

fun check_positions :: "AnswerTimelineCanonicalPosition option \<Rightarrow> nat \<Rightarrow> AnswerTimelineItem list \<Rightarrow> (timeline_error, nat) result" where
  "check_positions previous positioned [] = Inr positioned"
| "check_positions previous positioned (item # items) =
     (case ti_canonicalPosition item of
        None \<Rightarrow> check_positions previous positioned items
      | Some position \<Rightarrow>
          (case previous of
             Some p \<Rightarrow> if before_position p position then check_positions (Some position) (positioned + 1) items
                else Inl Not_in_canonical_order
           | None \<Rightarrow> check_positions (Some position) (positioned + 1) items))"

definition assertCanonicalTimelineOrder :: "AnswerTimelineItem list \<Rightarrow> (timeline_error, unit) result" where
  "assertCanonicalTimelineOrder items =
     (case check_positions None 0 items of
        Inl err \<Rightarrow> Inl err
      | Inr positioned \<Rightarrow> if positioned \<noteq> 0 \<and> positioned \<noteq> length items then Inl Positions_missing else Inr ())"

definition upsert_item :: "AnswerTimelineItem \<Rightarrow> (ident \<times> AnswerTimelineItem) list \<Rightarrow> (ident \<times> AnswerTimelineItem) list" where
  "upsert_item delta items = AList.update (ti_id delta) (mergeAnswerTimelineItem (map_of items (ti_id delta)) delta) items"

text \<open>\<^verbatim>\<open>new Map(current.map(...))\<close>: a later item of the same id takes the earlier one's place.\<close>

definition timeline_map :: "AnswerTimelineItem list \<Rightarrow> (ident \<times> AnswerTimelineItem) list" where
  "timeline_map current = fold (\<lambda>item. AList.update (ti_id item) item) current []"

definition applyAnswerTimelineDeltas :: "AnswerTimelineItem list \<Rightarrow> AnswerTimelineItem list
    \<Rightarrow> (timeline_error, AnswerTimelineItem list) result" where
  "applyAnswerTimelineDeltas current deltas =
     (if deltas = [] then Inr current
      else let items = map snd (fold upsert_item deltas (timeline_map current))
           in case assertCanonicalTimelineOrder items of Inl err \<Rightarrow> Inl err | Inr _ \<Rightarrow> Inr items)"

definition terminalize_tool :: "AnswerTimelineToolState \<Rightarrow> AnswerTimelineItem \<Rightarrow> AnswerTimelineItem" where
  "terminalize_tool st item =
     (case ti_kind item of
        Tool t \<Rightarrow> if tl_state t = Tool_running then item\<lparr>ti_kind := Tool (t\<lparr>tl_state := st\<rparr>)\<rparr> else item
      | _ \<Rightarrow> item)"

definition terminalizeAnswerTimelineTools :: "AnswerTimelineToolState \<Rightarrow> AnswerTimelineItem list \<Rightarrow> AnswerTimelineItem list" where
  "terminalizeAnswerTimelineTools st current = map (terminalize_tool st) current"

definition sameAnswerTimeline :: "AnswerTimelineItem list \<Rightarrow> AnswerTimelineItem list \<Rightarrow> bool" where
  "sameAnswerTimeline left right \<longleftrightarrow> left = right"

subsection \<open>Canonical order\<close>

definition positions :: "AnswerTimelineItem list \<Rightarrow> AnswerTimelineCanonicalPosition list" where
  "positions items = List.map_filter ti_canonicalPosition items"

lemma positions_simps [simp]:
  "positions [] = []"
  "positions (x # xs) = (case ti_canonicalPosition x of None \<Rightarrow> positions xs | Some p \<Rightarrow> p # positions xs)"
  by (simp_all add: positions_def List.map_filter_def split: option.splits)

lemma before_position_trans: "before_position p q \<Longrightarrow> before_position q r \<Longrightarrow> before_position p r"
  by (auto simp: before_position_def)

lemma check_positions_eq:
  "check_positions previous n items =
     (if sorted_wrt before_position (case previous of None \<Rightarrow> positions items | Some p \<Rightarrow> p # positions items)
      then Inr (n + length (positions items)) else Inl Not_in_canonical_order)"
proof (induction items arbitrary: previous n)
  case Nil
  then show ?case by (cases previous) simp_all
next
  case (Cons item items)
  show ?case
  proof (cases "ti_canonicalPosition item")
    case None
    then show ?thesis by (cases previous) (simp_all add: Cons.IH)
  next
    case (Some q)
    show ?thesis
    proof (cases previous)
      case None
      then show ?thesis by (simp add: Some Cons.IH)
    next
      case (Some p)
      have "sorted_wrt before_position (p # q # positions items) \<longleftrightarrow> before_position p q \<and> sorted_wrt before_position (q # positions items)"
        using before_position_trans by auto
      then show ?thesis using \<open>ti_canonicalPosition item = Some q\<close> by (simp add: Some Cons.IH del: sorted_wrt.simps)
    qed
  qed
qed

definition canonical_timeline :: "AnswerTimelineItem list \<Rightarrow> bool" where
  "canonical_timeline items \<longleftrightarrow> sorted_wrt before_position (positions items)
     \<and> (positions items = [] \<or> (\<forall>item \<in> set items. ti_canonicalPosition item \<noteq> None))"

lemma length_positions: "length (positions items) \<le> length items \<and>
    (length (positions items) = length items \<longleftrightarrow> (\<forall>item \<in> set items. ti_canonicalPosition item \<noteq> None))"
  by (induction items) (auto split: option.splits)

lemma assertCanonicalTimelineOrder_iff: "assertCanonicalTimelineOrder items = Inr () \<longleftrightarrow> canonical_timeline items"
  using length_positions [of items] by (auto simp: assertCanonicalTimelineOrder_def check_positions_eq canonical_timeline_def)

subsection \<open>Upserts\<close>

definition keyed :: "(ident \<times> AnswerTimelineItem) list \<Rightarrow> bool" where
  "keyed al \<longleftrightarrow> distinct (map fst al) \<and> (\<forall>(k, item) \<in> set al. ti_id item = k)"

lemma merge_id [simp]: "ti_id (mergeAnswerTimelineItem prior nxt) = ti_id nxt"
  by (auto simp: mergeAnswerTimelineItem_def split: option.splits timeline_kind.splits)

lemma keyed_update: "keyed al \<Longrightarrow> keyed (AList.update (ti_id item) item al)"
  by (auto simp: keyed_def set_update_distinct)

lemma keyed_upsert: "keyed al \<Longrightarrow> keyed (upsert_item d al)"
  using keyed_update [of al "mergeAnswerTimelineItem (map_of al (ti_id d)) d"] by (simp add: upsert_item_def)

lemma keyed_timeline_map: "keyed (timeline_map current)"
proof -
  have "keyed al \<Longrightarrow> keyed (fold (\<lambda>item. AList.update (ti_id item) item) current al)" for al
    by (induction current arbitrary: al) (simp_all add: keyed_update)
  from this [of "[]"] show ?thesis by (simp add: timeline_map_def keyed_def)
qed

lemma keyed_fold_upsert: "keyed al \<Longrightarrow> keyed (fold upsert_item deltas al)"
  by (induction deltas arbitrary: al) (simp_all add: keyed_upsert)

lemma keyed_ids: "keyed al \<Longrightarrow> map ti_id (map snd al) = map fst al"
  by (auto simp: keyed_def)

lemma fst_upsert: "map fst (upsert_item d al) = (if ti_id d \<in> fst ` set al then map fst al else map fst al @ [ti_id d])"
  by (simp add: upsert_item_def update_keys)

lemma fst_fold_upsert:
  "set (map fst (fold upsert_item deltas al)) = set (map fst al) \<union> ti_id ` set deltas
   \<and> prefix (map fst al) (map fst (fold upsert_item deltas al))"
proof (induction deltas arbitrary: al)
  case Nil
  then show ?case by simp
next
  case (Cons d ds)
  have "prefix (map fst al) (map fst (upsert_item d al))" by (simp add: fst_upsert)
  then have "prefix (map fst al) (map fst (fold upsert_item ds (upsert_item d al)))"
    using Cons.IH [of "upsert_item d al"] prefix_order.trans by blast
  moreover have "set (map fst (upsert_item d al)) = insert (ti_id d) (set (map fst al))" unfolding fst_upsert by auto
  ultimately show ?case using Cons.IH [of "upsert_item d al"] by simp
qed

lemma timeline_map_distinct:
  "distinct (map ti_id current) \<Longrightarrow> timeline_map current = map (\<lambda>item. (ti_id item, item)) current"
proof (induction current rule: rev_induct)
  case Nil
  then show ?case by (simp add: timeline_map_def)
next
  case (snoc x xs)
  have fresh: "k \<notin> fst ` set al \<Longrightarrow> AList.update k v al = al @ [(k, v)]" for k :: ident and v :: AnswerTimelineItem and al
    by (induction al) auto
  have "timeline_map (xs @ [x]) = AList.update (ti_id x) x (timeline_map xs)" by (simp add: timeline_map_def)
  with snoc show ?case by (simp add: fresh image_image)
qed

lemma terminalize_ok:
  assumes "distinct (map ti_id items)" and "canonical_timeline items"
  shows "distinct (map ti_id (terminalizeAnswerTimelineTools st items)) \<and> canonical_timeline (terminalizeAnswerTimelineTools st items)"
proof -
  let ?closed = "terminalizeAnswerTimelineTools st items"
  have "ti_id (terminalize_tool st item) = ti_id item" "ti_canonicalPosition (terminalize_tool st item) = ti_canonicalPosition item" for item
    by (auto simp: terminalize_tool_def split: timeline_kind.splits)
  then have "map ti_id ?closed = map ti_id items" "positions ?closed = positions items"
    "\<forall>item \<in> set items. ti_canonicalPosition item \<noteq> None \<Longrightarrow> \<forall>item \<in> set ?closed. ti_canonicalPosition item \<noteq> None"
    by (auto simp: terminalizeAnswerTimelineTools_def positions_def List.map_filter_def comp_def filter_map)
  with assms show ?thesis by (simp only: canonical_timeline_def) blast
qed

lemma applyAnswerTimelineDeltas_ok:
  assumes "distinct (map ti_id current)" "canonical_timeline current" "applyAnswerTimelineDeltas current deltas = Inr items"
  shows "distinct (map ti_id items) \<and> canonical_timeline items"
proof (cases "deltas = []")
  case True
  with assms show ?thesis by (simp add: applyAnswerTimelineDeltas_def)
next
  case False
  let ?al = "fold upsert_item deltas (timeline_map current)"
  have keyed: "keyed ?al" using keyed_fold_upsert keyed_timeline_map by blast
  have "items = map snd ?al" "assertCanonicalTimelineOrder items = Inr ()"
    using assms(3) False by (auto simp: applyAnswerTimelineDeltas_def Let_def split: sum.splits)
  moreover have "distinct (map ti_id (map snd ?al))" unfolding keyed_ids [OF keyed] using keyed by (simp only: keyed_def)
  ultimately show ?thesis by (simp only: assertCanonicalTimelineOrder_iff)
qed

text \<open>
  A batch of deltas never reorders a timeline. When it is accepted the result holds each
  id once, the items already shown keep their places and the new ones follow, nothing but
  the deltas' ids is added, and the items with a canonical position (all or none) are in
  strictly increasing order; it is refused exactly when the merged items are not. Closing
  the tools of a timeline leaves none running and changes nothing else.
\<close>
lemma timeline_upserts_never_reorder:
  assumes "distinct (map ti_id current)" and "canonical_timeline current"
  shows "(\<forall>items. applyAnswerTimelineDeltas current deltas = Inr items \<longrightarrow>
      distinct (map ti_id items) \<and> prefix (map ti_id current) (map ti_id items)
      \<and> set (map ti_id items) = set (map ti_id current) \<union> ti_id ` set deltas \<and> canonical_timeline items)
    \<and> ((\<exists>err. applyAnswerTimelineDeltas current deltas = Inl err)
        \<longleftrightarrow> \<not> canonical_timeline (map snd (fold upsert_item deltas (timeline_map current))))
    \<and> (\<forall>item \<in> set (terminalizeAnswerTimelineTools Tool_failed current).
        \<forall>t. ti_kind item = Tool t \<longrightarrow> tl_state t \<noteq> Tool_running)
    \<and> map ti_id (terminalizeAnswerTimelineTools Tool_failed current) = map ti_id current"
proof -
  let ?al = "fold upsert_item deltas (timeline_map current)"
  define merged where "merged = map snd ?al"
  have keyed: "keyed ?al" using keyed_fold_upsert keyed_timeline_map by blast
  have keys: "map fst (timeline_map current) = map ti_id current" using timeline_map_distinct [OF assms(1)] by simp
  have ids: "distinct (map ti_id merged)" "prefix (map ti_id current) (map ti_id merged)"
    "set (map ti_id merged) = set (map ti_id current) \<union> ti_id ` set deltas"
    using fst_fold_upsert [of deltas "timeline_map current"] keyed
    unfolding merged_def keyed_ids [OF keyed] keys [symmetric] keyed_def by blast+
  have unchanged: "deltas = [] \<Longrightarrow> merged = current"
    using timeline_map_distinct [OF assms(1)] by (simp add: merged_def comp_def)
  have accepted: "applyAnswerTimelineDeltas current deltas = Inr merged" if "canonical_timeline merged"
    using that unchanged assertCanonicalTimelineOrder_iff [of merged]
    by (cases "deltas = []") (simp_all add: applyAnswerTimelineDeltas_def Let_def merged_def [symmetric])
  have refused: "\<exists>err. applyAnswerTimelineDeltas current deltas = Inl err" if "\<not> canonical_timeline merged"
  proof -
    have "deltas \<noteq> []" using that unchanged assms(2) by blast
    moreover obtain err where "assertCanonicalTimelineOrder merged = Inl err"
      using \<open>\<not> canonical_timeline merged\<close> assertCanonicalTimelineOrder_iff [of merged]
      by (cases "assertCanonicalTimelineOrder merged") simp_all
    ultimately show ?thesis by (simp add: applyAnswerTimelineDeltas_def Let_def merged_def [symmetric])
  qed
  have tools: "ti_id (terminalize_tool st item) = ti_id item"
    "ti_kind (terminalize_tool Tool_failed item) = Tool t \<Longrightarrow> tl_state t \<noteq> Tool_running" for st item t
    by (auto simp: terminalize_tool_def split: timeline_kind.splits if_splits)
  have "applyAnswerTimelineDeltas current deltas = Inr items \<Longrightarrow> items = merged \<and> canonical_timeline merged" for items
    using accepted refused by (cases "canonical_timeline merged") auto
  moreover have "(\<exists>err. applyAnswerTimelineDeltas current deltas = Inl err) \<longleftrightarrow> \<not> canonical_timeline merged"
    using accepted refused by auto
  moreover have "\<forall>item \<in> set (terminalizeAnswerTimelineTools Tool_failed current). \<forall>t. ti_kind item = Tool t \<longrightarrow> tl_state t \<noteq> Tool_running"
    using tools(2) by (auto simp: terminalizeAnswerTimelineTools_def)
  moreover have "map ti_id (terminalizeAnswerTimelineTools Tool_failed current) = map ti_id current"
    using tools(1) by (simp add: terminalizeAnswerTimelineTools_def)
  ultimately show ?thesis using ids unfolding merged_def by blast
qed

definition sample_item :: "ident \<Rightarrow> int \<Rightarrow> timeline_kind \<Rightarrow> AnswerTimelineItem" where
  "sample_item i n k = \<lparr>ti_id = i, ti_sequence = n, ti_canonicalPosition = Some \<lparr>laneSequence = n, itemOrdinal = 0\<rparr>, ti_kind = k\<rparr>"

end
