(* ===== verification/Current_Goal.thy ===== *)
theory Current_Goal
  imports Prelude
begin

text \<open>
  The current goal of a native session, reduced from the goal changes of its sources
  (\<^verbatim>\<open>src/src/domain/current-goal.ts\<close>).
\<close>

datatype GoalLifecycleStatus = Goal_active | Goal_paused | Goal_blocked | Goal_completed | Goal_budget_limited | Goal_usage_limited
datatype CurrentGoalStatus = Visible_active | Visible_paused | Visible_blocked
datatype GoalBlockKind = Block_explicit | Block_budget | Block_usage

record GoalChange =
  gc_goalId :: ident
  gc_objective :: string
  gc_status :: GoalLifecycleStatus
  gc_sourceUpdatedAt :: int
  gc_occurredAt :: timestamp
  gc_sourceId :: ident
  gc_sourceSequence :: int
  gc_sourceEventId :: ident
  gc_nativeSessionId :: ident

record CurrentGoal =
  cg_goalId :: ident
  cg_objective :: string
  cg_status :: CurrentGoalStatus
  cg_blockKind :: "GoalBlockKind option"
  cg_sourceUpdatedAt :: int
  cg_occurredAt :: timestamp
  cg_sourceId :: ident
  cg_sourceSequence :: int
  cg_sourceEventId :: ident
  cg_nativeSessionId :: ident

text \<open>The source excludes \<^verbatim>\<open>completed\<close> by type; its case is that of the last branch.\<close>

definition visibleStatus :: "GoalLifecycleStatus \<Rightarrow> CurrentGoalStatus" where
  "visibleStatus st = (if st = Goal_active then Visible_active else if st = Goal_paused then Visible_paused else Visible_blocked)"

definition blockKind :: "GoalLifecycleStatus \<Rightarrow> GoalBlockKind option" where
  "blockKind st =
     (if st = Goal_budget_limited then Some Block_budget
      else if st = Goal_usage_limited then Some Block_usage
      else if st = Goal_blocked then Some Block_explicit else None)"

definition isNewerGoalChange :: "CurrentGoal option \<Rightarrow> GoalChange \<Rightarrow> bool" where
  "isNewerGoalChange current c =
     (case current of
        None \<Rightarrow> gc_status c \<noteq> Goal_completed
      | Some g \<Rightarrow>
          if gc_nativeSessionId c \<noteq> cg_nativeSessionId g then False
          else if gc_sourceId c = cg_sourceId g then cg_sourceSequence g < gc_sourceSequence c
          else if gc_sourceUpdatedAt c \<noteq> cg_sourceUpdatedAt g then cg_sourceUpdatedAt g < gc_sourceUpdatedAt c
          else False)"

definition goal_of :: "GoalChange \<Rightarrow> CurrentGoal" where
  "goal_of c = \<lparr>cg_goalId = gc_goalId c, cg_objective = gc_objective c, cg_status = visibleStatus (gc_status c),
     cg_blockKind = blockKind (gc_status c), cg_sourceUpdatedAt = gc_sourceUpdatedAt c, cg_occurredAt = gc_occurredAt c,
     cg_sourceId = gc_sourceId c, cg_sourceSequence = gc_sourceSequence c, cg_sourceEventId = gc_sourceEventId c,
     cg_nativeSessionId = gc_nativeSessionId c\<rparr>"

definition reduceCurrentGoal :: "GoalChange \<Rightarrow> CurrentGoal option \<Rightarrow> CurrentGoal option" where
  "reduceCurrentGoal c current =
     (if \<not> isNewerGoalChange current c then current
      else if gc_status c = Goal_completed then
        (if map_option cg_goalId current = Some (gc_goalId c) then None else current)
      else Some (goal_of c))"

definition sameCurrentGoal :: "CurrentGoal option \<Rightarrow> CurrentGoal option \<Rightarrow> bool" where
  "sameCurrentGoal left right =
     (case (left, right) of
        (None, None) \<Rightarrow> True
      | (Some l, Some r) \<Rightarrow>
          cg_goalId l = cg_goalId r \<and> cg_objective l = cg_objective r \<and> cg_status l = cg_status r
          \<and> cg_blockKind l = cg_blockKind r \<and> cg_sourceUpdatedAt l = cg_sourceUpdatedAt r \<and> cg_occurredAt l = cg_occurredAt r
          \<and> cg_sourceId l = cg_sourceId r \<and> cg_sourceSequence l = cg_sourceSequence r
          \<and> cg_sourceEventId l = cg_sourceEventId r \<and> cg_nativeSessionId l = cg_nativeSessionId r
      | _ \<Rightarrow> False)"

lemma sameCurrentGoal_eq [simp]: "sameCurrentGoal left right \<longleftrightarrow> left = right"
  by (cases left; cases right) (auto simp: sameCurrentGoal_def intro: CurrentGoal.equality)

subsection \<open>The goal a history leaves\<close>

text \<open>The reference: the last change that is not a completion, unless its goal is completed after it.\<close>

definition last_open_goal :: "GoalChange list \<Rightarrow> CurrentGoal option" where
  "last_open_goal cs =
     (case dropWhile (\<lambda>c. gc_status c = Goal_completed) (rev cs) of
        [] \<Rightarrow> None
      | c # _ \<Rightarrow>
          if gc_goalId c \<in> gc_goalId ` set (takeWhile (\<lambda>c. gc_status c = Goal_completed) (rev cs)) then None
          else Some (goal_of c))"

definition one_source :: "GoalChange list \<Rightarrow> bool" where
  "one_source cs \<longleftrightarrow> (\<exists>session source. \<forall>c \<in> set cs. gc_nativeSessionId c = session \<and> gc_sourceId c = source)"

lemma goal_of_simps [simp]:
  "cg_goalId (goal_of c) = gc_goalId c" "cg_nativeSessionId (goal_of c) = gc_nativeSessionId c"
  "cg_sourceId (goal_of c) = gc_sourceId c" "cg_sourceSequence (goal_of c) = gc_sourceSequence c"
  by (simp_all add: goal_of_def)

lemma last_open_goal_cases:
  assumes "last_open_goal cs = Some g"
  shows "\<exists>c \<in> set cs. g = goal_of c"
proof -
  obtain c ds where "dropWhile (\<lambda>c. gc_status c = Goal_completed) (rev cs) = c # ds" and g: "g = goal_of c"
    using assms by (auto simp: last_open_goal_def split: list.splits if_splits)
  then have "c \<in> set cs" using set_dropWhileD [of c "\<lambda>c. gc_status c = Goal_completed" "rev cs"] by simp
  with g show ?thesis by blast
qed

lemma last_open_goal_snoc:
  "last_open_goal (cs @ [c]) =
     (if gc_status c \<noteq> Goal_completed then Some (goal_of c)
      else if map_option cg_goalId (last_open_goal cs) = Some (gc_goalId c) then None else last_open_goal cs)"
  by (cases "dropWhile (\<lambda>c. gc_status c = Goal_completed) (rev cs)") (auto simp: last_open_goal_def simp del: dropWhile_eq_Nil_conv)

text \<open>
  The changes of one source, read in the order of their sequence numbers, leave exactly
  the last goal that was reported active, paused or blocked, unless that goal was
  completed afterwards; completions of other goals are ignored. Against a goal already
  held, a change of another native session, one the same source numbered no later, and one
  another source stamped no later change nothing.
\<close>
lemma goal_is_the_last_open_change:
  "(one_source cs \<and> sorted_wrt (\<lambda>a b. gc_sourceSequence a < gc_sourceSequence b) cs \<longrightarrow>
      fold reduceCurrentGoal cs None = last_open_goal cs)
   \<and> (gc_nativeSessionId c \<noteq> cg_nativeSessionId g
        \<or> gc_sourceId c = cg_sourceId g \<and> gc_sourceSequence c \<le> cg_sourceSequence g
        \<or> gc_sourceId c \<noteq> cg_sourceId g \<and> gc_sourceUpdatedAt c \<le> cg_sourceUpdatedAt g \<longrightarrow>
      reduceCurrentGoal c (Some g) = Some g)"
proof
  show "one_source cs \<and> sorted_wrt (\<lambda>a b. gc_sourceSequence a < gc_sourceSequence b) cs \<longrightarrow>
      fold reduceCurrentGoal cs None = last_open_goal cs"
  proof (induction cs rule: rev_induct)
    case Nil
    then show ?case by (simp add: last_open_goal_def)
  next
    case (snoc c cs)
    show ?case
    proof (intro impI, elim conjE)
      assume one: "one_source (cs @ [c])" and sorted: "sorted_wrt (\<lambda>a b. gc_sourceSequence a < gc_sourceSequence b) (cs @ [c])"
      have "one_source cs" using one by (auto simp: one_source_def)
      with snoc sorted have IH: "fold reduceCurrentGoal cs None = last_open_goal cs" by (simp add: sorted_wrt_append)
      show "fold reduceCurrentGoal (cs @ [c]) None = last_open_goal (cs @ [c])"
      proof (cases "last_open_goal cs")
        case None
        then show ?thesis by (simp add: IH last_open_goal_snoc reduceCurrentGoal_def isNewerGoalChange_def)
      next
        case (Some g)
        then obtain d where "d \<in> set cs" "g = goal_of d" using last_open_goal_cases by blast
        then have "isNewerGoalChange (Some g) c"
          using one sorted by (auto simp: isNewerGoalChange_def one_source_def sorted_wrt_append)
        with Some show ?thesis by (simp add: IH last_open_goal_snoc reduceCurrentGoal_def)
      qed
    qed
  qed
  show "gc_nativeSessionId c \<noteq> cg_nativeSessionId g
        \<or> gc_sourceId c = cg_sourceId g \<and> gc_sourceSequence c \<le> cg_sourceSequence g
        \<or> gc_sourceId c \<noteq> cg_sourceId g \<and> gc_sourceUpdatedAt c \<le> cg_sourceUpdatedAt g \<longrightarrow>
      reduceCurrentGoal c (Some g) = Some g"
    by (auto simp: reduceCurrentGoal_def isNewerGoalChange_def)
qed

end
