(* ===== verification/Versioned_View.thy ===== *)
theory Versioned_View
  imports Prelude
begin

text \<open>
  The contract the view reducers share. A reducer takes a change and a view to a new view or
  refuses the change; a change that alters what the card shows raises the view's version by
  one, any other leaves the version and what is shown alone. The delivery side relies on it:
  a version it has delivered stands for one presentation. The locale proves this once from
  the two laws; the run card, the worker turn card, the worker main card and the topic view
  interpret it.
\<close>

locale versioned_reducer =
  fixes reduce :: "'c \<Rightarrow> 'v \<Rightarrow> ('e, 'v) result"
    and version :: "'v \<Rightarrow> int"
    and shown :: "'v \<Rightarrow> 'p"
    and wf :: "'v \<Rightarrow> bool"
  assumes reduce_wf: "wf v \<Longrightarrow> reduce c v = Inr v' \<Longrightarrow> wf v'"
    and reduce_version: "wf v \<Longrightarrow> reduce c v = Inr v' \<Longrightarrow>
      version v' = version v \<and> shown v' = shown v \<or> version v' = version v + 1"
begin

text \<open>A run of changes; a refused change leaves the view as it was.\<close>

definition apply_change :: "'c \<Rightarrow> 'v \<Rightarrow> 'v" where
  "apply_change c v = (case reduce c v of Inl _ \<Rightarrow> v | Inr v' \<Rightarrow> v')"

definition run :: "'c list \<Rightarrow> 'v \<Rightarrow> 'v" where
  "run cs v = fold apply_change cs v"

lemma apply_change_cases:
  assumes "wf v"
  shows "wf (apply_change c v) \<and> (version (apply_change c v) = version v \<and> shown (apply_change c v) = shown v
     \<or> version (apply_change c v) = version v + 1)"
  using reduce_wf [OF assms] reduce_version [OF assms] by (auto simp: apply_change_def assms split: sum.splits)

lemma run_simps [simp]: "run [] v = v" "run (c # cs) v = run cs (apply_change c v)"
  by (simp_all add: run_def)

lemma run_append: "run (cs @ ds) v = run ds (run cs v)"
  by (simp add: run_def)

lemma run_wf: "wf v \<Longrightarrow> wf (run cs v)"
  by (induction cs arbitrary: v) (simp_all add: apply_change_cases)

lemma run_version: "wf v \<Longrightarrow> version v \<le> version (run cs v) \<and> version (run cs v) \<le> version v + int (length cs)"
proof (induction cs arbitrary: v)
  case (Cons c cs)
  have step: "wf (apply_change c v)" "version v \<le> version (apply_change c v)" "version (apply_change c v) \<le> version v + 1"
    using apply_change_cases [OF Cons.prems, of c] by auto
  from Cons.IH [OF step(1)] step(2,3) show ?case by simp
qed simp

lemma version_identifies_view:
  "wf v \<Longrightarrow> version (run cs v) = version v \<Longrightarrow> shown (run cs v) = shown v"
proof (induction cs arbitrary: v)
  case (Cons c cs)
  have step: "wf (apply_change c v)" using apply_change_cases [OF Cons.prems(1), of c] by blast
  have "version (apply_change c v) \<le> version (run cs (apply_change c v))"
    using run_version [OF step] by blast
  with Cons.prems apply_change_cases [OF Cons.prems(1), of c]
  have same: "version (apply_change c v) = version v" "shown (apply_change c v) = shown v" by auto
  with Cons.IH [OF step] Cons.prems(2) show ?case by simp
qed simp

text \<open>Two moments of one run that show the same version show the same card.\<close>

lemma same_version_same_view:
  assumes "wf v" and "version (run (cs @ ds) v) = version (run cs v)"
  shows "shown (run (cs @ ds) v) = shown (run cs v)"
  using version_identifies_view [OF run_wf [OF assms(1)], of ds cs] assms(2) by (simp add: run_append)

end

end
