(* ===== verification/Run_Card.thy ===== *)
theory Run_Card
  imports Answer_Timeline Current_Goal Transition_System Versioned_View "HOL-Library.Multiset"
begin

text \<open>
  The view behind a run card (\<^verbatim>\<open>src/src/domain/run-card-view.ts\<close>): the view of a queued
  prompt, the reducer over its changes, the recent progress with its running summary, and
  the answer kept as committed segments and a draft. A stored view of an older release has
  no segments or draft; these two fields are options. The digest behind an element id is a
  parameter, the first twelve digits of the SHA-256 of a text. A worker's activity summary
  is compared as a whole and never read; its type is a parameter.
\<close>

datatype RunCardPhase = Queued | Submitted | Running | Recovering | Uncertain | Blocked | Completed | RunFailed
datatype ProgressEventKind = Kind_analyze | Kind_search | Kind_read | Kind_edit | Kind_command | Kind_test | Kind_skill
  | Kind_tool | Kind_step
datatype ProgressEventState = Progress_pending | Progress_active | Progress_done | Progress_failed
datatype AgentKind = Agent_pi | Agent_claude_code | Agent_codex | Agent_traex

record RunProgressEvent =
  pe_key :: ident
  pe_kind :: ProgressEventKind
  pe_label :: js_text
  pe_state :: ProgressEventState
  pe_occurredAt :: timestamp

record RunProgressSummary =
  ps_total :: int
  ps_stepTotal :: int
  ps_stepDone :: int

definition EMPTY_PROGRESS_SUMMARY :: RunProgressSummary where
  "EMPTY_PROGRESS_SUMMARY = \<lparr>ps_total = 0, ps_stepTotal = 0, ps_stepDone = 0\<rparr>"

definition RECENT_PROGRESS_LIMIT :: nat where
  "RECENT_PROGRESS_LIMIT = 8"

record QueueWaitFeedback =
  qf_aheadCount :: int
  qf_activeElapsedSeconds :: "int option"
  qf_estimateLowerSeconds :: "int option"
  qf_estimateUpperSeconds :: "int option"
  qf_sampleCount :: int
  qf_elapsedBucket :: "int option"

record 'w RunCardView =
  rc_promptId :: ident
  rc_bindingId :: ident
  rc_bindingGeneration :: int
  rc_conversionParentPromptId :: "ident option"
  rc_larkMessageId :: "ident option"
  rc_answerMessageId :: "ident option"
  rc_answerCardId :: "ident option"
  rc_answerElementId :: string
  rc_answerSequence :: int
  rc_answerPageIndex :: int
  rc_answerPageStart :: int
  rc_phase :: RunCardPhase
  rc_title :: js_text
  rc_agentKind :: AgentKind
  rc_sessionTitle :: "js_text option"
  rc_requestText :: js_text
  rc_replyContext :: "js_text option"
  rc_workspaceId :: ident
  rc_spaceName :: js_text
  rc_paneId :: "ident option"
  rc_paneToken :: "ident option"
  rc_answer :: js_text
  rc_answerSegments :: "js_text list option"
  rc_answerDraft :: "js_text option"
  rc_answerDraftTransient :: bool
  rc_timelineItems :: "AnswerTimelineItem list"
  rc_progressEvents :: "RunProgressEvent list"
  rc_taskList :: "RunProgressEvent list"
  rc_taskListTitle :: "js_text option"
  rc_currentGoal :: "CurrentGoal option"
  rc_progressSummary :: RunProgressSummary
  rc_queuePosition :: int
  rc_queueFeedback :: "QueueWaitFeedback option"
  rc_startedAt :: "timestamp option"
  rc_finishedAt :: "timestamp option"
  rc_notice :: "js_text option"
  rc_workerActivity :: "'w list"
  rc_workerDependencyRevision :: int
  rc_workerContextFrozenAt :: "timestamp option"
  rc_activityAt :: timestamp
  rc_viewVersion :: int
  rc_deliveredVersion :: int
  rc_answerDeliveredVersion :: int
  rc_createdAt :: timestamp
  rc_updatedAt :: timestamp

datatype answer_update = Update_append | Update_replace | Update_replace_status | Update_replace_all

record display_context =
  dc_sessionTitle :: js_text
  dc_agentKind :: AgentKind
  dc_spaceName :: js_text
  dc_paneToken :: "ident option"

record output_change =
  oc_answerSnapshot :: js_text
  oc_answerUpdate :: "answer_update option"
  oc_progressEvents :: "RunProgressEvent list"
  oc_taskList :: "RunProgressEvent list option"
  oc_taskListTitle :: "js_text option option"
  oc_timelineDeltas :: "AnswerTimelineItem list option"
  oc_hasProgressSnapshot :: bool

datatype RunCardChange =
    Display_context_refreshed display_context
  | Pane_token_refreshed ident
  | Queue_position int
  | Queue_feedback "QueueWaitFeedback option"
  | Change_submitted
  | Change_started
  | Change_recovering js_text
  | Change_uncertain js_text
  | Change_blocked js_text
  | Goal_snapshot "CurrentGoal option"
  | Output output_change
  | Change_completed js_text bool
  | Change_failed js_text

subsection \<open>A queued prompt\<close>

definition js_trim :: "js_text \<Rightarrow> js_text" where
  "js_trim s = trimEnd (dropWhile space_unit s)"

definition element_char :: "char \<Rightarrow> bool" where
  "element_char c = (let n = of_char c :: nat in
     (97 \<le> n \<and> n \<le> 122) \<or> (65 \<le> n \<and> n \<le> 90) \<or> (48 \<le> n \<and> n \<le> 57) \<or> n = 95)"

definition letter_char :: "char \<Rightarrow> bool" where
  "letter_char c = (let n = of_char c :: nat in (97 \<le> n \<and> n \<le> 122) \<or> (65 \<le> n \<and> n \<le> 90))"

definition MAX_ELEMENT_ID_LENGTH :: nat where
  "MAX_ELEMENT_ID_LENGTH = 20"

definition stableElementId :: "(string \<Rightarrow> string) \<Rightarrow> string \<Rightarrow> string" where
  "stableElementId digest12 v =
     (let normalized = map (\<lambda>c. if element_char c then c else CHR ''_'') v;
          prefixed = (case normalized of
             c # _ \<Rightarrow> if letter_char c then normalized else ''element_'' @ normalized
           | [] \<Rightarrow> ''element_'' @ normalized)
      in if length prefixed \<le> MAX_ELEMENT_ID_LENGTH then prefixed else ''element_'' @ digest12 v)"

fun decimal_text :: "nat \<Rightarrow> string" where
  "decimal_text n = (if n < 10 then [char_of (48 + n)] else decimal_text (n div 10) @ [char_of (48 + n mod 10)])"

declare decimal_text.simps [simp del]

definition answerElementId :: "(string \<Rightarrow> string) \<Rightarrow> ident \<Rightarrow> nat \<Rightarrow> string" where
  "answerElementId digest12 promptId pageIndex =
     stableElementId digest12 (''answer-content-'' @ promptId @ ''-'' @ decimal_text pageIndex)"

record CreateQueuedRunCardInput =
  cr_promptId :: ident
  cr_bindingId :: ident
  cr_bindingGeneration :: "int option"
  cr_sessionTitle :: "js_text option"
  cr_agentKind :: "AgentKind option"
  cr_workspaceId :: ident
  cr_spaceName :: "js_text option"
  cr_paneId :: "ident option"
  cr_paneToken :: "ident option"
  cr_title :: js_text
  cr_requestText :: js_text
  cr_replyContext :: "js_text option"
  cr_queuePosition :: int
  cr_occurredAt :: timestamp
  cr_conversionParentPromptId :: "ident option"
  cr_currentGoal :: "CurrentGoal option"

definition createQueuedRunCard :: "(string \<Rightarrow> string) \<Rightarrow> CreateQueuedRunCardInput \<Rightarrow> 'w RunCardView" where
  "createQueuedRunCard digest12 i =
     (let space = js_trim (opt_or (cr_spaceName i) []) in
      \<lparr>rc_promptId = cr_promptId i, rc_bindingId = cr_bindingId i, rc_bindingGeneration = opt_or (cr_bindingGeneration i) 1,
       rc_conversionParentPromptId = cr_conversionParentPromptId i, rc_larkMessageId = None, rc_answerMessageId = None,
       rc_answerCardId = None, rc_answerElementId = answerElementId digest12 (cr_promptId i) 0,
       rc_answerSequence = 0, rc_answerPageIndex = 0, rc_answerPageStart = 0, rc_phase = Queued, rc_title = cr_title i,
       rc_agentKind = opt_or (cr_agentKind i) Agent_traex, rc_sessionTitle = cr_sessionTitle i, rc_requestText = cr_requestText i,
       rc_replyContext = cr_replyContext i, rc_workspaceId = cr_workspaceId i,
       rc_spaceName = (if space = [] then units ''legacy/unresolved'' else space),
       rc_paneId = cr_paneId i, rc_paneToken = cr_paneToken i, rc_answer = [], rc_answerSegments = Some [],
       rc_answerDraft = Some [], rc_answerDraftTransient = False, rc_timelineItems = [], rc_progressEvents = [],
       rc_taskList = [], rc_taskListTitle = None, rc_currentGoal = cr_currentGoal i,
       rc_progressSummary = EMPTY_PROGRESS_SUMMARY, rc_queuePosition = cr_queuePosition i, rc_queueFeedback = None,
       rc_startedAt = None, rc_finishedAt = None, rc_notice = None, rc_workerActivity = [], rc_workerDependencyRevision = 0,
       rc_workerContextFrozenAt = None, rc_activityAt = cr_occurredAt i, rc_viewVersion = 1, rc_deliveredVersion = 0,
       rc_answerDeliveredVersion = 0, rc_createdAt = cr_occurredAt i, rc_updatedAt = cr_occurredAt i\<rparr>)"

definition updateRunCardWorkerContext :: "'w list \<Rightarrow> int \<Rightarrow> timestamp \<Rightarrow> 'w RunCardView \<Rightarrow> 'w RunCardView" where
  "updateRunCardWorkerContext activity dependencyRevision occurredAt v =
     (if rc_workerContextFrozenAt v \<noteq> None then v
      else if rc_workerActivity v = activity then
        (if rc_workerDependencyRevision v = dependencyRevision then v
         else v\<lparr>rc_workerDependencyRevision := dependencyRevision, rc_updatedAt := occurredAt\<rparr>)
      else v\<lparr>rc_workerActivity := activity, rc_workerDependencyRevision := dependencyRevision,
             rc_viewVersion := rc_viewVersion v + 1, rc_updatedAt := occurredAt\<rparr>)"

definition freezeRunCardWorkerContext :: "timestamp \<Rightarrow> 'w RunCardView \<Rightarrow> 'w RunCardView" where
  "freezeRunCardWorkerContext occurredAt v =
     (if rc_workerContextFrozenAt v = None then v\<lparr>rc_workerContextFrozenAt := Some occurredAt, rc_updatedAt := occurredAt\<rparr> else v)"

subsection \<open>Progress\<close>

definition recent :: "'a list \<Rightarrow> 'a list" where
  "recent xs = drop (length xs - RECENT_PROGRESS_LIMIT) xs"

definition summarizeProgress :: "RunProgressEvent list \<Rightarrow> RunProgressSummary" where
  "summarizeProgress events = \<lparr>ps_total = int (length events),
     ps_stepTotal = int (length (filter (\<lambda>e. pe_kind e = Kind_step) events)),
     ps_stepDone = int (length (filter (\<lambda>e. pe_kind e = Kind_step \<and> pe_state e = Progress_done) events))\<rparr>"

definition latest_events :: "RunProgressEvent list \<Rightarrow> (ident \<times> RunProgressEvent) list" where
  "latest_events events = fold (\<lambda>e al. AList.delete (pe_key e) al @ [(pe_key e, e)]) events []"

definition progressSnapshot :: "RunProgressEvent list \<Rightarrow> RunProgressEvent list \<times> RunProgressSummary" where
  "progressSnapshot events = (let everything = map snd (latest_events events) in (recent everything, summarizeProgress everything))"

definition step_done_change :: "RunProgressEvent \<Rightarrow> RunProgressEvent \<Rightarrow> int" where
  "step_done_change previous e =
     (if pe_kind previous = Kind_step \<and> pe_state previous = Progress_done \<and> pe_state e \<noteq> Progress_done then - 1
      else if pe_kind previous = Kind_step \<and> pe_state previous \<noteq> Progress_done \<and> pe_state e = Progress_done then 1 else 0)"

fun replace_event :: "RunProgressEvent \<Rightarrow> RunProgressEvent list \<Rightarrow> RunProgressEvent list" where
  "replace_event e [] = []"
| "replace_event e (x # xs) = (if pe_key x = pe_key e then e # xs else x # replace_event e xs)"

definition merge_event :: "RunProgressEvent \<Rightarrow> RunProgressEvent list \<times> RunProgressSummary \<Rightarrow> RunProgressEvent list \<times> RunProgressSummary" where
  "merge_event e = (\<lambda>(events, summary).
     case find (\<lambda>x. pe_key x = pe_key e) events of
       Some previous \<Rightarrow> (replace_event e events, summary\<lparr>ps_stepDone := ps_stepDone summary + step_done_change previous e\<rparr>)
     | None \<Rightarrow> (events @ [e], summary\<lparr>ps_total := ps_total summary + 1,
         ps_stepTotal := ps_stepTotal summary + (if pe_kind e = Kind_step then 1 else 0),
         ps_stepDone := ps_stepDone summary + (if pe_kind e = Kind_step \<and> pe_state e = Progress_done then 1 else 0)\<rparr>))"

definition mergeRecentProgress :: "RunProgressEvent list \<Rightarrow> RunProgressSummary \<Rightarrow> RunProgressEvent list
    \<Rightarrow> RunProgressEvent list \<times> RunProgressSummary" where
  "mergeRecentProgress current summary updates =
     (if updates = [] then (current, summary)
      else let (events, nxt) = fold merge_event updates (current, summary) in (recent events, nxt))"

definition sameProgress :: "RunProgressEvent list \<Rightarrow> RunProgressEvent list \<Rightarrow> bool" where
  "sameProgress left right = list_all2 (\<lambda>a b. pe_key a = pe_key b \<and> pe_kind a = pe_kind b \<and> pe_label a = pe_label b
     \<and> pe_state a = pe_state b) left right"

definition sameProgressSummary :: "RunProgressSummary \<Rightarrow> RunProgressSummary \<Rightarrow> bool" where
  "sameProgressSummary left right \<longleftrightarrow> ps_total left = ps_total right \<and> ps_stepTotal left = ps_stepTotal right
     \<and> ps_stepDone left = ps_stepDone right"

definition sameQueueFeedback :: "QueueWaitFeedback option \<Rightarrow> QueueWaitFeedback option \<Rightarrow> bool" where
  "sameQueueFeedback left right =
     (case (left, right) of
        (None, None) \<Rightarrow> True
      | (Some l, Some r) \<Rightarrow> qf_aheadCount l = qf_aheadCount r \<and> qf_activeElapsedSeconds l = qf_activeElapsedSeconds r
          \<and> qf_estimateLowerSeconds l = qf_estimateLowerSeconds r \<and> qf_estimateUpperSeconds l = qf_estimateUpperSeconds r
          \<and> qf_sampleCount l = qf_sampleCount r \<and> qf_elapsedBucket l = qf_elapsedBucket r
      | _ \<Rightarrow> False)"

subsection \<open>The answer\<close>

record AnswerParts =
  ap_segments :: "js_text list"
  ap_draft :: js_text
  ap_transient :: bool

definition answerParts :: "'w RunCardView \<Rightarrow> AnswerParts" where
  "answerParts v =
     (case (rc_answerSegments v, rc_answerDraft v) of
        (Some segments, Some draft) \<Rightarrow> \<lparr>ap_segments = segments, ap_draft = draft, ap_transient = rc_answerDraftTransient v\<rparr>
      | _ \<Rightarrow> \<lparr>ap_segments = (if js_trim (rc_answer v) \<noteq> [] then [js_trim (rc_answer v)] else []), ap_draft = [], ap_transient = False\<rparr>)"

definition commitSegment :: "js_text list \<Rightarrow> js_text \<Rightarrow> js_text list" where
  "commitSegment segments segment =
     (let value = js_trim segment in if value = [] \<or> list_last segments = Some value then segments else segments @ [value])"

definition renderAnswer :: "js_text list \<Rightarrow> js_text \<Rightarrow> js_text" where
  "renderAnswer segments draft = joined (nonempty_fragments (segments @ [js_trim draft]))"

definition reduceAnswerSnapshot :: "'w RunCardView \<Rightarrow> js_text \<Rightarrow> answer_update \<Rightarrow> AnswerParts" where
  "reduceAnswerSnapshot v snapshot update =
     (let current = answerParts v;
          nxt = js_trim snapshot;
          committed = (if ap_transient current then ap_segments current else commitSegment (ap_segments current) (ap_draft current))
      in if nxt = [] then current
         else case update of
           Update_replace_all \<Rightarrow> \<lparr>ap_segments = [], ap_draft = nxt, ap_transient = False\<rparr>
         | Update_replace_status \<Rightarrow> \<lparr>ap_segments = committed, ap_draft = nxt, ap_transient = True\<rparr>
         | Update_replace \<Rightarrow> current\<lparr>ap_draft := nxt, ap_transient := False\<rparr>
         | Update_append \<Rightarrow> \<lparr>ap_segments = committed, ap_draft = nxt, ap_transient = False\<rparr>)"

definition completeAnswer :: "'w RunCardView \<Rightarrow> js_text \<Rightarrow> bool \<Rightarrow> js_text \<times> AnswerParts" where
  "completeAnswer v finalAnswer replace =
     (let current = answerParts v;
          finalValue = js_trim finalAnswer;
          draft = js_trim (ap_draft current);
          kept = (if \<not> ap_transient current \<and> draft \<noteq> [] \<and> \<not> prefix draft finalValue
                  then commitSegment (ap_segments current) draft else ap_segments current);
          segments = commitSegment kept (if finalValue \<noteq> [] then finalValue else draft)
      in if finalValue = js_trim (rc_answer v) then (rc_answer v, current)
         else if replace then (finalValue, \<lparr>ap_segments = (if finalValue \<noteq> [] then [finalValue] else []), ap_draft = [], ap_transient = False\<rparr>)
         else (renderAnswer segments [], \<lparr>ap_segments = segments, ap_draft = [], ap_transient = False\<rparr>))"

definition set_answer :: "js_text \<Rightarrow> AnswerParts \<Rightarrow> 'w RunCardView \<Rightarrow> 'w RunCardView" where
  "set_answer answer parts v = v\<lparr>rc_answer := answer, rc_answerSegments := Some (ap_segments parts),
     rc_answerDraft := Some (ap_draft parts), rc_answerDraftTransient := ap_transient parts\<rparr>"

subsection \<open>The reducer\<close>

text \<open>
  The patch a change makes: \<open>None\<close> when the source returns the state itself. Only an output
  can throw, from the check of the timeline.
\<close>

definition output_patch :: "output_change \<Rightarrow> 'w RunCardView \<Rightarrow> (timeline_error, 'w RunCardView option) result" where
  "output_patch c v =
     (let parts = reduceAnswerSnapshot v (oc_answerSnapshot c) (opt_or (oc_answerUpdate c) Update_replace);
          answer = renderAnswer (ap_segments parts) (ap_draft parts)
      in case applyAnswerTimelineDeltas (rc_timelineItems v) (opt_or (oc_timelineDeltas c) []) of
           Inl err \<Rightarrow> Inl err
         | Inr timelineItems \<Rightarrow>
             let taskList = (case oc_taskList c of None \<Rightarrow> rc_taskList v | Some tasks \<Rightarrow> fst (progressSnapshot tasks));
                 taskListTitle = opt_or (oc_taskListTitle c) (rc_taskListTitle v);
                 (events, summary) = (if oc_hasProgressSnapshot c then progressSnapshot (oc_progressEvents c)
                   else mergeRecentProgress (rc_progressEvents v) (rc_progressSummary v) (oc_progressEvents c))
             in if answer = rc_answer v \<and> sameAnswerTimeline timelineItems (rc_timelineItems v)
                   \<and> sameProgress events (rc_progressEvents v) \<and> sameProgressSummary summary (rc_progressSummary v)
                   \<and> sameProgress taskList (rc_taskList v) \<and> taskListTitle = rc_taskListTitle v
                then Inr None
                else Inr (Some ((set_answer answer parts v)\<lparr>rc_timelineItems := timelineItems, rc_progressEvents := events,
                       rc_progressSummary := summary, rc_taskList := taskList, rc_taskListTitle := taskListTitle\<rparr>)))"

definition close_tools :: "'w RunCardView \<Rightarrow> AnswerTimelineItem list" where
  "close_tools v = terminalizeAnswerTimelineTools Tool_failed (rc_timelineItems v)"

fun run_card_patch :: "timestamp \<Rightarrow> RunCardChange \<Rightarrow> 'w RunCardView \<Rightarrow> (timeline_error, 'w RunCardView option) result" where
  "run_card_patch t (Display_context_refreshed d) v =
     Inr (if rc_sessionTitle v = Some (dc_sessionTitle d) \<and> rc_agentKind v = dc_agentKind d \<and> rc_spaceName v = dc_spaceName d
             \<and> rc_paneToken v = dc_paneToken d then None
          else Some (v\<lparr>rc_sessionTitle := Some (dc_sessionTitle d), rc_agentKind := dc_agentKind d, rc_spaceName := dc_spaceName d,
                 rc_paneToken := dc_paneToken d\<rparr>))"
| "run_card_patch t (Pane_token_refreshed token) v =
     Inr (if rc_paneToken v = Some token then None else Some (v\<lparr>rc_paneToken := Some token\<rparr>))"
| "run_card_patch t (Queue_position n) v = Inr (if rc_queuePosition v = n then None else Some (v\<lparr>rc_queuePosition := n\<rparr>))"
| "run_card_patch t (Queue_feedback fb) v =
     Inr (if sameQueueFeedback (rc_queueFeedback v) fb then None else Some (v\<lparr>rc_queueFeedback := fb\<rparr>))"
| "run_card_patch t Change_submitted v =
     Inr (if rc_phase v = Submitted \<and> rc_notice v = None then None
          else Some (v\<lparr>rc_phase := Submitted, rc_queuePosition := 0, rc_notice := None\<rparr>))"
| "run_card_patch t Change_started v =
     Inr (if rc_phase v = Running \<and> rc_notice v = None then None
          else Some (v\<lparr>rc_phase := Running, rc_startedAt := Some (opt_or (rc_startedAt v) t), rc_notice := None\<rparr>))"
| "run_card_patch t (Change_recovering n) v =
     Inr (if rc_phase v = Recovering \<and> rc_notice v = Some n then None
          else Some (v\<lparr>rc_phase := Recovering, rc_queuePosition := 0, rc_finishedAt := None, rc_notice := Some n\<rparr>))"
| "run_card_patch t (Change_uncertain n) v =
     Inr (if rc_phase v = Uncertain \<and> rc_notice v = Some n then None
          else Some (v\<lparr>rc_phase := Uncertain, rc_timelineItems := close_tools v, rc_finishedAt := Some t, rc_queuePosition := 0,
                 rc_notice := Some n\<rparr>))"
| "run_card_patch t (Change_blocked n) v =
     Inr (if rc_phase v = Blocked \<and> rc_notice v = Some n then None else Some (v\<lparr>rc_phase := Blocked, rc_notice := Some n\<rparr>))"
| "run_card_patch t (Goal_snapshot g) v =
     Inr (if sameCurrentGoal (rc_currentGoal v) g then None else Some (v\<lparr>rc_currentGoal := g\<rparr>))"
| "run_card_patch t (Output c) v = output_patch c v"
| "run_card_patch t (Change_completed answer replace) v =
     Inr (if rc_phase v = Completed \<and> js_trim (rc_answer v) = js_trim answer \<and> sameAnswerTimeline (close_tools v) (rc_timelineItems v)
          then None
          else let (final, parts) = completeAnswer v answer replace
               in Some ((set_answer final parts v)\<lparr>rc_phase := Completed, rc_timelineItems := close_tools v,
                    rc_finishedAt := Some t, rc_queuePosition := 0, rc_notice := None\<rparr>))"
| "run_card_patch t (Change_failed n) v =
     Inr (if rc_phase v = RunFailed \<and> rc_notice v = Some n then None
          else Some (v\<lparr>rc_phase := RunFailed, rc_timelineItems := close_tools v, rc_finishedAt := Some t, rc_queuePosition := 0,
                 rc_notice := Some n\<rparr>))"

definition quiet_change :: "RunCardChange \<Rightarrow> bool" where
  "quiet_change c = (case c of Display_context_refreshed _ \<Rightarrow> True | Pane_token_refreshed _ \<Rightarrow> True | Queue_position _ \<Rightarrow> True
     | Queue_feedback _ \<Rightarrow> True | Goal_snapshot _ \<Rightarrow> True | _ \<Rightarrow> False)"

definition reduceRunCard :: "timestamp \<Rightarrow> RunCardChange \<Rightarrow> 'w RunCardView \<Rightarrow> (timeline_error, 'w RunCardView) result" where
  "reduceRunCard occurredAt c v =
     (case run_card_patch occurredAt c v of
        Inl err \<Rightarrow> Inl err
      | Inr None \<Rightarrow> Inr v
      | Inr (Some patched) \<Rightarrow> Inr (patched\<lparr>rc_activityAt := if quiet_change c then rc_activityAt v else occurredAt,
          rc_viewVersion := rc_viewVersion v + 1, rc_updatedAt := occurredAt\<rparr>))"

subsection \<open>The running summary is the summary of all events\<close>

definition keyed_events :: "RunProgressEvent list \<Rightarrow> (ident \<times> RunProgressEvent) list" where
  "keyed_events events = map (\<lambda>e. (pe_key e, e)) events"

lemma fst_keyed_events [simp]: "map fst (keyed_events events) = map pe_key events"
  by (simp add: keyed_events_def)

definition put_event :: "RunProgressEvent \<Rightarrow> RunProgressEvent list \<Rightarrow> RunProgressEvent list" where
  "put_event e events = (if pe_key e \<in> pe_key ` set events then replace_event e events else events @ [e])"

lemma keyed_put_event: "keyed_events (put_event e events) = AList.update (pe_key e) e (keyed_events events)"
  by (induction events) (auto simp: put_event_def keyed_events_def)

lemma put_event_keys:
  "distinct (map pe_key events) \<Longrightarrow> distinct (map pe_key (put_event e events))"
  using distinct_update [of "keyed_events events" "pe_key e" e] by (simp add: keyed_put_event [symmetric])

lemma set_put_event_keys: "pe_key ` set (put_event e events) = insert (pe_key e) (pe_key ` set events)"
proof -
  have "set (map fst (keyed_events (put_event e events))) = insert (pe_key e) (set (map fst (keyed_events events)))"
    unfolding keyed_put_event update_keys by auto
  then show ?thesis by simp
qed

lemma replace_event_split:
  "pe_key p = pe_key e \<Longrightarrow> pe_key e \<notin> pe_key ` set xs \<Longrightarrow> replace_event e (xs @ p # ys) = xs @ e # ys"
  by (induction xs) auto

text \<open>The kind of an event is part of its identity: an update of a key never changes it.\<close>

definition kinds_stable :: "RunProgressEvent set \<Rightarrow> bool" where
  "kinds_stable es \<longleftrightarrow> (\<forall>e \<in> es. \<forall>f \<in> es. pe_key e = pe_key f \<longrightarrow> pe_kind e = pe_kind f)"

lemma kinds_stable_mono: "kinds_stable fs \<Longrightarrow> es \<subseteq> fs \<Longrightarrow> kinds_stable es"
  unfolding kinds_stable_def by blast

lemma kinds_stableD: "kinds_stable es \<Longrightarrow> e \<in> es \<Longrightarrow> f \<in> es \<Longrightarrow> pe_key e = pe_key f \<Longrightarrow> pe_kind e = pe_kind f"
  unfolding kinds_stable_def by blast

lemma find_Some_splitD: "find P xs = Some x \<Longrightarrow> \<exists>ys zs. xs = ys @ x # zs \<and> P x \<and> (\<forall>y \<in> set ys. \<not> P y)"
proof (induction xs)
  case (Cons a xs)
  show ?case
  proof (cases "P a")
    case True
    with Cons.prems show ?thesis by (intro exI [of _ "[]"] exI [of _ xs]) simp
  next
    case False
    with Cons obtain ys zs where "xs = ys @ x # zs" "P x" "\<forall>y \<in> set ys. \<not> P y" by auto
    with False show ?thesis by (intro exI [of _ "a # ys"] exI [of _ zs]) simp
  qed
qed simp

lemma find_event_None: "find (\<lambda>x. pe_key x = k) events = None \<Longrightarrow> k \<notin> pe_key ` set events"
  by (induction events) (auto split: if_splits)

lemma find_event_Some:
  "find (\<lambda>x. pe_key x = k) events = Some p \<Longrightarrow>
     \<exists>xs ys. events = xs @ p # ys \<and> pe_key p = k \<and> k \<notin> pe_key ` set xs"
  by (drule find_Some_splitD) (metis imageE)

lemma summary_append:
  "summarizeProgress (events @ [e]) = (summarizeProgress events)\<lparr>ps_total := ps_total (summarizeProgress events) + 1,
     ps_stepTotal := ps_stepTotal (summarizeProgress events) + (if pe_kind e = Kind_step then 1 else 0),
     ps_stepDone := ps_stepDone (summarizeProgress events) + (if pe_kind e = Kind_step \<and> pe_state e = Progress_done then 1 else 0)\<rparr>"
  by (simp add: summarizeProgress_def)

lemma summary_replace:
  "pe_kind p = pe_kind e \<Longrightarrow>
   (summarizeProgress (xs @ p # ys))\<lparr>ps_stepDone := ps_stepDone (summarizeProgress (xs @ p # ys)) + step_done_change p e\<rparr>
     = summarizeProgress (xs @ e # ys)"
  by (cases "pe_state p = Progress_done"; cases "pe_state e = Progress_done")
    (simp_all add: step_done_change_def summarizeProgress_def)

lemma merge_event_summary:
  assumes "kinds_stable (insert e (set events))"
  shows "merge_event e (events, summarizeProgress events) = (put_event e events, summarizeProgress (put_event e events))"
proof (cases "find (\<lambda>x. pe_key x = pe_key e) events")
  case None
  have "put_event e events = events @ [e]" using find_event_None [OF None] by (simp add: put_event_def)
  then show ?thesis unfolding merge_event_def by (simp only: None option.case prod.case summary_append)
next
  case (Some p)
  from find_event_Some [OF this] obtain xs ys where ev: "events = xs @ p # ys" and p: "pe_key p = pe_key e"
    and fresh: "pe_key e \<notin> pe_key ` set xs" by blast
  have kind: "pe_kind p = pe_kind e" by (rule kinds_stableD [OF assms _ _ p]) (simp_all add: ev)
  have r: "replace_event e events = xs @ e # ys" unfolding ev by (rule replace_event_split [OF p fresh])
  have "pe_key e \<in> pe_key ` set events" unfolding ev p [symmetric] by simp
  then have "put_event e events = xs @ e # ys" by (simp add: put_event_def r)
  then show ?thesis unfolding merge_event_def using summary_replace [OF kind, of xs ys] by (simp only: Some option.case prod.case r ev [symmetric])
qed

lemma put_event_subset: "set (put_event e events) \<subseteq> insert e (set events)"
proof -
  have "set (replace_event e events) \<subseteq> insert e (set events)" by (induction events) auto
  then show ?thesis by (auto simp: put_event_def)
qed

lemma fold_merge_event:
  assumes "kinds_stable (set us \<union> set events)"
  shows "fold merge_event us (events, summarizeProgress events) = (fold put_event us events, summarizeProgress (fold put_event us events))"
  using assms
proof (induction us arbitrary: events)
  case Nil
  then show ?case by simp
next
  case (Cons u us)
  have "kinds_stable (set us \<union> set (put_event u events))"
    using put_event_subset [of u events] by (intro kinds_stable_mono [OF Cons.prems]) auto
  moreover have "kinds_stable (insert u (set events))" by (intro kinds_stable_mono [OF Cons.prems]) auto
  ultimately show ?case using Cons.IH by (simp add: merge_event_summary)
qed

lemma fold_put_event:
  "keyed_events (fold put_event us events) = fold (\<lambda>e. AList.update (pe_key e) e) us (keyed_events events)"
  "distinct (map pe_key events) \<Longrightarrow> distinct (map pe_key (fold put_event us events))"
  "pe_key ` set (fold put_event us events) = pe_key ` set us \<union> pe_key ` set events"
  by (induction us arbitrary: events) (simp_all add: keyed_put_event put_event_keys set_put_event_keys)

lemma fold_put_event_subset: "set (fold put_event us events) \<subseteq> set us \<union> set events"
proof (induction us arbitrary: events)
  case (Cons u us)
  then show ?case using put_event_subset [of u events] by fastforce
qed simp

lemma latest_events_map:
  "map_of (latest_events es) = map_of (fold (\<lambda>e. AList.update (pe_key e) e) es []) \<and> distinct (map fst (latest_events es))
   \<and> keyed_events (map snd (latest_events es)) = latest_events es"
proof (induction es rule: rev_induct)
  case Nil
  then show ?case by (simp add: latest_events_def keyed_events_def)
next
  case (snoc e es)
  let ?al = "latest_events es"
  have step: "latest_events (es @ [e]) = AList.delete (pe_key e) ?al @ [(pe_key e, e)]" by (simp add: latest_events_def)
  have "map_of (latest_events (es @ [e])) = (map_of ?al)(pe_key e \<mapsto> e)"
    unfolding step by (rule ext) (auto simp: map_add_def split: option.splits)
  moreover have "pe_key e \<notin> fst ` set (AList.delete (pe_key e) ?al)" by (auto simp: AList.delete_eq)
  moreover have "keyed_events (map snd (AList.delete (pe_key e) ?al)) = AList.delete (pe_key e) ?al"
  proof -
    have "map (\<lambda>p. (pe_key (snd p), snd p)) ?al = map (\<lambda>p. p) ?al" using snoc by (simp add: keyed_events_def comp_def)
    then have "\<forall>p \<in> set ?al. (pe_key (snd p), snd p) = p" by (simp only: map_eq_conv)
    then have "map (\<lambda>p. (pe_key (snd p), snd p)) (AList.delete (pe_key e) ?al) = AList.delete (pe_key e) ?al"
      by (intro map_idI) (simp add: AList.delete_eq)
    then show ?thesis by (simp add: keyed_events_def comp_def)
  qed
  ultimately show ?case using snoc by (simp add: step keyed_events_def)
qed

lemma same_events_mset:
  assumes "map_of (keyed_events xs) = map_of (keyed_events ys)" "distinct (map pe_key xs)" "distinct (map pe_key ys)"
  shows "mset xs = mset ys"
proof -
  have "set (keyed_events xs) = set (keyed_events ys)"
    using assms map_of_inject_set [of "keyed_events xs" "keyed_events ys"] by simp
  then have "set xs = set ys" by (force simp: keyed_events_def)
  moreover have "distinct xs" "distinct ys" using assms distinct_map by blast+
  ultimately show ?thesis by (simp add: set_eq_iff_mset_eq_distinct)
qed

lemma summarizeProgress_mset: "mset xs = mset ys \<Longrightarrow> summarizeProgress xs = summarizeProgress ys"
proof -
  assume eq: "mset xs = mset ys"
  have "length (filter P xs) = length (filter P ys)" for P
    using arg_cong [OF eq, of "\<lambda>m. size (filter_mset P m)"] by (simp flip: mset_filter)
  moreover have "length xs = length ys" using mset_eq_length [OF eq] .
  ultimately show ?thesis by (simp add: summarizeProgress_def)
qed

text \<open>The events and summary a view holds after the outputs of a run, each with its own list of events.\<close>

definition merge_outputs :: "RunProgressEvent list list \<Rightarrow> RunProgressEvent list \<times> RunProgressSummary" where
  "merge_outputs outputs = foldl (\<lambda>(events, summary) us. mergeRecentProgress events summary us) ([], EMPTY_PROGRESS_SUMMARY) outputs"

lemma recent_short [simp]: "length xs \<le> RECENT_PROGRESS_LIMIT \<Longrightarrow> recent xs = xs"
  by (simp add: recent_def)

lemma length_recent [simp]: "length (recent xs) \<le> RECENT_PROGRESS_LIMIT"
  by (simp add: recent_def)

lemma length_le_keys: "distinct (map pe_key xs) \<Longrightarrow> length xs = card (pe_key ` set xs)"
  using distinct_card [of "map pe_key xs"] by simp

lemma merge_outputs_exact:
  assumes "card (pe_key ` set (concat outputs)) \<le> RECENT_PROGRESS_LIMIT" and "kinds_stable (set (concat outputs))"
  shows "merge_outputs outputs = (fold put_event (concat outputs) [], summarizeProgress (fold put_event (concat outputs) []))"
  using assms
proof (induction outputs rule: rev_induct)
  case Nil
  then show ?case by (simp add: merge_outputs_def summarizeProgress_def EMPTY_PROGRESS_SUMMARY_def)
next
  case (snoc us outputs)
  let ?ev = "fold put_event (concat outputs) []"
  have "card (pe_key ` set (concat outputs)) \<le> card (pe_key ` set (concat (outputs @ [us])))" by (intro card_mono) auto
  moreover have "kinds_stable (set (concat outputs))" by (intro kinds_stable_mono [OF snoc.prems(2)]) auto
  ultimately have IH: "merge_outputs outputs = (?ev, summarizeProgress ?ev)" using snoc by simp
  have "kinds_stable (set us \<union> set ?ev)"
    using fold_put_event_subset [of "concat outputs" "[]"] by (intro kinds_stable_mono [OF snoc.prems(2)]) auto
  note merged = fold_merge_event [OF this]
  have "length (fold put_event us ?ev) = card (pe_key ` set (fold put_event us ?ev))"
    by (intro length_le_keys) (simp add: fold_put_event)
  also have "pe_key ` set (fold put_event us ?ev) = pe_key ` set (concat (outputs @ [us]))"
    by (simp add: fold_put_event(3) image_Un Un_commute)
  finally have "recent (fold put_event us ?ev) = fold put_event us ?ev" using snoc.prems(1) by simp
  moreover have "merge_outputs (outputs @ [us]) = mergeRecentProgress ?ev (summarizeProgress ?ev) us"
    using IH by (simp add: merge_outputs_def)
  ultimately show ?case using merged by (simp add: mergeRecentProgress_def)
qed

definition step_event :: "ident \<Rightarrow> ProgressEventState \<Rightarrow> RunProgressEvent" where
  "step_event k st = \<lparr>pe_key = k, pe_kind = Kind_step, pe_label = [], pe_state = st, pe_occurredAt = 0\<rparr>"

definition nine_steps :: "RunProgressEvent list" where
  "nine_steps = map (\<lambda>k. step_event k Progress_active) [''1'', ''2'', ''3'', ''4'', ''5'', ''6'', ''7'', ''8'', ''9'']"

lemma evicted_event_counted_twice:
  "ps_total (snd (merge_outputs [nine_steps, [step_event ''1'' Progress_done]])) = 10
   \<and> ps_total (snd (progressSnapshot (concat [nine_steps, [step_event ''1'' Progress_done]]))) = 9"
  by (simp add: merge_outputs_def mergeRecentProgress_def merge_event_def recent_def RECENT_PROGRESS_LIMIT_def nine_steps_def
      step_event_def EMPTY_PROGRESS_SUMMARY_def progressSnapshot_def latest_events_def summarizeProgress_def)

text \<open>
  Progress merged output by output is the progress of all events at once, as long as the
  run has at most eight distinct events and an event keeps its kind: the same events are
  shown and the same totals are counted as by a full snapshot. The limit is sharp: with
  nine steps, an update of the one already dropped from the view is counted as a tenth.
\<close>
lemma merged_progress_is_exact_up_to_the_limit:
  "(card (pe_key ` set (concat outputs)) \<le> RECENT_PROGRESS_LIMIT \<and> kinds_stable (set (concat outputs)) \<longrightarrow>
      snd (merge_outputs outputs) = snd (progressSnapshot (concat outputs))
      \<and> mset (fst (merge_outputs outputs)) = mset (fst (progressSnapshot (concat outputs))))
   \<and> (\<exists>many. card (pe_key ` set (concat many)) = RECENT_PROGRESS_LIMIT + 1 \<and> kinds_stable (set (concat many))
        \<and> ps_total (snd (merge_outputs many)) = 10 \<and> ps_total (snd (progressSnapshot (concat many))) = 9)"
proof (intro conjI impI exI [of _ "[nine_steps, [step_event ''1'' Progress_done]]"])
  assume "card (pe_key ` set (concat outputs)) \<le> RECENT_PROGRESS_LIMIT \<and> kinds_stable (set (concat outputs))"
  then have few: "card (pe_key ` set (concat outputs)) \<le> RECENT_PROGRESS_LIMIT"
    and merged: "merge_outputs outputs = (fold put_event (concat outputs) [], summarizeProgress (fold put_event (concat outputs) []))"
    using merge_outputs_exact by blast+
  let ?a = "fold put_event (concat outputs) []" and ?b = "map snd (latest_events (concat outputs))"
  note latest = latest_events_map [of "concat outputs"]
  have "map_of (keyed_events ?a) = map_of (keyed_events ?b)" using latest fold_put_event(1) [of "concat outputs" "[]"] by (simp add: keyed_events_def)
  moreover have d: "distinct (map pe_key ?a)" by (simp add: fold_put_event)
  moreover have "distinct (map pe_key ?b)" using latest unfolding fst_keyed_events [symmetric] by simp
  ultimately have same: "mset ?a = mset ?b" by (rule same_events_mset)
  have "length ?b = card (pe_key ` set (concat outputs))"
    using length_le_keys [OF d] mset_eq_length [OF same] fold_put_event(3) [of "concat outputs" "[]"] by simp
  with few have "recent ?b = ?b" by simp
  with same merged summarizeProgress_mset [OF same]
  show "snd (merge_outputs outputs) = snd (progressSnapshot (concat outputs))"
    "mset (fst (merge_outputs outputs)) = mset (fst (progressSnapshot (concat outputs)))"
    by (simp_all add: progressSnapshot_def Let_def)
next
  show "card (pe_key ` set (concat [nine_steps, [step_event ''1'' Progress_done]])) = RECENT_PROGRESS_LIMIT + 1"
    by (simp add: nine_steps_def step_event_def RECENT_PROGRESS_LIMIT_def card_insert_if)
  show "kinds_stable (set (concat [nine_steps, [step_event ''1'' Progress_done]]))"
    by (simp add: kinds_stable_def nine_steps_def step_event_def)
  show "ps_total (snd (merge_outputs [nine_steps, [step_event ''1'' Progress_done]])) = 10"
    "ps_total (snd (progressSnapshot (concat [nine_steps, [step_event ''1'' Progress_done]]))) = 9"
    using evicted_event_counted_twice by blast+
qed

subsection \<open>The views of a run\<close>

lemma js_trim_idem [simp]: "js_trim (js_trim s) = js_trim s"
proof -
  have trimEnd_idem: "trimEnd (trimEnd x) = trimEnd x" for x by (simp add: trimEnd_def dropWhile_idem)
  have prefix_trimEnd: "prefix (trimEnd x) x" for x
    unfolding trimEnd_def by (metis suffix_dropWhile suffix_to_prefix rev_rev_ident)
  define x where "x = dropWhile space_unit s"
  have "dropWhile space_unit (trimEnd x) = trimEnd x"
  proof (cases "trimEnd x")
    case (Cons a as)
    then obtain zs where "x = a # zs" using prefix_trimEnd [of x] by (auto simp: prefix_def)
    then have "\<not> space_unit a" using hd_dropWhile [of space_unit s] by (simp add: x_def)
    then show ?thesis by (simp add: Cons)
  qed simp
  then show ?thesis by (simp add: js_trim_def x_def [symmetric] trimEnd_idem)
qed

lemma js_trim_Nil [simp]: "js_trim [] = []"
  by (simp add: js_trim_def trimEnd_def)

definition trimmed_segment :: "js_text \<Rightarrow> bool" where
  "trimmed_segment x \<longleftrightarrow> x \<noteq> [] \<and> js_trim x = x"

definition parts_ok :: "AnswerParts \<Rightarrow> bool" where
  "parts_ok a \<longleftrightarrow> list_all trimmed_segment (ap_segments a) \<and> js_trim (ap_draft a) = ap_draft a"

definition answer_ok :: "'w RunCardView \<Rightarrow> bool" where
  "answer_ok v \<longleftrightarrow> (\<exists>segs draft. rc_answerSegments v = Some segs \<and> rc_answerDraft v = Some draft
     \<and> list_all trimmed_segment segs \<and> js_trim draft = draft \<and> rc_answer v = renderAnswer segs draft)"

lemma answer_ok_parts:
  "answer_ok v \<Longrightarrow> parts_ok (answerParts v) \<and> rc_answer v = renderAnswer (ap_segments (answerParts v)) (ap_draft (answerParts v))"
  by (auto simp: answer_ok_def answerParts_def parts_ok_def)

definition progress_ok :: "'w RunCardView \<Rightarrow> bool" where
  "progress_ok v \<longleftrightarrow> length (rc_progressEvents v) \<le> RECENT_PROGRESS_LIMIT \<and> distinct (map pe_key (rc_progressEvents v))
     \<and> length (rc_taskList v) \<le> RECENT_PROGRESS_LIMIT \<and> distinct (map pe_key (rc_taskList v))"

definition timeline_ok :: "'w RunCardView \<Rightarrow> bool" where
  "timeline_ok v \<longleftrightarrow> distinct (map ti_id (rc_timelineItems v)) \<and> canonical_timeline (rc_timelineItems v)"

lemma answerParts_set_answer [simp]:
  "answerParts (set_answer answer parts v) = parts" "rc_answer (set_answer answer parts v) = answer"
  "rc_answerSegments (set_answer answer parts v) = Some (ap_segments parts)"
  "rc_answerDraft (set_answer answer parts v) = Some (ap_draft parts)"
  by (simp_all add: set_answer_def answerParts_def)

lemma commitSegment_trimmed: "list_all trimmed_segment segs \<Longrightarrow> list_all trimmed_segment (commitSegment segs x)"
  by (simp add: commitSegment_def Let_def trimmed_segment_def)

lemma reduceAnswerSnapshot_ok: "parts_ok (answerParts v) \<Longrightarrow> parts_ok (reduceAnswerSnapshot v snapshot update)"
  by (cases update) (auto simp: reduceAnswerSnapshot_def Let_def parts_ok_def commitSegment_trimmed)

lemma completeAnswer_ok:
  assumes "answer_ok v" and "completeAnswer v final replace = (answer, parts)"
  shows "parts_ok parts \<and> answer = renderAnswer (ap_segments parts) (ap_draft parts)"
proof -
  have p: "parts_ok (answerParts v)" "rc_answer v = renderAnswer (ap_segments (answerParts v)) (ap_draft (answerParts v))"
    using answer_ok_parts [OF assms(1)] by blast+
  consider (same) "js_trim final = js_trim (rc_answer v)" | (replaced) "js_trim final \<noteq> js_trim (rc_answer v)" "replace"
    | (committed) "js_trim final \<noteq> js_trim (rc_answer v)" "\<not> replace" by blast
  then show ?thesis
  proof cases
    case same
    then show ?thesis using assms p by (auto simp: completeAnswer_def Let_def)
  next
    case replaced
    then have "answer = js_trim final" "parts = \<lparr>ap_segments = (if js_trim final \<noteq> [] then [js_trim final] else []), ap_draft = [], ap_transient = False\<rparr>"
      using assms(2) by (auto simp: completeAnswer_def Let_def)
    then show ?thesis by (simp add: parts_ok_def trimmed_segment_def renderAnswer_def nonempty_fragments_def)
  next
    case committed
    then show ?thesis using assms(2) p
      by (auto simp: completeAnswer_def Let_def parts_ok_def commitSegment_trimmed)
  qed
qed

lemma progressSnapshot_ok:
  "length (fst (progressSnapshot es)) \<le> RECENT_PROGRESS_LIMIT" "distinct (map pe_key (fst (progressSnapshot es)))"
proof -
  let ?b = "map snd (latest_events es)"
  have "distinct (map pe_key ?b)" using latest_events_map [of es] unfolding fst_keyed_events [symmetric] by simp
  then show "distinct (map pe_key (fst (progressSnapshot es)))"
    by (simp add: progressSnapshot_def Let_def recent_def drop_map [symmetric] del: map_map)
  show "length (fst (progressSnapshot es)) \<le> RECENT_PROGRESS_LIMIT" by (simp add: progressSnapshot_def Let_def)
qed

lemma fst_merge_event: "fst (merge_event e p) = put_event e (fst p)"
proof (cases "find (\<lambda>x. pe_key x = pe_key e) (fst p)")
  case None
  then show ?thesis using find_event_None [OF None] by (simp add: merge_event_def put_event_def split_beta)
next
  case (Some q)
  from find_event_Some [OF this] have "pe_key e \<in> pe_key ` set (fst p)" by (metis image_eqI in_set_conv_decomp)
  then show ?thesis by (simp add: merge_event_def put_event_def split_beta Some)
qed

lemma fst_fold_merge_event: "fst (fold merge_event us p) = fold put_event us (fst p)"
  by (induction us arbitrary: p) (simp_all add: fst_merge_event)

lemma mergeRecentProgress_ok:
  assumes "distinct (map pe_key es)" "length es \<le> RECENT_PROGRESS_LIMIT"
  shows "length (fst (mergeRecentProgress es su us)) \<le> RECENT_PROGRESS_LIMIT"
    and "distinct (map pe_key (fst (mergeRecentProgress es su us)))"
proof -
  have "distinct (map pe_key (fold put_event us es))" using assms(1) by (simp add: fold_put_event)
  then show "distinct (map pe_key (fst (mergeRecentProgress es su us)))"
    using assms(1) fst_fold_merge_event [of us "(es, su)"]
    by (simp add: mergeRecentProgress_def split_beta recent_def drop_map [symmetric])
  show "length (fst (mergeRecentProgress es su us)) \<le> RECENT_PROGRESS_LIMIT"
    using assms(2) by (simp add: mergeRecentProgress_def split_beta)
qed

lemma close_tools_ok:
  "timeline_ok v \<Longrightarrow> distinct (map ti_id (close_tools v)) \<and> canonical_timeline (close_tools v)"
  unfolding timeline_ok_def close_tools_def using terminalize_ok by blast

definition run_card_ok :: "'w RunCardView \<Rightarrow> bool" where
  "run_card_ok v \<longleftrightarrow> answer_ok v \<and> progress_ok v \<and> timeline_ok v"

text \<open>What no change of a run touches: its identity and its worker context.\<close>

definition same_run :: "'w RunCardView \<Rightarrow> 'w RunCardView \<Rightarrow> bool" where
  "same_run v v' \<longleftrightarrow> rc_promptId v' = rc_promptId v \<and> rc_bindingId v' = rc_bindingId v \<and> rc_bindingGeneration v' = rc_bindingGeneration v
     \<and> rc_createdAt v' = rc_createdAt v \<and> rc_workerActivity v' = rc_workerActivity v
     \<and> rc_workerContextFrozenAt v' = rc_workerContextFrozenAt v"

lemma output_patch_ok:
  assumes "run_card_ok v" and "output_patch c v = Inr (Some v')"
  shows "run_card_ok v' \<and> rc_viewVersion v' = rc_viewVersion v \<and> same_run v v'"
proof -
  define parts where "parts = reduceAnswerSnapshot v (oc_answerSnapshot c) (opt_or (oc_answerUpdate c) Update_replace)"
  define answer where "answer = renderAnswer (ap_segments parts) (ap_draft parts)"
  define progress where "progress = (if oc_hasProgressSnapshot c then progressSnapshot (oc_progressEvents c)
      else mergeRecentProgress (rc_progressEvents v) (rc_progressSummary v) (oc_progressEvents c))"
  define tasks where "tasks = (case oc_taskList c of None \<Rightarrow> rc_taskList v | Some ts \<Rightarrow> fst (progressSnapshot ts))"
  from assms(2) obtain items where items: "applyAnswerTimelineDeltas (rc_timelineItems v) (opt_or (oc_timelineDeltas c) []) = Inr items"
    and v': "v' = (set_answer answer parts v)\<lparr>rc_timelineItems := items, rc_progressEvents := fst progress,
         rc_progressSummary := snd progress, rc_taskList := tasks, rc_taskListTitle := opt_or (oc_taskListTitle c) (rc_taskListTitle v)\<rparr>"
    unfolding output_patch_def Let_def parts_def [symmetric] answer_def [symmetric] progress_def [symmetric] tasks_def [symmetric]
    by (auto simp: split_beta split: sum.splits if_splits)
  have ok: "answer_ok v" "progress_ok v" "timeline_ok v" using assms(1) by (simp_all add: run_card_ok_def)
  have "parts_ok parts" using answer_ok_parts [OF ok(1)] unfolding parts_def by (intro reduceAnswerSnapshot_ok) blast
  then have "answer_ok v'" by (simp add: answer_ok_def v' set_answer_def answer_def parts_ok_def)
  moreover have "distinct (map ti_id items) \<and> canonical_timeline items"
    using ok(3) items unfolding timeline_ok_def by (intro applyAnswerTimelineDeltas_ok) blast+
  then have "timeline_ok v'" by (simp add: timeline_ok_def v')
  moreover have "length (fst progress) \<le> RECENT_PROGRESS_LIMIT \<and> distinct (map pe_key (fst progress))"
    using ok(2) progressSnapshot_ok mergeRecentProgress_ok by (simp add: progress_def progress_ok_def)
  moreover have "length tasks \<le> RECENT_PROGRESS_LIMIT \<and> distinct (map pe_key tasks)"
    using ok(2) progressSnapshot_ok by (simp add: tasks_def progress_ok_def split: option.splits)
  ultimately show ?thesis by (simp add: run_card_ok_def progress_ok_def same_run_def v' set_answer_def)
qed

lemma completed_patch_ok:
  assumes "run_card_ok v" and "completeAnswer v final replace = (answer, parts)"
  shows "run_card_ok ((set_answer answer parts v)\<lparr>rc_phase := ph, rc_timelineItems := close_tools v, rc_finishedAt := fin,
      rc_queuePosition := q, rc_notice := n\<rparr>)"
proof -
  have "parts_ok parts \<and> answer = renderAnswer (ap_segments parts) (ap_draft parts)"
    using completeAnswer_ok [OF _ assms(2)] assms(1) by (simp add: run_card_ok_def)
  moreover have "distinct (map ti_id (close_tools v)) \<and> canonical_timeline (close_tools v)"
    using close_tools_ok [of v] assms(1) by (simp add: run_card_ok_def)
  moreover have "progress_ok v" using assms(1) by (simp add: run_card_ok_def)
  ultimately show ?thesis
    by (simp add: run_card_ok_def answer_ok_def progress_ok_def timeline_ok_def set_answer_def parts_ok_def)
qed

lemmas run_card_ok_defs = run_card_ok_def answer_ok_def progress_ok_def timeline_ok_def

lemma run_card_ok_frame [simp]:
  "run_card_ok (v\<lparr>rc_activityAt := a, rc_viewVersion := n, rc_updatedAt := u\<rparr>) = run_card_ok v"
  by (simp add: run_card_ok_defs)

lemma run_card_patch_ok:
  assumes "run_card_ok v" and "run_card_patch t c v = Inr (Some v')"
  shows "run_card_ok v' \<and> rc_viewVersion v' = rc_viewVersion v \<and> same_run v v'"
proof (cases c)
  case (Output o)
  then show ?thesis using output_patch_ok [OF assms(1)] assms(2) by simp
next
  case (Change_completed answer replace)
  obtain final parts where final: "completeAnswer v answer replace = (final, parts)" by fastforce
  with assms(2) Change_completed
  have "v' = (set_answer final parts v)\<lparr>rc_phase := Completed, rc_timelineItems := close_tools v,
      rc_finishedAt := Some t, rc_queuePosition := 0, rc_notice := None\<rparr>"
    by (simp split: if_splits)
  with completed_patch_ok [OF assms(1) final] show ?thesis by (simp add: set_answer_def same_run_def)
next
  case (Change_uncertain n)
  then show ?thesis using assms close_tools_ok [of v] by (auto simp: run_card_ok_defs same_run_def split: if_splits)
next
  case (Change_failed n)
  then show ?thesis using assms close_tools_ok [of v] by (auto simp: run_card_ok_defs same_run_def split: if_splits)
qed (use assms in \<open>auto simp: run_card_ok_defs same_run_def split: if_splits\<close>)

lemma reduceRunCard_ok:
  assumes "run_card_ok v" and "reduceRunCard t c v = Inr v'"
  shows "run_card_ok v' \<and> same_run v v' \<and> (v' = v \<or> rc_viewVersion v' = rc_viewVersion v + 1 \<and> rc_updatedAt v' = t)"
proof (cases "run_card_patch t c v")
  case (Inl err)
  with assms(2) show ?thesis by (simp add: reduceRunCard_def)
next
  case (Inr p)
  show ?thesis
  proof (cases p)
    case None
    with assms Inr show ?thesis by (simp add: reduceRunCard_def same_run_def)
  next
    case (Some q)
    with assms(2) Inr have "v' = q\<lparr>rc_activityAt := if quiet_change c then rc_activityAt v else t,
        rc_viewVersion := rc_viewVersion v + 1, rc_updatedAt := t\<rparr>"
      by (simp add: reduceRunCard_def)
    with run_card_patch_ok [OF assms(1)] Inr Some show ?thesis by (simp add: same_run_def)
  qed
qed

definition run_card_start :: "(string \<Rightarrow> string) \<Rightarrow> 'w RunCardView \<Rightarrow> bool" where
  "run_card_start digest12 v \<longleftrightarrow> (\<exists>i. v = createQueuedRunCard digest12 i)"

inductive run_card_step :: "'w RunCardView \<Rightarrow> 'w RunCardView \<Rightarrow> bool" where
  reduced: "reduceRunCard t c v = Inr v' \<Longrightarrow> run_card_step v v'"
| workers_updated: "run_card_step v (updateRunCardWorkerContext activity revision t v)"
| workers_frozen: "run_card_step v (freezeRunCardWorkerContext t v)"

lemma run_card_step_ok:
  assumes "run_card_step v v'" and "run_card_ok v"
  shows "run_card_ok v' \<and> rc_promptId v' = rc_promptId v
    \<and> (rc_viewVersion v' = rc_viewVersion v \<or> rc_viewVersion v' = rc_viewVersion v + 1)
    \<and> (rc_workerContextFrozenAt v \<noteq> None \<longrightarrow>
        rc_workerContextFrozenAt v' = rc_workerContextFrozenAt v \<and> rc_workerActivity v' = rc_workerActivity v)"
  using assms
proof cases
  case (reduced t c)
  then show ?thesis using reduceRunCard_ok [OF assms(2)] by (auto simp: same_run_def)
next
  case (workers_updated activity revision t)
  then show ?thesis using assms by (auto simp: updateRunCardWorkerContext_def run_card_ok_defs)
next
  case (workers_frozen t)
  then show ?thesis using assms by (auto simp: freezeRunCardWorkerContext_def run_card_ok_defs)
qed

lemma queued_run_card_ok:
  fixes v :: "'w RunCardView"
  assumes "run_card_start digest12 v"
  shows "run_card_ok v \<and> 1 \<le> rc_viewVersion v"
proof -
  from assms obtain i where v: "v = createQueuedRunCard digest12 i" by (auto simp: run_card_start_def)
  have "answer_ok v" unfolding answer_ok_def
    by (intro exI [of _ "[]"]) (simp add: v createQueuedRunCard_def Let_def renderAnswer_def nonempty_fragments_def)
  moreover have "progress_ok v" "timeline_ok v" "1 \<le> rc_viewVersion v"
    by (simp_all add: v createQueuedRunCard_def Let_def progress_ok_def timeline_ok_def canonical_timeline_def)
  ultimately show ?thesis by (simp add: run_card_ok_def)
qed

interpretation run_cards: invariant_system "run_card_start digest12 :: 'w RunCardView \<Rightarrow> bool" run_card_step
  "\<lambda>v. run_card_ok v \<and> 1 \<le> rc_viewVersion v" for digest12
proof unfold_locales
  fix v :: "'w RunCardView" assume "run_card_start digest12 v"
  then show "run_card_ok v \<and> 1 \<le> rc_viewVersion v" by (rule queued_run_card_ok)
next
  fix v v' :: "'w RunCardView" assume "run_card_ok v \<and> 1 \<le> rc_viewVersion v" and "run_card_step v v'"
  then show "run_card_ok v' \<and> 1 \<le> rc_viewVersion v'" using run_card_step_ok [of v v'] by linarith
qed

text \<open>
  C11: Every view of a run is well formed. The answer shown is the committed segments and the
  draft, each trimmed and none of the segments empty, joined by blank lines; at most eight
  progress events and eight tasks are shown, each key once; the timeline holds each id once
  and is in canonical order. Every change that is not a no-op raises the version by exactly
  one and stamps the view, and a change never touches the identity of the run or, once
  frozen, its worker context; a refused change is one whose timeline deltas are out of
  order.
\<close>
theorem run_card_views_stay_well_formed:
  fixes v :: "'w RunCardView"
  assumes "reach (run_card_start digest12) run_card_step v"
  shows "(\<exists>segs draft. rc_answerSegments v = Some segs \<and> rc_answerDraft v = Some draft \<and> list_all trimmed_segment segs
        \<and> rc_answer v = joined (nonempty_fragments (segs @ [draft])))
    \<and> length (rc_progressEvents v) \<le> 8 \<and> distinct (map pe_key (rc_progressEvents v)) \<and> length (rc_taskList v) \<le> 8
    \<and> distinct (map ti_id (rc_timelineItems v)) \<and> canonical_timeline (rc_timelineItems v) \<and> 1 \<le> rc_viewVersion v
    \<and> (\<forall>v'. reduceRunCard t c v = Inr v' \<longrightarrow>
         same_run v v' \<and> (v' = v \<or> rc_viewVersion v' = rc_viewVersion v + 1 \<and> rc_updatedAt v' = t))
    \<and> (\<forall>err. reduceRunCard t c v = Inl err \<longrightarrow> (\<exists>out. c = Output out
         \<and> applyAnswerTimelineDeltas (rc_timelineItems v) (opt_or (oc_timelineDeltas out) []) = Inl err))
    \<and> (\<forall>v'. run_card_step v v' \<and> rc_workerContextFrozenAt v \<noteq> None \<longrightarrow> rc_workerActivity v' = rc_workerActivity v)"
proof -
  have ok: "run_card_ok v" "1 \<le> rc_viewVersion v" using run_cards.reach_inv [OF assms] by blast+
  then have parts: "answer_ok v" "progress_ok v" "timeline_ok v" by (simp_all add: run_card_ok_def)
  have refused: "\<exists>out. c = Output out \<and> applyAnswerTimelineDeltas (rc_timelineItems v) (opt_or (oc_timelineDeltas out) []) = Inl err"
    if "reduceRunCard t c v = Inl err" for err
    using that
    by (cases c) (auto simp: reduceRunCard_def output_patch_def Let_def split_beta split: sum.splits option.splits if_splits)
  show ?thesis
    using parts ok(2) refused reduceRunCard_ok [OF ok(1)] run_card_step_ok [OF _ ok(1)]
    by (auto simp: answer_ok_def progress_ok_def timeline_ok_def renderAnswer_def RECENT_PROGRESS_LIMIT_def)
qed

interpretation run_card_versions: versioned_reducer
  "\<lambda>p v. reduceRunCard (fst p) (snd p) v :: (timeline_error, 'w RunCardView) result" rc_viewVersion "\<lambda>v. v" run_card_ok
proof unfold_locales
  fix v v' :: "'w RunCardView" and c
  assume "run_card_ok v" "reduceRunCard (fst c) (snd c) v = Inr v'"
  from reduceRunCard_ok [OF this] show "run_card_ok v'" "rc_viewVersion v' = rc_viewVersion v \<and> v' = v \<or> rc_viewVersion v' = rc_viewVersion v + 1" by blast+
qed

subsection \<open>A status line that turns into answer text\<close>

definition plain_output :: "js_text \<Rightarrow> answer_update \<Rightarrow> output_change" where
  "plain_output snapshot update = \<lparr>oc_answerSnapshot = snapshot, oc_answerUpdate = Some update, oc_progressEvents = [],
     oc_taskList = None, oc_taskListTitle = None, oc_timelineDeltas = None, oc_hasProgressSnapshot = False\<rparr>"

lemma sameProgress_refl [simp]: "sameProgress es es"
  by (simp add: sameProgress_def list_all2_same)

lemma sameProgressSummary_refl [simp]: "sameProgressSummary su su"
  by (simp add: sameProgressSummary_def)

lemma plain_output_patch:
  "output_patch (plain_output snapshot update) v =
     (let parts = reduceAnswerSnapshot v snapshot update; answer = renderAnswer (ap_segments parts) (ap_draft parts)
      in if answer = rc_answer v then Inr None else Inr (Some (set_answer answer parts v)))"
  by (simp add: output_patch_def plain_output_def Let_def applyAnswerTimelineDeltas_def mergeRecentProgress_def sameAnswerTimeline_def
      set_answer_def)

lemma joined_last_inject:
  assumes "joined (xs @ [a]) = joined (xs @ [b])"
  shows "a = b"
  using assms by (cases "xs = []") (simp_all add: joined_snoc)

text \<open>
  Status text that is confirmed word for word as answer text is lost. While the draft is
  a transient status line, an output that replaces it by the same words as lasting text
  changes nothing, because the shown answer is the same; the draft stays transient, and the
  next appended output drops those words instead of committing them as a segment. Had the
  draft been lasting, they would have been committed.
\<close>
lemma confirmed_status_text_is_dropped:
  assumes "run_card_ok v" and "rc_answerSegments v = Some segs" and "rc_answerDraft v = Some d" and "d \<noteq> []"
    and "js_trim nxt = nxt" and "nxt \<noteq> []" and "nxt \<noteq> d" and "rc_answerDraftTransient v"
  shows "reduceRunCard t (Output (plain_output d Update_replace)) v = Inr v
    \<and> (\<exists>v'. reduceRunCard t' (Output (plain_output nxt Update_append)) v = Inr v'
         \<and> rc_answerSegments v' = Some segs \<and> rc_answerDraft v' = Some nxt)
    \<and> (list_last segs \<noteq> Some d \<longrightarrow>
        (\<exists>w. reduceRunCard t' (Output (plain_output nxt Update_append)) (v\<lparr>rc_answerDraftTransient := False\<rparr>) = Inr w
         \<and> rc_answerSegments w = Some (segs @ [d]) \<and> rc_answerDraft w = Some nxt))"
proof -
  have ok: "js_trim d = d" "list_all trimmed_segment segs" "rc_answer v = renderAnswer segs d"
    using assms(1-3) by (auto simp: run_card_ok_def answer_ok_def)
  have segs: "nonempty_fragments segs = segs"
    using ok(2) by (simp add: nonempty_fragments_def filter_id_conv list_all_iff trimmed_segment_def)
  have shown: "renderAnswer xs x = joined (xs @ [x])" if "nonempty_fragments xs = xs" "js_trim x = x" "x \<noteq> []" for xs x
    using that by (simp add: renderAnswer_def nonempty_fragments_def)
  have same: "reduceRunCard t (Output (plain_output d Update_replace)) v = Inr v"
    using assms ok by (simp add: reduceRunCard_def plain_output_patch reduceAnswerSnapshot_def answerParts_def Let_def)
  have "renderAnswer segs nxt \<noteq> rc_answer v"
    using joined_last_inject [of segs nxt d] assms segs ok by (auto simp: shown)
  then have dropped: "\<exists>v'. reduceRunCard t' (Output (plain_output nxt Update_append)) v = Inr v'
      \<and> rc_answerSegments v' = Some segs \<and> rc_answerDraft v' = Some nxt"
    using assms by (simp add: reduceRunCard_def plain_output_patch reduceAnswerSnapshot_def answerParts_def Let_def set_answer_def)
  have "joined (segs @ [d] @ [nxt]) \<noteq> joined (segs @ [d])"
    using joined_snoc [of "segs @ [d]" nxt] by simp
  then have "renderAnswer (segs @ [d]) nxt \<noteq> rc_answer v"
    using assms segs ok by (simp add: shown nonempty_fragments_def)
  then have "\<exists>w. reduceRunCard t' (Output (plain_output nxt Update_append)) (v\<lparr>rc_answerDraftTransient := False\<rparr>) = Inr w
      \<and> rc_answerSegments w = Some (segs @ [d]) \<and> rc_answerDraft w = Some nxt" if "list_last segs \<noteq> Some d"
    using that assms ok
    by (simp add: reduceRunCard_def plain_output_patch reduceAnswerSnapshot_def answerParts_def commitSegment_def Let_def set_answer_def)
  with same dropped show ?thesis by blast
qed

subsection \<open>Concrete instances\<close>

definition sample_queued :: CreateQueuedRunCardInput where
  "sample_queued = \<lparr>cr_promptId = ''p'', cr_bindingId = ''b'', cr_bindingGeneration = None, cr_sessionTitle = None, cr_agentKind = None,
     cr_workspaceId = ''w'', cr_spaceName = None, cr_paneId = None, cr_paneToken = None, cr_title = [], cr_requestText = [],
     cr_replyContext = None, cr_queuePosition = 1, cr_occurredAt = 0, cr_conversionParentPromptId = None, cr_currentGoal = None\<rparr>"

definition sample_card :: "unit RunCardView" where
  "sample_card = createQueuedRunCard (\<lambda>_. ''0123456789ab'') sample_queued"

lemma sample_card_reachable: "reach (run_card_start (\<lambda>_. ''0123456789ab'')) run_card_step sample_card"
  by (rule reach_start) (auto simp: run_card_start_def sample_card_def)

theorem run_card_views_stay_well_formed_witness:
  "\<exists>v'. reduceRunCard 7 Change_started sample_card = Inr v' \<and> rc_viewVersion v' = 2 \<and> rc_updatedAt v' = 7"
proof -
  obtain v' where v': "reduceRunCard 7 Change_started sample_card = Inr v'" "v' \<noteq> sample_card"
    by (simp add: reduceRunCard_def sample_card_def createQueuedRunCard_def Let_def)
  moreover have "rc_viewVersion sample_card = 1" by (simp add: sample_card_def createQueuedRunCard_def Let_def)
  ultimately show ?thesis using run_card_views_stay_well_formed [OF sample_card_reachable, of 7 Change_started] by auto
qed

end
