(* ===== verification/Worker_Turn_Card.thy ===== *)
theory Worker_Turn_Card
  imports Run_Card
begin

text \<open>
  The view behind the card of a worker's turn (\<^verbatim>\<open>src/src/domain/worker-turn-card-view.ts\<close>)
  and the policies that admit a worker turn and route its reviews
  (\<^verbatim>\<open>src/src/domain/worker-turn-policies.ts\<close>). Progress and timeline are those of the run
  card. The digest behind an element id is a parameter.
\<close>

subsection \<open>The view\<close>

datatype WorkerTurnCardPhase = W_queued | W_preparing | W_running | W_blocked | W_completed | W_failed | W_cancelled
  | W_dispatch_uncertain
datatype WorkerTurnResultCapture = Capture_pending | Captured | Capture_unavailable
datatype CardAggregateKind = Primary_session | Primary_turn | Worker_session | Worker_turn

record CardTargetRef =
  ct_aggregateKind :: CardAggregateKind
  ct_aggregateId :: ident
  ct_generation :: int
  ct_messageId :: "ident option"

record WorkerTurnCardView =
  wc_turnId :: ident
  wc_instanceId :: ident
  wc_instanceGeneration :: int
  wc_workerSessionGeneration :: int
  wc_workerName :: js_text
  wc_parentTurnId :: "ident option"
  wc_rootMessageId :: ident
  wc_messageId :: "ident option"
  wc_cardId :: "ident option"
  wc_elementId :: string
  wc_progressSequence :: int
  wc_phase :: WorkerTurnCardPhase
  wc_requestText :: js_text
  wc_answer :: js_text
  wc_timelineItems :: "AnswerTimelineItem list"
  wc_statusTitle :: "js_text option"
  wc_tokenCount :: "int option"
  wc_progressEvents :: "RunProgressEvent list"
  wc_progressSummary :: RunProgressSummary
  wc_queuePosition :: int
  wc_startedAt :: "timestamp option"
  wc_finishedAt :: "timestamp option"
  wc_notice :: "js_text option"
  wc_resultCapture :: WorkerTurnResultCapture
  wc_workerMain :: CardTargetRef
  wc_primaryAnswer :: "CardTargetRef option"
  wc_pageIndex :: int
  wc_pageStart :: int
  wc_sequence :: int
  wc_viewVersion :: int
  wc_deliveredVersion :: int
  wc_createdAt :: timestamp
  wc_updatedAt :: timestamp

record worker_output =
  wo_answer :: js_text
  wo_statusTitle :: "js_text option option"
  wo_tokenCount :: "int option option"
  wo_progressEvents :: "RunProgressEvent list option"
  wo_timelineDeltas :: "AnswerTimelineItem list option"

datatype WorkerTurnCardChange =
    WC_queue_position int
  | WC_preparing
  | WC_running
  | WC_blocked js_text
  | WC_output worker_output
  | WC_completed js_text "int option option" "AnswerTimelineItem list option"
  | WC_completed_without_output js_text
  | WC_failed js_text
  | WC_cancelled js_text
  | WC_dispatch_uncertain js_text

record worker_turn_input =
  wi_turnId :: ident
  wi_instanceId :: ident
  wi_instanceGeneration :: int
  wi_workerName :: js_text
  wi_parentTurnId :: "ident option"
  wi_rootMessageId :: ident
  wi_requestText :: js_text
  wi_queuePosition :: int
  wi_resultCapture :: "WorkerTurnResultCapture option"
  wi_workerSessionGeneration :: "int option"
  wi_primaryAnswer :: "CardTargetRef option"
  wi_occurredAt :: timestamp

definition workerTurnElementId :: "(string \<Rightarrow> string) \<Rightarrow> ident \<Rightarrow> nat \<Rightarrow> string" where
  "workerTurnElementId digest12 turnId pageIndex = stableElementId digest12 (''worker-turn-'' @ turnId @ ''-'' @ decimal_text pageIndex)"

definition workerTurnProgressElementId :: "(string \<Rightarrow> string) \<Rightarrow> ident \<Rightarrow> nat \<Rightarrow> string" where
  "workerTurnProgressElementId digest12 turnId pageIndex =
     stableElementId digest12 (''worker-progress-'' @ turnId @ ''-'' @ decimal_text pageIndex)"

definition createQueuedWorkerTurnCard :: "(string \<Rightarrow> string) \<Rightarrow> worker_turn_input \<Rightarrow> WorkerTurnCardView" where
  "createQueuedWorkerTurnCard digest12 i =
     \<lparr>wc_turnId = wi_turnId i, wc_instanceId = wi_instanceId i, wc_instanceGeneration = wi_instanceGeneration i,
      wc_workerSessionGeneration = opt_or (wi_workerSessionGeneration i) 1, wc_workerName = wi_workerName i,
      wc_parentTurnId = wi_parentTurnId i, wc_rootMessageId = wi_rootMessageId i, wc_messageId = None, wc_cardId = None,
      wc_elementId = workerTurnElementId digest12 (wi_turnId i) 0, wc_progressSequence = 0, wc_phase = W_queued,
      wc_requestText = wi_requestText i, wc_answer = [], wc_timelineItems = [], wc_statusTitle = None, wc_tokenCount = None,
      wc_progressEvents = [], wc_progressSummary = EMPTY_PROGRESS_SUMMARY, wc_queuePosition = wi_queuePosition i,
      wc_startedAt = None, wc_finishedAt = None, wc_notice = None, wc_resultCapture = opt_or (wi_resultCapture i) Capture_pending,
      wc_workerMain = \<lparr>ct_aggregateKind = Worker_session, ct_aggregateId = wi_instanceId i,
        ct_generation = opt_or (wi_workerSessionGeneration i) 1, ct_messageId = None\<rparr>,
      wc_primaryAnswer = wi_primaryAnswer i, wc_pageIndex = 0, wc_pageStart = 0, wc_sequence = 0, wc_viewVersion = 1,
      wc_deliveredVersion = 0, wc_createdAt = wi_occurredAt i, wc_updatedAt = wi_occurredAt i\<rparr>"

text \<open>The code units of the notice shown in place of an answer that could not be captured.\<close>

definition unavailable_notice :: js_text where
  "unavailable_notice = [9888, 65039, 32, 20219, 21153, 24050, 32467, 26463, 65292, 20294, 26080, 27861, 33719, 21462, 21487, 20449,
     30340, 32467, 26500, 21270, 36755, 20986, 12290, 35831, 21069, 24448, 23545, 24212, 32, 72, 101, 114, 100, 114, 32, 80, 97, 110,
     101, 32, 26597, 30475, 26412, 22320, 20250, 35805, 12290]"

definition workerTurnStreamContent :: "WorkerTurnCardView \<Rightarrow> js_text" where
  "workerTurnStreamContent v = (if wc_resultCapture v = Capture_unavailable then unavailable_notice else wc_answer v)"

subsection \<open>The reducer\<close>

definition worker_output_patch :: "worker_output \<Rightarrow> WorkerTurnCardView \<Rightarrow> (timeline_error, WorkerTurnCardView option) result" where
  "worker_output_patch c v =
     (let (events, summary) = mergeRecentProgress (wc_progressEvents v) (wc_progressSummary v) (opt_or (wo_progressEvents c) [])
      in case applyAnswerTimelineDeltas (wc_timelineItems v) (opt_or (wo_timelineDeltas c) []) of
           Inl err \<Rightarrow> Inl err
         | Inr timelineItems \<Rightarrow>
             let statusTitle = opt_or (wo_statusTitle c) (wc_statusTitle v);
                 tokenCount = opt_or (wo_tokenCount c) (wc_tokenCount v)
             in if wc_answer v = wo_answer c \<and> sameAnswerTimeline (wc_timelineItems v) timelineItems \<and> wc_statusTitle v = statusTitle
                   \<and> wc_tokenCount v = tokenCount \<and> sameProgress (wc_progressEvents v) events
                then Inr None
                else Inr (Some (v\<lparr>wc_answer := wo_answer c, wc_timelineItems := timelineItems, wc_statusTitle := statusTitle,
                       wc_tokenCount := tokenCount, wc_progressEvents := events, wc_progressSummary := summary\<rparr>)))"

definition worker_completed_patch :: "timestamp \<Rightarrow> js_text \<Rightarrow> int option option \<Rightarrow> AnswerTimelineItem list option \<Rightarrow> WorkerTurnCardView
    \<Rightarrow> (timeline_error, WorkerTurnCardView option) result" where
  "worker_completed_patch t answer tokens deltas v =
     (case applyAnswerTimelineDeltas (wc_timelineItems v) (opt_or deltas []) of
        Inl err \<Rightarrow> Inl err
      | Inr merged \<Rightarrow>
          let tokenCount = opt_or tokens (wc_tokenCount v);
              timelineItems = terminalizeAnswerTimelineTools Tool_failed merged
          in if wc_phase v = W_completed \<and> wc_answer v = answer \<and> wc_tokenCount v = tokenCount \<and> wc_resultCapture v = Captured
                \<and> sameAnswerTimeline (wc_timelineItems v) timelineItems
             then Inr None
             else Inr (Some (v\<lparr>wc_phase := W_completed, wc_answer := answer, wc_timelineItems := timelineItems,
                    wc_tokenCount := tokenCount, wc_resultCapture := Captured, wc_queuePosition := 0, wc_finishedAt := Some t,
                    wc_notice := None\<rparr>)))"

definition worker_close_tools :: "WorkerTurnCardView \<Rightarrow> AnswerTimelineItem list" where
  "worker_close_tools v = terminalizeAnswerTimelineTools Tool_failed (wc_timelineItems v)"

definition worker_ended :: "WorkerTurnCardPhase \<Rightarrow> timestamp \<Rightarrow> js_text \<Rightarrow> WorkerTurnCardView \<Rightarrow> WorkerTurnCardView option" where
  "worker_ended phase t n v =
     (if wc_phase v = phase \<and> wc_notice v = Some n then None
      else Some (v\<lparr>wc_phase := phase, wc_timelineItems := worker_close_tools v, wc_queuePosition := 0, wc_finishedAt := Some t,
             wc_notice := Some n\<rparr>))"

fun worker_card_patch :: "timestamp \<Rightarrow> WorkerTurnCardChange \<Rightarrow> WorkerTurnCardView \<Rightarrow> (timeline_error, WorkerTurnCardView option) result" where
  "worker_card_patch t (WC_queue_position n) v = Inr (if wc_queuePosition v = n then None else Some (v\<lparr>wc_queuePosition := n\<rparr>))"
| "worker_card_patch t WC_preparing v =
     Inr (if wc_phase v = W_preparing \<and> wc_notice v = None then None else Some (v\<lparr>wc_phase := W_preparing, wc_notice := None\<rparr>))"
| "worker_card_patch t WC_running v =
     Inr (if wc_phase v = W_running \<and> wc_notice v = None then None
          else Some (v\<lparr>wc_phase := W_running, wc_startedAt := Some (opt_or (wc_startedAt v) t), wc_notice := None\<rparr>))"
| "worker_card_patch t (WC_blocked n) v =
     Inr (if wc_phase v = W_blocked \<and> wc_notice v = Some n then None
          else Some (v\<lparr>wc_phase := W_blocked, wc_startedAt := Some (opt_or (wc_startedAt v) t), wc_notice := Some n\<rparr>))"
| "worker_card_patch t (WC_output c) v = worker_output_patch c v"
| "worker_card_patch t (WC_completed answer tokens deltas) v = worker_completed_patch t answer tokens deltas v"
| "worker_card_patch t (WC_completed_without_output n) v =
     Inr (if wc_phase v = W_completed \<and> wc_resultCapture v = Capture_unavailable \<and> wc_notice v = Some n then None
          else Some (v\<lparr>wc_phase := W_completed, wc_answer := [], wc_timelineItems := worker_close_tools v,
                 wc_resultCapture := Capture_unavailable, wc_queuePosition := 0, wc_finishedAt := Some t, wc_notice := Some n\<rparr>))"
| "worker_card_patch t (WC_failed n) v = Inr (worker_ended W_failed t n v)"
| "worker_card_patch t (WC_cancelled n) v = Inr (worker_ended W_cancelled t n v)"
| "worker_card_patch t (WC_dispatch_uncertain n) v =
     Inr (if wc_phase v = W_dispatch_uncertain \<and> wc_notice v = Some n then None
          else Some (v\<lparr>wc_phase := W_dispatch_uncertain, wc_queuePosition := 0, wc_notice := Some n\<rparr>))"

definition reduceWorkerTurnCard :: "timestamp \<Rightarrow> WorkerTurnCardChange \<Rightarrow> WorkerTurnCardView \<Rightarrow> (timeline_error, WorkerTurnCardView) result" where
  "reduceWorkerTurnCard occurredAt c v =
     (case worker_card_patch occurredAt c v of
        Inl err \<Rightarrow> Inl err
      | Inr None \<Rightarrow> Inr v
      | Inr (Some patched) \<Rightarrow> Inr (patched\<lparr>wc_viewVersion := wc_viewVersion v + 1, wc_updatedAt := occurredAt\<rparr>))"

subsection \<open>Well-formed views\<close>

definition worker_card_ok :: "WorkerTurnCardView \<Rightarrow> bool" where
  "worker_card_ok v \<longleftrightarrow> length (wc_progressEvents v) \<le> RECENT_PROGRESS_LIMIT \<and> distinct (map pe_key (wc_progressEvents v))
     \<and> distinct (map ti_id (wc_timelineItems v)) \<and> canonical_timeline (wc_timelineItems v)
     \<and> (wc_phase v \<in> {W_completed, W_failed, W_cancelled} \<longrightarrow> wc_finishedAt v \<noteq> None)
     \<and> (wc_phase v \<in> {W_running, W_blocked} \<longrightarrow> wc_startedAt v \<noteq> None)"

definition same_turn :: "WorkerTurnCardView \<Rightarrow> WorkerTurnCardView \<Rightarrow> bool" where
  "same_turn v v' \<longleftrightarrow> wc_turnId v' = wc_turnId v \<and> wc_instanceId v' = wc_instanceId v
     \<and> wc_instanceGeneration v' = wc_instanceGeneration v \<and> wc_createdAt v' = wc_createdAt v \<and> wc_workerMain v' = wc_workerMain v"

lemmas worker_defs = worker_card_ok_def same_turn_def

lemma worker_output_patch_ok:
  assumes "worker_card_ok v" and "worker_output_patch c v = Inr (Some v')"
  shows "worker_card_ok v' \<and> same_turn v v' \<and> wc_viewVersion v' = wc_viewVersion v"
proof -
  define progress where "progress = mergeRecentProgress (wc_progressEvents v) (wc_progressSummary v) (opt_or (wo_progressEvents c) [])"
  from assms(2) obtain items title tokens where items: "applyAnswerTimelineDeltas (wc_timelineItems v) (opt_or (wo_timelineDeltas c) []) = Inr items"
    and v': "v' = v\<lparr>wc_answer := wo_answer c, wc_timelineItems := items, wc_statusTitle := title, wc_tokenCount := tokens,
         wc_progressEvents := fst progress, wc_progressSummary := snd progress\<rparr>"
    unfolding worker_output_patch_def Let_def progress_def [symmetric] by (auto simp: split_beta split: sum.splits if_splits)
  have "distinct (map ti_id items) \<and> canonical_timeline items"
    using assms(1) items by (intro applyAnswerTimelineDeltas_ok) (simp_all add: worker_card_ok_def)
  moreover have "length (fst progress) \<le> RECENT_PROGRESS_LIMIT" "distinct (map pe_key (fst progress))"
    using assms(1) mergeRecentProgress_ok by (simp_all add: progress_def worker_card_ok_def)
  ultimately show ?thesis using assms(1) by (simp add: worker_defs v')
qed

lemma worker_completed_patch_ok:
  assumes "worker_card_ok v" and "worker_completed_patch t answer tokens deltas v = Inr (Some v')"
  shows "worker_card_ok v' \<and> same_turn v v' \<and> wc_viewVersion v' = wc_viewVersion v"
proof -
  from assms(2) obtain merged tokens' where merged: "applyAnswerTimelineDeltas (wc_timelineItems v) (opt_or deltas []) = Inr merged"
    and v': "v' = v\<lparr>wc_phase := W_completed, wc_answer := answer, wc_timelineItems := terminalizeAnswerTimelineTools Tool_failed merged,
         wc_tokenCount := tokens', wc_resultCapture := Captured, wc_queuePosition := 0, wc_finishedAt := Some t, wc_notice := None\<rparr>"
    unfolding worker_completed_patch_def Let_def by (auto split: sum.splits if_splits)
  have "distinct (map ti_id merged) \<and> canonical_timeline merged"
    using assms(1) merged by (intro applyAnswerTimelineDeltas_ok) (simp_all add: worker_card_ok_def)
  then show ?thesis using assms(1) terminalize_ok [of merged Tool_failed] by (simp add: worker_defs v')
qed

lemma worker_close_tools_ok:
  "worker_card_ok v \<Longrightarrow> distinct (map ti_id (worker_close_tools v)) \<and> canonical_timeline (worker_close_tools v)"
  unfolding worker_card_ok_def worker_close_tools_def using terminalize_ok by blast

lemma worker_ended_ok:
  assumes "worker_card_ok v" and "worker_ended phase t n v = Some v'" and "phase \<in> {W_failed, W_cancelled}"
  shows "worker_card_ok v' \<and> same_turn v v' \<and> wc_viewVersion v' = wc_viewVersion v"
proof -
  from assms(2) have v': "v' = v\<lparr>wc_phase := phase, wc_timelineItems := worker_close_tools v, wc_queuePosition := 0,
      wc_finishedAt := Some t, wc_notice := Some n\<rparr>" by (simp add: worker_ended_def split: if_splits)
  show ?thesis using assms(1,3) worker_close_tools_ok [OF assms(1)] unfolding v' by (auto simp: worker_defs)
qed

lemma worker_card_patch_ok:
  assumes "worker_card_ok v" and "worker_card_patch t c v = Inr (Some v')"
  shows "worker_card_ok v' \<and> same_turn v v' \<and> wc_viewVersion v' = wc_viewVersion v"
proof (cases c)
  case (WC_output out)
  then show ?thesis using worker_output_patch_ok [OF assms(1)] assms(2) by simp
next
  case (WC_completed answer tokens deltas)
  then show ?thesis using worker_completed_patch_ok [OF assms(1)] assms(2) by simp
next
  case (WC_failed n)
  then show ?thesis using worker_ended_ok [OF assms(1)] assms(2) by simp
next
  case (WC_cancelled n)
  then show ?thesis using worker_ended_ok [OF assms(1)] assms(2) by simp
next
  case (WC_completed_without_output n)
  then have "v' = v\<lparr>wc_phase := W_completed, wc_answer := [], wc_timelineItems := worker_close_tools v,
      wc_resultCapture := Capture_unavailable, wc_queuePosition := 0, wc_finishedAt := Some t, wc_notice := Some n\<rparr>"
    using assms(2) by (simp split: if_splits)
  then show ?thesis using assms(1) worker_close_tools_ok [OF assms(1)] by (simp add: worker_defs)
next
  case (WC_queue_position n)
  then have "v' = v\<lparr>wc_queuePosition := n\<rparr>" using assms(2) by (simp split: if_splits)
  then show ?thesis using assms(1) by (simp add: worker_defs)
next
  case WC_preparing
  then have "v' = v\<lparr>wc_phase := W_preparing, wc_notice := None\<rparr>" using assms(2) by (simp split: if_splits)
  then show ?thesis using assms(1) by (simp add: worker_defs)
next
  case WC_running
  then have "v' = v\<lparr>wc_phase := W_running, wc_startedAt := Some (opt_or (wc_startedAt v) t), wc_notice := None\<rparr>"
    using assms(2) by (simp split: if_splits)
  then show ?thesis using assms(1) by (simp add: worker_defs)
next
  case (WC_blocked n)
  then have "v' = v\<lparr>wc_phase := W_blocked, wc_startedAt := Some (opt_or (wc_startedAt v) t), wc_notice := Some n\<rparr>"
    using assms(2) by (simp split: if_splits)
  then show ?thesis using assms(1) by (simp add: worker_defs)
next
  case (WC_dispatch_uncertain n)
  then have "v' = v\<lparr>wc_phase := W_dispatch_uncertain, wc_queuePosition := 0, wc_notice := Some n\<rparr>"
    using assms(2) by (simp split: if_splits)
  then show ?thesis using assms(1) by (simp add: worker_defs)
qed

lemma reduceWorkerTurnCard_ok:
  assumes "worker_card_ok v" and "reduceWorkerTurnCard t c v = Inr v'"
  shows "worker_card_ok v' \<and> same_turn v v' \<and> (v' = v \<or> wc_viewVersion v' = wc_viewVersion v + 1 \<and> wc_updatedAt v' = t)"
proof -
  from assms(2) obtain p where p: "worker_card_patch t c v = Inr p" by (auto simp: reduceWorkerTurnCard_def split: sum.splits)
  show ?thesis
  proof (cases p)
    case None
    with assms p show ?thesis by (simp add: reduceWorkerTurnCard_def same_turn_def)
  next
    case (Some q)
    with assms(2) p have "v' = q\<lparr>wc_viewVersion := wc_viewVersion v + 1, wc_updatedAt := t\<rparr>" by (simp add: reduceWorkerTurnCard_def)
    with worker_card_patch_ok [OF assms(1)] p Some show ?thesis by (simp add: worker_defs)
  qed
qed

interpretation worker_card_versions: versioned_reducer
  "\<lambda>p v. reduceWorkerTurnCard (fst p) (snd p) v" wc_viewVersion "\<lambda>v. v" worker_card_ok
proof unfold_locales
  fix v v' c
  assume "worker_card_ok v" "reduceWorkerTurnCard (fst c) (snd c) v = Inr v'"
  from reduceWorkerTurnCard_ok [OF this] show "worker_card_ok v'" "wc_viewVersion v' = wc_viewVersion v \<and> v' = v \<or> wc_viewVersion v' = wc_viewVersion v + 1" by blast+
qed

lemma queued_worker_card_ok: "worker_card_ok (createQueuedWorkerTurnCard digest12 i)"
  by (simp add: createQueuedWorkerTurnCard_def worker_card_ok_def canonical_timeline_def)

definition running_tools :: "AnswerTimelineItem list \<Rightarrow> bool" where
  "running_tools items \<longleftrightarrow> (\<exists>item \<in> set items. \<exists>tool. ti_kind item = Tool tool \<and> tl_state tool = Tool_running)"

lemma terminalize_stops_tools: "\<not> running_tools (terminalizeAnswerTimelineTools Tool_failed items)"
  by (auto simp: running_tools_def terminalizeAnswerTimelineTools_def terminalize_tool_def split: timeline_kind.splits if_splits)

lemma terminal_worker_changes_stop_tools:
  assumes "worker_card_patch t c v = Inr (Some v')" and "wc_phase v' \<in> {W_completed, W_failed, W_cancelled}"
    and "wc_phase v \<notin> {W_completed, W_failed, W_cancelled}"
  shows "\<not> running_tools (wc_timelineItems v')"
proof (cases c)
  case (WC_completed answer tokens deltas)
  with assms(1) obtain merged where "wc_timelineItems v' = terminalizeAnswerTimelineTools Tool_failed merged"
    by (auto simp: worker_completed_patch_def Let_def split: sum.splits if_splits)
  then show ?thesis by (simp add: terminalize_stops_tools)
next
  case (WC_output out)
  with assms show ?thesis by (auto simp: worker_output_patch_def Let_def split: sum.splits if_splits prod.splits)
qed (use assms in \<open>auto simp: worker_ended_def worker_close_tools_def terminalize_stops_tools split: if_splits\<close>)

text \<open>Only a timeline delta can be refused: every other change is applied.\<close>

lemma worker_change_refused:
  assumes "reduceWorkerTurnCard t c v = Inl err"
  shows "\<exists>deltas. applyAnswerTimelineDeltas (wc_timelineItems v) deltas = Inl err
     \<and> ((\<exists>out. c = WC_output out \<and> wo_timelineDeltas out = Some deltas) \<or> (\<exists>answer tokens. c = WC_completed answer tokens (Some deltas)))"
proof -
  have none: "applyAnswerTimelineDeltas items (opt_or d []) = Inl err \<Longrightarrow> \<exists>ds. d = Some ds" for items d
    by (cases d) (simp_all add: applyAnswerTimelineDeltas_def)
  from assms have patch: "worker_card_patch t c v = Inl err"
    by (auto simp: reduceWorkerTurnCard_def split: sum.splits option.splits)
  show ?thesis
  proof (cases c)
    case (WC_output out)
    with patch have refused: "applyAnswerTimelineDeltas (wc_timelineItems v) (opt_or (wo_timelineDeltas out) []) = Inl err"
      by (auto simp: worker_output_patch_def Let_def split: sum.splits if_splits prod.splits)
    from none [OF this] refused WC_output show ?thesis by auto
  next
    case (WC_completed answer tokens deltas)
    with patch have refused: "applyAnswerTimelineDeltas (wc_timelineItems v) (opt_or deltas []) = Inl err"
      by (auto simp: worker_completed_patch_def Let_def split: sum.splits if_splits)
    from none [OF this] refused WC_completed show ?thesis by auto
  qed (use patch in auto)
qed

subsection \<open>Admission of a turn\<close>

datatype InstanceTurnState = IT_queued | IT_claimed | IT_dispatching | IT_running | IT_blocked | IT_completed | IT_failed | IT_cancelled
  | IT_dispatch_uncertain
datatype InstanceTurnKind = Ordinary_turn | Followup_turn
datatype TurnPriority = Normal_turn | Priority_turn

text \<open>The fields of an instance turn that the policies read.\<close>

record InstanceTurn =
  it_projectId :: ident
  it_instanceId :: ident
  it_instanceGeneration :: int
  it_state :: InstanceTurnState
  it_runtimeTurnId :: "ident option"
  it_runtimeTurnStartedAt :: "timestamp option"

record WorkerTurnAdmissionFacts =
  af_current :: "(ident \<times> int) option"
  af_projectId :: ident
  af_instanceGeneration :: int
  af_priority :: TurnPriority
  af_pendingCount :: int
  af_maxQueueDepth :: "int option"
  af_hasLivePriorityTurn :: bool
  af_hasActiveRuntimeTurn :: bool
  af_kind :: "InstanceTurnKind option"
  af_parentTurnId :: "ident option"
  af_parent :: "InstanceTurn option"
  af_instanceId :: "ident option"

datatype admission_error = GenerationChanged | InstanceTurnCapacityExceeded | LivePriorityTurn | ActiveRuntimeTurn | OrdinaryTurnHasParent
  | ParentNotSettledHere

text \<open>\<^verbatim>\<open>["completed", "failed", "cancelled"].includes(parent.state)\<close>.\<close>

definition settled_turn :: "InstanceTurnState \<Rightarrow> bool" where
  "settled_turn st \<longleftrightarrow> st = IT_completed \<or> st = IT_failed \<or> st = IT_cancelled"

definition follow_up_parent_ok :: "WorkerTurnAdmissionFacts \<Rightarrow> bool" where
  "follow_up_parent_ok f \<longleftrightarrow> (case af_parent f of
       None \<Rightarrow> False
     | Some parent \<Rightarrow> it_projectId parent = af_projectId f \<and> Some (it_instanceId parent) = af_instanceId f \<and> settled_turn (it_state parent))"

definition validateWorkerTurnAdmission :: "WorkerTurnAdmissionFacts \<Rightarrow> (admission_error, unit) result" where
  "validateWorkerTurnAdmission f =
     (if (case af_current f of None \<Rightarrow> True | Some (p, g) \<Rightarrow> p \<noteq> af_projectId f \<or> g \<noteq> af_instanceGeneration f) then Inl GenerationChanged
      else if (case af_maxQueueDepth f of None \<Rightarrow> False | Some n \<Rightarrow> n \<le> af_pendingCount f) then Inl InstanceTurnCapacityExceeded
      else if af_priority f = Priority_turn \<and> af_hasLivePriorityTurn f then Inl LivePriorityTurn
      else if af_priority f = Priority_turn \<and> af_hasActiveRuntimeTurn f then Inl ActiveRuntimeTurn
      else if af_kind f = Some Ordinary_turn \<and> af_parentTurnId f \<noteq> None then Inl OrdinaryTurnHasParent
      else if af_kind f = Some Followup_turn \<and> \<not> follow_up_parent_ok f then Inl ParentNotSettledHere
      else Inr ())"

definition matchesExpectedWorkerRuntimeTurn :: "InstanceTurn \<Rightarrow> ident option \<Rightarrow> timestamp option \<Rightarrow> bool" where
  "matchesExpectedWorkerRuntimeTurn turn expectedId expectedStartedAt \<longleftrightarrow>
     (expectedId = None \<or> it_runtimeTurnId turn = expectedId)
     \<and> (expectedStartedAt = None \<or> it_runtimeTurnStartedAt turn = expectedStartedAt)"

definition nextWorkerQueuePositions :: "'a list \<Rightarrow> ('a \<times> int) list" where
  "nextWorkerQueuePositions items = map (\<lambda>(i, item). (item, int i + 1)) (enumerate 0 items)"

subsection \<open>Where a human review goes\<close>

text \<open>
  The instance's \<^verbatim>\<open>parent.bindingGeneration\<close> may be absent. With neither a parent nor a
  binding the comparisons \<^verbatim>\<open>undefined === undefined\<close> hold, and the state of the binding,
  read through \<^verbatim>\<open>binding?.state\<close>, settles the case.
\<close>

record review_instance =
  ri_role :: string
  ri_generation :: int
  ri_workerSessionLifecycle :: "string option"
  ri_workerSessionGeneration :: int
  ri_parent :: "(int option \<times> ident) option"
  ri_runtimePaneId :: "ident option"

record review_binding =
  rb_generation :: int
  rb_paneId :: "ident option"
  rb_state :: string
  rb_lifecycle :: string
  rb_attachment :: string
  rb_rootMessageId :: "ident option"

datatype review_route = Current_route | Stale_route

definition parent_is_binding :: "(int option \<times> ident) option \<Rightarrow> review_binding \<Rightarrow> bool" where
  "parent_is_binding parent b \<longleftrightarrow> (case parent of
       None \<Rightarrow> False
     | Some (generation, paneId) \<Rightarrow> generation = Some (rb_generation b) \<and> Some paneId = rb_paneId b)"

definition decideWorkerHumanReviewRoute :: "review_instance option \<Rightarrow> review_binding option \<Rightarrow> InstanceTurn \<Rightarrow> WorkerTurnCardView \<Rightarrow> review_route" where
  "decideWorkerHumanReviewRoute inst binding turn view =
     (case (inst, binding) of
        (Some i, Some b) \<Rightarrow>
          if ri_role i = ''worker'' \<and> ri_generation i = it_instanceGeneration turn \<and> ri_workerSessionLifecycle i = Some ''active''
             \<and> ri_workerSessionGeneration i = wc_workerSessionGeneration view \<and> parent_is_binding (ri_parent i) b
             \<and> rb_state b = ''active'' \<and> rb_lifecycle b = ''active'' \<and> rb_attachment b = ''attached''
             \<and> (case rb_rootMessageId b of None \<Rightarrow> False | Some root \<Rightarrow> 0 < length root) \<and> ri_runtimePaneId i \<noteq> None
          then Current_route else Stale_route
      | _ \<Rightarrow> Stale_route)"

subsection \<open>Properties\<close>

text \<open>
  Whatever changes a worker's turn goes through, its card stays well formed: at most
  eight progress events with distinct keys, a timeline in canonical order with distinct
  ids, a finish time in every ended phase and a start time while it runs. A change keeps
  the turn's identity and either leaves the view as it is or raises its version by one and
  stamps it; a change that ends the turn leaves no tool running; and the only changes ever
  refused are outputs and completions whose timeline deltas the timeline refuses.
\<close>
lemma worker_cards_stay_well_formed:
  "worker_card_ok (createQueuedWorkerTurnCard digest12 i)
   \<and> (worker_card_ok v \<longrightarrow> reduceWorkerTurnCard t c v = Inr v' \<longrightarrow>
        worker_card_ok v' \<and> same_turn v v' \<and> (v' = v \<or> wc_viewVersion v' = wc_viewVersion v + 1 \<and> wc_updatedAt v' = t)
        \<and> (wc_phase v' \<in> {W_completed, W_failed, W_cancelled} \<longrightarrow> wc_phase v \<notin> {W_completed, W_failed, W_cancelled} \<longrightarrow>
             \<not> running_tools (wc_timelineItems v')))
   \<and> (reduceWorkerTurnCard t c v = Inl err \<longrightarrow>
        (\<exists>deltas. applyAnswerTimelineDeltas (wc_timelineItems v) deltas = Inl err
           \<and> ((\<exists>out. c = WC_output out \<and> wo_timelineDeltas out = Some deltas) \<or> (\<exists>answer tokens. c = WC_completed answer tokens (Some deltas)))))"
proof (intro conjI impI queued_worker_card_ok)
  assume ok: "worker_card_ok v" and red: "reduceWorkerTurnCard t c v = Inr v'"
  show "worker_card_ok v'" "same_turn v v'" "v' = v \<or> wc_viewVersion v' = wc_viewVersion v + 1 \<and> wc_updatedAt v' = t"
    using reduceWorkerTurnCard_ok [OF ok red] by blast+
  assume ended: "wc_phase v' \<in> {W_completed, W_failed, W_cancelled}" "wc_phase v \<notin> {W_completed, W_failed, W_cancelled}"
  from red ended obtain q where "worker_card_patch t c v = Inr (Some q)" "v' = q\<lparr>wc_viewVersion := wc_viewVersion v + 1, wc_updatedAt := t\<rparr>"
    by (auto simp: reduceWorkerTurnCard_def split: sum.splits option.splits)
  with terminal_worker_changes_stop_tools ended show "\<not> running_tools (wc_timelineItems v')" by fastforce
qed (rule worker_change_refused)

definition sample_worker_turn :: worker_turn_input where
  "sample_worker_turn = \<lparr>wi_turnId = ''t'', wi_instanceId = ''i'', wi_instanceGeneration = 1, wi_workerName = [], wi_parentTurnId = None,
     wi_rootMessageId = ''m'', wi_requestText = [], wi_queuePosition = 2, wi_resultCapture = None, wi_workerSessionGeneration = None,
     wi_primaryAnswer = None, wi_occurredAt = 10\<rparr>"


definition sample_admission :: WorkerTurnAdmissionFacts where
  "sample_admission = \<lparr>af_current = Some (''p'', 3), af_projectId = ''p'', af_instanceGeneration = 3, af_priority = Normal_turn, af_pendingCount = 4,
     af_maxQueueDepth = Some 5, af_hasLivePriorityTurn = True, af_hasActiveRuntimeTurn = True, af_kind = Some Followup_turn,
     af_parentTurnId = Some ''t'', af_parent = Some \<lparr>it_projectId = ''p'', it_instanceId = ''i'', it_instanceGeneration = 2,
       it_state = IT_failed, it_runtimeTurnId = None, it_runtimeTurnStartedAt = None\<rparr>, af_instanceId = Some ''i''\<rparr>"


lemma queue_positions_count_from_one:
  "map fst (nextWorkerQueuePositions items) = items \<and> map snd (nextWorkerQueuePositions items) = map (\<lambda>i. int i + 1) [0..<length items]"
  by (auto simp: nextWorkerQueuePositions_def enumerate_eq_zip intro: nth_equalityI)

lemma review_route_is_current_only_for_its_session:
  assumes "decideWorkerHumanReviewRoute inst binding turn view = Current_route"
  obtains i b pane where "inst = Some i" "binding = Some b" "ri_generation i = it_instanceGeneration turn"
    "ri_workerSessionGeneration i = wc_workerSessionGeneration view" "ri_parent i = Some (Some (rb_generation b), pane)"
    "rb_paneId b = Some pane" "rb_attachment b = ''attached''"
proof -
  from assms obtain i b where "inst = Some i" "binding = Some b" "ri_generation i = it_instanceGeneration turn"
    "ri_workerSessionGeneration i = wc_workerSessionGeneration view" "parent_is_binding (ri_parent i) b" "rb_attachment b = ''attached''"
    by (auto simp: decideWorkerHumanReviewRoute_def split: option.splits if_splits)
  moreover from this(5) obtain pane where "ri_parent i = Some (Some (rb_generation b), pane)" "rb_paneId b = Some pane"
    by (cases "ri_parent i"; cases "rb_paneId b") (auto simp: parent_is_binding_def split: prod.splits)
  ultimately show ?thesis using that by blast
qed

end
