(* ===== verification/Worker_Main.thy ===== *)
theory Worker_Main
  imports Worker_Turn_Card Complex_Main "HOL-Library.Sorting_Algorithms" "HOL-Library.List_Lexorder" "HOL-Library.Char_ord"
begin

text \<open>
  The main card of a worker (\<^verbatim>\<open>src/src/domain/worker-main-view.ts\<close>), the projection that
  computes it from the stored facts (\<^verbatim>\<open>worker-main-selector.ts\<close>), what the card of a primary
  shows of its workers (\<^verbatim>\<open>card-context-summary.ts\<close>) and the reply a worker's card offers
  (\<^verbatim>\<open>worker-task-interaction.ts\<close>).

  \<^verbatim>\<open>Array.prototype.sort\<close> is stable, and with a consistent comparison its result is unique:
  it is the sort of the library theory of comparators. \<^verbatim>\<open>localeCompare\<close> on texts is the
  comparator \<open>collate\<close>, a parameter; on the fixed-width timestamps it is the order of the
  instants. Two snapshots are compared by their \<^verbatim>\<open>JSON.stringify\<close> texts, which for snapshots
  with the same fields in the same order is equality. A field that may be missing or null
  where the source tells the two apart is an option of an option.
\<close>

subsection \<open>Pane identities and model usage\<close>

datatype ObservedInstanceState = Obs_unprovisioned | Obs_starting | Obs_idle | Obs_working | Obs_blocked | Obs_detached | Obs_stopped | Obs_failed
datatype DesiredInstanceState = Desired_running | Desired_stopped
datatype WorkerMainRuntimeState = Observed ObservedInstanceState | Terminated
datatype WorkerSessionLifecycle = Session_active | Session_legacy | Session_terminated

record PaneIdentitySnapshot =
  pi_workspace :: "js_text option"
  pi_worktreeName :: "js_text option"
  pi_branch :: "js_text option"
  pi_paneId :: "ident option"
  pi_paneToken :: "ident option"

text \<open>
  The fields of a \<^verbatim>\<open>PaneIdentityInput\<close> may be missing; a missing field and a null one both
  give null, so the input is the snapshot itself.
\<close>

definition samePaneIdentity :: "PaneIdentitySnapshot \<Rightarrow> PaneIdentitySnapshot \<Rightarrow> bool" where
  "samePaneIdentity l r \<longleftrightarrow> pi_workspace l = pi_workspace r \<and> pi_worktreeName l = pi_worktreeName r \<and> pi_branch l = pi_branch r
     \<and> pi_paneId l = pi_paneId r \<and> pi_paneToken l = pi_paneToken r"

lemma samePaneIdentity_eq [simp]: "samePaneIdentity l r \<longleftrightarrow> l = r"
  by (cases l; cases r) (auto simp: samePaneIdentity_def)

text \<open>\<^verbatim>\<open>{ workspace: a.workspace ?? b.workspace, ... }\<close>, field by field.\<close>

definition identity_or :: "PaneIdentitySnapshot option \<Rightarrow> PaneIdentitySnapshot \<Rightarrow> PaneIdentitySnapshot" where
  "identity_or a b = (case a of None \<Rightarrow> b | Some i \<Rightarrow>
     \<lparr>pi_workspace = nullish (pi_workspace i) (pi_workspace b), pi_worktreeName = nullish (pi_worktreeName i) (pi_worktreeName b),
      pi_branch = nullish (pi_branch i) (pi_branch b), pi_paneId = nullish (pi_paneId i) (pi_paneId b),
      pi_paneToken = nullish (pi_paneToken i) (pi_paneToken b)\<rparr>)"

record ModelUsageSnapshot =
  mu_model :: "js_text option"
  mu_contextRemainingPercent :: "rat option"
  mu_inputTokens :: "int option"
  mu_outputTokens :: "int option"
  mu_queuedAt :: "timestamp option"
  mu_firstVisibleAt :: "timestamp option"
  mu_completedAt :: "timestamp option"
  mu_waitMs :: "int option"
  mu_firstVisibleMs :: "int option"

definition emptyModelUsage :: "js_text option \<Rightarrow> ModelUsageSnapshot" where
  "emptyModelUsage m = \<lparr>mu_model = m, mu_contextRemainingPercent = None, mu_inputTokens = None, mu_outputTokens = None, mu_queuedAt = None,
     mu_firstVisibleAt = None, mu_completedAt = None, mu_waitMs = None, mu_firstVisibleMs = None\<rparr>"

definition normalizeModelUsage :: "ModelUsageSnapshot option \<Rightarrow> ModelUsageSnapshot" where
  "normalizeModelUsage u = opt_or u (emptyModelUsage None)"

subsection \<open>The view\<close>

record WorkerMainTaskSummary =
  wt_turnId :: ident
  wt_title :: js_text
  wt_phase :: WorkerTurnCardPhase
  wt_durationSeconds :: "int option"
  wt_taskCard :: CardTargetRef
  wt_updatedAt :: timestamp
  wt_requestText :: "js_text option"
  wt_answer :: "js_text option"
  wt_statusTitle :: "js_text option option"
  wt_tokenCount :: "int option option"
  wt_progressEvents :: "RunProgressEvent list option"
  wt_notice :: "js_text option option"
  wt_resultCapture :: "WorkerTurnResultCapture option"

record WorkerMainView =
  wm_workerId :: ident
  wm_workerSessionGeneration :: int
  wm_parentBindingId :: ident
  wm_parentBindingGeneration :: int
  wm_parentPaneId :: ident
  wm_parentPaneToken :: "ident option"
  wm_primaryPaneName :: "js_text option"
  wm_projectId :: "ident option"
  wm_workerName :: js_text
  wm_ownerName :: js_text
  wm_runtimeGeneration :: int
  wm_runtimeState :: WorkerMainRuntimeState
  wm_runtimeAttached :: bool
  wm_desiredState :: DesiredInstanceState
  wm_parentActive :: bool
  wm_paneId :: "ident option"
  wm_paneToken :: "ident option"
  wm_paneIdentity :: "PaneIdentitySnapshot option"
  wm_worktreeName :: "js_text option"
  wm_workspace :: js_text
  wm_branch :: "js_text option"
  wm_model :: "js_text option"
  wm_modelUsage :: "ModelUsageSnapshot option"
  wm_currentTask :: "WorkerMainTaskSummary option"
  wm_queueCount :: int
  wm_nextTaskTitle :: "js_text option"
  wm_recentTasks :: "WorkerMainTaskSummary list"
  wm_messageId :: "ident option"
  wm_cardId :: "ident option"
  wm_frozenAt :: "timestamp option"
  wm_dependencyRevision :: int
  wm_viewVersion :: int
  wm_deliveredVersion :: int
  wm_createdAt :: timestamp
  wm_updatedAt :: timestamp

definition WORKER_MAIN_RECENT_TASK_LIMIT :: nat where
  "WORKER_MAIN_RECENT_TASK_LIMIT = 5"

definition canSubmitWorkerMainTask :: "WorkerMainView \<Rightarrow> bool" where
  "canSubmitWorkerMainTask v \<longleftrightarrow> wm_frozenAt v = None \<and> wm_messageId v \<noteq> None \<and> wm_runtimeAttached v \<and> wm_desiredState v = Desired_running
     \<and> wm_parentActive v \<and> wm_runtimeState v \<in> {Observed Obs_idle, Observed Obs_working, Observed Obs_blocked}"

record runtime_change =
  rt_runtimeGeneration :: int
  rt_runtimeState :: ObservedInstanceState
  rt_runtimeAttached :: bool
  rt_desiredState :: DesiredInstanceState
  rt_parentActive :: bool
  rt_paneId :: "ident option option"
  rt_paneToken :: "ident option option"
  rt_workspace :: "js_text option option"
  rt_worktreeName :: "js_text option option"
  rt_branch :: "js_text option option"
  rt_paneIdentity :: "PaneIdentitySnapshot option"

record tasks_change =
  tc_currentTask :: "WorkerMainTaskSummary option"
  tc_queueCount :: int
  tc_nextTaskTitle :: "js_text option"
  tc_recentTasks :: "WorkerMainTaskSummary list"
  tc_dependencyRevision :: "int option"

datatype WorkerMainChange =
    WM_usage ModelUsageSnapshot
  | WM_runtime runtime_change
  | WM_tasks tasks_change
  | WM_terminated

record worker_main_input =
  wn_workerId :: ident
  wn_workerSessionGeneration :: int
  wn_parentBindingId :: ident
  wn_parentBindingGeneration :: int
  wn_parentPaneId :: ident
  wn_parentPaneToken :: "ident option"
  wn_workerName :: js_text
  wn_ownerName :: js_text
  wn_runtimeGeneration :: int
  wn_runtimeState :: ObservedInstanceState
  wn_runtimeAttached :: bool
  wn_desiredState :: DesiredInstanceState
  wn_parentActive :: bool
  wn_paneId :: "ident option"
  wn_paneToken :: "ident option"
  wn_primaryPaneName :: "js_text option"
  wn_projectId :: "ident option"
  wn_workspace :: js_text
  wn_branch :: "js_text option"
  wn_worktreeName :: "js_text option"
  wn_paneIdentity :: "PaneIdentitySnapshot option"
  wn_model :: "js_text option"
  wn_modelUsage :: "ModelUsageSnapshot option"
  wn_occurredAt :: timestamp

definition createWorkerMainView :: "worker_main_input \<Rightarrow> WorkerMainView" where
  "createWorkerMainView i =
     (let paneIdentity = identity_or (wn_paneIdentity i) \<lparr>pi_workspace = Some (wn_workspace i), pi_worktreeName = wn_worktreeName i,
            pi_branch = wn_branch i, pi_paneId = wn_paneId i, pi_paneToken = wn_paneToken i\<rparr>
      in \<lparr>wm_workerId = wn_workerId i, wm_workerSessionGeneration = wn_workerSessionGeneration i,
          wm_parentBindingId = wn_parentBindingId i, wm_parentBindingGeneration = wn_parentBindingGeneration i,
          wm_parentPaneId = wn_parentPaneId i, wm_parentPaneToken = wn_parentPaneToken i,
          wm_primaryPaneName = wn_primaryPaneName i, wm_projectId = wn_projectId i, wm_workerName = wn_workerName i,
          wm_ownerName = wn_ownerName i, wm_runtimeGeneration = wn_runtimeGeneration i,
          wm_runtimeState = Observed (wn_runtimeState i), wm_runtimeAttached = wn_runtimeAttached i,
          wm_desiredState = wn_desiredState i, wm_parentActive = wn_parentActive i, wm_paneId = pi_paneId paneIdentity,
          wm_paneToken = pi_paneToken paneIdentity, wm_paneIdentity = Some paneIdentity,
          wm_worktreeName = pi_worktreeName paneIdentity, wm_workspace = opt_or (pi_workspace paneIdentity) (wn_workspace i),
          wm_branch = pi_branch paneIdentity, wm_model = wn_model i,
          wm_modelUsage = Some (normalizeModelUsage (Some (opt_or (wn_modelUsage i) (emptyModelUsage (wn_model i))))),
          wm_currentTask = None, wm_queueCount = 0, wm_nextTaskTitle = None, wm_recentTasks = [], wm_messageId = None,
          wm_cardId = None, wm_frozenAt = None, wm_dependencyRevision = 0, wm_viewVersion = 1, wm_deliveredVersion = 0,
          wm_createdAt = wn_occurredAt i, wm_updatedAt = wn_occurredAt i\<rparr>)"

subsection \<open>The reducer\<close>

definition isTerminal :: "WorkerTurnCardPhase \<Rightarrow> bool" where
  "isTerminal phase \<longleftrightarrow> phase = W_completed \<or> phase = W_failed \<or> phase = W_cancelled \<or> phase = W_dispatch_uncertain"

definition newest_task_first :: "string comparator \<Rightarrow> WorkerMainTaskSummary comparator" where
  "newest_task_first collate = key (\<lambda>t. (wt_updatedAt t, wt_turnId t)) (prod_lex (reversed default) collate)"

definition boundedTerminalTasks :: "string comparator \<Rightarrow> WorkerMainTaskSummary list \<Rightarrow> WorkerMainTaskSummary list" where
  "boundedTerminalTasks collate tasks =
     take WORKER_MAIN_RECENT_TASK_LIMIT (Sorting_Algorithms.sort (newest_task_first collate) (filter (\<lambda>t. isTerminal (wt_phase t)) tasks))"

definition sameTaskProgress :: "RunProgressEvent list option \<Rightarrow> RunProgressEvent list option \<Rightarrow> bool" where
  "sameTaskProgress left right = (case (left, right) of
       (None, None) \<Rightarrow> True
     | (Some l, Some r) \<Rightarrow> list_all2 (\<lambda>a b. pe_key a = pe_key b \<and> pe_kind a = pe_kind b \<and> pe_label a = pe_label b \<and> pe_state a = pe_state b
         \<and> pe_occurredAt a = pe_occurredAt b) l r
     | _ \<Rightarrow> False)"

definition sameCardTargetRef :: "CardTargetRef option \<Rightarrow> CardTargetRef option \<Rightarrow> bool" where
  "sameCardTargetRef left right = (case (left, right) of
       (None, None) \<Rightarrow> True
     | (Some l, Some r) \<Rightarrow> ct_aggregateKind l = ct_aggregateKind r \<and> ct_aggregateId l = ct_aggregateId r
         \<and> ct_generation l = ct_generation r \<and> ct_messageId l = ct_messageId r
     | _ \<Rightarrow> False)"

definition sameTask :: "WorkerMainTaskSummary option \<Rightarrow> WorkerMainTaskSummary option \<Rightarrow> bool" where
  "sameTask left right = (case (left, right) of
       (None, None) \<Rightarrow> True
     | (Some l, Some r) \<Rightarrow> wt_turnId l = wt_turnId r \<and> wt_title l = wt_title r \<and> wt_phase l = wt_phase r
         \<and> wt_durationSeconds l = wt_durationSeconds r \<and> wt_updatedAt l = wt_updatedAt r \<and> wt_requestText l = wt_requestText r
         \<and> wt_answer l = wt_answer r \<and> wt_statusTitle l = wt_statusTitle r \<and> wt_tokenCount l = wt_tokenCount r
         \<and> wt_notice l = wt_notice r \<and> wt_resultCapture l = wt_resultCapture r
         \<and> sameTaskProgress (wt_progressEvents l) (wt_progressEvents r) \<and> sameCardTargetRef (Some (wt_taskCard l)) (Some (wt_taskCard r))
     | _ \<Rightarrow> False)"

definition sameTasks :: "WorkerMainTaskSummary list \<Rightarrow> WorkerMainTaskSummary list \<Rightarrow> bool" where
  "sameTasks left right = list_all2 (\<lambda>l r. sameTask (Some l) (Some r)) left right"

definition flat_identity :: "WorkerMainView \<Rightarrow> PaneIdentitySnapshot" where
  "flat_identity v = \<lparr>pi_workspace = Some (wm_workspace v), pi_worktreeName = wm_worktreeName v, pi_branch = wm_branch v,
     pi_paneId = wm_paneId v, pi_paneToken = wm_paneToken v\<rparr>"

definition runtime_identity :: "runtime_change \<Rightarrow> PaneIdentitySnapshot \<Rightarrow> PaneIdentitySnapshot" where
  "runtime_identity c prior =
     (let fallback = identity_or (rt_paneIdentity c) prior
      in \<lparr>pi_workspace = opt_or (rt_workspace c) (pi_workspace fallback), pi_worktreeName = opt_or (rt_worktreeName c) (pi_worktreeName fallback),
          pi_branch = opt_or (rt_branch c) (pi_branch fallback), pi_paneId = opt_or (rt_paneId c) (pi_paneId fallback),
          pi_paneToken = opt_or (rt_paneToken c) (pi_paneToken fallback)\<rparr>)"

definition runtime_patch :: "runtime_change \<Rightarrow> WorkerMainView \<Rightarrow> WorkerMainView option" where
  "runtime_patch c v =
     (let priorIdentity = opt_or (wm_paneIdentity v) (flat_identity v);
          identity = runtime_identity c priorIdentity
      in if wm_runtimeGeneration v = rt_runtimeGeneration c \<and> wm_runtimeState v = Observed (rt_runtimeState c)
            \<and> wm_runtimeAttached v = rt_runtimeAttached c \<and> wm_desiredState v = rt_desiredState c
            \<and> wm_parentActive v = rt_parentActive c \<and> samePaneIdentity priorIdentity identity
         then None
         else Some (v\<lparr>wm_runtimeGeneration := rt_runtimeGeneration c, wm_runtimeState := Observed (rt_runtimeState c),
                wm_runtimeAttached := rt_runtimeAttached c, wm_desiredState := rt_desiredState c, wm_parentActive := rt_parentActive c,
                wm_paneId := pi_paneId identity, wm_paneToken := pi_paneToken identity, wm_paneIdentity := Some identity,
                wm_workspace := opt_or (pi_workspace identity) (wm_workspace v), wm_worktreeName := pi_worktreeName identity,
                wm_branch := pi_branch identity\<rparr>))"

definition terminated_patch :: "timestamp \<Rightarrow> WorkerMainView \<Rightarrow> WorkerMainView" where
  "terminated_patch t v =
     (let base = opt_or (wm_paneIdentity v) \<lparr>pi_workspace = None, pi_worktreeName = None, pi_branch = None, pi_paneId = None, pi_paneToken = None\<rparr>
      in v\<lparr>wm_runtimeState := Terminated, wm_paneId := None, wm_paneToken := None,
           wm_paneIdentity := Some (base\<lparr>pi_paneId := None, pi_paneToken := None\<rparr>), wm_frozenAt := Some t\<rparr>)"

definition main_stamp :: "timestamp \<Rightarrow> WorkerMainView \<Rightarrow> WorkerMainView" where
  "main_stamp t v = v\<lparr>wm_viewVersion := wm_viewVersion v + 1, wm_updatedAt := t\<rparr>"

definition reduce_tasks :: "string comparator \<Rightarrow> timestamp \<Rightarrow> tasks_change \<Rightarrow> WorkerMainView \<Rightarrow> WorkerMainView" where
  "reduce_tasks collate t c v =
     (let recentTasks = boundedTerminalTasks collate (tc_recentTasks c);
          revision = opt_or (tc_dependencyRevision c) (wm_dependencyRevision v)
      in if sameTask (wm_currentTask v) (tc_currentTask c) \<and> wm_queueCount v = tc_queueCount c \<and> wm_nextTaskTitle v = tc_nextTaskTitle c
            \<and> sameTasks (wm_recentTasks v) recentTasks
         then (if wm_dependencyRevision v = revision then v else v\<lparr>wm_dependencyRevision := revision, wm_updatedAt := t\<rparr>)
         else main_stamp t (v\<lparr>wm_currentTask := tc_currentTask c, wm_queueCount := tc_queueCount c,
                wm_nextTaskTitle := tc_nextTaskTitle c, wm_recentTasks := recentTasks, wm_dependencyRevision := revision\<rparr>))"

definition reduceWorkerMainView :: "string comparator \<Rightarrow> timestamp \<Rightarrow> WorkerMainChange \<Rightarrow> WorkerMainView \<Rightarrow> WorkerMainView" where
  "reduceWorkerMainView collate t c state =
     (let v = state\<lparr>wm_modelUsage := Some (normalizeModelUsage (wm_modelUsage state))\<rparr>
      in if wm_frozenAt v \<noteq> None then v
         else case c of
           WM_usage u \<Rightarrow> if wm_modelUsage v = Some u then v else main_stamp t (v\<lparr>wm_modelUsage := Some u\<rparr>)
         | WM_runtime r \<Rightarrow> (case runtime_patch r v of None \<Rightarrow> v | Some v' \<Rightarrow> main_stamp t v')
         | WM_tasks ts \<Rightarrow> reduce_tasks collate t ts v
         | WM_terminated \<Rightarrow> main_stamp t (terminated_patch t v))"

subsection \<open>Projection from the stored facts\<close>

record WorkerMainProjectionSource =
  ws_workerId :: ident
  ws_workerSessionGeneration :: int
  ws_workerName :: js_text
  ws_model :: "js_text option"
  ws_runtimeGeneration :: int
  ws_runtimeState :: ObservedInstanceState
  ws_paneId :: "ident option"
  ws_paneToken :: "ident option"
  ws_runtimeAttached :: bool
  ws_desiredState :: DesiredInstanceState
  ws_parentActive :: bool
  ws_lifecycle :: WorkerSessionLifecycle
  ws_parentBindingId :: ident
  ws_parentBindingGeneration :: int
  ws_parentPaneId :: ident
  ws_parentPaneToken :: "ident option"
  ws_primaryPaneName :: js_text
  ws_projectId :: ident
  ws_ownerName :: js_text
  ws_workspace :: js_text
  ws_branch :: "js_text option"
  ws_worktreeName :: "js_text option"
  ws_paneIdentity :: "PaneIdentitySnapshot option"
  ws_modelUsage :: "ModelUsageSnapshot option"
  ws_currentTask :: "WorkerMainTaskSummary option"
  ws_queueCount :: int
  ws_nextTaskTitle :: "js_text option"
  ws_recentTasks :: "WorkerMainTaskSummary list"
  ws_createdAt :: timestamp

definition source_identity :: "WorkerMainProjectionSource \<Rightarrow> PaneIdentitySnapshot" where
  "source_identity s = identity_or (ws_paneIdentity s) \<lparr>pi_workspace = Some (ws_workspace s), pi_worktreeName = ws_worktreeName s,
     pi_branch = ws_branch s, pi_paneId = ws_paneId s, pi_paneToken = ws_paneToken s\<rparr>"

definition source_usage :: "WorkerMainProjectionSource \<Rightarrow> ModelUsageSnapshot" where
  "source_usage s = opt_or (ws_modelUsage s) (emptyModelUsage (ws_model s))"

definition first_main_view :: "WorkerMainProjectionSource \<Rightarrow> WorkerMainView" where
  "first_main_view s = createWorkerMainView
     \<lparr>wn_workerId = ws_workerId s, wn_workerSessionGeneration = ws_workerSessionGeneration s, wn_parentBindingId = ws_parentBindingId s,
      wn_parentBindingGeneration = ws_parentBindingGeneration s, wn_parentPaneId = ws_parentPaneId s,
      wn_parentPaneToken = ws_parentPaneToken s, wn_workerName = ws_workerName s, wn_ownerName = ws_ownerName s,
      wn_runtimeGeneration = ws_runtimeGeneration s, wn_runtimeState = ws_runtimeState s, wn_runtimeAttached = ws_runtimeAttached s,
      wn_desiredState = ws_desiredState s, wn_parentActive = ws_parentActive s, wn_paneId = ws_paneId s, wn_paneToken = ws_paneToken s,
      wn_primaryPaneName = Some (ws_primaryPaneName s), wn_projectId = Some (ws_projectId s), wn_workspace = ws_workspace s,
      wn_branch = ws_branch s, wn_worktreeName = ws_worktreeName s, wn_paneIdentity = Some (source_identity s), wn_model = ws_model s,
      wn_modelUsage = Some (source_usage s), wn_occurredAt = ws_createdAt s\<rparr>"

definition same_worker :: "WorkerMainProjectionSource \<Rightarrow> WorkerMainView \<Rightarrow> bool" where
  "same_worker s v \<longleftrightarrow> wm_workerId v = ws_workerId s \<and> wm_workerSessionGeneration v = ws_workerSessionGeneration s
     \<and> wm_parentBindingId v = ws_parentBindingId s \<and> wm_parentPaneId v = ws_parentPaneId s"

definition titled_view :: "timestamp \<Rightarrow> WorkerMainProjectionSource \<Rightarrow> WorkerMainView \<Rightarrow> WorkerMainView" where
  "titled_view t s v =
     (if wm_primaryPaneName v = Some (ws_primaryPaneName s) \<and> wm_parentPaneToken v = ws_parentPaneToken s \<and> wm_projectId v = Some (ws_projectId s)
      then v
      else main_stamp t (v\<lparr>wm_primaryPaneName := Some (ws_primaryPaneName s), wm_parentPaneToken := ws_parentPaneToken s,
             wm_projectId := Some (ws_projectId s)\<rparr>))"

definition source_runtime :: "WorkerMainProjectionSource \<Rightarrow> runtime_change" where
  "source_runtime s = \<lparr>rt_runtimeGeneration = ws_runtimeGeneration s, rt_runtimeState = ws_runtimeState s,
     rt_runtimeAttached = ws_runtimeAttached s, rt_desiredState = ws_desiredState s, rt_parentActive = ws_parentActive s,
     rt_paneId = None, rt_paneToken = None, rt_workspace = None, rt_worktreeName = None, rt_branch = None,
     rt_paneIdentity = Some (source_identity s)\<rparr>"

definition projected_revision :: "WorkerMainProjectionSource \<Rightarrow> WorkerMainView option \<Rightarrow> int \<Rightarrow> int" where
  "projected_revision s previous dependencyRevision =
     (let identityChanged = (case previous of None \<Rightarrow> False
            | Some p \<Rightarrow> \<not> samePaneIdentity (opt_or (wm_paneIdentity p) (flat_identity p)) (source_identity s))
      in max dependencyRevision ((case previous of None \<Rightarrow> 0 | Some p \<Rightarrow> wm_dependencyRevision p) + (if identityChanged then 1 else 0)))"

definition source_tasks :: "WorkerMainProjectionSource \<Rightarrow> int \<Rightarrow> tasks_change" where
  "source_tasks s revision = \<lparr>tc_currentTask = ws_currentTask s, tc_queueCount = ws_queueCount s, tc_nextTaskTitle = ws_nextTaskTitle s,
     tc_recentTasks = ws_recentTasks s, tc_dependencyRevision = Some revision\<rparr>"

definition selectWorkerMainView :: "string comparator \<Rightarrow> WorkerMainProjectionSource \<Rightarrow> WorkerMainView option \<Rightarrow> int \<Rightarrow> timestamp
    \<Rightarrow> WorkerMainView" where
  "selectWorkerMainView collate s previous dependencyRevision t =
     (let base = opt_or previous (first_main_view s)
      in if \<not> same_worker s base then base
         else let runtime = reduceWorkerMainView collate t (WM_runtime (source_runtime s)) (titled_view t s base);
                  usage = reduceWorkerMainView collate t (WM_usage (source_usage s)) runtime;
                  tasks = reduceWorkerMainView collate t (WM_tasks (source_tasks s (projected_revision s previous dependencyRevision))) usage
              in if ws_lifecycle s = Session_terminated then reduceWorkerMainView collate t WM_terminated tasks else tasks)"

subsection \<open>What the primary shows of its workers\<close>

datatype PrimaryWorkerState = Worker_observed ObservedInstanceState | Worker_queued

record PrimaryWorkerSummary =
  pw_workerId :: ident
  pw_workerSessionGeneration :: int
  pw_name :: js_text
  pw_state :: PrimaryWorkerState
  pw_currentTaskTitle :: "js_text option"
  pw_queueCount :: int
  pw_workerMain :: CardTargetRef
  pw_createdAt :: timestamp

record PrimaryWorkerActivitySummary =
  pa_workerId :: ident
  pa_workerSessionGeneration :: int
  pa_name :: js_text
  pa_latestPhase :: WorkerTurnCardPhase
  pa_taskCount :: int
  pa_latestTaskTitle :: js_text
  pa_latestTaskCard :: CardTargetRef
  pa_updatedAt :: timestamp

definition PRIMARY_MAIN_WORKER_LIMIT :: nat where
  "PRIMARY_MAIN_WORKER_LIMIT = 8"

fun worker_rank :: "PrimaryWorkerState \<Rightarrow> nat" where
  "worker_rank (Worker_observed Obs_blocked) = 0"
| "worker_rank (Worker_observed Obs_working) = 1"
| "worker_rank Worker_queued = 2"
| "worker_rank (Worker_observed Obs_starting) = 3"
| "worker_rank (Worker_observed Obs_idle) = 4"
| "worker_rank (Worker_observed Obs_unprovisioned) = 5"
| "worker_rank (Worker_observed Obs_detached) = 6"
| "worker_rank (Worker_observed Obs_stopped) = 7"
| "worker_rank (Worker_observed Obs_failed) = 8"

definition most_urgent_first :: "string comparator \<Rightarrow> PrimaryWorkerSummary comparator" where
  "most_urgent_first collate =
     key (\<lambda>w. (worker_rank (pw_state w), pw_createdAt w, pw_workerId w)) (prod_lex default (prod_lex default collate))"

definition active_worker :: "PrimaryWorkerSummary \<Rightarrow> bool" where
  "active_worker w \<longleftrightarrow> pw_state w \<noteq> Worker_observed Obs_stopped \<and> pw_state w \<noteq> Worker_observed Obs_failed"

definition selectPrimaryWorkerSummaries :: "string comparator \<Rightarrow> PrimaryWorkerSummary list \<Rightarrow> PrimaryWorkerSummary list \<times> int" where
  "selectPrimaryWorkerSummaries collate candidates =
     (let active = Sorting_Algorithms.sort (most_urgent_first collate) (filter active_worker candidates)
      in (take PRIMARY_MAIN_WORKER_LIMIT active, max 0 (int (length active) - int PRIMARY_MAIN_WORKER_LIMIT)))"

definition latest_activity_first :: "string comparator \<Rightarrow> PrimaryWorkerActivitySummary comparator" where
  "latest_activity_first collate = key (\<lambda>a. (pa_updatedAt a, pa_workerId a)) (prod_lex (reversed default) collate)"

definition selectPrimaryWorkerActivity :: "string comparator \<Rightarrow> PrimaryWorkerActivitySummary list \<Rightarrow> PrimaryWorkerActivitySummary list" where
  "selectPrimaryWorkerActivity collate candidates =
     take PRIMARY_MAIN_WORKER_LIMIT (Sorting_Algorithms.sort (latest_activity_first collate) candidates)"

subsection \<open>The reply a worker's card offers\<close>

datatype WorkerTaskReplyIntent = Reply_steer | Reply_followup | Reply_reject

text \<open>The labels and guidance texts are presentation; of the interaction the intent, whether an action is offered, and the interrupt are kept.\<close>

record WorkerTaskInteraction =
  ia_replyIntent :: WorkerTaskReplyIntent
  ia_hasAction :: bool
  ia_canInterrupt :: bool

definition workerTaskInteraction :: "WorkerTurnCardPhase \<Rightarrow> WorkerTaskInteraction" where
  "workerTaskInteraction phase =
     (if phase = W_running then \<lparr>ia_replyIntent = Reply_steer, ia_hasAction = True, ia_canInterrupt = True\<rparr>
      else if phase = W_blocked then \<lparr>ia_replyIntent = Reply_steer, ia_hasAction = True, ia_canInterrupt = False\<rparr>
      else if phase = W_completed \<or> phase = W_failed \<or> phase = W_cancelled
        then \<lparr>ia_replyIntent = Reply_followup, ia_hasAction = True, ia_canInterrupt = False\<rparr>
      else \<lparr>ia_replyIntent = Reply_reject, ia_hasAction = False, ia_canInterrupt = False\<rparr>)"

subsection \<open>The comparisons are equality\<close>

lemma sameTaskProgress_eq [simp]: "sameTaskProgress l r \<longleftrightarrow> l = r"
proof -
  have event: "(pe_key a = pe_key b \<and> pe_kind a = pe_kind b \<and> pe_label a = pe_label b \<and> pe_state a = pe_state b
      \<and> pe_occurredAt a = pe_occurredAt b) \<longleftrightarrow> a = b" for a b :: RunProgressEvent
    by (cases a; cases b) auto
  show ?thesis by (auto simp: sameTaskProgress_def event list_all2_eq [symmetric] split: option.splits)
qed

lemma sameCardTargetRef_eq [simp]: "sameCardTargetRef l r \<longleftrightarrow> l = r"
proof -
  have ref: "(ct_aggregateKind a = ct_aggregateKind b \<and> ct_aggregateId a = ct_aggregateId b \<and> ct_generation a = ct_generation b
      \<and> ct_messageId a = ct_messageId b) \<longleftrightarrow> a = b" for a b :: CardTargetRef
    by (cases a; cases b) auto
  show ?thesis by (auto simp: sameCardTargetRef_def ref split: option.splits)
qed

lemma sameTask_eq [simp]: "sameTask l r \<longleftrightarrow> l = r"
proof (cases l; cases r)
  fix a b
  assume "l = Some a" "r = Some b"
  then show ?thesis by (cases a; cases b) (auto simp: sameTask_def)
qed (simp_all add: sameTask_def)

lemma sameTasks_eq [simp]: "sameTasks l r \<longleftrightarrow> l = r"
  by (simp add: sameTasks_def list_all2_eq [symmetric])

subsection \<open>The best of a sorted list\<close>

text \<open>What \<^verbatim>\<open>sort(...).slice(0, n)\<close> leaves out never comes before what it keeps.\<close>

lemma take_sort_best:
  assumes "x \<in> set (take n (Sorting_Algorithms.sort cmp xs))" and "y \<in> set (drop n (Sorting_Algorithms.sort cmp xs))"
  shows "compare cmp x y \<noteq> Greater"
proof -
  have "Sorting_Algorithms.sorted cmp (take n (Sorting_Algorithms.sort cmp xs) @ drop n (Sorting_Algorithms.sort cmp xs))" by simp
  with assms show ?thesis unfolding Sorting_Algorithms.sorted_append_iff by blast
qed

lemma sort_split: "mset (take n (Sorting_Algorithms.sort cmp xs)) + mset (drop n (Sorting_Algorithms.sort cmp xs)) = mset xs"
  by (simp flip: mset_append)

lemma set_take_sort: "set (take n (Sorting_Algorithms.sort cmp xs)) \<subseteq> set xs"
  using set_take_subset [of n "Sorting_Algorithms.sort cmp xs"] by simp

lemma boundedTerminalTasks_ok:
  "length (boundedTerminalTasks collate tasks) \<le> WORKER_MAIN_RECENT_TASK_LIMIT
   \<and> set (boundedTerminalTasks collate tasks) \<subseteq> {t \<in> set tasks. isTerminal (wt_phase t)}
   \<and> (\<forall>t \<in> set (boundedTerminalTasks collate tasks). \<forall>u \<in> set tasks.
        isTerminal (wt_phase u) \<longrightarrow> u \<notin> set (boundedTerminalTasks collate tasks) \<longrightarrow> wt_updatedAt u \<le> wt_updatedAt t)"
proof (intro conjI ballI impI)
  let ?terminal = "filter (\<lambda>t. isTerminal (wt_phase t)) tasks"
  let ?sorted = "Sorting_Algorithms.sort (newest_task_first collate) ?terminal"
  show "length (boundedTerminalTasks collate tasks) \<le> WORKER_MAIN_RECENT_TASK_LIMIT" by (simp add: boundedTerminalTasks_def)
  show "set (boundedTerminalTasks collate tasks) \<subseteq> {t \<in> set tasks. isTerminal (wt_phase t)}"
    unfolding boundedTerminalTasks_def using set_take_sort [of _ "newest_task_first collate" ?terminal] by auto
  fix t u
  assume t: "t \<in> set (boundedTerminalTasks collate tasks)" and u: "u \<in> set tasks" "isTerminal (wt_phase u)"
    and out: "u \<notin> set (boundedTerminalTasks collate tasks)"
  have "u \<in> set ?sorted" using u by simp
  then have "u \<in> set (take WORKER_MAIN_RECENT_TASK_LIMIT ?sorted) \<union> set (drop WORKER_MAIN_RECENT_TASK_LIMIT ?sorted)"
    by (metis append_take_drop_id set_append)
  with out have "u \<in> set (drop WORKER_MAIN_RECENT_TASK_LIMIT ?sorted)" by (simp add: boundedTerminalTasks_def)
  from take_sort_best [OF _ this] t have "compare (newest_task_first collate) t u \<noteq> Greater" by (simp add: boundedTerminalTasks_def)
  then show "wt_updatedAt u \<le> wt_updatedAt t"
    by (auto simp: newest_task_first_def compare_prod_lex_apply not_le split: comp.splits)
qed

subsection \<open>Consistent views\<close>

definition worker_main_ok :: "WorkerMainView \<Rightarrow> bool" where
  "worker_main_ok v \<longleftrightarrow> wm_modelUsage v \<noteq> None
     \<and> (\<exists>i. wm_paneIdentity v = Some i \<and> pi_paneId i = wm_paneId v \<and> pi_paneToken i = wm_paneToken v \<and> pi_branch i = wm_branch v
          \<and> pi_worktreeName i = wm_worktreeName v \<and> (pi_workspace i = None \<or> pi_workspace i = Some (wm_workspace v)))
     \<and> length (wm_recentTasks v) \<le> WORKER_MAIN_RECENT_TASK_LIMIT \<and> (\<forall>t \<in> set (wm_recentTasks v). isTerminal (wt_phase t))
     \<and> (wm_frozenAt v \<noteq> None \<longleftrightarrow> wm_runtimeState v = Terminated) \<and> (wm_frozenAt v \<noteq> None \<longrightarrow> wm_paneId v = None \<and> wm_paneToken v = None)"

definition same_main :: "WorkerMainView \<Rightarrow> WorkerMainView \<Rightarrow> bool" where
  "same_main v v' \<longleftrightarrow> wm_workerId v' = wm_workerId v \<and> wm_workerSessionGeneration v' = wm_workerSessionGeneration v
     \<and> wm_parentBindingId v' = wm_parentBindingId v \<and> wm_parentPaneId v' = wm_parentPaneId v \<and> wm_createdAt v' = wm_createdAt v
     \<and> wm_deliveredVersion v' = wm_deliveredVersion v"

text \<open>What the card shows: everything but the revision of the facts and the time of the last change.\<close>

definition main_shown :: "WorkerMainView \<Rightarrow> WorkerMainView" where
  "main_shown v = v\<lparr>wm_dependencyRevision := 0, wm_updatedAt := 0\<rparr>"

lemmas main_defs = worker_main_ok_def same_main_def main_shown_def main_stamp_def

text \<open>On a view that has a usage snapshot the first step of the reducer does nothing.\<close>

lemma reduce_with_usage:
  assumes "wm_modelUsage v \<noteq> None"
  shows "reduceWorkerMainView collate t c v =
     (if wm_frozenAt v \<noteq> None then v
      else case c of
        WM_usage u \<Rightarrow> if wm_modelUsage v = Some u then v else main_stamp t (v\<lparr>wm_modelUsage := Some u\<rparr>)
      | WM_runtime r \<Rightarrow> (case runtime_patch r v of None \<Rightarrow> v | Some v' \<Rightarrow> main_stamp t v')
      | WM_tasks ts \<Rightarrow> reduce_tasks collate t ts v
      | WM_terminated \<Rightarrow> main_stamp t (terminated_patch t v))"
proof -
  from assms obtain u where "wm_modelUsage v = Some u" by auto
  then have "v\<lparr>wm_modelUsage := Some (normalizeModelUsage (wm_modelUsage v))\<rparr> = v"
    by (cases v) (simp add: normalizeModelUsage_def)
  then show ?thesis by (simp only: reduceWorkerMainView_def Let_def)
qed

lemma createWorkerMainView_ok: "worker_main_ok (createWorkerMainView i)"
proof -
  have "nullish a (Some b) = Some (opt_or (nullish a (Some b)) b)" for a and b :: js_text
    by (cases a) simp_all
  then show ?thesis by (auto simp: createWorkerMainView_def worker_main_ok_def Let_def identity_or_def split: option.splits)
qed

lemma runtime_patch_ok:
  assumes "worker_main_ok v" and "wm_frozenAt v = None" and "runtime_patch c v = Some v'"
  shows "worker_main_ok v' \<and> same_main v v' \<and> wm_viewVersion v' = wm_viewVersion v \<and> wm_frozenAt v' = None"
proof -
  from assms(3) obtain i where v': "v' = v\<lparr>wm_runtimeGeneration := rt_runtimeGeneration c, wm_runtimeState := Observed (rt_runtimeState c),
      wm_runtimeAttached := rt_runtimeAttached c, wm_desiredState := rt_desiredState c, wm_parentActive := rt_parentActive c,
      wm_paneId := pi_paneId i, wm_paneToken := pi_paneToken i, wm_paneIdentity := Some i,
      wm_workspace := opt_or (pi_workspace i) (wm_workspace v), wm_worktreeName := pi_worktreeName i, wm_branch := pi_branch i\<rparr>"
    by (auto simp: runtime_patch_def Let_def split: if_splits)
  show ?thesis using assms(1,2) unfolding v' by (cases "pi_workspace i") (simp_all add: main_defs)
qed

lemma reduce_tasks_ok:
  assumes "worker_main_ok v"
  shows "worker_main_ok (reduce_tasks collate t c v) \<and> same_main v (reduce_tasks collate t c v)
    \<and> (wm_viewVersion (reduce_tasks collate t c v) = wm_viewVersion v \<and> main_shown (reduce_tasks collate t c v) = main_shown v
       \<or> wm_viewVersion (reduce_tasks collate t c v) = wm_viewVersion v + 1)"
proof -
  have tasks: "length (boundedTerminalTasks collate (tc_recentTasks c)) \<le> WORKER_MAIN_RECENT_TASK_LIMIT"
    "\<forall>t \<in> set (boundedTerminalTasks collate (tc_recentTasks c)). isTerminal (wt_phase t)"
    using boundedTerminalTasks_ok by blast+
  then show ?thesis using assms by (simp add: reduce_tasks_def Let_def main_defs)
qed

lemma terminated_patch_ok:
  assumes "worker_main_ok v"
  shows "worker_main_ok (terminated_patch t v) \<and> same_main v (terminated_patch t v) \<and> wm_viewVersion (terminated_patch t v) = wm_viewVersion v"
  using assms by (auto simp: terminated_patch_def Let_def main_defs)

lemma main_stamp_ok:
  "worker_main_ok v \<and> same_main u v \<and> wm_viewVersion v = n \<Longrightarrow>
     worker_main_ok (main_stamp t v) \<and> same_main u (main_stamp t v) \<and> wm_viewVersion (main_stamp t v) = n + 1"
  by (simp add: main_defs)

lemma reduceWorkerMainView_ok:
  assumes "worker_main_ok v" and v'_def: "v' = reduceWorkerMainView collate t c v"
  shows "worker_main_ok v' \<and> same_main v v' \<and> (wm_viewVersion v' = wm_viewVersion v \<and> main_shown v' = main_shown v \<or> wm_viewVersion v' = wm_viewVersion v + 1)"
proof -
  from assms(1) have "wm_modelUsage v \<noteq> None" by (simp add: worker_main_ok_def)
  note red = v'_def reduce_with_usage [OF this]
  have same: "worker_main_ok v \<and> same_main v v" using assms(1) by (simp add: same_main_def)
  show ?thesis
  proof (cases "wm_frozenAt v = None")
    case False
    with same show ?thesis by (simp add: red)
  next
    case True
    show ?thesis
    proof (cases c)
      case (WM_usage x)
      have "worker_main_ok (v\<lparr>wm_modelUsage := Some x\<rparr>) \<and> same_main v (v\<lparr>wm_modelUsage := Some x\<rparr>) \<and> wm_viewVersion (v\<lparr>wm_modelUsage := Some x\<rparr>) = wm_viewVersion v"
        using assms(1) by (simp add: main_defs)
      from main_stamp_ok [OF this, of t] same True WM_usage show ?thesis by (simp add: red)
    next
      case (WM_runtime r)
      show ?thesis
      proof (cases "runtime_patch r v")
        case None
        with same True WM_runtime show ?thesis by (simp add: red)
      next
        case (Some w)
        from runtime_patch_ok [OF assms(1) True Some] have "worker_main_ok w \<and> same_main v w \<and> wm_viewVersion w = wm_viewVersion v" by blast
        from main_stamp_ok [OF this, of t] True WM_runtime Some show ?thesis by (simp add: red)
      qed
    next
      case (WM_tasks ts)
      with reduce_tasks_ok [OF assms(1)] True show ?thesis by (simp add: red)
    next
      case WM_terminated
      from main_stamp_ok [OF terminated_patch_ok [OF assms(1)], of t] True WM_terminated show ?thesis by (simp add: red)
    qed
  qed
qed

interpretation worker_main_versions: versioned_reducer
  "\<lambda>(t, c) v. Inr (reduceWorkerMainView collate t c v) :: (unit, WorkerMainView) result" wm_viewVersion main_shown worker_main_ok
proof (unfold_locales, goal_cases)
  case (1 v c v')
  then show ?case using reduceWorkerMainView_ok [of v v'] by (cases c) auto
next
  case (2 v c v')
  then show ?case using reduceWorkerMainView_ok [of v v' collate "fst c" "snd c"] by (cases c) auto
qed

subsection \<open>Projecting again\<close>

definition titled :: "WorkerMainProjectionSource \<Rightarrow> WorkerMainView \<Rightarrow> bool" where
  "titled s v \<longleftrightarrow> wm_primaryPaneName v = Some (ws_primaryPaneName s) \<and> wm_parentPaneToken v = ws_parentPaneToken s
     \<and> wm_projectId v = Some (ws_projectId s) \<and> same_worker s v"

definition runtime_current :: "WorkerMainProjectionSource \<Rightarrow> WorkerMainView \<Rightarrow> bool" where
  "runtime_current s v \<longleftrightarrow> wm_runtimeGeneration v = ws_runtimeGeneration s \<and> wm_runtimeState v = Observed (ws_runtimeState s)
     \<and> wm_runtimeAttached v = ws_runtimeAttached s \<and> wm_desiredState v = ws_desiredState s \<and> wm_parentActive v = ws_parentActive s
     \<and> (\<exists>i. wm_paneIdentity v = Some i \<and> identity_or (Some (source_identity s)) i = i)"

definition tasks_current :: "string comparator \<Rightarrow> WorkerMainProjectionSource \<Rightarrow> WorkerMainView \<Rightarrow> bool" where
  "tasks_current collate s v \<longleftrightarrow> wm_currentTask v = ws_currentTask s \<and> wm_queueCount v = ws_queueCount s
     \<and> wm_nextTaskTitle v = ws_nextTaskTitle s \<and> wm_recentTasks v = boundedTerminalTasks collate (ws_recentTasks s)"

definition projected :: "string comparator \<Rightarrow> WorkerMainProjectionSource \<Rightarrow> WorkerMainView \<Rightarrow> bool" where
  "projected collate s v \<longleftrightarrow> wm_modelUsage v \<noteq> None \<and> titled s v
     \<and> (wm_frozenAt v \<noteq> None \<or> runtime_current s v \<and> wm_modelUsage v = Some (source_usage s) \<and> tasks_current collate s v
          \<and> ws_lifecycle s \<noteq> Session_terminated)"

lemmas projected_defs = titled_def same_worker_def runtime_current_def tasks_current_def main_stamp_def

lemma nullish_twice [simp]: "nullish x (nullish x y) = nullish x y"
  by (cases x) simp_all

lemma identity_or_twice: "identity_or a (identity_or a b) = identity_or a b"
  by (simp add: identity_or_def split: option.splits)

lemma runtime_identity_source: "runtime_identity (source_runtime s) prior = identity_or (Some (source_identity s)) prior"
  by (simp add: runtime_identity_def source_runtime_def Let_def identity_or_def)

lemma source_runtime_fields [simp]:
  "rt_runtimeGeneration (source_runtime s) = ws_runtimeGeneration s" "rt_runtimeState (source_runtime s) = ws_runtimeState s"
  "rt_runtimeAttached (source_runtime s) = ws_runtimeAttached s" "rt_desiredState (source_runtime s) = ws_desiredState s"
  "rt_parentActive (source_runtime s) = ws_parentActive s"
  by (simp_all add: source_runtime_def)

lemma runtime_patch_current: "runtime_current s v \<Longrightarrow> runtime_patch (source_runtime s) v = None"
  by (auto simp: runtime_patch_def runtime_identity_source runtime_current_def Let_def)

lemma titled_view_titled: "same_worker s v \<Longrightarrow> titled s (titled_view t s v) \<and> wm_frozenAt (titled_view t s v) = wm_frozenAt v
    \<and> wm_modelUsage (titled_view t s v) = wm_modelUsage v"
  by (simp add: titled_view_def projected_defs)

lemma runtime_step_current:
  assumes "wm_modelUsage v \<noteq> None" and "wm_frozenAt v = None" and "titled s v" and "wm_paneIdentity v \<noteq> None"
    and v': "v' = reduceWorkerMainView collate t (WM_runtime (source_runtime s)) v"
  shows "runtime_current s v' \<and> titled s v' \<and> wm_frozenAt v' = None \<and> wm_modelUsage v' \<noteq> None"
proof (cases "runtime_patch (source_runtime s) v")
  case None
  with assms have "v' = v" by (simp add: reduce_with_usage)
  moreover from None assms(4) have "runtime_current s v"
    by (auto simp: runtime_patch_def runtime_current_def runtime_identity_source Let_def split: if_splits)
  ultimately show ?thesis using assms by simp
next
  case (Some w)
  with assms have v2: "v' = main_stamp t w" by (simp add: reduce_with_usage)
  show ?thesis using Some assms(1,2,3) unfolding v2
    by (auto simp: runtime_patch_def runtime_identity_source Let_def projected_defs identity_or_twice split: if_splits)
qed

lemma usage_step_current:
  assumes "wm_modelUsage v \<noteq> None" and "wm_frozenAt v = None" and "titled s v" and "runtime_current s v"
    and v': "v' = reduceWorkerMainView collate t (WM_usage (source_usage s)) v"
  shows "runtime_current s v' \<and> titled s v' \<and> wm_frozenAt v' = None \<and> wm_modelUsage v' = Some (source_usage s)"
  using assms by (simp add: reduce_with_usage projected_defs)

lemma tasks_step_current:
  assumes "wm_modelUsage v = Some (source_usage s)" and "wm_frozenAt v = None" and "titled s v" and "runtime_current s v"
    and v': "v' = reduceWorkerMainView collate t (WM_tasks (source_tasks s n)) v"
  shows "runtime_current s v' \<and> titled s v' \<and> wm_frozenAt v' = None \<and> wm_modelUsage v' = Some (source_usage s) \<and> tasks_current collate s v'"
  using assms by (simp add: reduce_with_usage reduce_tasks_def source_tasks_def Let_def projected_defs)

lemma terminated_step_frozen:
  assumes "wm_modelUsage v \<noteq> None" and "titled s v"
    and v': "v' = reduceWorkerMainView collate t WM_terminated v"
  shows "titled s v' \<and> wm_frozenAt v' \<noteq> None \<and> wm_modelUsage v' \<noteq> None"
  using assms by (simp add: reduce_with_usage terminated_patch_def Let_def projected_defs)

lemma frozen_main_fixed: "wm_modelUsage v \<noteq> None \<Longrightarrow> wm_frozenAt v \<noteq> None \<Longrightarrow> reduceWorkerMainView collate t c v = v"
  by (simp add: reduce_with_usage)

lemma select_projected:
  assumes "worker_main_ok (opt_or previous (first_main_view s))" and "same_worker s (opt_or previous (first_main_view s))"
  shows "projected collate s (selectWorkerMainView collate s previous d t)"
proof -
  let ?v = "titled_view t s (opt_or previous (first_main_view s))"
  have base: "titled s ?v" "wm_modelUsage ?v \<noteq> None" "wm_paneIdentity ?v \<noteq> None"
    using titled_view_titled [OF assms(2), of t] assms(1) by (auto simp: worker_main_ok_def titled_view_def main_stamp_def)
  show ?thesis
  proof (cases "wm_frozenAt ?v = None")
    case False
    then show ?thesis using assms(2) base frozen_main_fixed [OF base(2) False]
      by (simp add: selectWorkerMainView_def Let_def projected_def)
  next
    case True
    define v1 where "v1 = reduceWorkerMainView collate t (WM_runtime (source_runtime s)) ?v"
    define v2 where "v2 = reduceWorkerMainView collate t (WM_usage (source_usage s)) v1"
    define v3 where "v3 = reduceWorkerMainView collate t (WM_tasks (source_tasks s (projected_revision s previous d))) v2"
    have v1: "runtime_current s v1 \<and> titled s v1 \<and> wm_frozenAt v1 = None \<and> wm_modelUsage v1 \<noteq> None"
      unfolding v1_def using runtime_step_current base True by blast
    then have v2: "runtime_current s v2 \<and> titled s v2 \<and> wm_frozenAt v2 = None \<and> wm_modelUsage v2 = Some (source_usage s)"
      unfolding v2_def using usage_step_current by blast
    then have v3: "runtime_current s v3 \<and> titled s v3 \<and> wm_frozenAt v3 = None \<and> wm_modelUsage v3 = Some (source_usage s) \<and> tasks_current collate s v3"
      unfolding v3_def using tasks_step_current by blast
    have "selectWorkerMainView collate s previous d t =
        (if ws_lifecycle s = Session_terminated then reduceWorkerMainView collate t WM_terminated v3 else v3)"
      using assms(2) by (simp add: selectWorkerMainView_def Let_def v1_def v2_def v3_def)
    with v3 terminated_step_frozen [of v3 s _ collate t] show ?thesis by (simp add: projected_def)
  qed
qed

lemma select_again:
  assumes "projected collate s v"
  shows "main_shown (selectWorkerMainView collate s (Some v) d t) = main_shown v"
proof -
  from assms have v: "wm_modelUsage v \<noteq> None" "same_worker s v" "titled_view t s v = v"
    by (auto simp: projected_def titled_def titled_view_def)
  show ?thesis
  proof (cases "wm_frozenAt v = None")
    case False
    then show ?thesis using v frozen_main_fixed [OF v(1) False] by (simp add: selectWorkerMainView_def Let_def)
  next
    case True
    with assms have current: "runtime_current s v" "wm_modelUsage v = Some (source_usage s)" "tasks_current collate s v"
      "ws_lifecycle s \<noteq> Session_terminated" by (auto simp: projected_def)
    have "main_shown (reduceWorkerMainView collate t (WM_tasks (source_tasks s n)) v) = main_shown v" for n
      using True current by (simp add: reduce_with_usage reduce_tasks_def source_tasks_def Let_def tasks_current_def main_shown_def)
    moreover have "reduceWorkerMainView collate t (WM_runtime (source_runtime s)) v = v" "reduceWorkerMainView collate t (WM_usage (source_usage s)) v = v"
      using True current(2) runtime_patch_current [OF current(1)] by (simp_all add: reduce_with_usage)
    ultimately show ?thesis using v(2,3) current(4) by (simp add: selectWorkerMainView_def Let_def)
  qed
qed

lemma first_main_view_ok: "worker_main_ok (first_main_view s)" "same_worker s (first_main_view s)"
  by (simp_all add: first_main_view_def createWorkerMainView_ok same_worker_def) (simp_all add: createWorkerMainView_def Let_def)

subsection \<open>Properties\<close>


definition sample_source :: WorkerMainProjectionSource where
  "sample_source = \<lparr>ws_workerId = ''w'', ws_workerSessionGeneration = 1, ws_workerName = [], ws_model = None, ws_runtimeGeneration = 1,
     ws_runtimeState = Obs_idle, ws_paneId = None, ws_paneToken = None, ws_runtimeAttached = True, ws_desiredState = Desired_running,
     ws_parentActive = True, ws_lifecycle = Session_active, ws_parentBindingId = ''b'', ws_parentBindingGeneration = 1,
     ws_parentPaneId = ''p'', ws_parentPaneToken = None, ws_primaryPaneName = [], ws_projectId = ''x'', ws_ownerName = [], ws_workspace = [],
     ws_branch = None, ws_worktreeName = None, ws_paneIdentity = None, ws_modelUsage = None, ws_currentTask = None, ws_queueCount = 0,
     ws_nextTaskTitle = None, ws_recentTasks = [], ws_createdAt = 0\<rparr>"


text \<open>
  Projecting a worker's stored facts onto its card is idempotent: projecting the same
  facts a second time, at whatever time and revision, leaves everything the card shows as
  the first projection left it, its version included, so a repeated invalidation never
  causes a repeated delivery. This holds for a new card, for a stored one, for one that
  belongs to another session, and for a frozen one.
\<close>
lemma worker_projection_is_idempotent:
  assumes "\<forall>p. previous = Some p \<longrightarrow> worker_main_ok p"
  shows "main_shown (selectWorkerMainView collate s (Some (selectWorkerMainView collate s previous d t)) d' t')
       = main_shown (selectWorkerMainView collate s previous d t)"
proof (cases "same_worker s (opt_or previous (first_main_view s))")
  case True
  have "worker_main_ok (opt_or previous (first_main_view s))"
    using assms first_main_view_ok(1) by (cases previous) auto
  from select_again [OF select_projected [OF this True]] show ?thesis .
next
  case False
  then show ?thesis by (simp add: selectWorkerMainView_def Let_def)
qed

text \<open>
  A primary's card shows at most eight workers, and it shows the right ones: shown and
  overflow together count the workers that are neither stopped nor failed, nobody left out
  is more urgent than anybody shown (blocked before working before queued before starting
  before idle), and nothing is shown twice or made up. The recent tasks of a worker's card
  are the newest terminal ones in the same sense.
\<close>
lemma cards_show_the_most_urgent_workers:
  assumes "selectPrimaryWorkerSummaries collate candidates = (workers, overflow)"
  shows "length workers \<le> PRIMARY_MAIN_WORKER_LIMIT \<and> int (length workers) + overflow = int (length (filter active_worker candidates))
    \<and> mset workers \<subseteq># mset (filter active_worker candidates)
    \<and> (\<forall>w \<in> set workers. \<forall>u \<in># mset (filter active_worker candidates) - mset workers.
         worker_rank (pw_state w) < worker_rank (pw_state u) \<or> worker_rank (pw_state w) = worker_rank (pw_state u) \<and> pw_createdAt w \<le> pw_createdAt u)
    \<and> length (boundedTerminalTasks collate tasks) \<le> WORKER_MAIN_RECENT_TASK_LIMIT
    \<and> set (boundedTerminalTasks collate tasks) \<subseteq> {t \<in> set tasks. isTerminal (wt_phase t)}
    \<and> (\<forall>t \<in> set (boundedTerminalTasks collate tasks). \<forall>u \<in> set tasks.
         isTerminal (wt_phase u) \<longrightarrow> u \<notin> set (boundedTerminalTasks collate tasks) \<longrightarrow> wt_updatedAt u \<le> wt_updatedAt t)"
proof (intro conjI ballI)
  let ?n = PRIMARY_MAIN_WORKER_LIMIT
  let ?active = "filter active_worker candidates"
  let ?sorted = "Sorting_Algorithms.sort (most_urgent_first collate) ?active"
  from assms have workers: "workers = take ?n ?sorted" and overflow: "overflow = max 0 (int (length ?active) - int ?n)"
    by (auto simp: selectPrimaryWorkerSummaries_def Let_def)
  show "length workers \<le> ?n" "int (length workers) + overflow = int (length ?active)" unfolding workers overflow by auto
  have split: "mset workers + mset (drop ?n ?sorted) = mset ?active" unfolding workers by (rule sort_split)
  then show "mset workers \<subseteq># mset ?active" by (metis mset_subset_eq_add_left)
  fix w u
  assume w: "w \<in> set workers" and "u \<in># mset ?active - mset workers"
  with split have "u \<in> set (drop ?n ?sorted)" by (metis add_diff_cancel_left' set_mset_mset)
  from take_sort_best [OF w [unfolded workers] this] have "compare (most_urgent_first collate) w u \<noteq> Greater" .
  then show "worker_rank (pw_state w) < worker_rank (pw_state u) \<or> worker_rank (pw_state w) = worker_rank (pw_state u) \<and> pw_createdAt w \<le> pw_createdAt u"
    by (auto simp: most_urgent_first_def compare_prod_lex_apply not_le split: comp.splits)
qed (use boundedTerminalTasks_ok in \<open>blast+\<close>)

definition sample_worker :: "ident \<Rightarrow> ObservedInstanceState \<Rightarrow> timestamp \<Rightarrow> PrimaryWorkerSummary" where
  "sample_worker i st t = \<lparr>pw_workerId = i, pw_workerSessionGeneration = 1, pw_name = [], pw_state = Worker_observed st, pw_currentTaskTitle = None,
     pw_queueCount = 0, pw_workerMain = \<lparr>ct_aggregateKind = Worker_session, ct_aggregateId = i, ct_generation = 1, ct_messageId = None\<rparr>,
     pw_createdAt = t\<rparr>"

lemma reduce_keeps_pane:
  assumes "wm_modelUsage v \<noteq> None" and "c = WM_usage u \<or> c = WM_tasks ts"
  shows "wm_paneId (reduceWorkerMainView collate t c v) = wm_paneId v"
  using assms by (auto simp: reduce_with_usage reduce_tasks_def Let_def main_stamp_def)

lemma runtime_patch_pane:
  assumes "runtime_patch (source_runtime s) v = Some w" and "wm_paneIdentity v = Some i"
  shows "wm_paneId w = pi_paneId (identity_or (Some (source_identity s)) i)"
  using assms by (auto simp add: runtime_patch_def runtime_identity_source Let_def split: if_split_asm)

lemma tasks_revision:
  assumes "wm_modelUsage v \<noteq> None" and "wm_frozenAt v = None"
  shows "wm_dependencyRevision (reduceWorkerMainView collate t (WM_tasks (source_tasks s n)) v) = n"
  using assms by (simp add: reduce_with_usage reduce_tasks_def source_tasks_def Let_def main_stamp_def)

text \<open>
  A worker that has lost its pane keeps showing it. When the stored facts no longer
  name a pane, the projection falls back to the identity already on the card, so the former
  pane id stays there; and because that identity still differs from the stored one, every
  such projection raises the dependency revision again. Only termination clears the pane.
\<close>
lemma lost_pane_stays_on_the_worker_card:
  assumes "worker_main_ok v" and "same_worker s v" and "wm_frozenAt v = None" and "ws_lifecycle s \<noteq> Session_terminated"
    and "wm_paneId v = Some pane" and "pi_paneId (source_identity s) = None"
  shows "wm_paneId (selectWorkerMainView collate s (Some v) d t) = Some pane
    \<and> wm_dependencyRevision v < wm_dependencyRevision (selectWorkerMainView collate s (Some v) d t)"
proof -
  let ?v = "titled_view t s v"
  from assms(1,5) obtain i where i: "wm_paneIdentity v = Some i" "pi_paneId i = Some pane" by (auto simp: worker_main_ok_def)
  have usage: "wm_modelUsage v \<noteq> None" using assms(1) by (simp add: worker_main_ok_def)
  have base: "titled s ?v" "wm_modelUsage ?v \<noteq> None" "wm_paneIdentity ?v = Some i" "wm_frozenAt ?v = None" "wm_paneId ?v = Some pane"
    using titled_view_titled [OF assms(2), of t] usage assms(3,5) i(1) by (simp_all add: titled_view_def main_stamp_def)
  define v1 where "v1 = reduceWorkerMainView collate t (WM_runtime (source_runtime s)) ?v"
  define v2 where "v2 = reduceWorkerMainView collate t (WM_usage (source_usage s)) v1"
  let ?n = "projected_revision s (Some v) d"
  have "pi_paneId (identity_or (Some (source_identity s)) i) = Some pane" using assms(6) i(2) by (simp add: identity_or_def)
  then have pane: "wm_paneId v1 = Some pane" unfolding v1_def using base runtime_patch_pane [OF _ base(3)]
    by (cases "runtime_patch (source_runtime s) ?v") (simp_all add: reduce_with_usage main_stamp_def)
  have v1: "runtime_current s v1 \<and> titled s v1 \<and> wm_frozenAt v1 = None \<and> wm_modelUsage v1 \<noteq> None"
    using runtime_step_current [OF base(2,4,1) _ v1_def] base(3) by simp
  have v2: "wm_frozenAt v2 = None \<and> wm_modelUsage v2 \<noteq> None" using usage_step_current [OF _ _ _ _ v2_def] v1 by simp
  have pane2: "wm_paneId v2 = Some pane" unfolding v2_def using reduce_keeps_pane [of v1 "WM_usage (source_usage s)"] v1 pane by simp
  have result: "selectWorkerMainView collate s (Some v) d t = reduceWorkerMainView collate t (WM_tasks (source_tasks s ?n)) v2"
    using assms(2,4) by (simp add: selectWorkerMainView_def Let_def v1_def v2_def)
  have "i \<noteq> source_identity s" using i(2) assms(6) by auto
  then have "wm_dependencyRevision v < ?n" using i(1) by (simp add: projected_revision_def Let_def)
  with v2 pane2 tasks_revision [of v2 collate t s ?n] reduce_keeps_pane [of v2 "WM_tasks (source_tasks s ?n)" _ "source_tasks s ?n" collate t]
  show ?thesis unfolding result by simp
qed

lemma interactions_match_the_phase:
  "(ia_canInterrupt (workerTaskInteraction phase) \<longrightarrow> ia_replyIntent (workerTaskInteraction phase) = Reply_steer)
   \<and> (ia_hasAction (workerTaskInteraction phase) \<longleftrightarrow> ia_replyIntent (workerTaskInteraction phase) \<noteq> Reply_reject)
   \<and> (ia_replyIntent (workerTaskInteraction phase) = Reply_followup \<longleftrightarrow> phase \<in> {W_completed, W_failed, W_cancelled})"
  by (cases phase) (simp_all add: workerTaskInteraction_def)

end
