(* ===== verification/Model_Selection.thy ===== *)
theory Model_Selection
  imports Transition_System
begin

text \<open>
  The preferred model of a conversation (\<^verbatim>\<open>src/src/domain/model-selection.ts\<close>): a preference is
  requested, pinned by the prompt that is dispatched with it, and becomes effective, pending
  again or uncertain on the evidence of that dispatch. Requests and evidence are steps of a
  transition system. The catalogue lookup compares names with \<^verbatim>\<open>localeCompare\<close> at accent
  sensitivity; that comparison is a parameter.
\<close>

datatype ModelPreferenceState = Pref_pending | Pref_applying | Pref_effective | Pref_uncertain

record ModelPreference =
  mp_bindingId :: ident
  mp_bindingGeneration :: int
  mp_desiredModel :: string
  mp_desiredRevision :: int
  mp_effectiveModel :: "string option"
  mp_effectiveRevision :: "int option"
  mp_state :: ModelPreferenceState
  mp_dispatchPromptId :: "ident option"
  mp_preparedOperationId :: "ident option"
  mp_updatedAt :: timestamp

datatype evidence_kind = Ev_claimed | Ev_prepared ident | Ev_prepare_aborted ident | Ev_accepted ident ident | Ev_dispatch_failed

record ModelDispatchEvidence =
  ev_kind :: evidence_kind
  ev_bindingGeneration :: int
  ev_promptId :: ident
  ev_revision :: int
  ev_updatedAt :: timestamp

datatype selection_outcome = Sel_accepted | Sel_busy | Sel_stale

record model_request =
  mr_bindingId :: ident
  mr_bindingGeneration :: int
  mr_currentBindingGeneration :: int
  mr_model :: string
  mr_updatedAt :: timestamp

definition acceptModelSelection :: "ModelPreference option \<Rightarrow> model_request \<Rightarrow> selection_outcome \<times> ModelPreference option" where
  "acceptModelSelection current i =
     (if mr_bindingGeneration i \<noteq> mr_currentBindingGeneration i then (Sel_stale, current)
      else let same = (case current of None \<Rightarrow> None
             | Some c \<Rightarrow> if mp_bindingGeneration c = mr_bindingGeneration i then Some c else None)
           in if (case same of None \<Rightarrow> False | Some c \<Rightarrow> mp_state c = Pref_applying \<or> mp_state c = Pref_uncertain) then (Sel_busy, current)
              else (Sel_accepted, Some \<lparr>mp_bindingId = mr_bindingId i, mp_bindingGeneration = mr_bindingGeneration i,
                     mp_desiredModel = mr_model i,
                     mp_desiredRevision = (case same of None \<Rightarrow> 1 | Some c \<Rightarrow> mp_desiredRevision c + 1),
                     mp_effectiveModel = (case same of None \<Rightarrow> None | Some c \<Rightarrow> mp_effectiveModel c),
                     mp_effectiveRevision = (case same of None \<Rightarrow> None | Some c \<Rightarrow> mp_effectiveRevision c),
                     mp_state = Pref_pending, mp_dispatchPromptId = None, mp_preparedOperationId = None, mp_updatedAt = mr_updatedAt i\<rparr>))"

definition matchesApplying :: "ModelPreference \<Rightarrow> ModelDispatchEvidence \<Rightarrow> bool" where
  "matchesApplying c e \<longleftrightarrow> mp_state c = Pref_applying \<and> mp_dispatchPromptId c = Some (ev_promptId e) \<and> mp_desiredRevision c = ev_revision e"

definition back_to_pending :: "timestamp \<Rightarrow> ModelPreference \<Rightarrow> ModelPreference" where
  "back_to_pending t c = c\<lparr>mp_state := Pref_pending, mp_dispatchPromptId := None, mp_preparedOperationId := None, mp_updatedAt := t\<rparr>"

definition applying_evidence :: "ModelDispatchEvidence \<Rightarrow> ModelPreference \<Rightarrow> ModelPreference option" where
  "applying_evidence e c = (case ev_kind e of
       Ev_prepared operation \<Rightarrow>
         if mp_preparedOperationId c \<noteq> None \<and> mp_preparedOperationId c \<noteq> Some operation then None
         else Some (c\<lparr>mp_preparedOperationId := Some operation, mp_updatedAt := ev_updatedAt e\<rparr>)
     | Ev_prepare_aborted operation \<Rightarrow>
         if mp_preparedOperationId c \<noteq> Some operation then None else Some (back_to_pending (ev_updatedAt e) c)
     | Ev_accepted operation _ \<Rightarrow>
         if mp_preparedOperationId c \<noteq> Some operation then None
         else Some (c\<lparr>mp_state := Pref_effective, mp_effectiveModel := Some (mp_desiredModel c),
                mp_effectiveRevision := Some (mp_desiredRevision c), mp_dispatchPromptId := None, mp_preparedOperationId := None,
                mp_updatedAt := ev_updatedAt e\<rparr>)
     | _ \<Rightarrow>
         if mp_preparedOperationId c = None then Some (back_to_pending (ev_updatedAt e) c)
         else Some (c\<lparr>mp_state := Pref_uncertain, mp_updatedAt := ev_updatedAt e\<rparr>))"

definition recordEvidence :: "ModelPreference option \<Rightarrow> ModelDispatchEvidence \<Rightarrow> ModelPreference option" where
  "recordEvidence current e = (case current of
       None \<Rightarrow> None
     | Some c \<Rightarrow>
         if mp_bindingGeneration c \<noteq> ev_bindingGeneration e \<or> mp_desiredRevision c \<noteq> ev_revision e then None
         else if ev_kind e = Ev_claimed then
           (if mp_state c \<noteq> Pref_pending then None
            else Some (c\<lparr>mp_state := Pref_applying, mp_dispatchPromptId := Some (ev_promptId e), mp_preparedOperationId := None,
                   mp_updatedAt := ev_updatedAt e\<rparr>))
         else if \<not> matchesApplying c e then None
         else applying_evidence e c)"

record ModelPreferenceSnapshot =
  sn_state :: "ModelPreferenceState option"
  sn_effective :: "(string \<times> int) option"
  sn_desired :: "(string \<times> int) option"
  sn_promptPinned :: bool

definition preference_snapshot :: "ModelPreference option \<Rightarrow> ModelPreferenceSnapshot" where
  "preference_snapshot current = (case current of
       None \<Rightarrow> \<lparr>sn_state = None, sn_effective = None, sn_desired = None, sn_promptPinned = False\<rparr>
     | Some c \<Rightarrow>
         \<lparr>sn_state = Some (mp_state c),
          sn_effective = (case (mp_effectiveModel c, mp_effectiveRevision c) of (Some m, Some r) \<Rightarrow> Some (m, r) | _ \<Rightarrow> None),
          sn_desired = (if mp_state c = Pref_effective then None else Some (mp_desiredModel c, mp_desiredRevision c)),
          sn_promptPinned = (mp_state c = Pref_applying \<or> mp_state c = Pref_uncertain)\<rparr>)"

subsection \<open>Names in the catalogue\<close>

datatype CatalogModelResolution = Resolved string | Invalid_name | Not_found | Ambiguous

definition alnum_char :: "char \<Rightarrow> bool" where
  "alnum_char c \<longleftrightarrow> (let n = of_char c :: nat in 48 \<le> n \<and> n \<le> 57 \<or> 65 \<le> n \<and> n \<le> 90 \<or> 97 \<le> n \<and> n \<le> 122)"

text \<open>\<^verbatim>\<open>/^[A-Za-z0-9][A-Za-z0-9._+:/-]{0,127}$/\<close>.\<close>

definition canonical_model_name :: "string \<Rightarrow> bool" where
  "canonical_model_name name = (case name of
       [] \<Rightarrow> False
     | c # cs \<Rightarrow> alnum_char c \<and> length cs \<le> 127 \<and> list_all (\<lambda>x. alnum_char x \<or> x \<in> set ''._+:/-'') cs)"

definition resolveCatalogModel :: "(string \<Rightarrow> string \<Rightarrow> bool) \<Rightarrow> string \<Rightarrow> string list \<Rightarrow> CatalogModelResolution" where
  "resolveCatalogModel same_ignoring_case requested catalog =
     (if \<not> canonical_model_name requested then Invalid_name
      else case filter (\<lambda>name. canonical_model_name name \<and> name = requested) catalog of
             [name] \<Rightarrow> Resolved name
           | _ # _ \<Rightarrow> Ambiguous
           | [] \<Rightarrow> (case filter (\<lambda>name. canonical_model_name name \<and> same_ignoring_case name requested) catalog of
                      [name] \<Rightarrow> Resolved name
                    | _ # _ \<Rightarrow> Ambiguous
                    | [] \<Rightarrow> Not_found))"

subsection \<open>Histories of a preference\<close>

text \<open>
  The stored preference with the requests accepted so far, newest first, and the evidence
  that made a preference effective. A store keeps what a request or a piece of evidence
  returns; evidence that returns null is dropped.
\<close>

record preference_history =
  ph_current :: "ModelPreference option"
  ph_requested :: "(int \<times> int \<times> string) list"
  ph_acceptances :: "ModelDispatchEvidence list"

inductive preference_step :: "preference_history \<Rightarrow> preference_history \<Rightarrow> bool" where
  request_accepted: "acceptModelSelection (ph_current h) i = (Sel_accepted, Some p) \<Longrightarrow>
    preference_step h (h\<lparr>ph_current := Some p,
      ph_requested := (mp_bindingGeneration p, mp_desiredRevision p, mr_model i) # ph_requested h\<rparr>)"
| evidence_recorded: "recordEvidence (ph_current h) e = Some p \<Longrightarrow>
    preference_step h (h\<lparr>ph_current := Some p,
      ph_acceptances := (if \<exists>operation turn. ev_kind e = Ev_accepted operation turn then e # ph_acceptances h else ph_acceptances h)\<rparr>)"

definition preference_start :: "preference_history \<Rightarrow> bool" where
  "preference_start h \<longleftrightarrow> h = \<lparr>ph_current = None, ph_requested = [], ph_acceptances = []\<rparr>"

definition preference_ok :: "ModelPreference \<Rightarrow> bool" where
  "preference_ok p \<longleftrightarrow> 1 \<le> mp_desiredRevision p
     \<and> (mp_state p \<in> {Pref_applying, Pref_uncertain} \<longleftrightarrow> mp_dispatchPromptId p \<noteq> None)
     \<and> (mp_preparedOperationId p \<noteq> None \<longrightarrow> mp_state p \<in> {Pref_applying, Pref_uncertain})
     \<and> (mp_state p = Pref_uncertain \<longrightarrow> mp_preparedOperationId p \<noteq> None)
     \<and> (mp_state p = Pref_effective \<longrightarrow> mp_effectiveModel p = Some (mp_desiredModel p) \<and> mp_effectiveRevision p = Some (mp_desiredRevision p))
     \<and> (mp_effectiveModel p = None \<longleftrightarrow> mp_effectiveRevision p = None)
     \<and> (\<forall>r. mp_effectiveRevision p = Some r \<longrightarrow> r \<le> mp_desiredRevision p)"

text \<open>
  The desired model is the last one requested, and an effective one was requested at its
  revision and accepted for it.
\<close>

definition history_inv :: "preference_history \<Rightarrow> bool" where
  "history_inv h \<longleftrightarrow> (case ph_current h of
       None \<Rightarrow> True
     | Some p \<Rightarrow> preference_ok p \<and> list_head (ph_requested h) = Some (mp_bindingGeneration p, mp_desiredRevision p, mp_desiredModel p)
         \<and> (\<forall>m r. mp_effectiveModel p = Some m \<longrightarrow> mp_effectiveRevision p = Some r \<longrightarrow>
              (mp_bindingGeneration p, r, m) \<in> set (ph_requested h)
              \<and> (\<exists>e \<in> set (ph_acceptances h). ev_bindingGeneration e = mp_bindingGeneration p \<and> ev_revision e = r)))"

lemma accepted_request:
  assumes "acceptModelSelection current i = (Sel_accepted, Some p)"
  shows "mr_bindingGeneration i = mr_currentBindingGeneration i \<and> mp_bindingGeneration p = mr_bindingGeneration i
    \<and> mp_desiredModel p = mr_model i \<and> mp_state p = Pref_pending \<and> mp_dispatchPromptId p = None \<and> mp_preparedOperationId p = None
    \<and> (mp_desiredRevision p = 1 \<and> mp_effectiveModel p = None \<and> mp_effectiveRevision p = None
       \<or> (\<exists>c. current = Some c \<and> mp_bindingGeneration c = mr_bindingGeneration i \<and> mp_state c \<in> {Pref_pending, Pref_effective}
            \<and> mp_desiredRevision p = mp_desiredRevision c + 1 \<and> mp_effectiveModel p = mp_effectiveModel c
            \<and> mp_effectiveRevision p = mp_effectiveRevision c))"
  using assms by (auto simp: acceptModelSelection_def Let_def split: if_splits option.splits ModelPreferenceState.splits)
    (metis ModelPreferenceState.exhaust)+

lemma recorded_evidence:
  assumes "recordEvidence current e = Some p"
  obtains c where "current = Some c" "mp_bindingGeneration c = ev_bindingGeneration e" "mp_desiredRevision c = ev_revision e"
    "ev_kind e = Ev_claimed \<and> mp_state c = Pref_pending
       \<and> p = c\<lparr>mp_state := Pref_applying, mp_dispatchPromptId := Some (ev_promptId e), mp_preparedOperationId := None, mp_updatedAt := ev_updatedAt e\<rparr>
     \<or> ev_kind e \<noteq> Ev_claimed \<and> mp_state c = Pref_applying \<and> mp_dispatchPromptId c = Some (ev_promptId e) \<and> applying_evidence e c = Some p"
  using assms by (auto simp: recordEvidence_def matchesApplying_def split: option.splits if_splits)

lemma applying_evidence_cases:
  assumes "applying_evidence e c = Some p"
  obtains (prepared) operation where "ev_kind e = Ev_prepared operation" "p = c\<lparr>mp_preparedOperationId := Some operation, mp_updatedAt := ev_updatedAt e\<rparr>"
  | (pending) "\<forall>operation turn. ev_kind e \<noteq> Ev_accepted operation turn" "p = back_to_pending (ev_updatedAt e) c"
  | (accepted) operation turn where "ev_kind e = Ev_accepted operation turn" "mp_preparedOperationId c = Some operation"
      "p = c\<lparr>mp_state := Pref_effective, mp_effectiveModel := Some (mp_desiredModel c), mp_effectiveRevision := Some (mp_desiredRevision c),
         mp_dispatchPromptId := None, mp_preparedOperationId := None, mp_updatedAt := ev_updatedAt e\<rparr>"
  | (uncertain) "\<forall>operation turn. ev_kind e \<noteq> Ev_accepted operation turn" "mp_preparedOperationId c \<noteq> None"
      "p = c\<lparr>mp_state := Pref_uncertain, mp_updatedAt := ev_updatedAt e\<rparr>"
proof (cases "ev_kind e")
  case (Ev_prepared x)
  with assms that(1) show ?thesis by (simp add: applying_evidence_def split: if_splits)
next
  case (Ev_prepare_aborted x)
  with assms that(2) show ?thesis by (simp add: applying_evidence_def split: if_splits)
next
  case (Ev_accepted x y)
  with assms that(3) show ?thesis by (simp add: applying_evidence_def split: if_splits)
next
  case Ev_claimed
  with assms that(2,4) show ?thesis by (simp add: applying_evidence_def split: if_splits)
next
  case Ev_dispatch_failed
  with assms that(2,4) show ?thesis by (simp add: applying_evidence_def split: if_splits)
qed

lemma history_inv_request:
  assumes "history_inv h" and "acceptModelSelection (ph_current h) i = (Sel_accepted, Some p)"
  shows "history_inv (h\<lparr>ph_current := Some p, ph_requested := (mp_bindingGeneration p, mp_desiredRevision p, mr_model i) # ph_requested h\<rparr>)"
  using accepted_request [OF assms(2)] assms(1) by (auto simp: history_inv_def preference_ok_def)

lemma history_inv_evidence:
  assumes "history_inv h" and "recordEvidence (ph_current h) e = Some p"
  shows "history_inv (h\<lparr>ph_current := Some p,
      ph_acceptances := (if \<exists>operation turn. ev_kind e = Ev_accepted operation turn then e # ph_acceptances h else ph_acceptances h)\<rparr>)"
  using assms(2)
proof (rule recorded_evidence)
  fix c
  assume c: "ph_current h = Some c" "mp_bindingGeneration c = ev_bindingGeneration e" "mp_desiredRevision c = ev_revision e"
    and effect: "ev_kind e = Ev_claimed \<and> mp_state c = Pref_pending
       \<and> p = c\<lparr>mp_state := Pref_applying, mp_dispatchPromptId := Some (ev_promptId e), mp_preparedOperationId := None, mp_updatedAt := ev_updatedAt e\<rparr>
     \<or> ev_kind e \<noteq> Ev_claimed \<and> mp_state c = Pref_applying \<and> mp_dispatchPromptId c = Some (ev_promptId e) \<and> applying_evidence e c = Some p"
  from assms(1) c(1) have inv: "preference_ok c" "list_head (ph_requested h) = Some (mp_bindingGeneration c, mp_desiredRevision c, mp_desiredModel c)"
    "\<And>m r. mp_effectiveModel c = Some m \<Longrightarrow> mp_effectiveRevision c = Some r \<Longrightarrow> (mp_bindingGeneration c, r, m) \<in> set (ph_requested h)
       \<and> (\<exists>e \<in> set (ph_acceptances h). ev_bindingGeneration e = mp_bindingGeneration c \<and> ev_revision e = r)"
    by (simp_all add: history_inv_def)
  show ?thesis
  proof (cases "ev_kind e = Ev_claimed")
    case True
    with effect inv show ?thesis by (simp add: history_inv_def preference_ok_def)
  next
    case False
    with effect have "applying_evidence e c = Some p" and applying: "mp_state c = Pref_applying" "mp_dispatchPromptId c \<noteq> None" by auto
    then show ?thesis
    proof (cases rule: applying_evidence_cases)
      case (prepared operation)
      with inv applying show ?thesis by (simp add: history_inv_def preference_ok_def)
    next
      case pending
      with inv applying show ?thesis by (simp add: history_inv_def preference_ok_def back_to_pending_def)
    next
      case (accepted operation turn)
      from inv(2) have "(mp_bindingGeneration c, mp_desiredRevision c, mp_desiredModel c) \<in> set (ph_requested h)"
        by (cases "ph_requested h") simp_all
      with accepted inv(1,2) c(2,3) show ?thesis by (simp add: history_inv_def preference_ok_def)
    next
      case uncertain
      with inv applying show ?thesis by (simp add: history_inv_def preference_ok_def)
    qed
  qed
qed

interpretation preference: invariant_system preference_start preference_step history_inv
proof
  show "history_inv h" if "preference_start h" for h using that by (simp add: preference_start_def history_inv_def)
  show "history_inv h'" if "history_inv h" "preference_step h h'" for h h'
    using that(2,1) by cases (simp_all add: history_inv_request history_inv_evidence)
qed

lemma pinned_preference_is_busy:
  assumes "sn_promptPinned (preference_snapshot (Some p))" and "mr_bindingGeneration i = mp_bindingGeneration p"
  shows "snd (acceptModelSelection (Some p) i) = Some p \<and> fst (acceptModelSelection (Some p) i) \<noteq> Sel_accepted"
  using assms by (auto simp: preference_snapshot_def acceptModelSelection_def Let_def)

lemma resolved_model_is_in_the_catalogue:
  "resolveCatalogModel same requested catalog = Resolved name \<Longrightarrow> name \<in> set catalog \<and> canonical_model_name name \<and> (name = requested \<or> same name requested)"
proof -
  assume res: "resolveCatalogModel same requested catalog = Resolved name"
  let ?exact = "filter (\<lambda>n. canonical_model_name n \<and> n = requested) catalog"
  let ?near = "filter (\<lambda>n. canonical_model_name n \<and> same n requested) catalog"
  from res have "?exact = [name] \<or> ?near = [name]"
    by (auto simp: resolveCatalogModel_def split: if_splits list.splits)
  then have "name \<in> set ?exact \<or> name \<in> set ?near" by (metis list.set_intros(1))
  then show ?thesis by auto
qed

lemma exact_model_name_wins:
  "canonical_model_name requested \<Longrightarrow> count_list catalog requested = 1 \<Longrightarrow> resolveCatalogModel same requested catalog = Resolved requested"
proof -
  assume name: "canonical_model_name requested" and once: "count_list catalog requested = 1"
  have "filter (\<lambda>n. canonical_model_name n \<and> n = requested) catalog = replicate (count_list catalog requested) requested"
    using name by (induction catalog) auto
  with name once show ?thesis by (simp add: resolveCatalogModel_def)
qed


definition sample_request :: model_request where
  "sample_request = \<lparr>mr_bindingId = ''b'', mr_bindingGeneration = 1, mr_currentBindingGeneration = 1, mr_model = ''m'', mr_updatedAt = 0\<rparr>"

definition sample_preference :: ModelPreference where
  "sample_preference = \<lparr>mp_bindingId = ''b'', mp_bindingGeneration = 1, mp_desiredModel = ''m'', mp_desiredRevision = 1, mp_effectiveModel = None,
     mp_effectiveRevision = None, mp_state = Pref_pending, mp_dispatchPromptId = None, mp_preparedOperationId = None, mp_updatedAt = 0\<rparr>"


end
