(* ===== verification/Topic_View.thy ===== *)
theory Topic_View
  imports Worker_Main Model_Selection
begin

text \<open>
  The view behind the main card of a conversation (\<^verbatim>\<open>src/src/domain/topic-view.ts\<close>) and the
  normal form of an observed output (\<^verbatim>\<open>src/src/domain/events.ts\<close>). The reducer computes the next
  view from an event; \<open>updateTopicView\<close> compares what the two views show and raises the
  version only when that differs. A view of the current release has every flat field; a
  missing one and a null one are not told apart. Only the pane identity may be missing, as
  in views written before it existed. Prompt ids are not decimal numbers, so the properties
  of \<open>pendingPromptQueuedAt\<close> keep the order in which they were added.
\<close>

subsection \<open>Observed outputs\<close>

record progress_update =
  pu_key :: ident
  pu_kind :: ProgressEventKind
  pu_label :: js_text
  pu_state :: ProgressEventState

record status_update =
  su_statusTitle :: "js_text option option"
  su_planSteps :: "progress_update list option"
  su_elapsedSeconds :: "int option option"
  su_tokenCount :: "int option option"

record TurnOutputObservation =
  ob_goalChanges :: "GoalChange list option"
  ob_snapshot :: js_text
  ob_previousSnapshot :: "js_text option"
  ob_update :: "answer_update option"
  ob_toolActivities :: "progress_update list"
  ob_timelineDeltas :: "AnswerTimelineItem list option"
  ob_hasToolActivitySnapshot :: "bool option"
  ob_status :: "status_update option"
  ob_model :: "js_text option"
  ob_context :: "js_text option"

text \<open>An event stored by an older release has the fields of the observation beside each other.\<close>

record legacy_output =
  lo_answerSnapshot :: "js_text option"
  lo_previousAnswerSnapshot :: "js_text option"
  lo_answerUpdate :: "answer_update option"
  lo_progressEvents :: "progress_update list option"
  lo_timelineDeltas :: "AnswerTimelineItem list option"
  lo_goalChanges :: "GoalChange list option"
  lo_hasProgressSnapshot :: "bool option"
  lo_mainStatus :: "status_update option"
  lo_model :: "js_text option"
  lo_context :: "js_text option"

datatype output_payload = Observation TurnOutputObservation | Legacy_output legacy_output

definition when_nonempty :: "'a list option \<Rightarrow> 'a list option" where
  "when_nonempty v = (case v of Some (x # xs) \<Rightarrow> Some (x # xs) | _ \<Rightarrow> None)"

fun normalizeTurnOutputObservation :: "output_payload \<Rightarrow> TurnOutputObservation" where
  "normalizeTurnOutputObservation (Observation ob) = ob"
| "normalizeTurnOutputObservation (Legacy_output l) =
     \<lparr>ob_goalChanges = when_nonempty (lo_goalChanges l), ob_snapshot = opt_or (lo_answerSnapshot l) [],
      ob_previousSnapshot = lo_previousAnswerSnapshot l, ob_update = lo_answerUpdate l,
      ob_toolActivities = opt_or (lo_progressEvents l) [], ob_timelineDeltas = when_nonempty (lo_timelineDeltas l),
      ob_hasToolActivitySnapshot = lo_hasProgressSnapshot l, ob_status = lo_mainStatus l, ob_model = when_nonempty (lo_model l),
      ob_context = when_nonempty (lo_context l)\<rparr>"

subsection \<open>The view\<close>

datatype TopicViewPhase = T_provisioning | T_ready | T_queued | T_running | T_blocked | T_done | T_error | T_degraded | T_draining
  | T_archived | T_orphaned
datatype AgentState = A_idle | A_working | A_blocked | A_done | A_unknown

record TopicModelPreference =
  tp_model :: string
  tp_revision :: int
  tp_state :: ModelPreferenceState

record TopicSessionIdentity =
  si_bindingGeneration :: int
  si_sessionEpoch :: int
  si_nativeSessionId :: "ident option"
  si_paneId :: "ident option"
  si_rootMessageId :: "ident option"

record MainCardLiveStatus =
  ls_statusTitle :: "js_text option"
  ls_planSteps :: "RunProgressEvent list"
  ls_elapsedSeconds :: "int option"
  ls_tokenCount :: "int option"

record NativeInputBacklog =
  nb_unbatchedInputCount :: int
  nb_pendingBatchCount :: int

record TopicViewState =
  tv_bindingId :: ident
  tv_bindingGeneration :: int
  tv_title :: js_text
  tv_agentKind :: AgentKind
  tv_workspaceId :: ident
  tv_spaceName :: js_text
  tv_tabId :: "ident option"
  tv_paneId :: "ident option"
  tv_paneToken :: "ident option"
  tv_paneName :: "js_text option"
  tv_workspace :: "js_text option"
  tv_worktreeName :: "js_text option"
  tv_branch :: "js_text option"
  tv_paneIdentity :: "PaneIdentitySnapshot option"
  tv_phase :: TopicViewPhase
  tv_agentState :: AgentState
  tv_queueDepth :: int
  tv_answer :: "js_text option"
  tv_notice :: "js_text option"
  tv_lastEventId :: "ident option"
  tv_activePromptId :: "ident option"
  tv_recentProgress :: "RunProgressEvent list"
  tv_progressSummary :: RunProgressSummary
  tv_model :: "js_text option"
  tv_context :: "js_text option"
  tv_modelUsage :: ModelUsageSnapshot
  tv_pendingPromptQueuedAt :: "(ident \<times> timestamp) list"
  tv_nativeInputBacklog :: NativeInputBacklog
  tv_timelineItems :: "AnswerTimelineItem list"
  tv_currentGoal :: "CurrentGoal option"
  tv_modelPreference :: "TopicModelPreference option"
  tv_liveStatus :: "MainCardLiveStatus option"
  tv_currentAnswer :: "CardTargetRef option"
  tv_primaryToolsAvailable :: "bool option"
  tv_primaryToolsNotice :: "js_text option"
  tv_workers :: "PrimaryWorkerSummary list"
  tv_workerOverflowCount :: int
  tv_workerDependencyRevision :: int
  tv_sessionIdentity :: "TopicSessionIdentity option"
  tv_sessionActivityRevision :: int
  tv_activityAt :: "timestamp option"
  tv_viewVersion :: int
  tv_deliveredVersion :: int

definition no_identity :: PaneIdentitySnapshot where
  "no_identity = \<lparr>pi_workspace = None, pi_worktreeName = None, pi_branch = None, pi_paneId = None, pi_paneToken = None\<rparr>"

definition initialTopicView :: "ident \<Rightarrow> TopicViewState" where
  "initialTopicView bindingId =
     \<lparr>tv_bindingId = bindingId, tv_bindingGeneration = 1, tv_title = units ''Agent task'', tv_agentKind = Agent_traex,
      tv_workspaceId = ''unknown'', tv_spaceName = units ''unknown'', tv_tabId = None, tv_paneId = None, tv_paneToken = None,
      tv_paneName = None, tv_workspace = None, tv_worktreeName = None, tv_branch = None, tv_paneIdentity = Some no_identity,
      tv_phase = T_provisioning, tv_agentState = A_unknown, tv_queueDepth = 0, tv_answer = None, tv_notice = None,
      tv_lastEventId = None, tv_activePromptId = None, tv_recentProgress = [], tv_progressSummary = EMPTY_PROGRESS_SUMMARY,
      tv_model = None, tv_context = None, tv_modelUsage = emptyModelUsage None, tv_pendingPromptQueuedAt = [],
      tv_nativeInputBacklog = \<lparr>nb_unbatchedInputCount = 0, nb_pendingBatchCount = 0\<rparr>, tv_timelineItems = [], tv_currentGoal = None,
      tv_modelPreference = None, tv_liveStatus = None, tv_currentAnswer = None, tv_primaryToolsAvailable = None,
      tv_primaryToolsNotice = None, tv_workers = [], tv_workerOverflowCount = 0, tv_workerDependencyRevision = 0,
      tv_sessionIdentity = None, tv_sessionActivityRevision = 0, tv_activityAt = None, tv_viewVersion = 0, tv_deliveredVersion = 0\<rparr>"

subsection \<open>What two views show\<close>

definition sameModelUsage :: "ModelUsageSnapshot \<Rightarrow> ModelUsageSnapshot \<Rightarrow> bool" where
  "sameModelUsage left right \<longleftrightarrow> left = right"

definition sameLiveStatus :: "MainCardLiveStatus option \<Rightarrow> MainCardLiveStatus option \<Rightarrow> bool" where
  "sameLiveStatus left right = (case (left, right) of
       (None, None) \<Rightarrow> True
     | (Some l, Some r) \<Rightarrow> ls_statusTitle l = ls_statusTitle r \<and> ls_elapsedSeconds l = ls_elapsedSeconds r
         \<and> ls_tokenCount l = ls_tokenCount r \<and> sameProgress (ls_planSteps l) (ls_planSteps r)
     | _ \<Rightarrow> False)"

definition sameTopicSessionIdentity :: "TopicSessionIdentity option \<Rightarrow> TopicSessionIdentity option \<Rightarrow> bool" where
  "sameTopicSessionIdentity left right = (case (left, right) of
       (None, None) \<Rightarrow> True
     | (Some l, Some r) \<Rightarrow> si_bindingGeneration l = si_bindingGeneration r \<and> si_sessionEpoch l = si_sessionEpoch r
         \<and> si_nativeSessionId l = si_nativeSessionId r \<and> si_paneId l = si_paneId r \<and> si_rootMessageId l = si_rootMessageId r
     | _ \<Rightarrow> False)"

definition sameTopicModelPreference :: "TopicModelPreference option \<Rightarrow> TopicModelPreference option \<Rightarrow> bool" where
  "sameTopicModelPreference left right = (case (left, right) of
       (None, None) \<Rightarrow> True
     | (Some l, Some r) \<Rightarrow> tp_model l = tp_model r \<and> tp_revision l = tp_revision r \<and> tp_state l = tp_state r
     | _ \<Rightarrow> False)"

definition sameTopicPresentation :: "TopicViewState \<Rightarrow> TopicViewState \<Rightarrow> bool" where
  "sameTopicPresentation l r \<longleftrightarrow> tv_bindingGeneration l = tv_bindingGeneration r \<and> tv_title l = tv_title r
     \<and> tv_agentKind l = tv_agentKind r \<and> tv_workspaceId l = tv_workspaceId r \<and> tv_spaceName l = tv_spaceName r
     \<and> tv_tabId l = tv_tabId r \<and> tv_paneId l = tv_paneId r \<and> tv_paneToken l = tv_paneToken r \<and> tv_paneName l = tv_paneName r
     \<and> tv_workspace l = tv_workspace r \<and> tv_worktreeName l = tv_worktreeName r \<and> tv_branch l = tv_branch r
     \<and> tv_phase l = tv_phase r \<and> tv_agentState l = tv_agentState r \<and> tv_queueDepth l = tv_queueDepth r
     \<and> nb_unbatchedInputCount (tv_nativeInputBacklog l) = nb_unbatchedInputCount (tv_nativeInputBacklog r)
     \<and> nb_pendingBatchCount (tv_nativeInputBacklog l) = nb_pendingBatchCount (tv_nativeInputBacklog r)
     \<and> tv_answer l = tv_answer r \<and> tv_notice l = tv_notice r \<and> tv_activePromptId l = tv_activePromptId r
     \<and> sameAnswerTimeline (tv_timelineItems l) (tv_timelineItems r) \<and> sameCurrentGoal (tv_currentGoal l) (tv_currentGoal r)
     \<and> tv_pendingPromptQueuedAt l = tv_pendingPromptQueuedAt r \<and> sameCardTargetRef (tv_currentAnswer l) (tv_currentAnswer r)
     \<and> tv_model l = tv_model r \<and> tv_context l = tv_context r \<and> sameModelUsage (tv_modelUsage l) (tv_modelUsage r)
     \<and> sameTopicModelPreference (tv_modelPreference l) (tv_modelPreference r)
     \<and> tv_primaryToolsAvailable l = tv_primaryToolsAvailable r \<and> tv_primaryToolsNotice l = tv_primaryToolsNotice r
     \<and> tv_workerOverflowCount l = tv_workerOverflowCount r \<and> tv_workers l = tv_workers r
     \<and> sameTopicSessionIdentity (tv_sessionIdentity l) (tv_sessionIdentity r)
     \<and> tv_sessionActivityRevision l = tv_sessionActivityRevision r \<and> sameLiveStatus (tv_liveStatus l) (tv_liveStatus r)
     \<and> sameProgress (tv_recentProgress l) (tv_recentProgress r) \<and> sameProgressSummary (tv_progressSummary l) (tv_progressSummary r)"

subsection \<open>Updating a view\<close>

text \<open>
  A patch is either a whole view or some fields other than the pane identity. The source
  compares the view object it gets back with the one it gave; \<open>topic_update\<close> is \<open>None\<close> when
  that very object is returned.
\<close>

datatype topic_patch = Whole_view TopicViewState | Fields "TopicViewState \<Rightarrow> TopicViewState"

definition topic_flat_identity :: "TopicViewState \<Rightarrow> PaneIdentitySnapshot" where
  "topic_flat_identity v = \<lparr>pi_workspace = tv_workspace v, pi_worktreeName = tv_worktreeName v, pi_branch = tv_branch v,
     pi_paneId = tv_paneId v, pi_paneToken = tv_paneToken v\<rparr>"

fun patch_identity :: "topic_patch \<Rightarrow> PaneIdentitySnapshot option" where
  "patch_identity (Whole_view v) = (case tv_paneIdentity v of None \<Rightarrow> None | Some i \<Rightarrow> if i = topic_flat_identity v then Some i else None)"
| "patch_identity (Fields f) = None"

fun patched_view :: "topic_patch \<Rightarrow> TopicViewState \<Rightarrow> TopicViewState" where
  "patched_view (Whole_view v) state = v"
| "patched_view (Fields f) state = f state"

definition withPaneIdentity :: "TopicViewState \<Rightarrow> PaneIdentitySnapshot option \<Rightarrow> TopicViewState" where
  "withPaneIdentity v override =
     (let i = opt_or override (topic_flat_identity v)
      in v\<lparr>tv_paneIdentity := Some i, tv_workspace := pi_workspace i, tv_worktreeName := pi_worktreeName i, tv_branch := pi_branch i,
           tv_paneId := pi_paneId i, tv_paneToken := pi_paneToken i\<rparr>)"

definition topic_update :: "TopicViewState \<Rightarrow> topic_patch \<Rightarrow> TopicViewState option" where
  "topic_update state patch =
     (let v = withPaneIdentity (patched_view patch state) (patch_identity patch)
      in if sameTopicPresentation v state then (if tv_paneIdentity state \<noteq> None then None else Some v)
         else Some (v\<lparr>tv_viewVersion := tv_viewVersion state + 1, tv_deliveredVersion := tv_deliveredVersion state\<rparr>))"

definition updateTopicView :: "TopicViewState \<Rightarrow> topic_patch \<Rightarrow> TopicViewState" where
  "updateTopicView state patch = opt_or (topic_update state patch) state"

record binding_session =
  bs_generation :: int
  bs_sessionEpoch :: int
  bs_agentSessionIsId :: bool
  bs_agentSessionValue :: "ident option"
  bs_paneId :: "ident option"
  bs_rootMessageId :: "ident option"

definition topicSessionIdentityFor :: "binding_session \<Rightarrow> TopicSessionIdentity" where
  "topicSessionIdentityFor b = \<lparr>si_bindingGeneration = bs_generation b, si_sessionEpoch = bs_sessionEpoch b,
     si_nativeSessionId = (if bs_agentSessionIsId b then bs_agentSessionValue b else None), si_paneId = bs_paneId b,
     si_rootMessageId = bs_rootMessageId b\<rparr>"

definition updateTopicSessionIdentity :: "TopicViewState \<Rightarrow> binding_session \<Rightarrow> TopicViewState" where
  "updateTopicSessionIdentity state b =
     (let identity = Some (topicSessionIdentityFor b)
      in if sameTopicSessionIdentity (tv_sessionIdentity state) identity then state else state\<lparr>tv_sessionIdentity := identity\<rparr>)"

definition applyTopicGoalChanges :: "TopicViewState \<Rightarrow> GoalChange list \<Rightarrow> ident option \<Rightarrow> TopicViewState" where
  "applyTopicGoalChanges state changes expectedNativeSessionId =
     (let wanted = filter (\<lambda>c. case expectedNativeSessionId of None \<Rightarrow> True | Some e \<Rightarrow> e = [] \<or> gc_nativeSessionId c = e) changes;
          goal = fold reduceCurrentGoal wanted (tv_currentGoal state)
      in if sameCurrentGoal goal (tv_currentGoal state) then state
         else updateTopicView state (Fields (\<lambda>v. v\<lparr>tv_currentGoal := goal\<rparr>)))"

definition updateTopicCurrentAnswer :: "TopicViewState \<Rightarrow> CardTargetRef option \<Rightarrow> TopicViewState" where
  "updateTopicCurrentAnswer state answer =
     (if sameCardTargetRef (tv_currentAnswer state) answer then state
      else state\<lparr>tv_currentAnswer := answer, tv_viewVersion := tv_viewVersion state + 1\<rparr>)"

definition updateTopicModelPreference :: "TopicViewState \<Rightarrow> ModelPreferenceSnapshot \<Rightarrow> TopicViewState" where
  "updateTopicModelPreference state snapshot =
     (let chosen = nullish (sn_desired snapshot) (if sn_state snapshot = Some Pref_effective then sn_effective snapshot else None);
          preference = (case (chosen, sn_state snapshot) of
             (Some (m, r), Some st) \<Rightarrow> Some \<lparr>tp_model = m, tp_revision = r, tp_state = st\<rparr>
           | _ \<Rightarrow> None)
      in updateTopicView state (Fields (\<lambda>v. v\<lparr>tv_modelPreference := preference\<rparr>)))"

definition updateTopicWorkerContext :: "TopicViewState \<Rightarrow> PrimaryWorkerSummary list \<Rightarrow> int \<Rightarrow> int \<Rightarrow> TopicViewState" where
  "updateTopicWorkerContext state workers overflowCount dependencyRevision =
     (if tv_workerOverflowCount state = overflowCount \<and> tv_workers state = workers
      then (if tv_workerDependencyRevision state = dependencyRevision then state
            else state\<lparr>tv_workerDependencyRevision := dependencyRevision\<rparr>)
      else state\<lparr>tv_workers := workers, tv_workerOverflowCount := overflowCount, tv_workerDependencyRevision := dependencyRevision,
             tv_viewVersion := tv_viewVersion state + 1\<rparr>)"

subsection \<open>Pieces of the reducer\<close>

definition TOPIC_ANSWER_TAIL_LIMIT :: nat where
  "TOPIC_ANSWER_TAIL_LIMIT = 9000"

definition MAX_PENDING_PROMPT_QUEUE_TIMES :: nat where
  "MAX_PENDING_PROMPT_QUEUE_TIMES = 32"

text \<open>\<^verbatim>\<open>slice(-n)\<close>.\<close>

definition last_n :: "nat \<Rightarrow> 'a list \<Rightarrow> 'a list" where
  "last_n n xs = drop (length xs - n) xs"

definition keepAnswerTail :: "js_text \<Rightarrow> js_text" where
  "keepAnswerTail answer = last_n TOPIC_ANSWER_TAIL_LIMIT answer"

definition stampProgress :: "progress_update list \<Rightarrow> timestamp \<Rightarrow> RunProgressEvent list" where
  "stampProgress updates t = map (\<lambda>u. \<lparr>pe_key = pu_key u, pe_kind = pu_kind u, pe_label = pu_label u, pe_state = pu_state u, pe_occurredAt = t\<rparr>) updates"

definition mergeLiveStatus :: "MainCardLiveStatus option \<Rightarrow> status_update option \<Rightarrow> timestamp \<Rightarrow> MainCardLiveStatus option" where
  "mergeLiveStatus current update t = (case update of
       None \<Rightarrow> current
     | Some u \<Rightarrow> Some
         \<lparr>ls_statusTitle = opt_or (su_statusTitle u) (Option.bind current ls_statusTitle),
          ls_planSteps = (case su_planSteps u of None \<Rightarrow> (case current of None \<Rightarrow> [] | Some c \<Rightarrow> ls_planSteps c) | Some steps \<Rightarrow> stampProgress steps t),
          ls_elapsedSeconds = opt_or (su_elapsedSeconds u) (Option.bind current ls_elapsedSeconds),
          ls_tokenCount = opt_or (su_tokenCount u) (Option.bind current ls_tokenCount)\<rparr>)"

text \<open>The fields \<^verbatim>\<open>waitMs\<close> and \<^verbatim>\<open>firstVisibleMs\<close> of a patched usage.\<close>

definition with_timing :: "timestamp option \<Rightarrow> ModelUsageSnapshot \<Rightarrow> ModelUsageSnapshot" where
  "with_timing startedAt u = u\<lparr>
     mu_waitMs := (case (mu_queuedAt u, startedAt) of (Some queued, Some started) \<Rightarrow> Some (max 0 (started - queued)) | _ \<Rightarrow> mu_waitMs u),
     mu_firstVisibleMs := (case (mu_queuedAt u, mu_firstVisibleAt u) of
        (Some queued, Some visible) \<Rightarrow> Some (max 0 (visible - queued)) | _ \<Rightarrow> mu_firstVisibleMs u)\<rparr>"

definition normalizePendingPromptQueuedAt :: "(ident \<times> timestamp) list \<Rightarrow> (ident \<times> timestamp) list" where
  "normalizePendingPromptQueuedAt pending = last_n MAX_PENDING_PROMPT_QUEUE_TIMES (filter (\<lambda>(k, _). k \<noteq> []) pending)"

definition rememberPendingPromptQueuedAt :: "(ident \<times> timestamp) list \<Rightarrow> ident \<Rightarrow> timestamp \<Rightarrow> (ident \<times> timestamp) list" where
  "rememberPendingPromptQueuedAt pending promptId t = normalizePendingPromptQueuedAt (AList.update promptId t pending)"

definition removePendingPromptQueuedAt :: "(ident \<times> timestamp) list \<Rightarrow> ident \<Rightarrow> (ident \<times> timestamp) list" where
  "removePendingPromptQueuedAt pending promptId = AList.delete promptId pending"

definition blocked_notice :: js_text where
  "blocked_notice = [84, 114, 97, 101, 88, 32, 38656, 35201, 20154, 24037, 23457, 25209, 12290, 35831, 26597, 30475, 23545, 24212,
     32, 72, 101, 114, 100, 114, 32, 112, 97, 110, 101, 108, 32, 24182, 23436, 25104, 25152, 38656, 20132, 20114,
     12290]"

text \<open>\<^verbatim>\<open>name?.trim() || fallback || null\<close>.\<close>

definition pane_name_or :: "js_text option \<Rightarrow> js_text option \<Rightarrow> js_text option" where
  "pane_name_or name fallback = (case name of
       Some n \<Rightarrow> if js_trim n \<noteq> [] then Some (js_trim n) else when_nonempty fallback
     | None \<Rightarrow> when_nonempty fallback)"

subsection \<open>The reducer\<close>

record binding_created =
  bc_title :: js_text
  bc_workspaceId :: ident
  bc_spaceName :: "js_text option"
  bc_tabId :: "ident option"
  bc_paneId :: "ident option"
  bc_paneToken :: "ident option"
  bc_paneName :: "js_text option"
  bc_agentKind :: "AgentKind option"

record binding_activated =
  ba_paneId :: ident
  ba_paneToken :: "ident option"
  ba_paneName :: "js_text option"
  ba_tabId :: "ident option"

record pane_output =
  po_observation :: "TurnOutputObservation option"
  po_answer :: "js_text option"
  po_model :: "js_text option"
  po_context :: "js_text option"
  po_tabId :: "ident option"
  po_paneToken :: "ident option option"
  po_paneName :: "js_text option"
  po_workspace :: "js_text option option"
  po_worktreeName :: "js_text option option"
  po_branch :: "js_text option option"
  po_paneIdentity :: "PaneIdentitySnapshot option"

datatype topic_event =
    BindingCreated binding_created
  | BindingActivated binding_activated
  | PrimaryToolAvailabilityChanged bool "js_text option"
  | BindingRenamed js_text
  | BindingDraining js_text
  | BindingArchived js_text
  | BindingDegraded js_text
  | BindingOrphaned js_text
  | PromptQueued ident int
  | NativeInputBacklogChanged NativeInputBacklog
  | PromptCancelled ident
  | RunQueuePositionChanged ident int
  | TurnStarted ident int
  | AgentStateChanged AgentState int "ident option"
  | TurnOutputObserved ident output_payload
  | PaneOutputObserved pane_output
  | TurnCompleted ident js_text int
  | TurnFailed ident js_text int

record BridgeEvent =
  be_eventId :: ident
  be_occurredAt :: timestamp
  be_event :: topic_event

definition topic_base :: "TopicViewState \<Rightarrow> BridgeEvent \<Rightarrow> TopicViewState" where
  "topic_base state e = state\<lparr>tv_pendingPromptQueuedAt := normalizePendingPromptQueuedAt (tv_pendingPromptQueuedAt state),
     tv_lastEventId := Some (be_eventId e)\<rparr>"

text \<open>An event of another prompt than the active one.\<close>

definition other_prompt :: "TopicViewState \<Rightarrow> ident option \<Rightarrow> bool" where
  "other_prompt v prompt \<longleftrightarrow> (case (tv_activePromptId v, prompt) of (Some active, Some p) \<Rightarrow> active \<noteq> [] \<and> active \<noteq> p | _ \<Rightarrow> False)"

definition snapshot_prompt_queued :: "TopicViewState \<Rightarrow> timestamp \<Rightarrow> ident \<Rightarrow> int \<Rightarrow> TopicViewState" where
  "snapshot_prompt_queued base t promptId depth =
     (if when_nonempty (tv_activePromptId base) \<noteq> None
      then base\<lparr>tv_queueDepth := depth, tv_pendingPromptQueuedAt := rememberPendingPromptQueuedAt (tv_pendingPromptQueuedAt base) promptId t\<rparr>
      else base\<lparr>tv_phase := T_queued, tv_queueDepth := depth, tv_notice := None,
             tv_pendingPromptQueuedAt := removePendingPromptQueuedAt (tv_pendingPromptQueuedAt base) promptId,
             tv_modelUsage := (emptyModelUsage (nullish (mu_model (tv_modelUsage base)) (tv_model base)))\<lparr>mu_queuedAt := Some t\<rparr>\<rparr>)"

definition snapshot_turn_started :: "TopicViewState \<Rightarrow> timestamp \<Rightarrow> ident \<Rightarrow> int \<Rightarrow> TopicViewState" where
  "snapshot_turn_started base t promptId depth =
     (let repeatedTurn = (tv_activePromptId base = Some promptId);
          queuedBeforeStart = (tv_activePromptId base = None \<and> tv_phase base = T_queued);
          usage = (if repeatedTurn \<or> queuedBeforeStart then tv_modelUsage base
                   else emptyModelUsage (nullish (mu_model (tv_modelUsage base)) (tv_model base)));
          withQueue = (if mu_queuedAt usage \<noteq> None then usage
                       else usage\<lparr>mu_queuedAt := Some (opt_or (map_of (tv_pendingPromptQueuedAt base) promptId) t)\<rparr>);
          modelUsage = (if repeatedTurn then withQueue else with_timing (Some t) withQueue)
      in base\<lparr>tv_phase := T_running, tv_agentState := A_working, tv_queueDepth := depth, tv_answer := None, tv_notice := None,
           tv_activePromptId := Some promptId,
           tv_pendingPromptQueuedAt := removePendingPromptQueuedAt (tv_pendingPromptQueuedAt base) promptId,
           tv_recentProgress := [], tv_progressSummary := EMPTY_PROGRESS_SUMMARY, tv_liveStatus := None, tv_modelUsage := modelUsage\<rparr>)"

definition snapshot_turn_output :: "TopicViewState \<Rightarrow> TopicViewState \<Rightarrow> timestamp \<Rightarrow> ident \<Rightarrow> TurnOutputObservation \<Rightarrow> TopicViewState" where
  "snapshot_turn_output state base t promptId ob =
     (let answer = keepAnswerTail (ob_snapshot ob);
          stamped = stampProgress (ob_toolActivities ob) t;
          (recentProgress, summary) = (if ob_hasToolActivitySnapshot ob = Some True then progressSnapshot stamped
            else mergeRecentProgress (tv_recentProgress base) (tv_progressSummary base) stamped);
          m = nullish (ob_model ob) (tv_model state);
          context = nullish (ob_context ob) (tv_context state);
          liveStatus = mergeLiveStatus (tv_liveStatus state) (ob_status ob) t
      in if answer = opt_or (tv_answer state) [] \<and> sameProgress recentProgress (tv_recentProgress state)
            \<and> sameProgressSummary summary (tv_progressSummary state) \<and> sameLiveStatus liveStatus (tv_liveStatus state)
            \<and> tv_activePromptId state = Some promptId \<and> m = tv_model state \<and> context = tv_context state
         then state
         else base\<lparr>tv_activePromptId := Some promptId, tv_answer := Some answer, tv_recentProgress := recentProgress,
                tv_progressSummary := summary, tv_liveStatus := liveStatus, tv_model := m, tv_context := context,
                tv_modelUsage := with_timing None ((tv_modelUsage base)\<lparr>mu_model := m,
                  mu_firstVisibleAt := nullish (mu_firstVisibleAt (tv_modelUsage base)) (if answer \<noteq> [] then Some t else None)\<rparr>)\<rparr>)"

definition observed_answer :: "pane_output \<Rightarrow> js_text option" where
  "observed_answer po = nullish (when_nonempty (map_option ob_snapshot (po_observation po))) (po_answer po)"

definition pane_output_identity :: "TopicViewState \<Rightarrow> pane_output \<Rightarrow> PaneIdentitySnapshot \<Rightarrow> PaneIdentitySnapshot" where
  "pane_output_identity state po prior =
     (let fallback = identity_or (po_paneIdentity po) prior
      in \<lparr>pi_workspace = opt_or (po_workspace po) (pi_workspace fallback), pi_worktreeName = opt_or (po_worktreeName po) (pi_worktreeName fallback),
          pi_branch = opt_or (po_branch po) (pi_branch fallback), pi_paneId = pi_paneId prior,
          pi_paneToken = opt_or (po_paneToken po) (tv_paneToken state)\<rparr>)"

definition snapshot_pane_output :: "TopicViewState \<Rightarrow> TopicViewState \<Rightarrow> timestamp \<Rightarrow> pane_output \<Rightarrow> TopicViewState" where
  "snapshot_pane_output state base t po =
     (let observedAnswer = observed_answer po;
          answer = (case observedAnswer of None \<Rightarrow> tv_answer state | Some a \<Rightarrow> Some (keepAnswerTail a));
          m = nullish (nullish (Option.bind (po_observation po) ob_model) (po_model po)) (tv_model state);
          context = nullish (nullish (Option.bind (po_observation po) ob_context) (po_context po)) (tv_context state);
          tabId = nullish (po_tabId po) (tv_tabId state);
          paneName = pane_name_or (po_paneName po) (tv_paneName state);
          priorIdentity = opt_or (tv_paneIdentity state) (topic_flat_identity state);
          paneIdentity = pane_output_identity state po priorIdentity;
          modelUsage = with_timing None ((tv_modelUsage state)\<lparr>mu_model := m\<rparr>)
      in if answer = tv_answer state \<and> m = tv_model state \<and> context = tv_context state \<and> tabId = tv_tabId state
            \<and> paneName = tv_paneName state \<and> samePaneIdentity priorIdentity paneIdentity \<and> sameModelUsage modelUsage (tv_modelUsage state)
         then state
         else let seen = base\<lparr>tv_answer := answer, tv_model := m, tv_context := context, tv_modelUsage := modelUsage, tv_tabId := tabId,
                tv_paneToken := pi_paneToken paneIdentity, tv_paneName := paneName, tv_workspace := pi_workspace paneIdentity,
                tv_worktreeName := pi_worktreeName paneIdentity, tv_branch := pi_branch paneIdentity, tv_paneIdentity := Some paneIdentity\<rparr>
              in if observedAnswer \<noteq> None \<and> tv_activePromptId state = None \<and> tv_phase state \<noteq> T_running \<and> tv_phase state \<noteq> T_blocked
                 then seen\<lparr>tv_phase := T_done, tv_agentState := A_done, tv_notice := None\<rparr>
                 else seen)"

definition reduceTopicViewSnapshot :: "TopicViewState \<Rightarrow> BridgeEvent \<Rightarrow> TopicViewState" where
  "reduceTopicViewSnapshot state e =
     (let base = topic_base state e; t = be_occurredAt e
      in case be_event e of
           BindingCreated p \<Rightarrow> base\<lparr>tv_title := bc_title p, tv_agentKind := opt_or (bc_agentKind p) (tv_agentKind base),
             tv_workspaceId := bc_workspaceId p, tv_spaceName := opt_or (bc_spaceName p) (tv_spaceName base),
             tv_tabId := nullish (bc_tabId p) (tv_tabId base), tv_paneId := bc_paneId p,
             tv_paneToken := nullish (bc_paneToken p) (tv_paneToken base), tv_paneName := pane_name_or (bc_paneName p) (tv_paneName base),
             tv_phase := T_provisioning\<rparr>
         | BindingActivated p \<Rightarrow> base\<lparr>tv_tabId := nullish (ba_tabId p) (tv_tabId base), tv_paneId := Some (ba_paneId p),
             tv_paneToken := nullish (ba_paneToken p) (tv_paneToken base), tv_paneName := pane_name_or (ba_paneName p) (tv_paneName base),
             tv_phase := T_ready, tv_notice := None\<rparr>
         | PrimaryToolAvailabilityChanged available reason \<Rightarrow>
             base\<lparr>tv_primaryToolsAvailable := Some available, tv_primaryToolsNotice := reason\<rparr>
         | BindingRenamed title \<Rightarrow> base\<lparr>tv_title := title\<rparr>
         | BindingDraining reason \<Rightarrow> base\<lparr>tv_phase := T_draining, tv_notice := Some reason\<rparr>
         | BindingArchived reason \<Rightarrow> base\<lparr>tv_phase := T_archived, tv_notice := Some reason\<rparr>
         | BindingDegraded reason \<Rightarrow> base\<lparr>tv_phase := T_degraded, tv_notice := Some reason\<rparr>
         | BindingOrphaned reason \<Rightarrow> base\<lparr>tv_phase := T_orphaned, tv_notice := Some reason\<rparr>
         | PromptQueued promptId depth \<Rightarrow> snapshot_prompt_queued base t promptId depth
         | NativeInputBacklogChanged backlog \<Rightarrow> base\<lparr>tv_nativeInputBacklog := backlog\<rparr>
         | PromptCancelled _ \<Rightarrow> state
         | RunQueuePositionChanged _ _ \<Rightarrow> state
         | TurnStarted promptId depth \<Rightarrow> snapshot_turn_started base t promptId depth
         | TurnOutputObserved promptId payload \<Rightarrow>
             if other_prompt base (Some promptId) then state
             else snapshot_turn_output state base t promptId (normalizeTurnOutputObservation payload)
         | PaneOutputObserved po \<Rightarrow> snapshot_pane_output state base t po
         | AgentStateChanged st depth prompt \<Rightarrow>
             if other_prompt base (when_nonempty prompt) then state
             else base\<lparr>tv_phase := (if st = A_blocked then T_blocked else if st = A_working then T_running else tv_phase base),
                    tv_agentState := st, tv_queueDepth := depth, tv_activePromptId := nullish prompt (tv_activePromptId base),
                    tv_notice := (if st = A_blocked then Some blocked_notice else tv_notice base)\<rparr>
         | TurnCompleted promptId answer depth \<Rightarrow>
             if other_prompt base (Some promptId) then state
             else base\<lparr>tv_phase := T_done, tv_agentState := A_done, tv_queueDepth := depth, tv_answer := Some (keepAnswerTail answer),
                    tv_notice := None, tv_activePromptId := None,
                    tv_modelUsage := with_timing None ((tv_modelUsage base)\<lparr>mu_completedAt := Some t\<rparr>)\<rparr>
         | TurnFailed promptId error depth \<Rightarrow>
             if other_prompt base (Some promptId) then state
             else base\<lparr>tv_phase := T_error, tv_queueDepth := depth, tv_notice := Some error, tv_activePromptId := None\<rparr>)"

definition reduceTopicView :: "TopicViewState \<Rightarrow> BridgeEvent \<Rightarrow> TopicViewState" where
  "reduceTopicView state e = (case topic_update state (Whole_view (reduceTopicViewSnapshot state e)) of
       None \<Rightarrow> state
     | Some updated \<Rightarrow> updated\<lparr>tv_activityAt := Some (be_occurredAt e)\<rparr>)"

fun topic_phase_of :: "RunCardPhase \<Rightarrow> TopicViewPhase option" where
  "topic_phase_of Queued = Some T_queued"
| "topic_phase_of Running = Some T_running"
| "topic_phase_of Blocked = Some T_blocked"
| "topic_phase_of Completed = Some T_done"
| "topic_phase_of RunFailed = Some T_error"
| "topic_phase_of _ = None"

text \<open>The patches for a run whose outcome is open and for any other run.\<close>

definition open_run_patch :: "'w RunCardView \<Rightarrow> TopicViewState \<Rightarrow> TopicViewState" where
  "open_run_patch run v = v\<lparr>tv_phase := T_ready, tv_agentState := A_unknown, tv_activePromptId := None,
     tv_queueDepth := rc_queuePosition run, tv_notice := rc_notice run, tv_activityAt := Some (rc_updatedAt run)\<rparr>"

definition run_patch :: "'w RunCardView \<Rightarrow> TopicViewState \<Rightarrow> TopicViewState" where
  "run_patch run state = state\<lparr>tv_phase := opt_or (topic_phase_of (rc_phase run)) (tv_phase state),
     tv_queueDepth := rc_queuePosition run,
     tv_answer := (if rc_answer run \<noteq> [] then Some (keepAnswerTail (rc_answer run)) else None),
     tv_timelineItems := rc_timelineItems run, tv_notice := rc_notice run,
     tv_activePromptId := (if rc_phase run = Running \<or> rc_phase run = Blocked then Some (rc_promptId run) else None),
     tv_agentState := (if rc_phase run = Running then A_working else if rc_phase run = Blocked then A_blocked
       else if rc_phase run = Completed then A_done else tv_agentState state),
     tv_recentProgress := rc_progressEvents run, tv_progressSummary := rc_progressSummary run,
     tv_activityAt := Some (rc_updatedAt run)\<rparr>"

definition mirrorRunCardToTopic :: "TopicViewState \<Rightarrow> 'w RunCardView \<Rightarrow> TopicViewState" where
  "mirrorRunCardToTopic state run =
     (if rc_phase run = Submitted then state
      else if rc_phase run = Recovering \<or> rc_phase run = Uncertain then
        (if tv_activePromptId state \<noteq> Some (rc_promptId run) then state
         else updateTopicView state (Fields (open_run_patch run)))
      else updateTopicView state (Whole_view (run_patch run state)))"

subsection \<open>Bounded and consistent views\<close>

definition progress_list_ok :: "RunProgressEvent list \<Rightarrow> bool" where
  "progress_list_ok es \<longleftrightarrow> length es \<le> RECENT_PROGRESS_LIMIT \<and> distinct (map pe_key es)"

definition pending_ok :: "(ident \<times> timestamp) list \<Rightarrow> bool" where
  "pending_ok ps \<longleftrightarrow> length ps \<le> MAX_PENDING_PROMPT_QUEUE_TIMES \<and> distinct (map fst ps) \<and> [] \<notin> fst ` set ps"

definition answer_tail_ok :: "js_text option \<Rightarrow> bool" where
  "answer_tail_ok a \<longleftrightarrow> (case a of None \<Rightarrow> True | Some x \<Rightarrow> length x \<le> TOPIC_ANSWER_TAIL_LIMIT)"

definition topic_bounds :: "TopicViewState \<Rightarrow> bool" where
  "topic_bounds v \<longleftrightarrow> progress_list_ok (tv_recentProgress v) \<and> pending_ok (tv_pendingPromptQueuedAt v) \<and> answer_tail_ok (tv_answer v)"

definition topic_ok :: "TopicViewState \<Rightarrow> bool" where
  "topic_ok v \<longleftrightarrow> topic_bounds v \<and> tv_paneIdentity v = Some (topic_flat_identity v)"

lemma length_last_n [simp]: "length (last_n n xs) = min n (length xs)"
  by (simp add: last_n_def)

lemma answer_tail_ok_simps [simp]: "answer_tail_ok None" "answer_tail_ok (Some (keepAnswerTail a))"
  by (simp_all add: answer_tail_ok_def keepAnswerTail_def)

lemma normalize_pending_ok: "distinct (map fst ps) \<Longrightarrow> pending_ok (normalizePendingPromptQueuedAt ps)"
proof -
  assume distinct: "distinct (map fst ps)"
  let ?qs = "filter (\<lambda>(k, _). k \<noteq> []) ps"
  have "distinct (map fst ?qs)" using distinct by (simp add: distinct_map_filter)
  then have "distinct (map fst (last_n n ?qs))" for n by (simp add: last_n_def drop_map [symmetric])
  moreover have "set (last_n n ?qs) \<subseteq> set ?qs" for n unfolding last_n_def by (rule set_drop_subset)
  then have "[] \<notin> fst ` set (last_n n ?qs)" for n by fastforce
  ultimately show ?thesis by (simp add: pending_ok_def normalizePendingPromptQueuedAt_def)
qed

lemma pending_ok_ops [simp]:
  assumes "pending_ok ps"
  shows "pending_ok (normalizePendingPromptQueuedAt ps)" "pending_ok (rememberPendingPromptQueuedAt ps k t)"
    "pending_ok (removePendingPromptQueuedAt ps k)"
proof -
  have distinct: "distinct (map fst ps)" using assms by (simp add: pending_ok_def)
  show "pending_ok (normalizePendingPromptQueuedAt ps)" "pending_ok (rememberPendingPromptQueuedAt ps k t)"
    by (simp_all add: rememberPendingPromptQueuedAt_def normalize_pending_ok distinct)
  have "length (AList.delete k ps) \<le> length ps" by (rule length_delete_le)
  with assms show "pending_ok (removePendingPromptQueuedAt ps k)"
    using dom_delete_subset [of k ps] by (auto simp: pending_ok_def removePendingPromptQueuedAt_def)
qed

lemma snapshot_turn_output_bounds:
  assumes "topic_bounds state" and "topic_bounds base"
  shows "topic_bounds (snapshot_turn_output state base t promptId ob)"
proof -
  let ?stamped = "stampProgress (ob_toolActivities ob) t"
  have "progress_list_ok (fst (progressSnapshot ?stamped))" by (simp add: progress_list_ok_def progressSnapshot_ok)
  moreover have "progress_list_ok (fst (mergeRecentProgress (tv_recentProgress base) (tv_progressSummary base) ?stamped))"
    using assms(2) mergeRecentProgress_ok by (simp add: progress_list_ok_def topic_bounds_def)
  ultimately show ?thesis using assms unfolding snapshot_turn_output_def Let_def by (simp add: topic_bounds_def split_beta)
qed

lemma snapshot_pane_output_bounds:
  assumes "topic_bounds state" and "topic_bounds base"
  shows "topic_bounds (snapshot_pane_output state base t po)"
  using assms unfolding snapshot_pane_output_def Let_def by (cases "observed_answer po") (simp_all add: topic_bounds_def)

lemma topic_base_bounds: "topic_bounds state \<Longrightarrow> topic_bounds (topic_base state e)"
  by (simp add: topic_bounds_def topic_base_def)

lemma reduceTopicViewSnapshot_bounds:
  assumes "topic_bounds state"
  shows "topic_bounds (reduceTopicViewSnapshot state e)"
proof -
  have base: "topic_bounds (topic_base state e)" using assms by (rule topic_base_bounds)
  note bounds = assms base snapshot_turn_output_bounds [OF assms base] snapshot_pane_output_bounds [OF assms base]
  show ?thesis unfolding reduceTopicViewSnapshot_def Let_def
  proof (cases "be_event e", goal_cases)
    case (9 promptId depth)
    with base show ?case by (simp add: snapshot_prompt_queued_def topic_bounds_def)
  next
    case (13 promptId depth)
    with base show ?case by (simp add: snapshot_turn_started_def Let_def topic_bounds_def progress_list_ok_def)
  qed (use bounds in \<open>simp_all add: topic_bounds_def\<close>)
qed

lemma withPaneIdentity_ok:
  assumes "topic_bounds v"
  shows "topic_ok (withPaneIdentity v override)"
  using assms by (simp add: topic_ok_def topic_bounds_def withPaneIdentity_def topic_flat_identity_def Let_def)

lemma withPaneIdentity_id:
  assumes "tv_paneIdentity v = Some (topic_flat_identity v)"
  shows "withPaneIdentity v None = v" "withPaneIdentity v (Some (topic_flat_identity v)) = v"
  using assms by (cases v; simp add: withPaneIdentity_def topic_flat_identity_def Let_def)+

lemma sameTopicPresentation_refl [simp]: "sameTopicPresentation v v"
proof -
  have "sameLiveStatus s s" "sameTopicSessionIdentity i i" "sameTopicModelPreference p p" for s i p
    by (simp_all add: sameLiveStatus_def sameTopicSessionIdentity_def sameTopicModelPreference_def split: option.splits)
  then show ?thesis by (simp add: sameTopicPresentation_def sameAnswerTimeline_def sameModelUsage_def)
qed

lemma topic_update_same: "topic_ok v \<Longrightarrow> topic_update v (Whole_view v) = None"
  by (simp add: topic_update_def topic_ok_def withPaneIdentity_id Let_def)

lemma topic_update_ok:
  assumes "topic_ok state" and "topic_bounds (patched_view patch state)" and "topic_update state patch = Some v"
  shows "topic_ok v \<and> tv_viewVersion v = tv_viewVersion state + 1 \<and> tv_deliveredVersion v = tv_deliveredVersion state
    \<and> \<not> sameTopicPresentation (withPaneIdentity (patched_view patch state) (patch_identity patch)) state"
  using assms withPaneIdentity_ok [OF assms(2), of "patch_identity patch"]
  by (auto simp: topic_update_def topic_ok_def topic_bounds_def topic_flat_identity_def Let_def split: if_splits)

lemma reduceTopicView_ok:
  assumes "topic_ok state"
  shows "topic_ok (reduceTopicView state e) \<and> (reduceTopicView state e = state
     \<or> tv_viewVersion (reduceTopicView state e) = tv_viewVersion state + 1 \<and> tv_activityAt (reduceTopicView state e) = Some (be_occurredAt e)
       \<and> tv_deliveredVersion (reduceTopicView state e) = tv_deliveredVersion state)"
proof (cases "topic_update state (Whole_view (reduceTopicViewSnapshot state e))")
  case None
  with assms show ?thesis by (simp add: reduceTopicView_def)
next
  case (Some v)
  have "topic_bounds (patched_view (Whole_view (reduceTopicViewSnapshot state e)) state)"
    using reduceTopicViewSnapshot_bounds assms by (simp add: topic_ok_def)
  from topic_update_ok [OF assms this Some] Some show ?thesis
    by (simp add: reduceTopicView_def topic_ok_def topic_bounds_def topic_flat_identity_def)
qed

lemma initial_topic_ok: "topic_ok (initialTopicView b)"
  by (simp add: topic_ok_def topic_bounds_def initialTopicView_def no_identity_def topic_flat_identity_def progress_list_ok_def pending_ok_def)

interpretation topic_versions: versioned_reducer
  "\<lambda>e v. Inr (reduceTopicView v e) :: (unit, TopicViewState) result" tv_viewVersion "\<lambda>v. v" topic_ok
proof (unfold_locales, goal_cases)
  case (1 v e v')
  then show ?case using reduceTopicView_ok [of v e] by simp
next
  case (2 v e v')
  then have "v' = reduceTopicView v e" "topic_ok v" by simp_all
  with reduceTopicView_ok [of v e] show ?case by metis
qed

lemma updateTopicView_ok:
  assumes "topic_ok state" and "topic_bounds (patched_view patch state)"
  shows "topic_ok (updateTopicView state patch) \<and> (updateTopicView state patch = state \<or> tv_viewVersion (updateTopicView state patch) = tv_viewVersion state + 1)"
  using assms topic_update_ok [OF assms] by (cases "topic_update state patch") (simp_all add: updateTopicView_def)

lemma topic_ok_frame:
  assumes "topic_ok state"
  shows "topic_ok (state\<lparr>tv_sessionIdentity := i\<rparr>)" "topic_ok (state\<lparr>tv_currentAnswer := a, tv_viewVersion := n\<rparr>)"
    "topic_ok (state\<lparr>tv_workerDependencyRevision := r\<rparr>)"
    "topic_ok (state\<lparr>tv_workers := ws, tv_workerOverflowCount := c, tv_workerDependencyRevision := r, tv_viewVersion := n\<rparr>)"
  using assms by (simp_all add: topic_ok_def topic_bounds_def topic_flat_identity_def)

lemma topic_operations_ok:
  assumes "topic_ok state"
  shows "topic_ok (updateTopicSessionIdentity state b)" "topic_ok (applyTopicGoalChanges state changes expected)"
    "topic_ok (updateTopicCurrentAnswer state a)" "topic_ok (updateTopicModelPreference state snapshot)"
    "topic_ok (updateTopicWorkerContext state ws c r)"
proof -
  have bounds: "topic_bounds (state\<lparr>tv_currentGoal := g\<rparr>)" "topic_bounds (state\<lparr>tv_modelPreference := m\<rparr>)" for g m
    using assms by (simp_all add: topic_ok_def topic_bounds_def)
  show "topic_ok (applyTopicGoalChanges state changes expected)" "topic_ok (updateTopicModelPreference state snapshot)"
    using assms updateTopicView_ok [OF assms] bounds by (simp_all add: applyTopicGoalChanges_def updateTopicModelPreference_def Let_def)
  show "topic_ok (updateTopicSessionIdentity state b)" "topic_ok (updateTopicCurrentAnswer state a)" "topic_ok (updateTopicWorkerContext state ws c r)"
    using assms topic_ok_frame [OF assms]
    by (simp_all add: updateTopicSessionIdentity_def updateTopicCurrentAnswer_def updateTopicWorkerContext_def Let_def)
qed

lemma mirrorRunCardToTopic_ok:
  assumes "topic_ok state" and "progress_ok run"
  shows "topic_ok (mirrorRunCardToTopic state run)
    \<and> (mirrorRunCardToTopic state run = state \<or> tv_viewVersion (mirrorRunCardToTopic state run) = tv_viewVersion state + 1)"
proof -
  have "topic_bounds (open_run_patch run state)" "topic_bounds (run_patch run state)"
    using assms by (simp_all add: topic_ok_def topic_bounds_def open_run_patch_def run_patch_def progress_ok_def progress_list_ok_def)
  with updateTopicView_ok [OF assms(1), of "Fields (open_run_patch run)"] updateTopicView_ok [OF assms(1), of "Whole_view (run_patch run state)"] assms(1)
  show ?thesis by (simp add: mirrorRunCardToTopic_def)
qed

text \<open>A change of the active prompt is always shown.\<close>

lemma reduce_active_prompt:
  assumes "tv_activePromptId (reduceTopicViewSnapshot v x) \<noteq> tv_activePromptId v"
  shows "reduceTopicView v x = (withPaneIdentity (reduceTopicViewSnapshot v x) (patch_identity (Whole_view (reduceTopicViewSnapshot v x))))
    \<lparr>tv_viewVersion := tv_viewVersion v + 1, tv_deliveredVersion := tv_deliveredVersion v, tv_activityAt := Some (be_occurredAt x)\<rparr>"
proof -
  have "\<not> sameTopicPresentation (withPaneIdentity (reduceTopicViewSnapshot v x) i) v" for i
    using assms by (simp add: sameTopicPresentation_def withPaneIdentity_def Let_def)
  then show ?thesis by (simp add: reduceTopicView_def topic_update_def Let_def)
qed

lemma withPaneIdentity_frame [simp]:
  "tv_activePromptId (withPaneIdentity v i) = tv_activePromptId v" "tv_phase (withPaneIdentity v i) = tv_phase v"
  "tv_answer (withPaneIdentity v i) = tv_answer v" "tv_notice (withPaneIdentity v i) = tv_notice v"
  by (simp_all add: withPaneIdentity_def Let_def)

subsection \<open>Properties\<close>


definition sample_event :: "topic_event \<Rightarrow> BridgeEvent" where
  "sample_event ev = \<lparr>be_eventId = ''e'', be_occurredAt = 7, be_event = ev\<rparr>"


text \<open>
  Late events of an earlier turn never disturb the current one: while a prompt is
  active, an output, a completion, a failure or an agent state reported for another prompt
  leaves the view exactly as it is, and neither does a cancelled prompt or a queue position
  touch it. What the active prompt itself reports is applied: its completion ends the turn
  and shows the tail of its answer, its failure ends the turn with the error.
\<close>
lemma late_events_leave_the_topic_alone:
  assumes "topic_ok v" and "tv_activePromptId v = Some active" and "active \<noteq> []" and "p \<noteq> active" and "p \<noteq> []"
    and "be_event e \<in> {TurnOutputObserved p payload, TurnCompleted p answer depth, TurnFailed p error depth,
           AgentStateChanged st depth (Some p), PromptCancelled q, RunQueuePositionChanged q n}"
    and "be_event done_event = TurnCompleted active answer depth" and "be_event failed_event = TurnFailed active error depth"
  shows "reduceTopicView v e = v
    \<and> tv_activePromptId (reduceTopicView v done_event) = None \<and> tv_phase (reduceTopicView v done_event) = T_done
    \<and> tv_answer (reduceTopicView v done_event) = Some (keepAnswerTail answer)
    \<and> tv_activePromptId (reduceTopicView v failed_event) = None \<and> tv_phase (reduceTopicView v failed_event) = T_error
    \<and> tv_notice (reduceTopicView v failed_event) = Some error"
proof (intro conjI)
  have nonempty: "when_nonempty (Some p) = Some p" using assms(5) by (cases p) (simp_all add: when_nonempty_def)
  have "reduceTopicViewSnapshot v e = v" using assms(2-6) nonempty
    by (auto simp: reduceTopicViewSnapshot_def other_prompt_def topic_base_def Let_def)
  then show "reduceTopicView v e = v" by (simp add: reduceTopicView_def topic_update_same [OF assms(1)])
  have snap: "tv_activePromptId (reduceTopicViewSnapshot v done_event) = None" "tv_phase (reduceTopicViewSnapshot v done_event) = T_done"
    "tv_answer (reduceTopicViewSnapshot v done_event) = Some (keepAnswerTail answer)"
    "tv_activePromptId (reduceTopicViewSnapshot v failed_event) = None" "tv_phase (reduceTopicViewSnapshot v failed_event) = T_error"
    "tv_notice (reduceTopicViewSnapshot v failed_event) = Some error"
    using assms(2,7,8) by (simp_all add: reduceTopicViewSnapshot_def other_prompt_def topic_base_def Let_def)
  show "tv_activePromptId (reduceTopicView v done_event) = None" "tv_phase (reduceTopicView v done_event) = T_done"
    "tv_answer (reduceTopicView v done_event) = Some (keepAnswerTail answer)"
    using reduce_active_prompt [of v done_event] snap(1-3) assms(2) by simp_all
  show "tv_activePromptId (reduceTopicView v failed_event) = None" "tv_phase (reduceTopicView v failed_event) = T_error"
    "tv_notice (reduceTopicView v failed_event) = Some error"
    using reduce_active_prompt [of v failed_event] snap(4-6) assms(2) by simp_all
qed

end
