(* ===== verification/Commands.thy ===== *)
theory Commands
  imports Run_Card
begin

text \<open>
  The command language (\<^verbatim>\<open>src/src/domain/commands.ts\<close>) and the policy of each command
  (\<^verbatim>\<open>src/src/domain/swarm-command.ts\<close>). Texts are code units. The regular expressions of the
  parser are written out as the functions they compute: white space separates words, a
  command word is a run of letters that white space or the end of the text follows, and
  letters are compared without regard to case. Syntax, summary and examples of a command
  definition are texts for the help card and are left out.
\<close>

subsection \<open>Words\<close>

abbreviation nonspace :: "nat \<Rightarrow> bool" where
  "nonspace u \<equiv> \<not> space_unit u"

definition lower :: "js_text \<Rightarrow> js_text" where
  "lower s = map (\<lambda>u. if 65 \<le> u \<and> u \<le> 90 then u + 32 else u) s"

definition letter :: "nat \<Rightarrow> bool" where
  "letter u \<longleftrightarrow> 65 \<le> u \<and> u \<le> 90 \<or> 97 \<le> u \<and> u \<le> 122"

text \<open>\<^verbatim>\<open>text.split(/\s+/).filter(Boolean)\<close>.\<close>

function js_words :: "js_text \<Rightarrow> js_text list" where
  "js_words s = (case dropWhile space_unit s of [] \<Rightarrow> [] | u # us \<Rightarrow> takeWhile nonspace (u # us) # js_words (dropWhile nonspace (u # us)))"
  by pat_completeness auto
termination
proof (relation "measure length")
  fix s :: js_text and u us
  assume drop: "dropWhile space_unit s = u # us"
  then have "nonspace u" by (metis hd_dropWhile list.distinct(1) list.sel(1))
  then have "length (dropWhile nonspace (u # us)) < length (u # us)" by (simp add: le_imp_less_Suc length_dropWhile_le)
  also have "\<dots> \<le> length s" using drop by (metis length_dropWhile_le)
  finally show "(dropWhile nonspace (u # us), s) \<in> measure length" by simp
qed simp

declare js_words.simps [simp del]

fun join_spaces :: "js_text list \<Rightarrow> js_text" where
  "join_spaces [] = []"
| "join_spaces [w] = w"
| "join_spaces (w # ws) = w @ [32] @ join_spaces ws"

definition or_null :: "js_text \<Rightarrow> js_text option" where
  "or_null s = (if s = [] then None else Some s)"

subsection \<open>Commands\<close>

datatype BridgeCommand =
    Cmd_stop | Cmd_steer js_text | Cmd_model "js_text option" | Cmd_reset "js_text option" | Cmd_clear
  | Cmd_new "js_text option" AgentKind | Cmd_projects | Cmd_spaces | Cmd_panes | Cmd_sessions "js_text option" | Cmd_failures
  | Cmd_status | Cmd_attach "js_text option" js_text | Cmd_rename js_text | Cmd_close | Cmd_pane_close_request
  | Cmd_pane_close_confirm js_text | Cmd_reattach js_text | Cmd_replace | Cmd_resume | Cmd_archive | Cmd_awake
  | Cmd_worker_create js_text AgentKind "js_text option" bool | Cmd_help

definition agent_kind_of :: "js_text \<Rightarrow> AgentKind option" where
  "agent_kind_of w = (if w = units ''traex'' then Some Agent_traex else if w = units ''pi'' then Some Agent_pi
     else if w = units ''codex'' then Some Agent_codex else if w = units ''claude-code'' then Some Agent_claude_code else None)"

definition is_option :: "js_text \<Rightarrow> bool" where
  "is_option w \<longleftrightarrow> take 2 w = units ''--''"

definition parseNewCommand :: "js_text \<Rightarrow> BridgeCommand option" where
  "parseNewCommand argument =
     (let tokens = js_words argument;
          before = takeWhile (\<lambda>w. w \<noteq> units ''--agent'') tokens
      in if before = tokens then
           (if list_ex is_option tokens then None else Some (Cmd_new (or_null (join_spaces tokens)) Agent_traex))
         else case drop (length before + 1) tokens of
                [w] \<Rightarrow> (case agent_kind_of w of
                    None \<Rightarrow> None
                  | Some kind \<Rightarrow> if list_ex is_option before then None else Some (Cmd_new (or_null (join_spaces before)) kind))
              | _ \<Rightarrow> None)"

text \<open>
  The tokens of a worker command: a quoted text, in which a backslash takes the next
  character (not a line terminator) with it, or else a run of characters that are not white
  space. \<open>scan_quoted q s\<close> is the length of the text up to its closing quote.
\<close>

definition line_terminator :: "nat \<Rightarrow> bool" where
  "line_terminator u \<longleftrightarrow> u \<in> {10, 13, 8232, 8233}"

fun scan_quoted :: "nat \<Rightarrow> js_text \<Rightarrow> nat option" where
  "scan_quoted q [] = None"
| "scan_quoted q [u] = (if u = q then Some 0 else None)"
| "scan_quoted q (u # v # us) =
     (if u = q then Some 0
      else if u = 92 then (if line_terminator v then None else map_option (\<lambda>n. n + 2) (scan_quoted q us))
      else map_option Suc (scan_quoted q (v # us)))"

definition token_length :: "js_text \<Rightarrow> nat" where
  "token_length s = (case s of
       [] \<Rightarrow> 0
     | u # us \<Rightarrow> (case (if u = 34 \<or> u = 39 then scan_quoted u us else None) of
           Some n \<Rightarrow> n + 2
         | None \<Rightarrow> length (takeWhile nonspace s)))"

lemma token_length_pos: "nonspace u \<Longrightarrow> 0 < token_length (u # us)"
  by (auto simp: token_length_def split: option.splits if_splits)

function worker_tokens :: "js_text \<Rightarrow> js_text list" where
  "worker_tokens s = (case dropWhile space_unit s of
       [] \<Rightarrow> []
     | u # us \<Rightarrow> take (token_length (u # us)) (u # us) # worker_tokens (drop (token_length (u # us)) (u # us)))"
  by pat_completeness auto
termination
proof (relation "measure length")
  fix s :: js_text and u us
  assume drop: "dropWhile space_unit s = u # us"
  then have "nonspace u" by (metis hd_dropWhile list.distinct(1) list.sel(1))
  then have "length (drop (token_length (u # us)) (u # us)) < length (u # us)" using token_length_pos by simp
  also have "\<dots> \<le> length s" using drop by (metis length_dropWhile_le)
  finally show "(drop (token_length (u # us)) (u # us), s) \<in> measure length" by simp
qed simp

declare worker_tokens.simps [simp del]

fun unescape :: "js_text \<Rightarrow> js_text" where
  "unescape [] = []"
| "unescape [u] = [u]"
| "unescape (u # v # us) = (if u = 92 \<and> v \<in> {92, 34, 39} then v # unescape us else u # unescape (v # us))"

definition unquote :: "js_text \<Rightarrow> js_text" where
  "unquote s = (if s \<noteq> [] \<and> (hd s = 34 \<and> last s = 34 \<or> hd s = 39 \<and> last s = 39) then unescape (butlast (tl s)) else s)"

record worker_options =
  wk_seen :: "js_text set"
  wk_agentKind :: AgentKind
  wk_model :: "js_text option"
  wk_start :: bool

fun parse_worker_options :: "js_text list \<Rightarrow> worker_options \<Rightarrow> worker_options option" where
  "parse_worker_options [] st = Some st"
| "parse_worker_options (w # ws) st =
     (if w \<in> wk_seen st then None
      else if w = units ''--start'' then parse_worker_options ws (st\<lparr>wk_seen := insert w (wk_seen st), wk_start := True\<rparr>)
      else if w \<noteq> units ''--agent'' \<and> w \<noteq> units ''--model'' then None
      else case ws of
        [] \<Rightarrow> None
      | v # rest \<Rightarrow>
          if v = [] \<or> is_option v then None
          else if w = units ''--agent'' then
            (case agent_kind_of v of
               None \<Rightarrow> None
             | Some kind \<Rightarrow> parse_worker_options rest (st\<lparr>wk_seen := insert w (wk_seen st), wk_agentKind := kind\<rparr>))
          else parse_worker_options rest (st\<lparr>wk_seen := insert w (wk_seen st), wk_model := Some v\<rparr>))"

definition parseWorkerCommand :: "js_text \<Rightarrow> BridgeCommand option" where
  "parseWorkerCommand argument =
     (case map unquote (worker_tokens argument) of
        create # name # rest \<Rightarrow>
          if lower create \<noteq> units ''create'' \<or> name = [] \<or> is_option name then None
          else map_option (\<lambda>st. Cmd_worker_create name (wk_agentKind st) (wk_model st) (wk_start st))
                 (parse_worker_options rest \<lparr>wk_seen = {}, wk_agentKind = Agent_traex, wk_model = None, wk_start = False\<rparr>)
      | _ \<Rightarrow> None)"

definition confirm_code :: "js_text list \<Rightarrow> js_text list \<Rightarrow> js_text option" where
  "confirm_code expected tokens = (if length tokens = length expected + 1 \<and> map lower (butlast tokens) = expected then Some (last tokens) else None)"

definition no_argument :: "js_text \<Rightarrow> BridgeCommand \<Rightarrow> BridgeCommand" where
  "no_argument argument c = (if argument = [] then c else Cmd_help)"

definition with_argument :: "js_text \<Rightarrow> (js_text \<Rightarrow> BridgeCommand) \<Rightarrow> BridgeCommand" where
  "with_argument argument f = (if argument = [] then Cmd_help else f argument)"

definition cursor_unit :: "nat \<Rightarrow> bool" where
  "cursor_unit u \<longleftrightarrow> letter u \<or> 48 \<le> u \<and> u \<le> 57 \<or> u = 95 \<or> u = 45"

definition parse_action :: "js_text \<Rightarrow> js_text \<Rightarrow> BridgeCommand" where
  "parse_action action argument =
     (if action = units ''model'' then Cmd_model (or_null argument)
      else if action = units ''stop'' then no_argument argument Cmd_stop
      else if action = units ''steer'' then with_argument argument Cmd_steer
      else if action = units ''new'' then opt_or (parseNewCommand argument) Cmd_help
      else if action = units ''reset'' then Cmd_reset (or_null argument)
      else if action = units ''clear'' then no_argument argument Cmd_clear
      else if action = units ''projects'' then Cmd_projects
      else if action = units ''spaces'' then no_argument argument Cmd_spaces
      else if action = units ''panes'' then no_argument argument Cmd_panes
      else if action = units ''sessions'' then
        (if argument \<noteq> [] \<and> \<not> list_all cursor_unit argument then Cmd_help else Cmd_sessions (or_null argument))
      else if action = units ''failures'' then no_argument argument Cmd_failures
      else if action = units ''status'' then Cmd_status
      else if action = units ''attach'' then
        (case js_words argument of [pane] \<Rightarrow> Cmd_attach None pane | [space, pane] \<Rightarrow> Cmd_attach (Some space) pane | _ \<Rightarrow> Cmd_help)
      else if action = units ''rename'' then with_argument argument Cmd_rename
      else if action = units ''close'' then
        (if argument = [] then Cmd_pane_close_request
         else case confirm_code [units ''confirm''] (js_words argument) of Some code \<Rightarrow> Cmd_pane_close_confirm code | None \<Rightarrow> Cmd_help)
      else if action = units ''pane'' then
        (if argument = units ''close'' then Cmd_pane_close_request
         else case confirm_code [units ''close'', units ''confirm''] (js_words argument) of
                Some code \<Rightarrow> Cmd_pane_close_confirm code | None \<Rightarrow> Cmd_help)
      else if action = units ''reattach'' then with_argument argument Cmd_reattach
      else if action = units ''replace'' then Cmd_replace
      else if action = units ''resume'' then Cmd_resume
      else if action = units ''awake'' then no_argument argument Cmd_awake
      else if action = units ''worker'' then opt_or (parseWorkerCommand argument) Cmd_help
      else Cmd_help)"

text \<open>The action and the argument of the text after \<^verbatim>\<open>/swarm\<close>.\<close>

definition split_action :: "js_text \<Rightarrow> js_text \<times> js_text" where
  "split_action rest =
     (let body = dropWhile space_unit rest; word = takeWhile letter body; tail = dropWhile letter body
      in if word \<noteq> [] \<and> (tail = [] \<or> space_unit (hd tail)) then (lower word, js_trim tail) else (units ''help'', js_trim body))"

definition parseCommand :: "js_text \<Rightarrow> BridgeCommand option" where
  "parseCommand s =
     (let trimmed = js_trim s; rest = drop 6 trimmed
      in if lower (take 6 trimmed) \<noteq> units ''/swarm'' \<or> rest \<noteq> [] \<and> nonspace (hd rest) then None
         else let (action, argument) = split_action rest in Some (parse_action action argument))"

subsection \<open>Instance commands and titles\<close>

datatype InstanceCommand =
    Inst_projects | Inst_project js_text | Inst_instances | Inst_instance js_text | Inst_to js_text js_text
  | Inst_steer_instance js_text js_text | Inst_stop_instance js_text

definition single_word :: "js_text \<Rightarrow> (js_text \<Rightarrow> InstanceCommand) \<Rightarrow> InstanceCommand option" where
  "single_word argument f = (if argument \<noteq> [] \<and> list_all nonspace argument then Some (f argument) else None)"

definition name_and_text :: "js_text \<Rightarrow> (js_text \<Rightarrow> js_text \<Rightarrow> InstanceCommand) \<Rightarrow> InstanceCommand option" where
  "name_and_text argument f =
     (let name = takeWhile nonspace argument; rest = js_trim (dropWhile nonspace argument)
      in if name \<noteq> [] \<and> rest \<noteq> [] then Some (f name rest) else None)"

definition parseInstanceCommand :: "js_text \<Rightarrow> InstanceCommand option" where
  "parseInstanceCommand s =
     (case js_trim s of
        [] \<Rightarrow> None
      | u # us \<Rightarrow>
          if u \<noteq> 47 then None
          else let action = lower (takeWhile nonspace us); argument = js_trim (dropWhile nonspace us)
            in if action = units ''projects'' then (if argument \<noteq> [] then None else Some Inst_projects)
               else if action = units ''instances'' then (if argument \<noteq> [] then None else Some Inst_instances)
               else if action = units ''project'' then single_word argument Inst_project
               else if action = units ''instance'' then single_word argument Inst_instance
               else if action = units ''to'' then name_and_text argument Inst_to
               else if action = units ''steer'' then name_and_text argument Inst_steer_instance
               else if action = units ''stop'' \<or> action = units ''interrupt'' then single_word argument Inst_stop_instance
               else None)"

definition MAX_TOPIC_TITLE_LENGTH :: nat where
  "MAX_TOPIC_TITLE_LENGTH = 80"

text \<open>\<^verbatim>\<open>text.split(/\r?\n/, 1)[0]\<close>.\<close>

definition first_line :: "js_text \<Rightarrow> js_text" where
  "first_line s =
     (let line = takeWhile (\<lambda>u. u \<noteq> 10) s
      in if line \<noteq> s \<and> line \<noteq> [] \<and> last line = 13 then butlast line else line)"

definition deriveTopicTitle :: "js_text \<Rightarrow> js_text" where
  "deriveTopicTitle s = (let title = take MAX_TOPIC_TITLE_LENGTH (first_line (js_trim s)) in if title = [] then units ''TraeX task'' else title)"

text \<open>
  \<^verbatim>\<open>rest.lastIndexOf("\n", chunkSize)\<close>: the last position up to the limit, or none. The loop of
  \<^verbatim>\<open>splitMessage\<close> is a partial function: with a chunk size of zero it need not return.
\<close>

definition last_newline :: "js_text \<Rightarrow> nat \<Rightarrow> nat option" where
  "last_newline s limit = (let positions = filter (\<lambda>i. s ! i = 10) [0..<min (limit + 1) (length s)] in list_last positions)"

definition split_at :: "js_text \<Rightarrow> nat \<Rightarrow> nat" where
  "split_at rest chunkSize = (case last_newline rest chunkSize of
       None \<Rightarrow> chunkSize
     | Some i \<Rightarrow> if i < chunkSize div 2 then chunkSize else i)"

definition drop_newline :: "js_text \<Rightarrow> js_text" where
  "drop_newline s = (case s of u # us \<Rightarrow> if u = 10 then us else s | [] \<Rightarrow> [])"

partial_function (option) split_loop :: "nat \<Rightarrow> js_text \<Rightarrow> js_text list \<Rightarrow> js_text list option" where
  "split_loop chunkSize rest chunks =
     (if chunkSize < length rest
      then split_loop chunkSize (drop_newline (drop (split_at rest chunkSize) rest)) (chunks @ [take (split_at rest chunkSize) rest])
      else Some (if rest \<noteq> [] then chunks @ [rest] else chunks))"

definition splitMessage :: "js_text \<Rightarrow> nat \<Rightarrow> js_text list option" where
  "splitMessage s chunkSize = (if length s \<le> chunkSize then Some [s] else split_loop chunkSize s [])"

subsection \<open>Policies\<close>

datatype SwarmCommandMode = Query | Mutation
datatype SwarmCommandScope = Scope_global | Scope_project | Scope_primary_session | Scope_active_turn
datatype SwarmCommandAuthorization = Allowed_user | Administrator | Creator | Creator_and_administrator
datatype SwarmCommandReplayPolicy = Replay_none | Safe_before_effect | Reconcilable | Non_replayable
datatype SwarmCommandHandler = Handle_help | Handle_provisioning | Handle_operations_query | Handle_session | Handle_model
  | Handle_pane_control | Handle_pane_closure | Handle_prompt_recovery | Handle_worker_lifecycle | Handle_orchestrator_clear
datatype SwarmCommandRisk = Read_only | Recoverable_mutation | Destructive_mutation
datatype SwarmCommandSource = From_literal | From_natural_language | From_card | From_primary_tool
datatype SwarmCommandSourceDecision = Execute_query | Admit | Confirm | Unsupported

record SwarmCommandPolicy =
  sp_mode :: SwarmCommandMode
  sp_scope :: SwarmCommandScope
  sp_authorization :: SwarmCommandAuthorization
  sp_replay :: SwarmCommandReplayPolicy
  sp_handler :: SwarmCommandHandler
  sp_risk :: SwarmCommandRisk

abbreviation policy_of :: "SwarmCommandMode \<Rightarrow> SwarmCommandScope \<Rightarrow> SwarmCommandAuthorization \<Rightarrow> SwarmCommandReplayPolicy
    \<Rightarrow> SwarmCommandHandler \<Rightarrow> SwarmCommandRisk \<Rightarrow> SwarmCommandPolicy" where
  "policy_of m s a r h k \<equiv> \<lparr>sp_mode = m, sp_scope = s, sp_authorization = a, sp_replay = r, sp_handler = h, sp_risk = k\<rparr>"

fun command_definition :: "BridgeCommand \<Rightarrow> SwarmCommandPolicy" where
  "command_definition Cmd_help = policy_of Query Scope_global Allowed_user Replay_none Handle_help Read_only"
| "command_definition Cmd_projects = policy_of Query Scope_global Administrator Replay_none Handle_provisioning Read_only"
| "command_definition Cmd_spaces = policy_of Query Scope_project Allowed_user Replay_none Handle_operations_query Read_only"
| "command_definition Cmd_panes = policy_of Query Scope_global Allowed_user Replay_none Handle_operations_query Read_only"
| "command_definition (Cmd_sessions _) = policy_of Query Scope_global Allowed_user Replay_none Handle_operations_query Read_only"
| "command_definition Cmd_failures = policy_of Query Scope_global Allowed_user Replay_none Handle_operations_query Read_only"
| "command_definition Cmd_status = policy_of Query Scope_primary_session Allowed_user Replay_none Handle_session Read_only"
| "command_definition (Cmd_new _ _) = policy_of Mutation Scope_global Administrator Reconcilable Handle_provisioning Recoverable_mutation"
| "command_definition (Cmd_reset _) = policy_of Mutation Scope_primary_session Creator_and_administrator Reconcilable Handle_provisioning Recoverable_mutation"
| "command_definition Cmd_clear = policy_of Mutation Scope_primary_session Administrator Non_replayable Handle_orchestrator_clear Destructive_mutation"
| "command_definition (Cmd_attach _ _) = policy_of Mutation Scope_project Administrator Reconcilable Handle_provisioning Recoverable_mutation"
| "command_definition (Cmd_rename _) = policy_of Mutation Scope_primary_session Creator_and_administrator Safe_before_effect Handle_session Recoverable_mutation"
| "command_definition Cmd_close = policy_of Mutation Scope_primary_session Creator_and_administrator Safe_before_effect Handle_pane_closure Recoverable_mutation"
| "command_definition Cmd_pane_close_request = policy_of Mutation Scope_primary_session Creator_and_administrator Safe_before_effect Handle_pane_closure Recoverable_mutation"
| "command_definition (Cmd_pane_close_confirm _) = policy_of Mutation Scope_primary_session Creator_and_administrator Non_replayable Handle_pane_closure Destructive_mutation"
| "command_definition (Cmd_reattach _) = policy_of Mutation Scope_primary_session Creator_and_administrator Reconcilable Handle_provisioning Recoverable_mutation"
| "command_definition Cmd_replace = policy_of Mutation Scope_primary_session Creator_and_administrator Reconcilable Handle_provisioning Recoverable_mutation"
| "command_definition Cmd_resume = policy_of Mutation Scope_primary_session Creator_and_administrator Safe_before_effect Handle_session Recoverable_mutation"
| "command_definition Cmd_awake = policy_of Mutation Scope_primary_session Creator Reconcilable Handle_prompt_recovery Recoverable_mutation"
| "command_definition Cmd_stop = policy_of Mutation Scope_active_turn Creator_and_administrator Non_replayable Handle_pane_control Destructive_mutation"
| "command_definition (Cmd_steer _) = policy_of Mutation Scope_primary_session Administrator Non_replayable Handle_pane_control Recoverable_mutation"
| "command_definition (Cmd_model _) = policy_of Mutation Scope_primary_session Creator_and_administrator Non_replayable Handle_model Recoverable_mutation"
| "command_definition (Cmd_worker_create _ _ _ _) = policy_of Mutation Scope_primary_session Administrator Reconcilable Handle_worker_lifecycle Recoverable_mutation"
| "command_definition Cmd_archive = policy_of Mutation Scope_primary_session Creator_and_administrator Safe_before_effect Handle_session Recoverable_mutation"

definition swarmCommandDefinition :: "BridgeCommand \<Rightarrow> SwarmCommandPolicy" where
  "swarmCommandDefinition c =
     (if c = Cmd_model None then (command_definition c)\<lparr>sp_mode := Query, sp_replay := Replay_none, sp_risk := Read_only\<rparr> else command_definition c)"

definition swarmCommandSourceDecision :: "BridgeCommand \<Rightarrow> SwarmCommandSource \<Rightarrow> SwarmCommandSourceDecision" where
  "swarmCommandSourceDecision c source =
     (let d = swarmCommandDefinition c
      in if c = Cmd_archive \<and> source \<noteq> From_card then Unsupported
         else if sp_mode d = Query then Execute_query
         else if c = Cmd_clear \<and> (source = From_literal \<or> source = From_natural_language) then Confirm
         else if source = From_primary_tool \<and> sp_risk d = Destructive_mutation then Unsupported
         else if source = From_natural_language \<and> sp_risk d = Destructive_mutation then Confirm
         else Admit)"

subsection \<open>Splitting a long message\<close>

text \<open>The chunks, glued together with at most a line feed between two, give the text.\<close>

fun reassembles :: "js_text list \<Rightarrow> js_text \<Rightarrow> bool" where
  "reassembles [] s = (s = [])"
| "reassembles (c # cs) s = (take (length c) s = c \<and> (reassembles cs (drop (length c) s)
     \<or> list_head (drop (length c) s) = Some 10 \<and> reassembles cs (drop (Suc (length c)) s)))"

lemma last_newline_Some:
  assumes "last_newline s limit = Some i"
  shows "i \<le> limit \<and> i < length s \<and> s ! i = 10"
proof -
  let ?positions = "filter (\<lambda>i. s ! i = 10) [0..<min (limit + 1) (length s)]"
  from assms obtain ys where "?positions = ys @ [i]" unfolding last_newline_def Let_def list_last_eq_Some by blast
  then have "i \<in> set ?positions" by (metis in_set_conv_decomp)
  then show ?thesis by auto
qed

lemma split_at_le: "split_at rest n \<le> n"
  by (auto simp: split_at_def dest: last_newline_Some split: option.splits)

lemma split_progress:
  assumes "1 \<le> n" and "n < length rest"
  shows "length (drop_newline (drop (split_at rest n) rest)) < length rest"
proof (cases "split_at rest n")
  case 0
  with assms(1) have "last_newline rest n = Some 0" by (auto simp: split_at_def split: option.splits if_splits)
  then have "rest ! 0 = 10" by (simp add: last_newline_Some)
  with 0 assms show ?thesis by (cases rest) (simp_all add: drop_newline_def)
next
  case (Suc k)
  then have "length (drop (split_at rest n) rest) < length rest" using assms(2) by simp
  moreover have "length (drop_newline xs) \<le> length xs" for xs by (simp add: drop_newline_def split: list.splits)
  ultimately show ?thesis by (metis le_less_trans)
qed

lemma split_loop_returns:
  assumes "1 \<le> n"
  shows "\<exists>cs. split_loop n rest acc = Some (acc @ cs) \<and> reassembles cs rest \<and> (\<forall>c \<in> set cs. length c \<le> n)"
proof (induction "length rest" arbitrary: rest acc rule: less_induct)
  case less
  show ?case
  proof (cases "n < length rest")
    case False
    then show ?thesis by (subst split_loop.simps) (cases "rest = []"; force)
  next
    case True
    let ?k = "split_at rest n"
    let ?r = "drop_newline (drop ?k rest)"
    have k: "?k \<le> n" by (rule split_at_le)
    from less.hyps [OF split_progress [OF assms True]] obtain cs where cs: "split_loop n ?r (acc @ [take ?k rest]) = Some ((acc @ [take ?k rest]) @ cs)"
      "reassembles cs ?r" "\<forall>c \<in> set cs. length c \<le> n" by blast
    have "drop ?k rest \<noteq> []" using k True by simp
    then have "?r = drop ?k rest \<or> list_head (drop ?k rest) = Some 10 \<and> ?r = drop (Suc ?k) rest"
      by (cases "drop ?k rest") (auto simp: drop_newline_def drop_Suc drop_tl)
    moreover have "length (take ?k rest) = ?k" using k True by simp
    ultimately have "reassembles (take ?k rest # cs) rest" using cs(2) by auto
    moreover have "split_loop n rest acc = Some (acc @ take ?k rest # cs)"
      using True cs(1) by (subst split_loop.simps) simp
    ultimately show ?thesis using cs(3) k by (intro exI [of _ "take ?k rest # cs"]) auto
  qed
qed

lemma split_loop_diverges: "split_loop 0 [65] acc = None"
proof (rule ccontr)
  have stuck: "drop_newline (drop (split_at [65] 0) [65]) = [65]"
    by (simp add: split_at_def last_newline_def drop_newline_def Let_def)
  assume "split_loop 0 [65] acc \<noteq> None"
  then obtain out where "split_loop 0 [65] acc = Some out" by auto
  then have "\<not> (0 = (0 :: nat) \<and> [65] = [65 :: nat])"
  proof (rule split_loop.raw_induct [where P = "\<lambda>n rest acc out. \<not> (n = 0 \<and> rest = [65])", rotated])
    fix f n rest acc out
    assume IH: "\<And>n rest acc out. f n rest acc = Some out \<Longrightarrow> \<not> (n = (0 :: nat) \<and> rest = [65 :: nat])"
      and body: "(if n < length rest then f n (drop_newline (drop (split_at rest n) rest)) (acc @ [take (split_at rest n) rest])
        else Some (if rest \<noteq> [] then acc @ [rest] else acc)) = Some out"
    show "\<not> (n = 0 \<and> rest = [65])" using body IH stuck by (auto split: if_splits)
  qed
  then show False by simp
qed

text \<open>
  C39: Splitting a long message always ends, and loses nothing: for every chunk size of at
  least one the loop returns, no chunk is longer than the size, and the chunks glued
  together, with at most one line feed put back between two of them, are the text. The
  bound on the size is needed: with size zero the loop need not return.
\<close>
theorem message_splitting_terminates:
  "(1 \<le> chunkSize \<longrightarrow> (\<exists>chunks. splitMessage s chunkSize = Some chunks \<and> reassembles chunks s \<and> (\<forall>c \<in> set chunks. length c \<le> chunkSize)))
   \<and> splitMessage [65] 0 = None"
proof (intro conjI impI)
  assume "1 \<le> chunkSize"
  show "\<exists>chunks. splitMessage s chunkSize = Some chunks \<and> reassembles chunks s \<and> (\<forall>c \<in> set chunks. length c \<le> chunkSize)"
  proof (cases "length s \<le> chunkSize")
    case True
    then show ?thesis by (simp add: splitMessage_def)
  next
    case False
    then show ?thesis using split_loop_returns [OF \<open>1 \<le> chunkSize\<close>, of s "[]"] by (simp add: splitMessage_def)
  qed
next
  show "splitMessage [65] 0 = None" by (simp add: splitMessage_def split_loop_diverges)
qed

theorem message_splitting_terminates_witness:
  "\<exists>chunks. splitMessage [65, 66, 10, 67, 68] 3 = Some chunks \<and> reassembles chunks [65, 66, 10, 67, 68]"
  using message_splitting_terminates [of 3 "[65, 66, 10, 67, 68]"] by auto

subsection \<open>Where a command may come from\<close>



subsection \<open>The documented syntax\<close>

definition word_ok :: "js_text \<Rightarrow> bool" where
  "word_ok w \<longleftrightarrow> w \<noteq> [] \<and> list_all nonspace w"

definition trimmed :: "js_text \<Rightarrow> bool" where
  "trimmed s \<longleftrightarrow> s = [] \<or> nonspace (hd s) \<and> nonspace (last s)"

lemma js_trim_trimmed: "trimmed s \<Longrightarrow> js_trim s = s"
proof -
  assume t: "trimmed s"
  have "dropWhile space_unit s = s" using t by (cases s) (simp_all add: trimmed_def)
  moreover have "dropWhile space_unit (rev s) = rev s" using t by (cases s rule: rev_cases) (auto simp: trimmed_def)
  ultimately show ?thesis by (simp add: js_trim_def trimEnd_def)
qed

lemma word_trimmed: "word_ok w \<Longrightarrow> trimmed w"
  by (cases w) (auto simp: word_ok_def trimmed_def list_all_iff)

lemma trimmed_append: "trimmed a \<Longrightarrow> trimmed b \<Longrightarrow> a \<noteq> [] \<Longrightarrow> b \<noteq> [] \<Longrightarrow> trimmed (a @ m @ b)"
  by (simp add: trimmed_def)

lemma join_spaces_Cons: "ws \<noteq> [] \<Longrightarrow> join_spaces (w # ws) = w @ 32 # join_spaces ws"
  by (cases ws) simp_all

lemma join_spaces_snoc: "ws \<noteq> [] \<Longrightarrow> join_spaces (ws @ [w]) = join_spaces ws @ 32 # w"
proof (induction ws)
  case (Cons x xs)
  then show ?case by (cases xs) (simp_all add: join_spaces_Cons)
qed simp

lemma join_spaces_trimmed:
  assumes "list_all word_ok ws"
  shows "trimmed (join_spaces ws) \<and> (join_spaces ws = [] \<longleftrightarrow> ws = [])"
  using assms
proof (induction ws)
  case (Cons w ws)
  show ?case
  proof (cases "ws = []")
    case True
    with Cons.prems show ?thesis using word_trimmed by (simp add: word_ok_def)
  next
    case False
    have "w \<noteq> []" "trimmed w" using Cons.prems word_trimmed by (simp_all add: word_ok_def)
    with Cons False trimmed_append [of w "join_spaces ws" "[32]"] show ?thesis by (simp add: join_spaces_Cons)
  qed
qed (simp add: trimmed_def)

lemma space_unit_32 [simp]: "space_unit 32"
  by (simp add: space_unit_def)

lemma js_words_word:
  assumes "word_ok w"
  shows "js_words (w @ 32 # s) = w # js_words s" and "js_words w = [w]"
proof -
  from assms obtain u us where w: "w = u # us" "nonspace u" "list_all nonspace us" by (cases w) (auto simp: word_ok_def)
  have nil: "js_words [] = []" by (simp add: js_words.simps)
  have skip: "js_words (32 # s) = js_words s" by (subst (1 2) js_words.simps) simp
  have "takeWhile nonspace (u # us @ 32 # s) = u # us" "dropWhile nonspace (u # us @ 32 # s) = 32 # s"
    using w by (simp_all add: list_all_iff takeWhile_append2 dropWhile_append2)
  with w(2) skip show "js_words (w @ 32 # s) = w # js_words s" by (subst js_words.simps) (simp add: w(1))
  have "takeWhile nonspace (u # us) = u # us" "dropWhile nonspace (u # us) = []" "dropWhile space_unit (u # us) = u # us"
    using w by (simp_all add: list_all_iff)
  then show "js_words w = [w]" unfolding w(1) by (subst js_words.simps) (simp only: list.case nil)
qed

lemma js_words_join: "list_all word_ok ws \<Longrightarrow> js_words (join_spaces ws) = ws"
proof (induction ws)
  case Nil
  then show ?case by (simp add: js_words.simps)
next
  case (Cons w ws)
  then show ?case by (cases "ws = []") (simp_all add: js_words_word join_spaces_Cons)
qed

definition plain_token :: "js_text \<Rightarrow> bool" where
  "plain_token w \<longleftrightarrow> word_ok w \<and> hd w \<noteq> 34 \<and> hd w \<noteq> 39"

lemma worker_tokens_word:
  assumes "plain_token w"
  shows "worker_tokens (w @ 32 # s) = w # worker_tokens s" and "worker_tokens w = [w]"
proof -
  from assms obtain u us where w: "w = u # us" "nonspace u" "list_all nonspace us" "u \<noteq> 34" "u \<noteq> 39"
    by (cases w) (auto simp: plain_token_def word_ok_def)
  have nil: "worker_tokens [] = []" by (simp add: worker_tokens.simps)
  have skip: "worker_tokens (32 # s) = worker_tokens s" by (subst (1 2) worker_tokens.simps) simp
  have "takeWhile nonspace (u # us @ 32 # s) = u # us" "takeWhile nonspace (u # us) = u # us"
    using w by (simp_all add: list_all_iff takeWhile_append2)
  then have "token_length (u # us @ 32 # s) = length (u # us)" "token_length (u # us) = length (u # us)"
    using w(4,5) by (simp_all add: token_length_def)
  with w(1,2) skip nil show "worker_tokens (w @ 32 # s) = w # worker_tokens s" "worker_tokens w = [w]"
    by (subst worker_tokens.simps; simp)+
qed

lemma worker_tokens_join: "list_all plain_token ws \<Longrightarrow> worker_tokens (join_spaces ws) = ws"
proof (induction ws)
  case Nil
  then show ?case by (simp add: worker_tokens.simps)
next
  case (Cons w ws)
  then show ?case by (cases "ws = []") (simp_all add: worker_tokens_word join_spaces_Cons)
qed

lemma plain_unquoted: "plain_token w \<Longrightarrow> unquote w = w"
  by (auto simp: plain_token_def unquote_def)

text \<open>A command word and its argument after \<^verbatim>\<open>/swarm\<close> are read back.\<close>

definition swarm_text :: "string \<Rightarrow> js_text \<Rightarrow> js_text" where
  "swarm_text action argument = units ''/swarm '' @ units action @ (if argument = [] then [] else 32 # argument)"

definition command_word :: "js_text \<Rightarrow> bool" where
  "command_word w \<longleftrightarrow> w \<noteq> [] \<and> list_all letter w \<and> lower w = w"

lemma letter_nonspace: "letter u \<Longrightarrow> nonspace u"
  by (auto simp: letter_def space_unit_def)

lemma parse_swarm_text:
  assumes "command_word (units action)" and "trimmed argument"
  shows "parseCommand (swarm_text action argument) = Some (parse_action (units action) argument)"
proof -
  let ?tail = "if argument = [] then [] else 32 # argument"
  have word: "units action \<noteq> []" "list_all letter (units action)" "lower (units action) = units action"
    using assms(1) by (simp_all add: command_word_def)
  then have "letter (last (units action))" "letter (hd (units action))" by (simp_all add: list_all_iff)
  then have "nonspace (last (units action))" "nonspace (hd (units action))" by (simp_all add: letter_nonspace)
  with word(1) assms(2) have "trimmed (swarm_text action argument)"
    by (cases "argument = []") (auto simp: trimmed_def swarm_text_def units_def space_unit_def)
  then have trim: "js_trim (swarm_text action argument) = swarm_text action argument" by (rule js_trim_trimmed)
  have parts: "take 6 (swarm_text action argument) = units ''/swarm''" "drop 6 (swarm_text action argument) = 32 # units action @ ?tail"
    by (simp_all add: swarm_text_def units_def)
  have body: "dropWhile space_unit (32 # units action @ ?tail) = units action @ ?tail"
    using word(1) \<open>nonspace (hd (units action))\<close> by (cases "units action") simp_all
  have "takeWhile letter (units action @ ?tail) = units action" "dropWhile letter (units action @ ?tail) = ?tail"
    using word(2) by (simp_all add: list_all_iff takeWhile_append2 dropWhile_append2 letter_def)
  moreover have "js_trim ?tail = argument" using js_trim_trimmed [OF assms(2)] by (simp add: js_trim_def trimEnd_def)
  moreover have "?tail = [] \<or> space_unit (hd ?tail)" by simp
  ultimately have "split_action (32 # units action @ ?tail) = (units action, argument)"
    unfolding split_action_def Let_def body using word(1,3) by (simp only: if_True simp_thms)
  moreover have "lower (units ''/swarm'') = units ''/swarm''" by (simp add: lower_def units_def)
  ultimately show ?thesis by (simp add: parseCommand_def trim parts Let_def)
qed

definition kind_text :: "AgentKind \<Rightarrow> js_text" where
  "kind_text k = (case k of Agent_traex \<Rightarrow> units ''traex'' | Agent_pi \<Rightarrow> units ''pi'' | Agent_codex \<Rightarrow> units ''codex''
     | Agent_claude_code \<Rightarrow> units ''claude-code'')"

definition worker_words :: "js_text \<Rightarrow> AgentKind \<Rightarrow> js_text option \<Rightarrow> bool \<Rightarrow> js_text list" where
  "worker_words name kind m start = [units ''create'', name, units ''--agent'', kind_text kind]
     @ (case m of None \<Rightarrow> [] | Some w \<Rightarrow> [units ''--model'', w]) @ (if start then [units ''--start''] else [])"

text \<open>A command written in its documented syntax, and the arguments it can be written with.\<close>

fun command_text :: "BridgeCommand \<Rightarrow> js_text" where
  "command_text Cmd_stop = swarm_text ''stop'' []"
| "command_text (Cmd_steer t) = swarm_text ''steer'' t"
| "command_text (Cmd_model n) = swarm_text ''model'' (opt_or n [])"
| "command_text (Cmd_reset t) = swarm_text ''reset'' (opt_or t [])"
| "command_text Cmd_clear = swarm_text ''clear'' []"
| "command_text (Cmd_new t k) = swarm_text ''new'' (join_spaces (js_words (opt_or t []) @ [units ''--agent'', kind_text k]))"
| "command_text Cmd_projects = swarm_text ''projects'' []"
| "command_text Cmd_spaces = swarm_text ''spaces'' []"
| "command_text Cmd_panes = swarm_text ''panes'' []"
| "command_text (Cmd_sessions c) = swarm_text ''sessions'' (opt_or c [])"
| "command_text Cmd_failures = swarm_text ''failures'' []"
| "command_text Cmd_status = swarm_text ''status'' []"
| "command_text (Cmd_attach space pane) = swarm_text ''attach'' (join_spaces ((case space of None \<Rightarrow> [] | Some w \<Rightarrow> [w]) @ [pane]))"
| "command_text (Cmd_rename t) = swarm_text ''rename'' t"
| "command_text Cmd_close = swarm_text ''close'' []"
| "command_text Cmd_pane_close_request = swarm_text ''close'' []"
| "command_text (Cmd_pane_close_confirm code) = swarm_text ''close'' (join_spaces [units ''confirm'', code])"
| "command_text (Cmd_reattach p) = swarm_text ''reattach'' p"
| "command_text Cmd_replace = swarm_text ''replace'' []"
| "command_text Cmd_resume = swarm_text ''resume'' []"
| "command_text Cmd_archive = []"
| "command_text Cmd_awake = swarm_text ''awake'' []"
| "command_text (Cmd_worker_create name k m start) = swarm_text ''worker'' (join_spaces (worker_words name k m start))"
| "command_text Cmd_help = swarm_text ''help'' []"

definition argument_ok :: "js_text option \<Rightarrow> bool" where
  "argument_ok a \<longleftrightarrow> (case a of None \<Rightarrow> True | Some t \<Rightarrow> t \<noteq> [] \<and> trimmed t)"

fun documented :: "BridgeCommand \<Rightarrow> bool" where
  "documented (Cmd_steer t) = argument_ok (Some t)"
| "documented (Cmd_model n) = argument_ok n"
| "documented (Cmd_reset t) = argument_ok t"
| "documented (Cmd_new t k) = (case t of None \<Rightarrow> True | Some title \<Rightarrow> title \<noteq> [] \<and> title = join_spaces (js_words title)
     \<and> list_all word_ok (js_words title) \<and> \<not> list_ex is_option (js_words title))"
| "documented (Cmd_sessions c) = (argument_ok c \<and> list_all cursor_unit (opt_or c []))"
| "documented (Cmd_attach space pane) = (word_ok pane \<and> (case space of None \<Rightarrow> True | Some w \<Rightarrow> word_ok w))"
| "documented (Cmd_rename t) = argument_ok (Some t)"
| "documented (Cmd_pane_close_confirm code) = word_ok code"
| "documented (Cmd_reattach p) = argument_ok (Some p)"
| "documented (Cmd_worker_create name k m start) = (plain_token name \<and> \<not> is_option name
     \<and> (case m of None \<Rightarrow> True | Some w \<Rightarrow> plain_token w \<and> \<not> is_option w))"
| "documented Cmd_close = False"
| "documented Cmd_archive = False"
| "documented _ = True"

lemma units_eq [simp]: "units a = units b \<longleftrightarrow> a = b"
proof -
  have "inj (of_char :: char \<Rightarrow> nat)" by (rule inj_of_char)
  then show ?thesis by (simp add: units_def inj_map_eq_map)
qed

lemma units_Nil [simp]: "units s = [] \<longleftrightarrow> s = []" "units [] = []"
  by (simp_all add: units_def)

lemma command_words [simp]:
  "command_word (units ''stop'')" "command_word (units ''steer'')" "command_word (units ''model'')" "command_word (units ''reset'')"
  "command_word (units ''clear'')" "command_word (units ''new'')" "command_word (units ''projects'')" "command_word (units ''spaces'')"
  "command_word (units ''panes'')" "command_word (units ''sessions'')" "command_word (units ''failures'')" "command_word (units ''status'')"
  "command_word (units ''attach'')" "command_word (units ''rename'')" "command_word (units ''close'')" "command_word (units ''reattach'')"
  "command_word (units ''replace'')" "command_word (units ''resume'')" "command_word (units ''awake'')" "command_word (units ''worker'')"
  "command_word (units ''help'')"
  by (simp_all add: command_word_def units_def letter_def lower_def)

lemma fixed_words [simp]:
  "plain_token (units ''create'')" "plain_token (units ''--agent'')" "plain_token (units ''--model'')" "plain_token (units ''--start'')"
  "word_ok (units ''confirm'')" "plain_token (kind_text k)" "\<not> is_option (kind_text k)" "is_option (units ''--agent'')"
  "agent_kind_of (kind_text k) = Some k" "lower (units ''create'') = units ''create''" "lower (units ''confirm'') = units ''confirm''"
  by (simp_all add: plain_token_def word_ok_def kind_text_def agent_kind_of_def is_option_def lower_def split: AgentKind.splits)
    (simp_all add: units_def space_unit_def)

lemma plain_token_word: "plain_token w \<Longrightarrow> word_ok w"
  by (simp add: plain_token_def)

lemma parse_new_text:
  assumes "documented (Cmd_new t k)"
  shows "parseNewCommand (join_spaces (js_words (opt_or t []) @ [units ''--agent'', kind_text k])) = Some (Cmd_new t k)"
proof -
  let ?ws = "js_words (opt_or t [])"
  have nil: "js_words [] = []" by (simp add: js_words.simps)
  have ws: "list_all word_ok ?ws" "\<not> list_ex is_option ?ws" using assms by (cases t; simp add: nil)+
  then have "js_words (join_spaces (?ws @ [units ''--agent'', kind_text k])) = ?ws @ [units ''--agent'', kind_text k]"
    by (intro js_words_join) (simp add: plain_token_word)
  moreover have "takeWhile (\<lambda>w. w \<noteq> units ''--agent'') (?ws @ [units ''--agent'', kind_text k]) = ?ws"
    using ws(2) by (subst takeWhile_append2) (auto simp: list_ex_iff)
  moreover have "or_null (join_spaces ?ws) = t" using assms by (cases t) (simp_all add: or_null_def nil)
  ultimately show ?thesis using ws(2) by (simp add: parseNewCommand_def Let_def)
qed

lemma parse_worker_text:
  assumes "documented (Cmd_worker_create name k m start)"
  shows "parseWorkerCommand (join_spaces (worker_words name k m start)) = Some (Cmd_worker_create name k m start)"
proof -
  have plain: "list_all plain_token (worker_words name k m start)"
    using assms by (auto simp: worker_words_def split: option.splits)
  then have "map unquote (worker_tokens (join_spaces (worker_words name k m start))) = worker_words name k m start"
    by (simp add: worker_tokens_join) (simp add: list_all_iff map_idI plain_unquoted)
  moreover have "name \<noteq> []" "kind_text k \<noteq> []" "m = Some w \<Longrightarrow> w \<noteq> []" for w
    using assms fixed_words(6) [of k] by (auto simp: plain_token_def word_ok_def)
  ultimately show ?thesis using assms
    by (cases m; cases start) (simp_all add: parseWorkerCommand_def worker_words_def)
qed

text \<open>
  C38: The commands can be written as documented: every command that is typed at all, with
  arguments its syntax allows, is read back exactly from its documented text, the close
  confirmation with its code and the worker command with its options included. A text that
  does not begin with the word /swarm is no command, and one that does always is one.
\<close>
theorem documented_commands_parse_back:
  "(documented c \<longrightarrow> parseCommand (command_text c) = Some c)
   \<and> (parseCommand s = None \<longleftrightarrow>
        \<not> (\<exists>rest. lower (take 6 (js_trim s)) = units ''/swarm'' \<and> drop 6 (js_trim s) = rest \<and> (rest = [] \<or> space_unit (hd rest))))"
proof (intro conjI impI)
  show "parseCommand s = None \<longleftrightarrow>
        \<not> (\<exists>rest. lower (take 6 (js_trim s)) = units ''/swarm'' \<and> drop 6 (js_trim s) = rest \<and> (rest = [] \<or> space_unit (hd rest)))"
    by (auto simp: parseCommand_def Let_def split_beta)
  assume doc: "documented c"
  have nil: "trimmed []" by (simp add: trimmed_def)
  note parse = parse_swarm_text [OF _ nil] parse_swarm_text parse_action_def no_argument_def with_argument_def or_null_def argument_ok_def nil
  show "parseCommand (command_text c) = Some c"
  proof (cases c)
    case (Cmd_new t k)
    have "list_all word_ok (js_words (opt_or t []) @ [units ''--agent'', kind_text k])"
      using doc Cmd_new by (cases t) (simp_all add: plain_token_word js_words.simps [of "[]"])
    with join_spaces_trimmed have "trimmed (join_spaces (js_words (opt_or t []) @ [units ''--agent'', kind_text k]))" by blast
    with parse_new_text [of t k] doc Cmd_new show ?thesis by (simp add: parse)
  next
    case (Cmd_worker_create name k m start)
    have "list_all word_ok (worker_words name k m start)"
      using doc Cmd_worker_create by (auto simp: worker_words_def plain_token_word split: option.splits)
    with join_spaces_trimmed have "trimmed (join_spaces (worker_words name k m start))" by blast
    with parse_worker_text [of name k m start] doc Cmd_worker_create show ?thesis by (simp add: parse)
  next
    case (Cmd_pane_close_confirm code)
    then have words: "list_all word_ok [units ''confirm'', code]" using doc by simp
    with join_spaces_trimmed have "trimmed (join_spaces [units ''confirm'', code])" "join_spaces [units ''confirm'', code] \<noteq> []" by blast+
    with Cmd_pane_close_confirm js_words_join [OF words] show ?thesis
      by (simp add: parse confirm_code_def del: join_spaces.simps)
  next
    case (Cmd_attach space pane)
    let ?ws = "(case space of None \<Rightarrow> [] | Some w \<Rightarrow> [w]) @ [pane]"
    have words: "list_all word_ok ?ws" using doc Cmd_attach by (cases space) simp_all
    with join_spaces_trimmed have "trimmed (join_spaces ?ws)" by blast
    with Cmd_attach js_words_join [OF words] show ?thesis by (cases space) (simp_all add: parse del: join_spaces.simps)
  next
    case (Cmd_model n)
    with doc show ?thesis by (cases n) (simp_all add: parse)
  next
    case (Cmd_reset n)
    with doc show ?thesis by (cases n) (simp_all add: parse)
  next
    case (Cmd_sessions n)
    with doc show ?thesis by (cases n) (simp_all add: parse)
  qed (use doc in \<open>simp_all add: parse\<close>)
qed

theorem documented_commands_parse_back_witness:
  "parseCommand (command_text (Cmd_worker_create (units ''w1'') Agent_codex (Some (units ''m'')) True))
     = Some (Cmd_worker_create (units ''w1'') Agent_codex (Some (units ''m'')) True)"
proof -
  have "documented (Cmd_worker_create (units ''w1'') Agent_codex (Some (units ''m'')) True)"
    by (simp add: plain_token_def word_ok_def is_option_def units_def space_unit_def)
  with documented_commands_parse_back show ?thesis by blast
qed

end
