(* ===== verification/Answer_Segments.thy ===== *)
theory Answer_Segments
  imports Worker_Main
begin

text \<open>
  The segments an answer is cut into by the messages people send while it runs: the pure
  part (\<^verbatim>\<open>src/src/domain/answer-segment.ts\<close>) and the store that keeps the segments and pages of
  an aggregate (\<^verbatim>\<open>src/src/store/sqlite/answer-segment-store.ts\<close>). A state holds the rows of one
  aggregate, in the order of their index. Positions compare ids with \<^verbatim>\<open>localeCompare\<close>, a
  comparator that is a parameter. The transport of a reserved reply is a parameter of the
  store; the model lists the replies it hands over, each by its idempotency key. Element
  ids, timestamps and the page fields of the run card, which the operation stages and then
  puts back, are left out.
\<close>

subsection \<open>Segments and boundaries\<close>

datatype aggregate_kind = Primary_run | Worker_turn_aggregate

record AnswerSegment =
  as_segmentIndex :: nat
  as_sourceHumanItemId :: "ident option"
  as_requestText :: js_text
  as_startAfterSequence :: int
  as_endBeforeSequence :: "int option"
  as_endBeforeItemId :: "ident option"
  as_open :: bool

record AnswerSegmentBoundary =
  sb_sourceHumanItemId :: ident
  sb_requestText :: js_text
  sb_sequence :: int

definition position_order :: "string comparator \<Rightarrow> (int \<times> string) comparator" where
  "position_order collate = prod_lex default collate"

definition tupleLess :: "string comparator \<Rightarrow> int \<times> string \<Rightarrow> int \<times> string \<Rightarrow> bool" where
  "tupleLess collate left right \<longleftrightarrow> fst left < fst right \<or> fst left = fst right \<and> compare collate (snd left) (snd right) = Less"

definition tupleGreater :: "string comparator \<Rightarrow> int \<times> string \<Rightarrow> int \<times> string \<Rightarrow> bool" where
  "tupleGreater collate left right \<longleftrightarrow> fst left > fst right \<or> fst left = fst right \<and> compare collate (snd left) (snd right) = Greater"

definition human_boundary :: "ident set \<Rightarrow> int \<Rightarrow> AnswerTimelineItem \<Rightarrow> AnswerSegmentBoundary option" where
  "human_boundary materializedSourceIds activationSequence item = (case ti_kind item of
       Human_message markdown \<Rightarrow>
         if ti_sequence item \<le> activationSequence \<or> ti_id item \<in> materializedSourceIds then None
         else Some \<lparr>sb_sourceHumanItemId = ti_id item, sb_requestText = markdown, sb_sequence = ti_sequence item\<rparr>
     | _ \<Rightarrow> None)"

definition boundary_position :: "AnswerSegmentBoundary \<Rightarrow> int \<times> string" where
  "boundary_position b = (sb_sequence b, sb_sourceHumanItemId b)"

definition findUnmaterializedHumanBoundaries :: "string comparator \<Rightarrow> AnswerTimelineItem list \<Rightarrow> ident set \<Rightarrow> int \<Rightarrow> AnswerSegmentBoundary list" where
  "findUnmaterializedHumanBoundaries collate items materializedSourceIds activationSequence =
     Sorting_Algorithms.sort (key boundary_position (position_order collate))
       (List.map_filter (human_boundary materializedSourceIds activationSequence) items)"

definition is_human :: "AnswerTimelineItem \<Rightarrow> bool" where
  "is_human item \<longleftrightarrow> (case ti_kind item of Human_message _ \<Rightarrow> True | _ \<Rightarrow> False)"

definition item_position :: "AnswerTimelineItem \<Rightarrow> int \<times> string" where
  "item_position item = (ti_sequence item, ti_id item)"

definition after_start :: "string comparator \<Rightarrow> AnswerSegment \<Rightarrow> AnswerTimelineItem \<Rightarrow> bool" where
  "after_start collate segment item \<longleftrightarrow>
     (if opt_or (as_sourceHumanItemId segment) [] \<noteq> []
      then tupleGreater collate (item_position item) (as_startAfterSequence segment, opt_or (as_sourceHumanItemId segment) [])
      else as_startAfterSequence segment < ti_sequence item)"

definition before_end :: "string comparator \<Rightarrow> AnswerSegment \<Rightarrow> AnswerTimelineItem \<Rightarrow> bool" where
  "before_end collate segment item \<longleftrightarrow> (case as_endBeforeSequence segment of
       None \<Rightarrow> True
     | Some sequence \<Rightarrow> tupleLess collate (item_position item) (sequence, opt_or (as_endBeforeItemId segment) []))"

definition itemsForAnswerSegment :: "string comparator \<Rightarrow> AnswerTimelineItem list \<Rightarrow> AnswerSegment \<Rightarrow> AnswerTimelineItem list" where
  "itemsForAnswerSegment collate items segment =
     filter (\<lambda>item. \<not> is_human item \<and> after_start collate segment item \<and> before_end collate segment item) items"

subsection \<open>The store\<close>

datatype page_state = Page_creating | Page_active | Page_frozen | Page_finished

record answer_page =
  ap_pageIndex :: nat
  ap_segmentIndex :: nat
  ap_sourceStart :: int
  ap_state :: page_state

record segment_rows =
  sr_segments :: "AnswerSegment list"
  sr_pages :: "answer_page list"

text \<open>
  The row of the aggregate: a worker turn's card, or a run card with the binding it is joined
  with. A run card counts only while its binding has the card's generation, is active and
  attached, and has a pane.
\<close>

record run_binding =
  rb_generation :: int
  rb_active :: bool
  rb_lifecycle_active :: bool
  rb_attached :: bool
  rb_paneId :: "ident option"

record stored_aggregate =
  sa_kind :: aggregate_kind
  sa_id :: ident
  sa_generation :: int
  sa_binding :: "run_binding option"
  sa_requestText :: js_text
  sa_messageId :: "ident option"

record 'c reserve_input =
  rv_expectedGeneration :: int
  rv_boundaries :: "AnswerSegmentBoundary list"
  rv_nextCards :: "'c list"

datatype 'c segment_reply = Final_fold string | Create_card string 'c
datatype segment_error = One_card_per_boundary

definition ensureSegmentZero :: "js_text \<Rightarrow> segment_rows \<Rightarrow> segment_rows" where
  "ensureSegmentZero requestText s =
     (if list_ex (\<lambda>g. as_segmentIndex g = 0) (sr_segments s) then s
      else s\<lparr>sr_segments := \<lparr>as_segmentIndex = 0, as_sourceHumanItemId = None, as_requestText = requestText, as_startAfterSequence = 0,
               as_endBeforeSequence = None, as_endBeforeItemId = None, as_open = True\<rparr> # sr_segments s\<rparr>)"

definition maxPageIndex :: "segment_rows \<Rightarrow> nat" where
  "maxPageIndex s = fold (\<lambda>p m. max (ap_pageIndex p) m) (sr_pages s) 0"

definition current_page_state :: "segment_rows \<Rightarrow> page_state" where
  "current_page_state s = (case find (\<lambda>p. ap_pageIndex p = maxPageIndex s) (sr_pages s) of
       None \<Rightarrow> Page_creating
     | Some p \<Rightarrow> ap_state p)"

definition createCardKey :: "aggregate_kind \<Rightarrow> ident \<Rightarrow> nat \<Rightarrow> string" where
  "createCardKey kind aggregateId pageIndex =
     (case kind of Primary_run \<Rightarrow> ''answer-segment:create:'' | Worker_turn_aggregate \<Rightarrow> ''worker-answer-segment:create:'')
       @ aggregateId @ '':'' @ decimal_text pageIndex"

definition finalFoldKey :: "aggregate_kind \<Rightarrow> ident \<Rightarrow> nat \<Rightarrow> ident \<Rightarrow> string" where
  "finalFoldKey kind aggregateId pageIndex messageId =
     (case kind of Primary_run \<Rightarrow> ''answer-final-fold:'' | Worker_turn_aggregate \<Rightarrow> ''worker-answer-segment:close:'')
       @ aggregateId @ '':'' @ decimal_text pageIndex @ '':'' @ messageId"

definition close_segment :: "AnswerSegmentBoundary \<Rightarrow> AnswerSegment \<Rightarrow> AnswerSegment" where
  "close_segment b g = g\<lparr>as_endBeforeSequence := Some (sb_sequence b), as_endBeforeItemId := Some (sb_sourceHumanItemId b), as_open := False\<rparr>"

definition freezeCurrentPageIfNeeded :: "nat \<Rightarrow> segment_rows \<Rightarrow> segment_rows" where
  "freezeCurrentPageIfNeeded pageIndex s =
     (if current_page_state s \<noteq> Page_active then s
      else s\<lparr>sr_pages := map (\<lambda>p. if ap_pageIndex p = pageIndex \<and> ap_state p = Page_active then p\<lparr>ap_state := Page_frozen\<rparr> else p) (sr_pages s)\<rparr>)"

fun new_segments :: "nat \<Rightarrow> AnswerSegmentBoundary list \<Rightarrow> AnswerSegment list" where
  "new_segments k [] = []"
| "new_segments k (b # bs) =
     \<lparr>as_segmentIndex = k, as_sourceHumanItemId = Some (sb_sourceHumanItemId b), as_requestText = sb_requestText b,
      as_startAfterSequence = sb_sequence b, as_endBeforeSequence = map_option sb_sequence (list_head bs),
      as_endBeforeItemId = map_option sb_sourceHumanItemId (list_head bs), as_open = (bs = [])\<rparr> # new_segments (k + 1) bs"

fun new_pages :: "nat \<Rightarrow> nat \<Rightarrow> AnswerSegmentBoundary list \<Rightarrow> answer_page list" where
  "new_pages p k [] = []"
| "new_pages p k (b # bs) = \<lparr>ap_pageIndex = p, ap_segmentIndex = k, ap_sourceStart = sb_sequence b, ap_state = Page_creating\<rparr> # new_pages (p + 1) (k + 1) bs"

fun create_replies :: "aggregate_kind \<Rightarrow> ident \<Rightarrow> nat \<Rightarrow> 'c list \<Rightarrow> 'c segment_reply list" where
  "create_replies kind aggregateId p [] = []"
| "create_replies kind aggregateId p (c # cs) = Create_card (createCardKey kind aggregateId p) c # create_replies kind aggregateId (p + 1) cs"

definition materialized_ids :: "segment_rows \<Rightarrow> ident set" where
  "materialized_ids s = {i. Some i \<in> as_sourceHumanItemId ` set (sr_segments s)}"

definition live_binding :: "stored_aggregate \<Rightarrow> bool" where
  "live_binding a = (case sa_binding a of
       None \<Rightarrow> False
     | Some b \<Rightarrow> rb_generation b = sa_generation a \<and> rb_active b \<and> rb_lifecycle_active b \<and> rb_attached b \<and> rb_paneId b \<noteq> None)"

definition loadAggregate :: "int \<Rightarrow> stored_aggregate option \<Rightarrow> stored_aggregate option" where
  "loadAggregate expectedGeneration row = (case row of
       None \<Rightarrow> None
     | Some a \<Rightarrow>
         if sa_kind a = Primary_run \<and> \<not> live_binding a then None
         else if sa_generation a \<noteq> expectedGeneration then None else Some a)"

definition reserve_pending :: "stored_aggregate \<Rightarrow> (AnswerSegmentBoundary \<times> 'c) list \<Rightarrow> segment_rows \<Rightarrow> nat \<times> 'c segment_reply list \<times> segment_rows" where
  "reserve_pending a pending s =
     (let boundaries = map fst pending; openSegment = last (sr_segments s); page = maxPageIndex s; index = as_segmentIndex openSegment;
          closed = butlast (sr_segments s) @ [close_segment (hd boundaries) openSegment];
          fold_replies = (case sa_messageId a of
              Some m \<Rightarrow> if current_page_state s = Page_active then [Final_fold (finalFoldKey (sa_kind a) (sa_id a) page m)] else []
            | None \<Rightarrow> []);
          frozen = freezeCurrentPageIfNeeded page s
      in (length pending, fold_replies @ create_replies (sa_kind a) (sa_id a) (page + 1) (map snd pending),
          s\<lparr>sr_segments := closed @ new_segments (index + 1) boundaries,
            sr_pages := sr_pages frozen @ new_pages (page + 1) (index + 1) boundaries\<rparr>))"

definition reserveHumanMessageAnswerSegments :: "'c reserve_input \<Rightarrow> stored_aggregate option \<Rightarrow> segment_rows
    \<Rightarrow> (segment_error, nat \<times> 'c segment_reply list \<times> segment_rows) result" where
  "reserveHumanMessageAnswerSegments i row s =
     (if rv_boundaries i = [] then Inr (0, [], s)
      else if length (rv_boundaries i) \<noteq> length (rv_nextCards i) then Inl One_card_per_boundary
      else case loadAggregate (rv_expectedGeneration i) row of
             None \<Rightarrow> Inr (0, [], s)
           | Some a \<Rightarrow>
               let s0 = ensureSegmentZero (sa_requestText a) s;
                   pending = filter (\<lambda>(b, c). sb_sourceHumanItemId b \<notin> materialized_ids s0) (zip (rv_boundaries i) (rv_nextCards i))
               in if pending = [] then Inr (0, [], s0) else Inr (reserve_pending a pending s0))"

lemma loadAggregate_Some:
  "loadAggregate e row = Some a \<longleftrightarrow> row = Some a \<and> (sa_kind a = Primary_run \<longrightarrow> live_binding a) \<and> sa_generation a = e"
  by (auto simp: loadAggregate_def split: option.splits)

subsection \<open>The segments form a chain\<close>

definition continues :: "AnswerSegment \<Rightarrow> AnswerSegment \<Rightarrow> bool" where
  "continues g h \<longleftrightarrow> \<not> as_open g \<and> as_segmentIndex h = as_segmentIndex g + 1 \<and> as_sourceHumanItemId h \<noteq> None
     \<and> as_endBeforeSequence g = Some (as_startAfterSequence h) \<and> as_endBeforeItemId g = as_sourceHumanItemId h"

fun linked :: "AnswerSegment list \<Rightarrow> bool" where
  "linked [] = True"
| "linked [g] = (as_open g \<and> as_endBeforeSequence g = None \<and> as_endBeforeItemId g = None)"
| "linked (g # h # gs) = (continues g h \<and> linked (h # gs))"

definition segment_chain :: "AnswerSegment list \<Rightarrow> bool" where
  "segment_chain gs \<longleftrightarrow> linked gs \<and> (\<forall>g. list_head gs = Some g \<longrightarrow> as_segmentIndex g = 0 \<and> as_sourceHumanItemId g = None)"

lemma linked_new_segments: "linked (new_segments k bs)"
proof (induction bs arbitrary: k)
  case (Cons b bs)
  then show ?case by (cases bs) (simp_all add: continues_def)
qed simp

lemma linked_append:
  assumes "linked (gs @ [g])" and "continues g' h" and "linked (h # hs)"
    and "as_segmentIndex g' = as_segmentIndex g" "as_sourceHumanItemId g' = as_sourceHumanItemId g"
      "as_startAfterSequence g' = as_startAfterSequence g"
  shows "linked (gs @ g' # h # hs)"
  using assms(1)
proof (induction gs)
  case Nil
  then show ?case using assms(2,3) by simp
next
  case (Cons x xs)
  show ?case
  proof (cases xs)
    case Nil
    with Cons.prems assms(2-6) show ?thesis by (simp add: continues_def)
  next
    case (Cons y ys)
    with Cons.prems Cons.IH show ?thesis by simp
  qed
qed

lemma close_segment_fields [simp]:
  "as_segmentIndex (close_segment b g) = as_segmentIndex g" "as_sourceHumanItemId (close_segment b g) = as_sourceHumanItemId g"
  "as_startAfterSequence (close_segment b g) = as_startAfterSequence g" "\<not> as_open (close_segment b g)"
  "as_endBeforeSequence (close_segment b g) = Some (sb_sequence b)" "as_endBeforeItemId (close_segment b g) = Some (sb_sourceHumanItemId b)"
  by (simp_all add: close_segment_def)

lemma segment_chain_extend:
  assumes "segment_chain (gs @ [g])"
  shows "segment_chain (gs @ close_segment b g # new_segments (as_segmentIndex g + 1) (b # bs))"
proof -
  obtain h hs where new: "new_segments (as_segmentIndex g + 1) (b # bs) = h # hs" by simp
  from new have h: "as_segmentIndex h = as_segmentIndex g + 1" "as_sourceHumanItemId h = Some (sb_sourceHumanItemId b)"
    "as_startAfterSequence h = sb_sequence b" by auto
  have next_link: "continues (close_segment b g) h" using h by (simp add: continues_def)
  have rest: "linked (h # hs)" using linked_new_segments [of "as_segmentIndex g + 1" "b # bs"] unfolding new .
  have old: "linked (gs @ [g])" using assms by (simp add: segment_chain_def)
  have "linked (gs @ close_segment b g # h # hs)"
    using linked_append [OF old next_link rest close_segment_fields(1,2,3)] .
  moreover have "as_segmentIndex x = 0 \<and> as_sourceHumanItemId x = None" if "list_head (gs @ close_segment b g # h # hs) = Some x" for x
  proof (cases gs)
    case Nil
    with that assms show ?thesis by (auto simp: segment_chain_def)
  next
    case (Cons y ys)
    with that assms show ?thesis by (simp add: segment_chain_def)
  qed
  ultimately show ?thesis unfolding new segment_chain_def by blast
qed

lemma ensure_zero_chain:
  assumes "segment_chain (sr_segments s)"
  shows "segment_chain (sr_segments (ensureSegmentZero txt s)) \<and> sr_segments (ensureSegmentZero txt s) \<noteq> []"
proof (cases "sr_segments s")
  case Nil
  then show ?thesis by (simp add: ensureSegmentZero_def segment_chain_def)
next
  case (Cons g gs)
  with assms have "as_segmentIndex g = 0" by (simp add: segment_chain_def)
  with assms Cons show ?thesis by (simp add: ensureSegmentZero_def)
qed

lemma new_segments_sources: "map as_sourceHumanItemId (new_segments k bs) = map (\<lambda>b. Some (sb_sourceHumanItemId b)) bs"
  by (induction bs arbitrary: k) simp_all

lemma reserve_pending_chain:
  assumes "segment_chain (sr_segments s)" and "sr_segments s \<noteq> []" and "pending \<noteq> []" and "reserve_pending a pending s = (n, replies, s')"
  shows "segment_chain (sr_segments s') \<and> n = length pending
    \<and> map as_sourceHumanItemId (sr_segments s') = map as_sourceHumanItemId (sr_segments s) @ map (\<lambda>p. Some (sb_sourceHumanItemId (fst p))) pending"
proof -
  obtain gs g where gs: "sr_segments s = gs @ [g]" using assms(2) by (metis append_butlast_last_id)
  obtain b bs where bs: "map fst pending = b # bs" using assms(3) by (cases pending) simp_all
  from assms(4) have s': "sr_segments s' = gs @ close_segment b g # new_segments (as_segmentIndex g + 1) (b # bs)" and n: "n = length pending"
    by (auto simp: reserve_pending_def Let_def gs bs)
  have "map (\<lambda>p. Some (sb_sourceHumanItemId (fst p))) pending = map (\<lambda>b. Some (sb_sourceHumanItemId b)) (b # bs)"
    by (simp add: bs [symmetric])
  with segment_chain_extend assms(1) n show ?thesis
    unfolding s' gs map_append list.map(2) new_segments_sources by simp
qed

fun is_create :: "'c segment_reply \<Rightarrow> bool" where
  "is_create (Create_card _ _) = True"
| "is_create (Final_fold _) = False"

lemma create_replies_length [simp]:
  "length (filter is_create (create_replies kind i p cs)) = length cs"
  by (induction cs arbitrary: p) simp_all

lemma reserve_pending_replies:
  assumes "reserve_pending a pending s = (n, replies, s')"
  shows "length (filter is_create replies) = length pending"
proof -
  from assms obtain fold_replies where "replies = fold_replies @ create_replies (sa_kind a) (sa_id a) (maxPageIndex s + 1) (map snd pending)"
    "fold_replies = [] \<or> (\<exists>k. fold_replies = [Final_fold k])"
    by (auto simp: reserve_pending_def Let_def split: option.splits if_splits)
  then show ?thesis by auto
qed

subsection \<open>The segments partition the timeline\<close>

definition start_position :: "AnswerSegment \<Rightarrow> int \<times> string" where
  "start_position g = (as_startAfterSequence g, opt_or (as_sourceHumanItemId g) [])"

text \<open>The later of two segments begins at a later position.\<close>

definition begins_before :: "string comparator \<Rightarrow> AnswerSegment \<Rightarrow> AnswerSegment \<Rightarrow> bool" where
  "begins_before collate g h \<longleftrightarrow>
     (if opt_or (as_sourceHumanItemId g) [] \<noteq> [] then tupleLess collate (start_position g) (start_position h)
      else as_startAfterSequence g < as_startAfterSequence h)"

fun increasing :: "string comparator \<Rightarrow> AnswerSegment list \<Rightarrow> bool" where
  "increasing collate (g # h # gs) = (begins_before collate g h \<and> increasing collate (h # gs))"
| "increasing collate _ = True"

lemma position_order_less: "compare (position_order collate) p q = Less \<longleftrightarrow> tupleLess collate p q"
  by (cases p; cases q) (auto simp: position_order_def compare_prod_lex_apply tupleLess_def split: comp.splits)

lemma position_order_greater: "compare (position_order collate) p q = Greater \<longleftrightarrow> tupleGreater collate p q"
  by (cases p; cases q) (auto simp: position_order_def compare_prod_lex_apply tupleGreater_def split: comp.splits)

lemma after_start_previous:
  assumes "begins_before collate g h" and "opt_or (as_sourceHumanItemId h) [] \<noteq> []" and "after_start collate h item"
  shows "after_start collate g item"
proof (cases "opt_or (as_sourceHumanItemId g) [] \<noteq> []")
  case True
  with assms have "tupleGreater collate (item_position item) (start_position h)" "tupleLess collate (start_position g) (start_position h)"
    by (auto simp: after_start_def begins_before_def start_position_def)
  then have "compare (position_order collate) (item_position item) (start_position h) = Greater"
    "compare (position_order collate) (start_position h) (start_position g) = Greater"
    unfolding position_order_greater [symmetric] position_order_less [symmetric] by (simp_all add: compare.greater_iff_sym_less)
  then have "compare (position_order collate) (item_position item) (start_position g) = Greater" by (rule compare.trans_greater)
  with True show ?thesis by (simp add: after_start_def position_order_greater start_position_def)
next
  case False
  with assms show ?thesis by (auto simp: after_start_def begins_before_def tupleGreater_def item_position_def)
qed

definition in_segment :: "string comparator \<Rightarrow> AnswerTimelineItem \<Rightarrow> AnswerSegment \<Rightarrow> bool" where
  "in_segment collate item g \<longleftrightarrow> after_start collate g item \<and> before_end collate g item"

lemma before_end_iff:
  assumes "continues g h" and "opt_or (as_sourceHumanItemId h) [] \<noteq> []"
    and "compare (position_order collate) (item_position item) (start_position h) \<noteq> Equiv"
  shows "before_end collate g item \<longleftrightarrow> \<not> after_start collate h item"
proof -
  have "before_end collate g item \<longleftrightarrow> compare (position_order collate) (item_position item) (start_position h) = Less"
    using assms(1) by (simp add: before_end_def continues_def position_order_less start_position_def)
  moreover have "after_start collate h item \<longleftrightarrow> compare (position_order collate) (item_position item) (start_position h) = Greater"
    using assms(2) by (simp add: after_start_def position_order_greater start_position_def)
  ultimately show ?thesis using assms(3) by (cases "compare (position_order collate) (item_position item) (start_position h)") simp_all
qed

lemma segments_hold_once:
  assumes "linked (g # gs)" and "increasing collate (g # gs)"
    and "\<forall>h \<in> set gs. opt_or (as_sourceHumanItemId h) [] \<noteq> [] \<and> compare (position_order collate) (item_position item) (start_position h) \<noteq> Equiv"
  shows "length (filter (in_segment collate item) (g # gs)) = (if after_start collate g item then 1 else 0)"
  using assms
proof (induction gs arbitrary: g)
  case Nil
  then show ?case by (simp add: in_segment_def before_end_def)
next
  case (Cons h gs)
  then have step: "continues g h" "begins_before collate g h" "opt_or (as_sourceHumanItemId h) [] \<noteq> []"
    "compare (position_order collate) (item_position item) (start_position h) \<noteq> Equiv" by auto
  have "length (filter (in_segment collate item) (h # gs)) = (if after_start collate h item then 1 else 0)"
    using Cons.prems by (intro Cons.IH) auto
  with before_end_iff [OF step(1,3,4)] after_start_previous [OF step(2,3)] show ?case
    by (auto simp: in_segment_def [of collate item g])
qed

subsection \<open>Properties\<close>

lemma reserve_some:
  fixes i :: "'c reserve_input"
  defines "pending s0 \<equiv> filter (\<lambda>(b, c). sb_sourceHumanItemId b \<notin> materialized_ids s0) (zip (rv_boundaries i) (rv_nextCards i))"
  assumes chain0: "segment_chain (sr_segments s0)" "sr_segments s0 \<noteq> []"
    and load: "loadAggregate (rv_expectedGeneration i) row = Some a" and some: "pending s0 \<noteq> []"
    and reserve: "reserve_pending a (pending s0) s0 = (created, replies, s')"
    and cards: "length (rv_boundaries i) = length (rv_nextCards i)" "rv_boundaries i \<noteq> []"
  shows "segment_chain (sr_segments s') \<and> created = length (filter is_create replies)
    \<and> (\<exists>new. length new = created \<and> set new \<subseteq> sb_sourceHumanItemId ` set (rv_boundaries i)
          \<and> map as_sourceHumanItemId (sr_segments s') = map as_sourceHumanItemId (sr_segments s0) @ map Some new)
    \<and> sb_sourceHumanItemId ` set (rv_boundaries i) \<subseteq> materialized_ids s'
    \<and> reserveHumanMessageAnswerSegments i row s' = Inr (0, [], s')"
proof -
  from reserve_pending_chain [OF chain0 some reserve] have chain': "segment_chain (sr_segments s')" and created: "created = length (pending s0)"
    and sources: "map as_sourceHumanItemId (sr_segments s') = map as_sourceHumanItemId (sr_segments s0)
      @ map (\<lambda>p. Some (sb_sourceHumanItemId (fst p))) (pending s0)" by blast+
  define new where "new = map (\<lambda>p. sb_sourceHumanItemId (fst p)) (pending s0)"
  have sources': "map as_sourceHumanItemId (sr_segments s') = map as_sourceHumanItemId (sr_segments s0) @ map Some new"
    unfolding sources new_def by (simp add: comp_def)
  have subset: "set new \<subseteq> sb_sourceHumanItemId ` set (rv_boundaries i)" unfolding new_def pending_def by (force dest: set_zip_leftD)
  have materialized: "materialized_ids s' = materialized_ids s0 \<union> set new"
  proof -
    have "as_sourceHumanItemId ` set (sr_segments s') = as_sourceHumanItemId ` set (sr_segments s0) \<union> Some ` set new"
      using arg_cong [OF sources', of set] by simp
    then show ?thesis by (auto simp: materialized_ids_def)
  qed
  have covered: "sb_sourceHumanItemId ` set (rv_boundaries i) \<subseteq> materialized_ids s'"
  proof
    fix x
    assume "x \<in> sb_sourceHumanItemId ` set (rv_boundaries i)"
    then obtain b where b: "b \<in> set (rv_boundaries i)" "x = sb_sourceHumanItemId b" by blast
    with cards(1) obtain c where "(b, c) \<in> set (zip (rv_boundaries i) (rv_nextCards i))" by (metis in_set_impl_in_set_zip1)
    then have "x \<in> materialized_ids s0 \<or> x \<in> set new" unfolding new_def b(2) pending_def by (force simp: image_iff)
    then show "x \<in> materialized_ids s'" by (simp add: materialized)
  qed
  have "list_ex (\<lambda>g. as_segmentIndex g = 0) (sr_segments s')"
  proof -
    obtain g gs where "sr_segments s' = g # gs" using sources' chain0(2) by (cases "sr_segments s'") auto
    with chain' show ?thesis by (simp add: segment_chain_def)
  qed
  then have "ensureSegmentZero (sa_requestText a) s' = s'" by (simp add: ensureSegmentZero_def)
  moreover have "filter (\<lambda>(b, c). sb_sourceHumanItemId b \<notin> materialized_ids s') (zip (rv_boundaries i) (rv_nextCards i)) = []"
    using covered by (auto simp: filter_empty_conv dest: set_zip_leftD)
  ultimately have "reserveHumanMessageAnswerSegments i row s' = Inr (0, [], s')"
    using load cards by (simp add: reserveHumanMessageAnswerSegments_def Let_def)
  moreover have "length new = created" by (simp add: new_def created)
  ultimately show ?thesis using chain' sources' subset covered reserve_pending_replies [OF reserve] created by auto
qed


definition sample_boundary :: "ident \<Rightarrow> int \<Rightarrow> AnswerSegmentBoundary" where
  "sample_boundary i n = \<lparr>sb_sourceHumanItemId = i, sb_requestText = [], sb_sequence = n\<rparr>"

definition sample_reservation :: "unit reserve_input" where
  "sample_reservation = \<lparr>rv_expectedGeneration = 1, rv_boundaries = [sample_boundary ''h1'' 5, sample_boundary ''h2'' 9], rv_nextCards = [(), ()]\<rparr>"

definition sample_aggregate :: stored_aggregate where
  "sample_aggregate = \<lparr>sa_kind = Primary_run, sa_id = ''p'', sa_generation = 1,
     sa_binding = Some \<lparr>rb_generation = 1, rb_active = True, rb_lifecycle_active = True, rb_attached = True, rb_paneId = Some ''pane''\<rparr>,
     sa_requestText = [], sa_messageId = None\<rparr>"


text \<open>
  C37: The segments of an answer partition its timeline: when the segments form a chain and
  begin at increasing positions, every item that is not a message of a person, that comes
  after the beginning of the first segment and does not stand exactly at a boundary, is
  shown in exactly one segment; a message of a person is shown in none.
\<close>
theorem answer_segments_partition_the_timeline:
  assumes "segment_chain (g # gs)" and "increasing collate (g # gs)" and "item \<in> set items"
    and "\<forall>h \<in> set gs. opt_or (as_sourceHumanItemId h) [] \<noteq> [] \<and> compare (position_order collate) (item_position item) (start_position h) \<noteq> Equiv"
  shows "length (filter (\<lambda>h. item \<in> set (itemsForAnswerSegment collate items h)) (g # gs))
    = (if \<not> is_human item \<and> as_startAfterSequence g < ti_sequence item then 1 else 0)"
proof -
  have "linked (g # gs)" and first: "as_sourceHumanItemId g = None" using assms(1) by (simp_all add: segment_chain_def)
  from segments_hold_once [OF this(1) assms(2,4)] first
  have once: "length (filter (in_segment collate item) (g # gs)) = (if as_startAfterSequence g < ti_sequence item then 1 else 0)"
    by (simp add: after_start_def)
  have member: "item \<in> set (itemsForAnswerSegment collate items h) \<longleftrightarrow> \<not> is_human item \<and> in_segment collate item h" for h
    using assms(3) by (simp add: itemsForAnswerSegment_def in_segment_def)
  show ?thesis unfolding member using once by (cases "is_human item") simp_all
qed

definition segment_at :: "nat \<Rightarrow> ident option \<Rightarrow> int \<Rightarrow> (int \<times> ident) option \<Rightarrow> AnswerSegment" where
  "segment_at k source start finish = \<lparr>as_segmentIndex = k, as_sourceHumanItemId = source, as_requestText = [], as_startAfterSequence = start,
     as_endBeforeSequence = map_option fst finish, as_endBeforeItemId = map_option snd finish, as_open = (finish = None)\<rparr>"

theorem answer_segments_partition_the_timeline_witness:
  "length (filter (\<lambda>h. sample_item ''x'' 7 (Agent_message []) \<in> set (itemsForAnswerSegment default [sample_item ''x'' 7 (Agent_message [])] h))
     [segment_at 0 None 0 (Some (5, ''h'')), segment_at 1 (Some ''h'') 5 None]) = 1"
proof -
  let ?item = "sample_item ''x'' 7 (Agent_message [])"
  have "segment_chain [segment_at 0 None 0 (Some (5, ''h'')), segment_at 1 (Some ''h'') 5 None]"
    by (simp add: segment_chain_def segment_at_def continues_def)
  moreover have "increasing default [segment_at 0 None 0 (Some (5, ''h'')), segment_at 1 (Some ''h'') 5 None]"
    by (simp add: begins_before_def segment_at_def)
  moreover have "compare (position_order (default :: string comparator)) (item_position ?item) (start_position (segment_at 1 (Some ''h'') 5 None)) = Greater"
    by (simp add: position_order_greater tupleGreater_def item_position_def start_position_def segment_at_def sample_item_def)
  ultimately show ?thesis
    using answer_segments_partition_the_timeline [of "segment_at 0 None 0 (Some (5, ''h''))" "[segment_at 1 (Some ''h'') 5 None]" default ?item "[?item]"]
    by (simp add: segment_at_def is_human_def sample_item_def)
qed

end
