(* ===== verification/Core_Identity.thy ===== *)
theory Core_Identity
  imports Submission_Intent Complex_Main
begin

text \<open>
  The events of Herdr Core and their semantic identity:
  \<^verbatim>\<open>src/src/domain/core-event-inbox.ts\<close>, \<^verbatim>\<open>store/sqlite/core-event-identity.ts\<close> and
  \<^verbatim>\<open>core-event-discriminators.ts\<close>. Two deliveries of an event are the same event when their
  hashes are, which cover what the event says and neither where it was read nor in which
  order its payload lists its fields. A payload is a JSON value; an object is the list of
  its entries in the order they were added, with distinct keys, and a number that is not
  finite is \<open>JNumber None\<close>. The payload schema (a third-party validator) and the hash of a
  canonical value (\<^verbatim>\<open>sha256\<close> of its text) are parameters.
\<close>

subsection \<open>Events\<close>

datatype Json = JNull | JBool bool | JNumber "rat option" | JString string | JArray "Json list" | JObject "(string \<times> Json) list"

record CoreEventEnvelope =
  ce_schemaVersion :: int
  ce_eventId :: ident
  ce_cursor :: string
  ce_sourceId :: ident
  ce_agentKind :: SubmissionIntentAgentKind
  ce_sessionId :: ident
  ce_turnId :: "ident option"
  ce_occurredAt :: string
  ce_payload :: Json

definition json_field :: "Json \<Rightarrow> string \<Rightarrow> Json option" where
  "json_field v k = (case v of JObject es \<Rightarrow> map_of es k | _ \<Rightarrow> None)"

definition string_field :: "Json \<Rightarrow> string \<Rightarrow> string option" where
  "string_field v k = (case json_field v k of Some (JString s) \<Rightarrow> Some s | _ \<Rightarrow> None)"

definition payload_type :: "Json \<Rightarrow> string option" where
  "payload_type v = string_field v ''type''"

definition isHumanMessagePayload :: "Json \<Rightarrow> bool" where
  "isHumanMessagePayload v \<longleftrightarrow> payload_type v = Some ''human_message''"

definition humanSubmissionId :: "Json \<Rightarrow> ident option" where
  "humanSubmissionId v =
     (if \<not> isHumanMessagePayload v then None
      else case string_field v ''submission_id'' of Some s \<Rightarrow> if s = [] then None else Some s | None \<Rightarrow> None)"

definition isSourceErrorPayload :: "Json \<Rightarrow> bool" where
  "isSourceErrorPayload v \<longleftrightarrow> payload_type v = Some ''source_error''"

definition isExactReplayProjectedPayload :: "Json \<Rightarrow> bool" where
  "isExactReplayProjectedPayload v \<longleftrightarrow> payload_type v = Some ''token_usage'' \<or> payload_type v = Some ''context_snapshot''"

subsection \<open>Discriminators\<close>

record CoreEventDiscriminators =
  cd_eventType :: "string option"
  cd_submissionId :: "string option"
  cd_channel :: "string option"
  cd_callId :: "string option"

definition coreEventDiscriminators :: "Json \<Rightarrow> CoreEventDiscriminators" where
  "coreEventDiscriminators payload = (case payload_type payload of
       None \<Rightarrow> \<lparr>cd_eventType = None, cd_submissionId = None, cd_channel = None, cd_callId = None\<rparr>
     | Some t \<Rightarrow>
        \<lparr>cd_eventType = Some t,
         cd_submissionId = (if t = ''human_message'' \<or> t = ''submission_receipt'' then string_field payload ''submission_id'' else None),
         cd_channel = (if t = ''message'' then string_field payload ''channel'' else None),
         cd_callId = (if t = ''tool_call'' \<or> t = ''tool_result'' then string_field payload ''call_id'' else None)\<rparr>)"

subsection \<open>Canonical values\<close>

text \<open>Entries with an insertion that keeps their keys in order.\<close>

fun canonicalJson :: "Json \<Rightarrow> Json option" and canonical_items :: "Json list \<Rightarrow> Json list option"
  and canonical_entries :: "(string \<times> Json) list \<Rightarrow> (string \<times> Json) list option" where
  "canonicalJson JNull = Some JNull"
| "canonicalJson (JBool b) = Some (JBool b)"
| "canonicalJson (JString s) = Some (JString s)"
| "canonicalJson (JNumber None) = None"
| "canonicalJson (JNumber (Some q)) = Some (JNumber (Some q))"
| "canonicalJson (JArray vs) = map_option JArray (canonical_items vs)"
| "canonicalJson (JObject es) = map_option (\<lambda>es'. JObject (sort_key fst es')) (canonical_entries es)"
| "canonical_items [] = Some []"
| "canonical_items (v # vs) = (case canonicalJson v of
      None \<Rightarrow> None
    | Some v' \<Rightarrow> map_option ((#) v') (canonical_items vs))"
| "canonical_entries [] = Some []"
| "canonical_entries ((k, v) # es) = (case canonicalJson v of
      None \<Rightarrow> None
    | Some v' \<Rightarrow> map_option ((#) (k, v')) (canonical_entries es))"

fun is_object :: "Json \<Rightarrow> bool" where
  "is_object (JObject _) = True"
| "is_object _ = False"

definition agent_kind_json :: "SubmissionIntentAgentKind \<Rightarrow> Json" where
  "agent_kind_json a = JString (case a of Traex \<Rightarrow> ''traex'' | Pi \<Rightarrow> ''pi'')"

definition identity_object :: "CoreEventEnvelope \<Rightarrow> Json \<Rightarrow> Json" where
  "identity_object e payload = JObject
     [(''schemaVersion'', JNumber (Some (of_int (ce_schemaVersion e)))), (''eventId'', JString (ce_eventId e)),
      (''agentKind'', agent_kind_json (ce_agentKind e)), (''sessionId'', JString (ce_sessionId e)),
      (''turnId'', (case ce_turnId e of None \<Rightarrow> JNull | Some t \<Rightarrow> JString t)),
      (''occurredAt'', (if payload_type (ce_payload e) = Some ''record_skipped'' then JNull else JString (ce_occurredAt e))),
      (''payload'', payload)]"

definition semanticIdentity :: "(Json \<Rightarrow> bool) \<Rightarrow> CoreEventEnvelope \<Rightarrow> Json option" where
  "semanticIdentity schema e =
     (if ce_schemaVersion e \<noteq> 1 \<or> ce_eventId e = [] \<or> ce_sessionId e = [] \<or> \<not> is_object (ce_payload e) \<or> \<not> schema (ce_payload e)
      then None
      else case canonicalJson (ce_payload e) of
        None \<Rightarrow> None
      | Some payload \<Rightarrow> canonicalJson (identity_object e payload))"

definition coreEventSemanticHash :: "(Json \<Rightarrow> bool) \<Rightarrow> (Json \<Rightarrow> string) \<Rightarrow> CoreEventEnvelope \<Rightarrow> string option" where
  "coreEventSemanticHash schema digest e = map_option digest (semanticIdentity schema e)"

definition sameCoreEventSemantics :: "(Json \<Rightarrow> bool) \<Rightarrow> (Json \<Rightarrow> string) \<Rightarrow> CoreEventEnvelope \<Rightarrow> CoreEventEnvelope \<Rightarrow> bool" where
  "sameCoreEventSemantics schema digest l r =
     (coreEventSemanticHash schema digest l \<noteq> None \<and> coreEventSemanticHash schema digest l = coreEventSemanticHash schema digest r)"

subsection \<open>Identity is independent of key order\<close>

text \<open>The values a payload can be: objects have distinct keys throughout.\<close>

fun json_ok :: "Json \<Rightarrow> bool" where
  "json_ok (JArray vs) = (\<forall>v \<in> set vs. json_ok v)"
| "json_ok (JObject es) = (distinct (map fst es) \<and> (\<forall>e \<in> set es. json_ok (snd e)))"
| "json_ok _ = True"

text \<open>Two values that differ at most in the order of the keys of their objects.\<close>

inductive same_json :: "Json \<Rightarrow> Json \<Rightarrow> bool" where
  same_atom: "\<not> is_object v \<Longrightarrow> (\<forall>vs. v \<noteq> JArray vs) \<Longrightarrow> same_json v v"
| same_array: "list_all2 same_json vs ws \<Longrightarrow> same_json (JArray vs) (JArray ws)"
| same_object: "fst ` set es = fst ` set fs \<Longrightarrow> (\<And>k v w. map_of es k = Some v \<Longrightarrow> map_of fs k = Some w \<Longrightarrow> same_json v w)
    \<Longrightarrow> same_json (JObject es) (JObject fs)"
  monos list_all2_mono

inductive_cases same_json_objectE: "same_json (JObject es) (JObject fs)"

lemma canonical_entries_keys: "canonical_entries es = Some es' \<Longrightarrow> map fst es' = map fst es"
  by (induction es arbitrary: es') (auto split: option.splits)

lemma canonical_entries_map_of:
  "canonical_entries es = Some es' \<Longrightarrow> map_of es' k = (case map_of es k of None \<Rightarrow> None | Some v \<Rightarrow> canonicalJson v)"
  by (induction es arbitrary: es') (auto split: option.splits)

lemma canonical_entries_None: "canonical_entries es = None \<longleftrightarrow> (\<exists>e \<in> set es. canonicalJson (snd e) = None)"
  by (induction es) (auto split: option.splits)

lemma canonical_items_eq: "canonical_items vs = those (map canonicalJson vs)"
  by (induction vs) (auto split: option.splits)

lemma sort_entries_unique:
  assumes "distinct (map fst es)" and "distinct (map fst fs)" and "map_of es = map_of fs"
  shows "sort_key fst es = sort_key fst (fs :: (string \<times> 'v) list)"
proof -
  have set: "set es = set fs" using assms by (metis map_of_eqI map_of_inject_set set_map)
  then have inj: "inj_on fst (set es \<union> set fs)" using assms(1) by (simp add: distinct_map)
  show ?thesis
    by (rule map_sorted_distinct_set_unique [where f = fst])
      (use inj assms set in \<open>simp_all add: distinct_map sort_key_simps\<close>)
qed

lemma sort_entries_map_of:
  assumes "sort_key fst es = sort_key fst fs" and "distinct (map fst es)"
  shows "map_of es = map_of (fs :: (string \<times> 'v) list)"
proof -
  have set: "set es = set fs" using assms(1) by (metis set_sort)
  have "distinct (sort_key fst fs)" using assms by (metis distinct_map distinct_sort)
  then have "distinct (map fst fs)" using assms(2) set by (simp add: distinct_map)
  with assms(2) set show ?thesis by (metis map_of_eqI map_of_SomeD map_of_is_SomeI weak_map_of_SomeI ext not_Some_eq)
qed

lemma canonical_object_same:
  assumes "canonicalJson (JObject es) = canonicalJson (JObject fs)" and "canonicalJson (JObject es) \<noteq> None"
    and "distinct (map fst es)" and "distinct (map fst fs)"
  shows "fst ` set es = fst ` set fs \<and> (\<forall>k v w. map_of es k = Some v \<longrightarrow> map_of fs k = Some w \<longrightarrow> canonicalJson v = canonicalJson w \<and> canonicalJson v \<noteq> None)"
proof -
  from assms(1,2) obtain es' fs' where c: "canonical_entries es = Some es'" "canonical_entries fs = Some fs'"
    and sorted: "sort_key fst es' = sort_key fst fs'" by auto
  have "distinct (map fst es')" using canonical_entries_keys [OF c(1)] assms(3) by simp
  from sort_entries_map_of [OF sorted this] have eq: "map_of es' = map_of fs'" .
  have "fst ` set es' = fst ` set fs'" using sorted by (metis set_sort)
  then have keys: "fst ` set es = fst ` set fs"
    using canonical_entries_keys [OF c(1)] canonical_entries_keys [OF c(2)] by (metis set_map)
  have "canonicalJson v = canonicalJson w \<and> canonicalJson v \<noteq> None" if "map_of es k = Some v" "map_of fs k = Some w" for k v w
  proof -
    have "canonicalJson v \<noteq> None" using c(1) canonical_entries_None [of es] map_of_SomeD [OF that(1)] by force
    with eq that canonical_entries_map_of [OF c(1), of k] canonical_entries_map_of [OF c(2), of k] show ?thesis by simp
  qed
  with keys show ?thesis by blast
qed

lemma same_object_canonical:
  assumes "fst ` set es = fst ` set fs" and "distinct (map fst es)" and "distinct (map fst fs)"
    and "\<And>k v w. map_of es k = Some v \<Longrightarrow> map_of fs k = Some w \<Longrightarrow> canonicalJson v = canonicalJson w"
  shows "canonicalJson (JObject es) = canonicalJson (JObject fs)"
proof -
  have dom: "map_of es k = None \<longleftrightarrow> map_of fs k = None" for k using assms(1) by (simp add: map_of_eq_None_iff)
  have none: "canonical_entries xs = None \<longleftrightarrow> (\<exists>k v. map_of xs k = Some v \<and> canonicalJson v = None)"
    if "distinct (map fst xs)" for xs
    unfolding canonical_entries_None by (force simp: map_of_eq_Some_iff [OF that])
  show ?thesis
  proof (cases "canonical_entries es")
    case None
    then obtain k v where k: "map_of es k = Some v" "canonicalJson v = None" using none assms(2) by blast
    then obtain w where "map_of fs k = Some w" using dom [of k] by (cases "map_of fs k") auto
    with k assms(4) have "canonical_entries fs = None" using none assms(3) by metis
    with None show ?thesis by simp
  next
    case (Some es')
    have "canonical_entries fs \<noteq> None"
    proof
      assume "canonical_entries fs = None"
      then obtain k w where k: "map_of fs k = Some w" "canonicalJson w = None" using none assms(3) by blast
      then obtain v where "map_of es k = Some v" using dom [of k] by (cases "map_of es k") auto
      with k assms(4) have "canonical_entries es = None" using none assms(2) by metis
      with Some show False by simp
    qed
    then obtain fs' where fs': "canonical_entries fs = Some fs'" by auto
    have "map_of es' = map_of fs'"
    proof
      fix k
      show "map_of es' k = map_of fs' k"
        using canonical_entries_map_of [OF Some, of k] canonical_entries_map_of [OF fs', of k] dom [of k] assms(4) [of k]
        by (auto split: option.splits)
    qed
    then have "sort_key fst es' = sort_key fst fs'"
      using sort_entries_unique canonical_entries_keys [OF Some] canonical_entries_keys [OF fs'] assms(2,3) by metis
    with Some fs' show ?thesis by simp
  qed
qed

lemma those_eq_list_all2:
  assumes "those (map f vs) = those (map f ws)" and "those (map f vs) \<noteq> None"
  shows "list_all2 (\<lambda>v w. f v = f w \<and> f v \<noteq> None) vs ws"
  using assms
proof (induction vs arbitrary: ws)
  case Nil
  then show ?case by (cases ws) (auto split: option.splits)
next
  case (Cons v vs)
  show ?case
  proof (cases ws)
    case Nil
    with Cons.prems show ?thesis by (auto split: option.splits)
  next
    case (Cons w ws')
    from Cons.prems Cons have "f v = f w" "f v \<noteq> None" "those (map f vs) = those (map f ws')" "those (map f vs) \<noteq> None"
      by (auto split: option.splits)
    with Cons.IH [of ws'] Cons show ?thesis by simp
  qed
qed

lemma list_all2_those:
  "list_all2 (\<lambda>v w. f v = f w) vs ws \<Longrightarrow> those (map f vs) = those (map f ws)"
  by (induction rule: list_all2_induct) (auto split: option.split)

lemma same_json_canonical:
  assumes "same_json v w" and "json_ok v" and "json_ok w"
  shows "canonicalJson v = canonicalJson w"
  using assms
proof induction
  case (same_array vs ws)
  then have "list_all2 (\<lambda>v w. canonicalJson v = canonicalJson w) vs ws"
    by (auto simp: list_all2_conv_all_nth)
  then show ?case by (simp add: canonical_items_eq list_all2_those)
next
  case (same_object es fs)
  show ?case
  proof (rule same_object_canonical)
    show "canonicalJson v = canonicalJson w" if "map_of es k = Some v" "map_of fs k = Some w" for k v w
      using same_object.IH [OF that] same_object.prems map_of_SomeD [OF that(1)] map_of_SomeD [OF that(2)] by force
  qed (use same_object in auto)
qed simp

lemma canonical_same_json:
  assumes "canonicalJson v = canonicalJson w" and "canonicalJson v \<noteq> None" and "json_ok v" and "json_ok w"
  shows "same_json v w"
  using assms
proof (induction v arbitrary: w)
  case (JArray vs)
  then obtain ws where w: "w = JArray ws" by (cases w rule: canonicalJson.cases) auto
  with JArray.prems have all: "list_all2 (\<lambda>v w. canonicalJson v = canonicalJson w \<and> canonicalJson v \<noteq> None) vs ws"
    by (intro those_eq_list_all2) (auto simp: canonical_items_eq)
  show ?case unfolding w
  proof (rule same_array, rule list.rel_mono_strong [OF all])
    fix v x
    assume "v \<in> set vs" "x \<in> set ws" "canonicalJson v = canonicalJson x \<and> canonicalJson v \<noteq> None"
    moreover from this JArray.prems(3,4) w have "json_ok v" "json_ok x" by auto
    ultimately show "same_json v x" using JArray.IH by blast
  qed
next
  case (JObject es)
  then obtain fs where w: "w = JObject fs" by (cases w rule: canonicalJson.cases) auto
  have prems: "canonicalJson (JObject es) = canonicalJson (JObject fs)" "canonicalJson (JObject es) \<noteq> None"
    "distinct (map fst es)" "distinct (map fst fs)"
    using JObject.prems unfolding w by (simp_all only: json_ok.simps simp_thms not_False_eq_True)
  from canonical_object_same [OF prems]
  have same: "fst ` set es = fst ` set fs" "\<And>k v w. map_of es k = Some v \<Longrightarrow> map_of fs k = Some w \<Longrightarrow> canonicalJson v = canonicalJson w \<and> canonicalJson v \<noteq> None"
    by blast+
  show ?case unfolding w
  proof (rule same_json.same_object)
    fix k v x
    assume k: "map_of es k = Some v" "map_of fs k = Some x"
    have "canonicalJson v = canonicalJson x" "canonicalJson v \<noteq> None" using same(2) [OF k] by blast+
    moreover have "json_ok v" "json_ok x" using JObject.prems(3,4) w map_of_SomeD [OF k(1)] map_of_SomeD [OF k(2)] by force+
    moreover have "v \<in> Basic_BNFs.snds (k, v)" by (simp add: snds.intros)
    ultimately show "same_json v x" using JObject.IH [OF map_of_SomeD [OF k(1)]] by blast
  qed (rule same(1))
next
  case JNull
  then show ?case by (cases w rule: canonicalJson.cases) (auto intro: same_json.same_atom)
next
  case (JBool x)
  then show ?case by (cases w rule: canonicalJson.cases) (auto intro: same_json.same_atom)
next
  case (JNumber x)
  then show ?case by (cases x; cases w rule: canonicalJson.cases) (auto intro: same_json.same_atom)
next
  case (JString x)
  then show ?case by (cases w rule: canonicalJson.cases) (auto intro: same_json.same_atom)
qed

text \<open>A canonical value is its own canonical value.\<close>

lemma canonical_entries_fixed:
  "\<forall>e \<in> set es. canonicalJson (snd e) = Some (snd e) \<Longrightarrow> canonical_entries es = Some es"
  by (induction es) auto

lemma canonicalJson_idem:
  shows "json_ok v \<Longrightarrow> canonicalJson v = Some c \<Longrightarrow> canonicalJson c = Some c"
    and "\<forall>v \<in> set vs. json_ok v \<Longrightarrow> canonical_items vs = Some cs \<Longrightarrow> canonical_items cs = Some cs"
    and "\<forall>e \<in> set es. json_ok (snd e) \<Longrightarrow> canonical_entries es = Some ds \<Longrightarrow> \<forall>d \<in> set ds. canonicalJson (snd d) = Some (snd d)"
proof (induction v and vs and es arbitrary: c and cs and ds rule: canonicalJson_canonical_items_canonical_entries.induct)
  case (7 es)
  then obtain es' where es': "canonical_entries es = Some es'" "c = JObject (sort_key fst es')" by auto
  with 7 have "canonical_entries (sort_key fst es') = Some (sort_key fst es')" by (intro canonical_entries_fixed) auto
  moreover have "sort_key fst (sort_key fst es') = sort_key fst es'" by (simp add: sort_key_id_if_sorted)
  ultimately show ?case using es' by simp
qed (fastforce split: option.splits)+

definition same_event :: "CoreEventEnvelope \<Rightarrow> CoreEventEnvelope \<Rightarrow> bool" where
  "same_event l r \<longleftrightarrow> ce_eventId l = ce_eventId r \<and> ce_agentKind l = ce_agentKind r \<and> ce_sessionId l = ce_sessionId r
     \<and> ce_turnId l = ce_turnId r \<and> same_json (ce_payload l) (ce_payload r)
     \<and> (payload_type (ce_payload l) = Some ''record_skipped'' \<or> ce_occurredAt l = ce_occurredAt r)"

lemma same_payload_type:
  assumes "same_json v w" shows "payload_type v = payload_type w"
  using assms
proof cases
  case (same_object es fs)
  have field: "same_json a b \<Longrightarrow> (\<forall>s. a = JString s \<longleftrightarrow> b = JString s)" for a b
    by (auto elim: same_json.cases)
  show ?thesis
  proof (cases "map_of es ''type''")
    case None
    then have "map_of fs ''type'' = None" using same_object(3) by (simp add: map_of_eq_None_iff)
    with None same_object(1,2) show ?thesis by (simp add: payload_type_def string_field_def json_field_def)
  next
    case (Some a)
    then have "map_of fs ''type'' \<noteq> None" using same_object(3) by (metis map_of_eq_None_iff option.distinct(1))
    then obtain b where b: "map_of fs ''type'' = Some b" by auto
    from field [OF same_object(4) [OF Some b]] Some b same_object(1,2) show ?thesis
      by (auto simp: payload_type_def string_field_def json_field_def split: Json.splits)
  qed
qed (auto simp: payload_type_def string_field_def json_field_def)

lemma is_object_iff: "is_object v \<longleftrightarrow> (\<exists>es. v = JObject es)"
  by (cases v) auto

lemma agent_kind_json_inject [simp]: "agent_kind_json a = agent_kind_json b \<longleftrightarrow> a = b"
  by (cases a; cases b) (simp_all add: agent_kind_json_def)

lemma identity_object_canonical:
  assumes "canonicalJson p = Some p"
  shows "\<exists>es. identity_object e p = JObject es \<and> distinct (map fst es)
    \<and> canonicalJson (identity_object e p) = Some (JObject (sort_key fst es))"
proof -
  have "canonicalJson (case ce_turnId e of None \<Rightarrow> JNull | Some t \<Rightarrow> JString t) = Some (case ce_turnId e of None \<Rightarrow> JNull | Some t \<Rightarrow> JString t)"
    by (cases "ce_turnId e") simp_all
  moreover obtain es where es: "identity_object e p = JObject es" "distinct (map fst es)" by (simp add: identity_object_def)
  ultimately have "canonical_entries es = Some es"
    by (intro canonical_entries_fixed) (use assms in \<open>auto simp: identity_object_def agent_kind_json_def\<close>)
  with es show ?thesis by simp
qed

lemma identity_object_inject:
  assumes "canonicalJson p = Some p" and "canonicalJson q = Some q"
    and "canonicalJson (identity_object l p) = canonicalJson (identity_object r q)"
  shows "p = q \<and> ce_eventId l = ce_eventId r \<and> ce_agentKind l = ce_agentKind r \<and> ce_sessionId l = ce_sessionId r \<and> ce_turnId l = ce_turnId r
    \<and> (payload_type (ce_payload l) = Some ''record_skipped'' \<or> ce_occurredAt l = ce_occurredAt r)"
proof -
  obtain es where es: "identity_object l p = JObject es" "distinct (map fst es)" "canonicalJson (identity_object l p) = Some (JObject (sort_key fst es))"
    using identity_object_canonical [OF assms(1)] by blast
  obtain fs where fs: "identity_object r q = JObject fs" "canonicalJson (identity_object r q) = Some (JObject (sort_key fst fs))"
    using identity_object_canonical [OF assms(2)] by blast
  have eq: "map_of es = map_of fs" using assms(3) es(2,3) fs(2) by (intro sort_entries_map_of) simp_all
  have at: "map_of es k = map_of fs k" for k by (simp add: eq)
  show ?thesis
    using at [of "''payload''"] at [of "''eventId''"] at [of "''agentKind''"] at [of "''sessionId''"] at [of "''turnId''"] at [of "''occurredAt''"] es(1) fs(1)
    by (auto simp: identity_object_def split: option.splits if_splits)
qed

text \<open>
  C40: The identity of an event is exactly what it says. Unless the digests of their
  identities collide, two events of the Core with proper JSON payloads are the same to the inbox if and only if
  they agree on id, agent, session, turn and time and their payloads differ at most in the
  order of the keys of their objects; the source and the cursor an event was read from do
  not matter, nor does the time of a record that was skipped. An event the schema refuses
  is never the same as any other.
\<close>
theorem event_identity_is_semantic:
  assumes "json_ok (ce_payload l)" and "json_ok (ce_payload r)" and "\<And>x y. semanticIdentity schema l = Some x \<Longrightarrow> semanticIdentity schema r = Some y \<Longrightarrow> digest x = digest y \<Longrightarrow> x = y"
  shows "(sameCoreEventSemantics schema digest l r \<longleftrightarrow>
      semanticIdentity schema l \<noteq> None \<and> semanticIdentity schema r \<noteq> None \<and> same_event l r)
    \<and> sameCoreEventSemantics schema digest (l\<lparr>ce_cursor := c, ce_sourceId := s\<rparr>) r = sameCoreEventSemantics schema digest l r"
proof
  have "identity_object (l\<lparr>ce_cursor := c, ce_sourceId := s\<rparr>) = identity_object l" by (rule ext) (simp add: identity_object_def)
  then show "sameCoreEventSemantics schema digest (l\<lparr>ce_cursor := c, ce_sourceId := s\<rparr>) r = sameCoreEventSemantics schema digest l r"
    by (simp add: sameCoreEventSemantics_def coreEventSemanticHash_def semanticIdentity_def cong: option.case_cong)
  have hash: "sameCoreEventSemantics schema digest l r \<longleftrightarrow> semanticIdentity schema l \<noteq> None \<and> semanticIdentity schema l = semanticIdentity schema r"
    using assms(3) by (cases "semanticIdentity schema l"; cases "semanticIdentity schema r")
      (auto simp: sameCoreEventSemantics_def coreEventSemanticHash_def)
  have "semanticIdentity schema l = semanticIdentity schema r \<longleftrightarrow> same_event l r"
    if defined: "semanticIdentity schema l \<noteq> None" "semanticIdentity schema r \<noteq> None"
  proof -
    obtain p q where p: "canonicalJson (ce_payload l) = Some p" "semanticIdentity schema l = canonicalJson (identity_object l p)" "ce_schemaVersion l = 1"
      and q: "canonicalJson (ce_payload r) = Some q" "semanticIdentity schema r = canonicalJson (identity_object r q)" "ce_schemaVersion r = 1"
      using defined by (auto simp: semanticIdentity_def split: if_splits option.splits)
    have fixed: "canonicalJson p = Some p" "canonicalJson q = Some q" using canonicalJson_idem(1) assms(1,2) p(1) q(1) by blast+
    show ?thesis
    proof
      assume "semanticIdentity schema l = semanticIdentity schema r"
      with p(2) q(2) have "canonicalJson (identity_object l p) = canonicalJson (identity_object r q)" by simp
      note fields = identity_object_inject [OF fixed this]
      then have "same_json (ce_payload l) (ce_payload r)" using p(1) q(1) assms(1,2) by (intro canonical_same_json) simp_all
      with fields show "same_event l r" by (simp add: same_event_def)
    next
      assume same: "same_event l r"
      then have "p = q" using same_json_canonical [of "ce_payload l" "ce_payload r"] assms(1,2) p(1) q(1) by (simp add: same_event_def)
      moreover have "payload_type (ce_payload l) = payload_type (ce_payload r)" using same same_payload_type by (simp add: same_event_def)
      ultimately have "identity_object l p = identity_object r q" using same p(3) q(3) by (auto simp: same_event_def identity_object_def)
      then show "semanticIdentity schema l = semanticIdentity schema r" using p(2) q(2) by simp
    qed
  qed
  with hash show "sameCoreEventSemantics schema digest l r \<longleftrightarrow>
      semanticIdentity schema l \<noteq> None \<and> semanticIdentity schema r \<noteq> None \<and> same_event l r" by metis
qed

definition sample_core_event :: "(string \<times> Json) list \<Rightarrow> CoreEventEnvelope" where
  "sample_core_event es = \<lparr>ce_schemaVersion = 1, ce_eventId = ''e'', ce_cursor = ''c1'', ce_sourceId = ''s1'', ce_agentKind = Traex,
     ce_sessionId = ''n'', ce_turnId = Some ''t'', ce_occurredAt = ''now'', ce_payload = JObject es\<rparr>"

theorem event_identity_is_semantic_witness:
  "sameCoreEventSemantics (\<lambda>_. True) (\<lambda>_. ''digest'') (sample_core_event [(''type'', JString ''message''), (''text'', JNull)])
     (sample_core_event [(''text'', JNull), (''type'', JString ''message'')])"
proof -
  let ?l = "sample_core_event [(''type'', JString ''message''), (''text'', JNull)]"
  let ?r = "sample_core_event [(''text'', JNull), (''type'', JString ''message'')]"
  have fields: "semanticIdentity (\<lambda>_. True) ?l = semanticIdentity (\<lambda>_. True) ?r" "semanticIdentity (\<lambda>_. True) ?r \<noteq> None"
    "json_ok (ce_payload ?l)" "json_ok (ce_payload ?r)" by code_simp+
  have "same_json (JObject [(''type'', JString ''message''), (''text'', JNull)]) (JObject [(''text'', JNull), (''type'', JString ''message'')])"
    by (rule same_json.same_object) (auto split: if_splits intro: same_json.same_atom)
  then have "same_event ?l ?r" by (simp add: same_event_def sample_core_event_def)
  with event_identity_is_semantic [OF fields(3,4), of "\<lambda>_. True" "\<lambda>_. ''digest''"] fields(1,2) show ?thesis by simp
qed

end
