(* ===== verification/Core_Inbox.thy ===== *)
theory Core_Inbox
  imports Core_Identity Transition_System
begin

text \<open>
  The inbox of Core events: \<^verbatim>\<open>src/src/store/sqlite/core-event-inbox-store.ts\<close> with the gaps of
  \<^verbatim>\<open>projection-gap-store.ts\<close> it opens. Events are read in batches from a cursor, stored once,
  numbered in the lane of their source and settled one by one as they are projected. A table
  is a partial map on its primary key or a list of rows in the order they were inserted; a
  method is one transaction, a throw an \<open>Inl\<close> that leaves the tables as they were. Creation
  and update times of rows and the texts of failures (kept as their digest) are left out. The
  projector, the observer of human messages and the capture of review candidates work on the
  rest of the database, of type \<open>'w\<close>, and are parameters, as are the schema and the digest.
\<close>

subsection \<open>Tables\<close>

datatype lane_item_state = Item_pending | Item_projected | Item_ignored | Item_quarantined

record lane_item =
  li_laneId :: ident
  li_eventId :: ident
  li_sequence :: int
  li_state :: lane_item_state
  li_failure :: "string option"
  li_fingerprint :: "string option"
  li_attempts :: int
  li_revision :: int
  li_conflicts :: int
  li_conflictHash :: "string option"

text \<open>A compacted event keeps at most the hash of its payload.\<close>

record event_row =
  er_event :: CoreEventEnvelope
  er_discriminators :: CoreEventDiscriminators
  er_compacted :: bool
  er_payloadHash :: "string option"

record lane_checkpoint =
  lc_sourceId :: ident
  lc_sourceEpoch :: "string option"
  lc_agentKind :: SubmissionIntentAgentKind
  lc_sessionId :: ident
  lc_readCursor :: string
  lc_latestCursor :: string

record canonical_submission =
  cs_submissionId :: ident
  cs_eventId :: ident
  cs_agentKind :: SubmissionIntentAgentKind
  cs_sessionId :: ident

datatype inbox_owner = Owner_binding ident | Owner_worker_turn ident

datatype gap_state = Gap_open | Gap_compensated | Gap_dismissed

text \<open>The gaps of the stage \<^verbatim>\<open>core_projection\<close>.\<close>

record projection_gap =
  pg_owner :: inbox_owner
  pg_sourceItemId :: string
  pg_failureCode :: string
  pg_requiredVersion :: "int option"
  pg_occurrences :: int
  pg_state :: gap_state
  pg_compensatedBy :: "int option"
  pg_details :: "Json option"

record turn_projection =
  tp_agentKind :: SubmissionIntentAgentKind
  tp_sessionId :: ident
  tp_turnId :: ident
  tp_startedAt :: string

record turn_event =
  te_turn :: turn_projection
  te_eventId :: ident
  te_sequence :: int

record 'w core_inbox =
  ib_events :: "ident \<rightharpoonup> event_row"
  ib_items :: "lane_item list"
  ib_checkpoints :: "ident \<rightharpoonup> lane_checkpoint"
  ib_submissions :: "canonical_submission list"
  ib_gaps :: "projection_gap list"
  ib_projections :: "turn_projection list"
  ib_turnEvents :: "turn_event list"
  ib_world :: 'w

record CoreEventInboxBatch =
  cb_laneId :: ident
  cb_sourceId :: ident
  cb_sourceEpoch :: "string option"
  cb_agentKind :: SubmissionIntentAgentKind
  cb_sessionId :: ident
  cb_afterCursor :: string
  cb_nextCursor :: string
  cb_latestCursor :: string
  cb_events :: "CoreEventEnvelope list"

record 'w inbox_env =
  env_schema :: "Json \<Rightarrow> bool"
  env_digest :: "Json \<Rightarrow> string"
  env_eventDigest :: "CoreEventEnvelope \<Rightarrow> string"
  env_project :: "CoreEventInboxBatch \<Rightarrow> int \<Rightarrow> CoreEventEnvelope \<Rightarrow> 'w \<Rightarrow> 'w option"
  env_observe :: "canonical_submission \<Rightarrow> 'w \<Rightarrow> 'w option"
  env_capture :: "ident \<Rightarrow> ident list \<Rightarrow> inbox_owner \<Rightarrow> 'w \<Rightarrow> 'w"

datatype inbox_error = Invalid_input | Batch_exceeds_limit | Identity_mismatch | Epoch_mismatch | Projection_failed

datatype admission = Adm_new | Adm_duplicate | Adm_conflict

record stored_evidence =
  sv_event :: CoreEventEnvelope
  sv_admission :: admission
  sv_skip :: bool

definition CORE_EVENT_REDUCER_REVISION :: int where "CORE_EVENT_REDUCER_REVISION = 1"
definition CORE_EVENT_MAX_PROJECTION_ATTEMPTS :: int where "CORE_EVENT_MAX_PROJECTION_ATTEMPTS = 3"
definition MAX_CONFLICT_COUNT :: int where "MAX_CONFLICT_COUNT = 1000"

subsection \<open>Storing an event\<close>

definition matchesCompactedCoreEventHash :: "'w inbox_env \<Rightarrow> CoreEventEnvelope \<Rightarrow> string option \<Rightarrow> bool" where
  "matchesCompactedCoreEventHash env e storedHash = (case storedHash of
       None \<Rightarrow> False
     | Some h \<Rightarrow> (case coreEventSemanticHash (env_schema env) (env_digest env) e of
          None \<Rightarrow> False
        | Some semantic \<Rightarrow> h = semantic \<or> h = env_eventDigest env e))"

definition storeEvent :: "'w inbox_env \<Rightarrow> CoreEventEnvelope \<Rightarrow> event_row option \<Rightarrow> stored_evidence" where
  "storeEvent env e row = (case row of
       None \<Rightarrow> \<lparr>sv_event = e, sv_admission = Adm_new, sv_skip = isSourceErrorPayload (ce_payload e)\<rparr>
     | Some r \<Rightarrow>
         if er_compacted r then
           \<lparr>sv_event = e, sv_admission = (if matchesCompactedCoreEventHash env e (er_payloadHash r) then Adm_duplicate else Adm_conflict), sv_skip = True\<rparr>
         else if sameCoreEventSemantics (env_schema env) (env_digest env) (er_event r) e then
           \<lparr>sv_event = er_event r, sv_admission = Adm_duplicate, sv_skip = isSourceErrorPayload (ce_payload (er_event r))\<rparr>
         else \<lparr>sv_event = er_event r, sv_admission = Adm_conflict, sv_skip = True\<rparr>)"

definition insert_event :: "CoreEventEnvelope \<Rightarrow> (ident \<rightharpoonup> event_row) \<Rightarrow> (ident \<rightharpoonup> event_row)" where
  "insert_event e events = (case events (ce_eventId e) of
       None \<Rightarrow> events(ce_eventId e \<mapsto> \<lparr>er_event = e, er_discriminators = coreEventDiscriminators (ce_payload e), er_compacted = False, er_payloadHash = None\<rparr>)
     | Some _ \<Rightarrow> events)"

definition is_item :: "ident \<Rightarrow> ident \<Rightarrow> lane_item \<Rightarrow> bool" where
  "is_item lane eventId i \<longleftrightarrow> li_laneId i = lane \<and> li_eventId i = eventId"

definition update_item :: "ident \<Rightarrow> ident \<Rightarrow> (lane_item \<Rightarrow> lane_item) \<Rightarrow> lane_item list \<Rightarrow> lane_item list" where
  "update_item lane eventId f items = map (\<lambda>i. if is_item lane eventId i then f i else i) items"

definition maximum_sequence :: "ident \<Rightarrow> lane_item list \<Rightarrow> int" where
  "maximum_sequence lane items = fold max (map li_sequence (filter (\<lambda>i. li_laneId i = lane) items)) 0"

definition settleConflict :: "'w inbox_env \<Rightarrow> ident \<Rightarrow> CoreEventEnvelope \<Rightarrow> lane_item list \<Rightarrow> lane_item list" where
  "settleConflict env lane e items = update_item lane (ce_eventId e)
     (\<lambda>i. i\<lparr>li_conflicts := min (li_conflicts i + 1) MAX_CONFLICT_COUNT,
          li_conflictHash := Some (opt_or (coreEventSemanticHash (env_schema env) (env_digest env) e) (env_eventDigest env e))\<rparr>) items"

definition ignoreLaneItem :: "ident \<Rightarrow> ident \<Rightarrow> lane_item list \<Rightarrow> lane_item list" where
  "ignoreLaneItem lane eventId items =
     update_item lane eventId (\<lambda>i. if li_state i = Item_pending then i\<lparr>li_state := Item_ignored\<rparr> else i) items"

definition observeCanonicalHumanMessage :: "'w inbox_env \<Rightarrow> CoreEventEnvelope \<Rightarrow> 'w core_inbox \<Rightarrow> 'w core_inbox option" where
  "observeCanonicalHumanMessage env e ib = (case humanSubmissionId (ce_payload e) of
       None \<Rightarrow> Some ib
     | Some sid \<Rightarrow>
         let mine = \<lparr>cs_submissionId = sid, cs_eventId = ce_eventId e, cs_agentKind = ce_agentKind e, cs_sessionId = ce_sessionId e\<rparr>;
             free = list_all (\<lambda>c. cs_submissionId c \<noteq> sid \<and> cs_eventId c \<noteq> ce_eventId e) (ib_submissions ib);
             recorded = (if free then Some mine else find (\<lambda>c. cs_submissionId c = sid) (ib_submissions ib))
         in if recorded \<noteq> Some mine then None
            else case env_observe env mine (ib_world ib) of
                None \<Rightarrow> None
              | Some w \<Rightarrow> Some (ib\<lparr>ib_submissions := (if free then ib_submissions ib @ [mine] else ib_submissions ib), ib_world := w\<rparr>))"

text \<open>The projection of one event, within a savepoint; \<open>None\<close> when it throws and is rolled back.\<close>

definition project_event :: "'w inbox_env \<Rightarrow> CoreEventInboxBatch \<Rightarrow> int \<Rightarrow> stored_evidence \<Rightarrow> 'w core_inbox \<Rightarrow> 'w core_inbox option" where
  "project_event env batch sequence stored ib = (case env_project env batch sequence (sv_event stored) (ib_world ib) of
       None \<Rightarrow> None
     | Some w \<Rightarrow>
         if sv_admission stored = Adm_new then observeCanonicalHumanMessage env (sv_event stored) (ib\<lparr>ib_world := w\<rparr>)
         else Some (ib\<lparr>ib_world := w\<rparr>))"

subsection \<open>Ingesting a batch\<close>

definition validateBatch :: "CoreEventInboxBatch \<Rightarrow> inbox_error option" where
  "validateBatch b =
     (if cb_laneId b = [] \<or> cb_sourceId b = [] \<or> cb_sessionId b = [] \<or> cb_nextCursor b = [] \<or> cb_latestCursor b = [] then Some Invalid_input
      else if 128 < length (cb_events b) then Some Batch_exceeds_limit
      else if list_ex (\<lambda>e. ce_schemaVersion e \<noteq> 1 \<or> ce_eventId e = [] \<or> ce_sourceId e \<noteq> cb_sourceId b
             \<or> ce_agentKind e \<noteq> cb_agentKind b \<or> ce_sessionId e \<noteq> cb_sessionId b) (cb_events b) then Some Identity_mismatch
      else None)"

definition new_item :: "ident \<Rightarrow> ident \<Rightarrow> int \<Rightarrow> lane_item_state \<Rightarrow> lane_item" where
  "new_item lane eventId sequence st = \<lparr>li_laneId = lane, li_eventId = eventId, li_sequence = sequence, li_state = st, li_failure = None,
     li_fingerprint = None, li_attempts = 0, li_revision = 1, li_conflicts = 0, li_conflictHash = None\<rparr>"

definition exact_replay :: "stored_evidence \<Rightarrow> bool" where
  "exact_replay stored \<longleftrightarrow> sv_admission stored = Adm_duplicate \<and> isExactReplayProjectedPayload (ce_payload (sv_event stored)) \<and> \<not> sv_skip stored"

text \<open>The lane item of an event: the one it has, or a new one at the end of the lane.\<close>

definition place_event :: "CoreEventInboxBatch \<Rightarrow> ident \<Rightarrow> stored_evidence \<Rightarrow> lane_item list \<Rightarrow> lane_item list \<times> int \<times> lane_item_state \<times> bool" where
  "place_event b eventId stored items = (case find (is_item (cb_laneId b) eventId) items of
       Some i \<Rightarrow> (items, li_sequence i, li_state i, False)
     | None \<Rightarrow>
         let sequence = maximum_sequence (cb_laneId b) items + 1;
             st = (if (sv_admission stored \<noteq> Adm_new \<or> sv_skip stored) \<and> \<not> exact_replay stored then Item_ignored else Item_pending)
         in (items @ [new_item (cb_laneId b) eventId sequence st], sequence, st, True))"

definition ingest_event :: "'w inbox_env \<Rightarrow> CoreEventInboxBatch \<Rightarrow> CoreEventEnvelope \<Rightarrow> 'w core_inbox \<times> ident list
    \<Rightarrow> (inbox_error, 'w core_inbox \<times> ident list) result" where
  "ingest_event env b e s =
     (let ib = fst s; stored = storeEvent env e (ib_events ib (ce_eventId e));
          (items, sequence, st, inserted) = place_event b (ce_eventId e) stored (ib_items ib);
          candidates = (if inserted \<and> st = Item_pending then snd s @ [ce_eventId e] else snd s);
          settled = (if sv_admission stored = Adm_conflict then settleConflict env (cb_laneId b) e items else items);
          ib1 = ib\<lparr>ib_events := insert_event e (ib_events ib), ib_items := settled\<rparr>;
          project_new = (sv_admission stored = Adm_new \<and> \<not> sv_skip stored \<and> st \<noteq> Item_projected \<and> st \<noteq> Item_ignored);
          project_replay = (inserted \<and> exact_replay stored)
      in if \<not> project_new \<and> \<not> project_replay then Inr (ib1, candidates)
         else case project_event env b sequence stored ib1 of
             None \<Rightarrow> if project_replay then Inl Projection_failed else Inr (ib1, candidates)
           | Some ib2 \<Rightarrow>
               Inr (if project_replay then ib2\<lparr>ib_items := ignoreLaneItem (cb_laneId b) (ce_eventId e) (ib_items ib2)\<rparr> else ib2, candidates))"

fun ingest_events :: "'w inbox_env \<Rightarrow> CoreEventInboxBatch \<Rightarrow> CoreEventEnvelope list \<Rightarrow> 'w core_inbox \<times> ident list
    \<Rightarrow> (inbox_error, 'w core_inbox \<times> ident list) result" where
  "ingest_events env b [] s = Inr s"
| "ingest_events env b (e # es) s = (case ingest_event env b e s of Inl err \<Rightarrow> Inl err | Inr s' \<Rightarrow> ingest_events env b es s')"

definition stale_event :: "'w inbox_env \<Rightarrow> CoreEventInboxBatch \<Rightarrow> CoreEventEnvelope \<Rightarrow> 'w core_inbox \<Rightarrow> 'w core_inbox" where
  "stale_event env b e ib =
     (if find (is_item (cb_laneId b) (ce_eventId e)) (ib_items ib) = None then ib
      else if sv_admission (storeEvent env e (ib_events ib (ce_eventId e))) = Adm_conflict
           then ib\<lparr>ib_items := settleConflict env (cb_laneId b) e (ib_items ib)\<rparr>
           else ib)"

definition acceptStaleReplay :: "'w inbox_env \<Rightarrow> CoreEventInboxBatch \<Rightarrow> 'w core_inbox \<Rightarrow> 'w core_inbox" where
  "acceptStaleReplay env b ib = fold (stale_event env b) (cb_events b) ib"

datatype ingest_outcome = Ingest_accepted | Ingest_stale_rebase

definition batch_checkpoint :: "CoreEventInboxBatch \<Rightarrow> string \<Rightarrow> lane_checkpoint" where
  "batch_checkpoint b readCursor = \<lparr>lc_sourceId = cb_sourceId b, lc_sourceEpoch = cb_sourceEpoch b, lc_agentKind = cb_agentKind b,
     lc_sessionId = cb_sessionId b, lc_readCursor = readCursor, lc_latestCursor = cb_latestCursor b\<rparr>"

definition ingest_current :: "'w inbox_env \<Rightarrow> CoreEventInboxBatch \<Rightarrow> 'w core_inbox \<Rightarrow> (inbox_error, ingest_outcome \<times> bool \<times> 'w core_inbox) result" where
  "ingest_current env b ib = (case ingest_events env b (cb_events b) (ib, []) of
       Inl err \<Rightarrow> Inl err
     | Inr (ib', candidates) \<Rightarrow>
         Inr (Ingest_accepted, list_ex (\<lambda>i. li_laneId i = cb_laneId b \<and> li_state i = Item_pending \<and> li_eventId i \<in> set candidates) (ib_items ib'),
              ib'\<lparr>ib_checkpoints := (ib_checkpoints ib')(cb_laneId b \<mapsto> batch_checkpoint b (cb_nextCursor b))\<rparr>))"

text \<open>The outcome and whether the listeners for pending work are told.\<close>

definition ingestBatch :: "'w inbox_env \<Rightarrow> CoreEventInboxBatch \<Rightarrow> 'w core_inbox \<Rightarrow> (inbox_error, ingest_outcome \<times> bool \<times> 'w core_inbox) result" where
  "ingestBatch env b ib = (case validateBatch b of
       Some err \<Rightarrow> Inl err
     | None \<Rightarrow>
         let checkpoint = ib_checkpoints ib (cb_laneId b); refresh = (cb_events b = [] \<and> cb_nextCursor b = cb_afterCursor b)
         in if refresh \<and> cb_nextCursor b = cb_latestCursor b \<and> checkpoint = Some (batch_checkpoint b (cb_afterCursor b)) then Inr (Ingest_accepted, False, ib)
            else case checkpoint of
                Some c \<Rightarrow>
                  if lc_sourceId c \<noteq> cb_sourceId b \<or> lc_agentKind c \<noteq> cb_agentKind b \<or> lc_sessionId c \<noteq> cb_sessionId b then Inl Identity_mismatch
                  else if lc_readCursor c \<noteq> cb_afterCursor b then Inr (Ingest_stale_rebase, False, acceptStaleReplay env b ib)
                  else if lc_sourceEpoch c \<noteq> None \<and> lc_sourceEpoch c \<noteq> Some [] \<and> lc_sourceEpoch c \<noteq> cb_sourceEpoch b \<and> \<not> refresh then Inl Epoch_mismatch
                  else ingest_current env b ib
              | None \<Rightarrow> ingest_current env b ib)"

subsection \<open>Moving a lane to another position\<close>

text \<open>A gap is inserted once for its owner and source item.\<close>

definition insert_gap :: "projection_gap \<Rightarrow> projection_gap list \<Rightarrow> projection_gap list" where
  "insert_gap g gaps =
     (if list_ex (\<lambda>h. pg_owner h = pg_owner g \<and> pg_sourceItemId h = pg_sourceItemId g) gaps then gaps else gaps @ [g])"

definition cursor_gap :: "'w inbox_env \<Rightarrow> inbox_owner \<Rightarrow> string \<Rightarrow> string \<Rightarrow> (string \<times> Json) list \<Rightarrow> projection_gap" where
  "cursor_gap env owner prefix code details =
     \<lparr>pg_owner = owner, pg_sourceItemId = prefix @ '':'' @ env_digest env (JObject details), pg_failureCode = code, pg_requiredVersion = None,
      pg_occurrences = 1, pg_state = Gap_open, pg_compensatedBy = None, pg_details = Some (JObject details)\<rparr>"

fun owner_id :: "inbox_owner \<Rightarrow> ident" where
  "owner_id (Owner_binding i) = i"
| "owner_id (Owner_worker_turn i) = i"

definition text_or_null :: "string option \<Rightarrow> Json" where
  "text_or_null v = (case v of None \<Rightarrow> JNull | Some s \<Rightarrow> JString s)"

record CoreEventLaneBootstrap =
  lb_laneId :: ident
  lb_sourceId :: ident
  lb_sourceEpoch :: string
  lb_agentKind :: SubmissionIntentAgentKind
  lb_sessionId :: ident
  lb_resumeCursor :: string
  lb_earliestCursor :: string
  lb_latestCursor :: string
  lb_owner :: inbox_owner

datatype move_outcome = Moved | Move_stale

definition bootstrapExpiredLane :: "'w inbox_env \<Rightarrow> CoreEventLaneBootstrap \<Rightarrow> 'w core_inbox \<Rightarrow> (inbox_error, move_outcome \<times> 'w core_inbox) result" where
  "bootstrapExpiredLane env i ib =
     (if lb_laneId i = [] \<or> lb_sourceId i = [] \<or> lb_sourceEpoch i = [] \<or> lb_sessionId i = [] \<or> lb_resumeCursor i = [] \<or> lb_earliestCursor i = []
         \<or> lb_latestCursor i = [] \<or> owner_id (lb_owner i) = [] then Inl Invalid_input
      else if ib_checkpoints ib (lb_laneId i) \<noteq> None \<or> list_ex (\<lambda>it. li_laneId it = lb_laneId i) (ib_items ib) then Inr (Move_stale, ib)
      else Inr (Moved, ib\<lparr>ib_checkpoints := (ib_checkpoints ib)(lb_laneId i \<mapsto> \<lparr>lc_sourceId = lb_sourceId i, lc_sourceEpoch = Some (lb_sourceEpoch i),
               lc_agentKind = lb_agentKind i, lc_sessionId = lb_sessionId i, lc_readCursor = lb_resumeCursor i, lc_latestCursor = lb_latestCursor i\<rparr>),
             ib_gaps := insert_gap (cursor_gap env (lb_owner i) ''cursor-expired'' ''cursor_expired''
               [(''laneId'', JString (lb_laneId i)), (''sourceId'', JString (lb_sourceId i)), (''sourceEpoch'', JString (lb_sourceEpoch i)),
                (''agentKind'', agent_kind_json (lb_agentKind i)), (''sessionId'', JString (lb_sessionId i)), (''staleCursor'', JString ''start''),
                (''resumeCursor'', JString (lb_resumeCursor i)), (''earliestCursor'', JString (lb_earliestCursor i)),
                (''latestCursor'', JString (lb_latestCursor i))]) (ib_gaps ib)\<rparr>))"

text \<open>The checkpoint of a lane, if it is still the one the caller has read.\<close>

definition expected_checkpoint :: "ident \<Rightarrow> ident \<Rightarrow> string option \<Rightarrow> SubmissionIntentAgentKind \<Rightarrow> ident \<Rightarrow> string \<Rightarrow> 'w core_inbox \<Rightarrow> lane_checkpoint option" where
  "expected_checkpoint lane source epoch agent session readCursor ib = (case ib_checkpoints ib lane of
       None \<Rightarrow> None
     | Some c \<Rightarrow> if lc_sourceId c = source \<and> lc_sourceEpoch c = epoch \<and> lc_agentKind c = agent \<and> lc_sessionId c = session
                  \<and> lc_readCursor c = readCursor then Some c else None)"

record CoreEventCheckpointRebase =
  cr_laneId :: ident
  cr_sourceId :: ident
  cr_sourceEpoch :: string
  cr_expectedSourceEpoch :: "string option"
  cr_agentKind :: SubmissionIntentAgentKind
  cr_sessionId :: ident
  cr_expectedReadCursor :: string
  cr_resumeCursor :: string
  cr_earliestCursor :: string
  cr_latestCursor :: string
  cr_owner :: inbox_owner

definition rebaseExpiredCheckpoint :: "'w inbox_env \<Rightarrow> CoreEventCheckpointRebase \<Rightarrow> 'w core_inbox \<Rightarrow> (inbox_error, move_outcome \<times> 'w core_inbox) result" where
  "rebaseExpiredCheckpoint env i ib =
     (if cr_laneId i = [] \<or> cr_sourceId i = [] \<or> cr_sourceEpoch i = [] \<or> cr_sessionId i = [] \<or> cr_expectedReadCursor i = [] \<or> cr_resumeCursor i = []
         \<or> cr_earliestCursor i = [] \<or> cr_latestCursor i = [] \<or> owner_id (cr_owner i) = [] then Inl Invalid_input
      else case expected_checkpoint (cr_laneId i) (cr_sourceId i) (cr_expectedSourceEpoch i) (cr_agentKind i) (cr_sessionId i) (cr_expectedReadCursor i) ib of
          None \<Rightarrow> Inr (Move_stale, ib)
        | Some c \<Rightarrow> Inr (Moved, ib\<lparr>ib_checkpoints := (ib_checkpoints ib)(cr_laneId i \<mapsto>
                 c\<lparr>lc_sourceEpoch := Some (cr_sourceEpoch i), lc_readCursor := cr_resumeCursor i, lc_latestCursor := cr_latestCursor i\<rparr>),
               ib_gaps := insert_gap (cursor_gap env (cr_owner i) ''cursor-expired'' ''cursor_expired''
                 [(''laneId'', JString (cr_laneId i)), (''sourceId'', JString (cr_sourceId i)), (''sourceEpoch'', JString (cr_sourceEpoch i)),
                  (''staleCursor'', JString (cr_expectedReadCursor i)), (''resumeCursor'', JString (cr_resumeCursor i)),
                  (''earliestCursor'', JString (cr_earliestCursor i)), (''latestCursor'', JString (cr_latestCursor i))]) (ib_gaps ib)\<rparr>))"

record CoreEventEpochTransitionRebase =
  et_laneId :: ident
  et_sourceId :: ident
  et_expectedSourceEpoch :: string
  et_expectedReadCursor :: string
  et_agentKind :: SubmissionIntentAgentKind
  et_sessionId :: ident
  et_sourceEpoch :: string
  et_earliestCursor :: string
  et_latestCursor :: string
  et_owner :: inbox_owner

definition rebaseEpochTransition :: "'w inbox_env \<Rightarrow> CoreEventEpochTransitionRebase \<Rightarrow> 'w core_inbox \<Rightarrow> (inbox_error, move_outcome \<times> 'w core_inbox) result" where
  "rebaseEpochTransition env i ib =
     (if et_laneId i = [] \<or> et_sourceId i = [] \<or> et_expectedSourceEpoch i = [] \<or> et_expectedReadCursor i = [] \<or> et_sessionId i = [] \<or> et_sourceEpoch i = []
         \<or> et_sourceEpoch i = et_expectedSourceEpoch i \<or> et_earliestCursor i = [] \<or> et_latestCursor i = [] \<or> owner_id (et_owner i) = [] then Inl Invalid_input
      else case expected_checkpoint (et_laneId i) (et_sourceId i) (Some (et_expectedSourceEpoch i)) (et_agentKind i) (et_sessionId i) (et_expectedReadCursor i) ib of
          None \<Rightarrow> Inr (Move_stale, ib)
        | Some c \<Rightarrow> Inr (Moved, ib\<lparr>ib_checkpoints := (ib_checkpoints ib)(et_laneId i \<mapsto>
                 c\<lparr>lc_sourceEpoch := Some (et_sourceEpoch i), lc_readCursor := ''start'', lc_latestCursor := et_latestCursor i\<rparr>),
               ib_gaps := insert_gap (cursor_gap env (et_owner i) ''cursor-epoch-changed'' ''cursor_epoch_changed''
                 [(''laneId'', JString (et_laneId i)), (''sourceId'', JString (et_sourceId i)), (''agentKind'', agent_kind_json (et_agentKind i)),
                  (''sessionId'', JString (et_sessionId i)), (''expectedSourceEpoch'', JString (et_expectedSourceEpoch i)),
                  (''expectedReadCursor'', JString (et_expectedReadCursor i)), (''sourceEpoch'', JString (et_sourceEpoch i)),
                  (''earliestCursor'', JString (et_earliestCursor i)), (''latestCursor'', JString (et_latestCursor i))]) (ib_gaps ib)\<rparr>))"

record CoreEventSourceTransition =
  st_laneId :: ident
  st_expectedSourceId :: ident
  st_expectedSourceEpoch :: string
  st_expectedReadCursor :: string
  st_sourceId :: ident
  st_sourceEpoch :: string
  st_agentKind :: SubmissionIntentAgentKind
  st_sessionId :: ident
  st_earliestCursor :: string
  st_latestCursor :: string
  st_owner :: inbox_owner

definition transitionSource :: "'w inbox_env \<Rightarrow> CoreEventSourceTransition \<Rightarrow> 'w core_inbox \<Rightarrow> (inbox_error, move_outcome \<times> 'w core_inbox) result" where
  "transitionSource env i ib =
     (if st_laneId i = [] \<or> st_expectedSourceId i = [] \<or> st_expectedSourceEpoch i = [] \<or> st_expectedReadCursor i = [] \<or> st_sourceId i = []
         \<or> st_sourceId i = st_expectedSourceId i \<or> st_sourceEpoch i = [] \<or> st_sessionId i = [] \<or> st_earliestCursor i = [] \<or> st_latestCursor i = []
         \<or> owner_id (st_owner i) = [] then Inl Invalid_input
      else case expected_checkpoint (st_laneId i) (st_expectedSourceId i) (Some (st_expectedSourceEpoch i)) (st_agentKind i) (st_sessionId i) (st_expectedReadCursor i) ib of
          None \<Rightarrow> Inr (Move_stale, ib)
        | Some c \<Rightarrow> Inr (Moved, ib\<lparr>ib_checkpoints := (ib_checkpoints ib)(st_laneId i \<mapsto>
                 c\<lparr>lc_sourceId := st_sourceId i, lc_sourceEpoch := Some (st_sourceEpoch i), lc_readCursor := ''start'', lc_latestCursor := st_latestCursor i\<rparr>),
               ib_gaps := insert_gap (cursor_gap env (st_owner i) ''cursor-source-changed'' ''cursor_source_changed''
                 [(''laneId'', JString (st_laneId i)), (''expectedSourceId'', JString (st_expectedSourceId i)),
                  (''expectedSourceEpoch'', JString (st_expectedSourceEpoch i)), (''expectedReadCursor'', JString (st_expectedReadCursor i)),
                  (''sourceId'', JString (st_sourceId i)), (''sourceEpoch'', JString (st_sourceEpoch i)), (''agentKind'', agent_kind_json (st_agentKind i)),
                  (''sessionId'', JString (st_sessionId i)), (''earliestCursor'', JString (st_earliestCursor i)),
                  (''latestCursor'', JString (st_latestCursor i))]) (ib_gaps ib)\<rparr>))"

record CoreEventInvalidCursorGap =
  ic_laneId :: ident
  ic_sourceId :: ident
  ic_sourceEpoch :: "string option"
  ic_agentKind :: SubmissionIntentAgentKind
  ic_sessionId :: ident
  ic_readCursor :: string
  ic_owner :: inbox_owner

definition recordInvalidCursorGap :: "'w inbox_env \<Rightarrow> CoreEventInvalidCursorGap \<Rightarrow> 'w core_inbox \<Rightarrow> (inbox_error, 'w core_inbox) result" where
  "recordInvalidCursorGap env i ib =
     (if ic_laneId i = [] \<or> ic_sourceId i = [] \<or> ic_sessionId i = [] \<or> ic_readCursor i = [] \<or> owner_id (ic_owner i) = [] then Inl Invalid_input
      else Inr (ib\<lparr>ib_gaps := insert_gap (cursor_gap env (ic_owner i) ''invalid-cursor'' ''invalid_cursor''
         [(''laneId'', JString (ic_laneId i)), (''sourceId'', JString (ic_sourceId i)), (''sourceEpoch'', text_or_null (ic_sourceEpoch i)),
          (''agentKind'', agent_kind_json (ic_agentKind i)), (''sessionId'', JString (ic_sessionId i)),
          (''readCursor'', JString (ic_readCursor i))]) (ib_gaps ib)\<rparr>))"

subsection \<open>Settling events\<close>

definition revive_item :: "ident \<Rightarrow> lane_item \<Rightarrow> lane_item" where
  "revive_item lane i =
     (if li_laneId i = lane \<and> li_state i = Item_quarantined \<and> li_revision i < CORE_EVENT_REDUCER_REVISION
      then i\<lparr>li_state := Item_pending, li_attempts := 0, li_failure := None, li_fingerprint := None, li_revision := CORE_EVENT_REDUCER_REVISION\<rparr>
      else i)"

definition pending_items :: "ident \<Rightarrow> 'w core_inbox \<Rightarrow> lane_item list" where
  "pending_items lane ib = filter (\<lambda>i. li_laneId i = lane \<and> li_state i = Item_pending
     \<and> (case ib_events ib (li_eventId i) of None \<Rightarrow> False | Some r \<Rightarrow> \<not> er_compacted r)) (ib_items ib)"

definition loadPending :: "ident \<Rightarrow> int \<Rightarrow> 'w core_inbox \<Rightarrow> (CoreEventEnvelope list \<times> ident list) \<times> 'w core_inbox" where
  "loadPending lane limit ib =
     (let ib' = ib\<lparr>ib_items := map (revive_item lane) (ib_items ib)\<rparr>;
          rows = take (nat (max 1 (min 128 limit))) (sort_key li_sequence (pending_items lane ib'))
      in ((map (\<lambda>i. er_event (the (ib_events ib' (li_eventId i)))) rows, map li_eventId rows), ib'))"

datatype settlement_outcome = Settle_projected | Settle_ignored | Settle_quarantined
datatype CoreEventSettlementResult = Settled | Retry | Quarantined

definition compensateProjectionEvent :: "ident \<Rightarrow> int \<Rightarrow> projection_gap list \<Rightarrow> projection_gap list" where
  "compensateProjectionEvent eventId revision gaps = map (\<lambda>g.
     if pg_sourceItemId g = eventId \<and> pg_state g = Gap_open \<and> opt_or (pg_requiredVersion g) 0 < revision
     then g\<lparr>pg_state := Gap_compensated, pg_compensatedBy := Some revision\<rparr> else g) gaps"

definition open_gap :: "inbox_owner \<Rightarrow> string \<Rightarrow> string \<Rightarrow> int \<Rightarrow> projection_gap list \<Rightarrow> projection_gap list" where
  "open_gap owner sourceItem code required gaps =
     (if list_ex (\<lambda>g. pg_owner g = owner \<and> pg_sourceItemId g = sourceItem) gaps
      then map (\<lambda>g. if pg_owner g = owner \<and> pg_sourceItemId g = sourceItem
             then g\<lparr>pg_failureCode := code, pg_requiredVersion := Some (max (opt_or (pg_requiredVersion g) 0) required),
                    pg_occurrences := pg_occurrences g + 1, pg_state := Gap_open, pg_compensatedBy := None\<rparr>
             else g) gaps
      else gaps @ [\<lparr>pg_owner = owner, pg_sourceItemId = sourceItem, pg_failureCode = code, pg_requiredVersion = Some required,
                    pg_occurrences = 1, pg_state = Gap_open, pg_compensatedBy = None, pg_details = None\<rparr>])"

text \<open>The order in which the events of a turn were projected.\<close>

definition recordConversationTurnProjectionOrder :: "ident \<Rightarrow> 'w core_inbox \<Rightarrow> 'w core_inbox" where
  "recordConversationTurnProjectionOrder eventId ib = (case ib_events ib eventId of
       None \<Rightarrow> ib
     | Some r \<Rightarrow> (case ce_turnId (er_event r) of
          None \<Rightarrow> ib
        | Some turnId \<Rightarrow>
            if turnId = [] then ib
            else case find (\<lambda>t. tp_agentKind t = ce_agentKind (er_event r) \<and> tp_sessionId t = ce_sessionId (er_event r) \<and> tp_turnId t = turnId) (ib_projections ib) of
                None \<Rightarrow> ib
              | Some t \<Rightarrow>
                  if list_ex (\<lambda>x. te_eventId x = eventId) (ib_turnEvents ib) then ib
                  else ib\<lparr>ib_turnEvents := ib_turnEvents ib @
                        [\<lparr>te_turn = t, te_eventId = eventId, te_sequence = fold max (map te_sequence (filter (\<lambda>x. te_turn x = t) (ib_turnEvents ib))) 0 + 1\<rparr>]\<rparr>))"

definition settle_item :: "lane_item_state \<Rightarrow> lane_item \<Rightarrow> lane_item" where
  "settle_item st i = (if li_state i = Item_pending
     then i\<lparr>li_state := st, li_failure := None, li_fingerprint := None, li_revision := CORE_EVENT_REDUCER_REVISION\<rparr> else i)"

definition projection_attempts :: "lane_item \<Rightarrow> int" where
  "projection_attempts i = (if li_revision i = CORE_EVENT_REDUCER_REVISION then li_attempts i else 0) + 1"

definition fail_item :: "string option \<Rightarrow> lane_item \<Rightarrow> lane_item" where
  "fail_item fingerprint i =
     (if li_state i \<noteq> Item_pending then i
      else let exhausted = (CORE_EVENT_MAX_PROJECTION_ATTEMPTS \<le> projection_attempts i)
           in i\<lparr>li_state := (if exhausted then Item_quarantined else Item_pending), li_failure := (if exhausted then fingerprint else None),
                li_fingerprint := fingerprint, li_attempts := projection_attempts i, li_revision := CORE_EVENT_REDUCER_REVISION\<rparr>)"

definition settlement_code :: "string option \<Rightarrow> string" where
  "settlement_code fingerprint = ''projection_'' @ (case fingerprint of None \<Rightarrow> ''failed'' | Some f \<Rightarrow> take 16 f)"

definition settle_failed :: "ident \<Rightarrow> ident \<Rightarrow> string option \<Rightarrow> inbox_owner option \<Rightarrow> CoreEventSettlementResult \<times> 'w core_inbox
    \<Rightarrow> CoreEventSettlementResult \<times> 'w core_inbox" where
  "settle_failed lane eventId fingerprint owner s = (case find (\<lambda>i. is_item lane eventId i \<and> li_state i = Item_pending) (ib_items (snd s)) of
       None \<Rightarrow> s
     | Some i \<Rightarrow>
         let exhausted = (CORE_EVENT_MAX_PROJECTION_ATTEMPTS \<le> projection_attempts i); ib = snd s
         in (if \<not> exhausted then Retry else if fst s = Settled then Quarantined else fst s,
             ib\<lparr>ib_items := update_item lane eventId (fail_item fingerprint) (ib_items ib),
                ib_gaps := (case owner of
                     Some w \<Rightarrow> if exhausted then open_gap w eventId (settlement_code fingerprint) CORE_EVENT_REDUCER_REVISION (ib_gaps ib) else ib_gaps ib
                   | None \<Rightarrow> ib_gaps ib)\<rparr>))"

definition settle_done :: "ident \<Rightarrow> ident \<Rightarrow> bool \<Rightarrow> CoreEventSettlementResult \<times> 'w core_inbox \<Rightarrow> CoreEventSettlementResult \<times> 'w core_inbox" where
  "settle_done lane eventId projected s =
     (let ib = (snd s)\<lparr>ib_items := update_item lane eventId (settle_item (if projected then Item_projected else Item_ignored)) (ib_items (snd s))\<rparr>
      in (fst s, if projected
          then (let ordered = recordConversationTurnProjectionOrder eventId ib
                in ordered\<lparr>ib_gaps := compensateProjectionEvent eventId CORE_EVENT_REDUCER_REVISION (ib_gaps ordered)\<rparr>)
          else ib))"

text \<open>\<^verbatim>\<open>new Set(eventIds)\<close>: every id once, at its first position.\<close>

definition acknowledge :: "'w inbox_env \<Rightarrow> ident \<Rightarrow> ident list \<Rightarrow> settlement_outcome \<Rightarrow> string option \<Rightarrow> inbox_owner option \<Rightarrow> 'w core_inbox
    \<Rightarrow> CoreEventSettlementResult \<times> 'w core_inbox" where
  "acknowledge env lane eventIds outcome fingerprint owner ib =
     (let captured = (case owner of
            Some w \<Rightarrow> if outcome = Settle_projected \<and> eventIds \<noteq> [] then ib\<lparr>ib_world := env_capture env lane eventIds w (ib_world ib)\<rparr> else ib
          | None \<Rightarrow> ib)
      in fold (\<lambda>eventId. if outcome = Settle_quarantined then settle_failed lane eventId fingerprint owner
                         else settle_done lane eventId (outcome = Settle_projected))
           (rev (remdups (rev eventIds))) (Settled, captured))"

subsection \<open>How the inbox evolves\<close>

text \<open>
  The retention of payloads compacts event rows, other transactions change the rest of the
  database and add turn projections; both are steps of the environment.
\<close>

inductive inbox_step :: "'w inbox_env \<Rightarrow> 'w core_inbox \<Rightarrow> 'w core_inbox \<Rightarrow> bool" for env where
  ingested: "ingestBatch env b ib = Inr (outcome, notify, ib') \<Longrightarrow> inbox_step env ib ib'"
| bootstrapped: "bootstrapExpiredLane env lb ib = Inr (moved, ib') \<Longrightarrow> inbox_step env ib ib'"
| rebased: "rebaseExpiredCheckpoint env cr ib = Inr (moved, ib') \<Longrightarrow> inbox_step env ib ib'"
| epoch_changed: "rebaseEpochTransition env et ib = Inr (moved, ib') \<Longrightarrow> inbox_step env ib ib'"
| source_changed: "transitionSource env st ib = Inr (moved, ib') \<Longrightarrow> inbox_step env ib ib'"
| gap_recorded: "recordInvalidCursorGap env ic ib = Inr ib' \<Longrightarrow> inbox_step env ib ib'"
| loaded: "inbox_step env ib (snd (loadPending lane limit ib))"
| acknowledged: "inbox_step env ib (snd (acknowledge env lane eventIds outcome fingerprint owner ib))"
| compacted: "ib_events ib k = Some r \<Longrightarrow>
    inbox_step env ib (ib\<lparr>ib_events := (ib_events ib)(k \<mapsto> r\<lparr>er_compacted := True, er_payloadHash := h\<rparr>)\<rparr>)"
| elsewhere: "inbox_step env ib (ib\<lparr>ib_world := w, ib_projections := ps\<rparr>)"

definition empty_inbox :: "'w core_inbox \<Rightarrow> bool" where
  "empty_inbox ib \<longleftrightarrow> ib_events ib = Map.empty \<and> ib_items ib = [] \<and> ib_checkpoints ib = Map.empty \<and> ib_submissions ib = []
     \<and> ib_gaps ib = [] \<and> ib_turnEvents ib = []"

text \<open>The lanes as a log: who was numbered what.\<close>

definition lane_log :: "lane_item list \<Rightarrow> (ident \<times> ident \<times> int) list" where
  "lane_log items = map (\<lambda>i. (li_laneId i, li_eventId i, li_sequence i)) items"

definition lane_numbers :: "ident \<Rightarrow> (ident \<times> ident \<times> int) list \<Rightarrow> int list" where
  "lane_numbers lane L = map (\<lambda>(l, e, n). n) (filter (\<lambda>(l, e, n). l = lane) L)"

definition log_ok :: "(ident \<times> ident \<times> int) list \<Rightarrow> bool" where
  "log_ok L \<longleftrightarrow> distinct (map (\<lambda>(l, e, n). (l, e)) L) \<and> (\<forall>lane. lane_numbers lane L = [1..int (length (lane_numbers lane L))])"

definition lane_item_ok :: "lane_item \<Rightarrow> bool" where
  "lane_item_ok i \<longleftrightarrow> li_revision i = CORE_EVENT_REDUCER_REVISION \<and> 0 \<le> li_attempts i \<and> li_attempts i \<le> CORE_EVENT_MAX_PROJECTION_ATTEMPTS
     \<and> (li_state i = Item_pending \<longrightarrow> li_attempts i < CORE_EVENT_MAX_PROJECTION_ATTEMPTS)
     \<and> (li_state i = Item_quarantined \<longrightarrow> li_attempts i = CORE_EVENT_MAX_PROJECTION_ATTEMPTS)
     \<and> 0 \<le> li_conflicts i \<and> li_conflicts i \<le> MAX_CONFLICT_COUNT"

definition submissions_ok :: "canonical_submission list \<Rightarrow> bool" where
  "submissions_ok cs \<longleftrightarrow> distinct (map cs_submissionId cs) \<and> distinct (map cs_eventId cs)"

definition inbox_inv :: "'w core_inbox \<Rightarrow> bool" where
  "inbox_inv ib \<longleftrightarrow> log_ok (lane_log (ib_items ib)) \<and> (\<forall>i \<in> set (ib_items ib). lane_item_ok i \<and> ib_events ib (li_eventId i) \<noteq> None)
     \<and> (\<forall>k r. ib_events ib k = Some r \<longrightarrow> ce_eventId (er_event r) = k) \<and> submissions_ok (ib_submissions ib)"

definition item_after :: "lane_item \<Rightarrow> lane_item \<Rightarrow> bool" where
  "item_after i i' \<longleftrightarrow> li_laneId i' = li_laneId i \<and> li_eventId i' = li_eventId i \<and> li_sequence i' = li_sequence i
     \<and> (li_state i \<noteq> Item_pending \<longrightarrow> li_state i' = li_state i) \<and> li_attempts i \<le> li_attempts i'"

definition items_after :: "lane_item list \<Rightarrow> lane_item list \<Rightarrow> bool" where
  "items_after items items' \<longleftrightarrow> length items \<le> length items' \<and> list_all2 item_after items (take (length items) items')"

definition grows :: "'w core_inbox \<Rightarrow> 'w core_inbox \<Rightarrow> bool" where
  "grows ib ib' \<longleftrightarrow> items_after (ib_items ib) (ib_items ib')
     \<and> (\<forall>k r. ib_events ib k = Some r \<longrightarrow> (\<exists>r'. ib_events ib' k = Some r' \<and> er_event r' = er_event r))
     \<and> (\<exists>new. ib_submissions ib' = ib_submissions ib @ new)"

lemma item_after_refl: "item_after i i"
  by (simp add: item_after_def)

lemma item_after_trans: "item_after i j \<Longrightarrow> item_after j k \<Longrightarrow> item_after i k"
  by (auto simp: item_after_def)

lemma items_after_refl: "items_after items items"
  by (simp add: items_after_def list_all2_refl item_after_refl)

lemma items_after_trans:
  assumes "items_after xs ys" and "items_after ys zs" shows "items_after xs zs"
proof -
  have "list_all2 item_after xs (take (length xs) ys)" "list_all2 item_after (take (length xs) ys) (take (length xs) zs)"
    using assms by (auto simp: items_after_def min_def dest: list_all2_takeI [where n = "length xs"])
  from list_all2_trans [OF item_after_trans this] assms show ?thesis by (simp add: items_after_def)
qed

lemma items_after_append: "items_after items (items @ new)"
  by (simp add: items_after_def list_all2_refl item_after_refl)

lemma grows_refl: "grows ib ib"
  by (auto simp: grows_def items_after_refl)

lemma grows_trans: "grows a b \<Longrightarrow> grows b c \<Longrightarrow> grows a c"
  unfolding grows_def by (metis append.assoc items_after_trans)

lemma items_after_map: "(\<And>i. i \<in> set items \<Longrightarrow> item_after i (f i)) \<Longrightarrow> items_after items (map f items)"
  by (simp add: items_after_def list_all2_map2 list_all2_same)

lemma lane_log_map: "(\<And>i. i \<in> set items \<Longrightarrow> item_after i (f i)) \<Longrightarrow> lane_log (map f items) = lane_log items"
  by (simp add: lane_log_def item_after_def)

text \<open>Changing items in place, keeping what the invariant asks of each.\<close>

lemma map_items_ok:
  assumes "inbox_inv ib" and "\<And>i. i \<in> set (ib_items ib) \<Longrightarrow> lane_item_ok i \<Longrightarrow> item_after i (f i) \<and> lane_item_ok (f i)"
  shows "inbox_inv (ib\<lparr>ib_items := map f (ib_items ib)\<rparr>) \<and> grows ib (ib\<lparr>ib_items := map f (ib_items ib)\<rparr>)"
proof -
  have f: "item_after i (f i)" "lane_item_ok (f i)" if "i \<in> set (ib_items ib)" for i
    using assms that by (auto simp: inbox_inv_def)
  then show ?thesis
    using assms(1) items_after_map [of "ib_items ib" f] lane_log_map [of "ib_items ib" f]
    by (auto simp: inbox_inv_def grows_def item_after_def)
qed

lemma same_tables:
  assumes "ib_items ib' = ib_items ib" and "ib_events ib' = ib_events ib" and "ib_submissions ib' = ib_submissions ib"
  shows "(inbox_inv ib' \<longleftrightarrow> inbox_inv ib) \<and> grows ib ib'"
  using assms by (auto simp: inbox_inv_def grows_def items_after_refl)

lemma update_item_ok:
  assumes "inbox_inv ib" and "\<And>i. lane_item_ok i \<Longrightarrow> item_after i (f i) \<and> lane_item_ok (f i)"
  shows "inbox_inv (ib\<lparr>ib_items := update_item lane e f (ib_items ib)\<rparr>) \<and> grows ib (ib\<lparr>ib_items := update_item lane e f (ib_items ib)\<rparr>)"
  unfolding update_item_def using assms(2) by (intro map_items_ok [OF assms(1)]) (simp add: item_after_refl)

lemma conflict_ok: "inbox_inv ib \<Longrightarrow> inbox_inv (ib\<lparr>ib_items := settleConflict env lane e (ib_items ib)\<rparr>)
    \<and> grows ib (ib\<lparr>ib_items := settleConflict env lane e (ib_items ib)\<rparr>)"
  unfolding settleConflict_def by (rule update_item_ok) (auto simp: lane_item_ok_def item_after_def MAX_CONFLICT_COUNT_def)

lemma ignore_ok: "inbox_inv ib \<Longrightarrow> inbox_inv (ib\<lparr>ib_items := ignoreLaneItem lane e (ib_items ib)\<rparr>)
    \<and> grows ib (ib\<lparr>ib_items := ignoreLaneItem lane e (ib_items ib)\<rparr>)"
  unfolding ignoreLaneItem_def by (rule update_item_ok) (auto simp: lane_item_ok_def item_after_def)

lemma fold_max_upto: "fold max [1..int n] 0 = int n"
proof (induction n)
  case (Suc n)
  have "[1..int (Suc n)] = [1..int n] @ [int (Suc n)]" using upto_rec2 [of 1 "int (Suc n)"] by simp
  with Suc show ?case by simp
qed simp

lemma maximum_sequence_eq:
  assumes "log_ok (lane_log items)"
  shows "maximum_sequence lane items = int (length (lane_numbers lane (lane_log items)))"
proof -
  have "map li_sequence (filter (\<lambda>i. li_laneId i = lane) items) = lane_numbers lane (lane_log items)"
    by (simp add: lane_numbers_def lane_log_def filter_map comp_def)
  with assms show ?thesis unfolding maximum_sequence_def log_ok_def by (metis fold_max_upto)
qed

lemma lane_numbers_append: "lane_numbers lane (L @ M) = lane_numbers lane L @ lane_numbers lane M"
  by (simp add: lane_numbers_def)

lemma append_item_ok:
  assumes "inbox_inv ib" and "find (is_item lane e) (ib_items ib) = None" and "ib_events ib e \<noteq> None" and "lane_item_ok (new_item lane e (maximum_sequence lane (ib_items ib) + 1) st)"
  defines "items \<equiv> ib_items ib @ [new_item lane e (maximum_sequence lane (ib_items ib) + 1) st]"
  shows "inbox_inv (ib\<lparr>ib_items := items\<rparr>) \<and> grows ib (ib\<lparr>ib_items := items\<rparr>)"
proof -
  have log: "log_ok (lane_log (ib_items ib))" using assms(1) by (simp add: inbox_inv_def)
  define n where "n = length (lane_numbers lane (lane_log (ib_items ib)))"
  have seq: "maximum_sequence lane (ib_items ib) = int n" using maximum_sequence_eq [OF log] by (simp add: n_def)
  have "lane_log items = lane_log (ib_items ib) @ [(lane, e, int n + 1)]" by (simp add: items_def lane_log_def new_item_def seq)
  moreover have "(lane, e) \<notin> set (map (\<lambda>(l, e, n). (l, e)) (lane_log (ib_items ib)))"
    using assms(2) by (auto simp: lane_log_def is_item_def find_None_iff)
  moreover have "lane_numbers l (lane_log (ib_items ib) @ [(lane, e, int n + 1)])
      = [1..int (length (lane_numbers l (lane_log (ib_items ib) @ [(lane, e, int n + 1)])))]" for l
  proof (cases "l = lane")
    case True
    have "lane_numbers lane (lane_log (ib_items ib)) = [1..int n]" using log unfolding log_ok_def n_def by blast
    with True show ?thesis using upto_rec2 [of 1 "int n + 1"] by (simp add: lane_numbers_append) (simp add: lane_numbers_def add.commute)
  next
    case False
    then have "lane_numbers l [(lane, e, int n + 1)] = []" by (simp add: lane_numbers_def)
    with log show ?thesis by (simp add: lane_numbers_append log_ok_def)
  qed
  ultimately have "log_ok (lane_log items)" using log by (auto simp: log_ok_def)
  then show ?thesis
    using assms(1,3,4) by (auto simp: inbox_inv_def grows_def items_def items_after_append new_item_def)
qed

lemma insert_event_ok:
  assumes "inbox_inv ib"
  shows "inbox_inv (ib\<lparr>ib_events := insert_event e (ib_events ib)\<rparr>) \<and> grows ib (ib\<lparr>ib_events := insert_event e (ib_events ib)\<rparr>)
    \<and> insert_event e (ib_events ib) (ce_eventId e) \<noteq> None"
  using assms by (auto simp: inbox_inv_def grows_def insert_event_def items_after_refl split: option.splits)

lemma canonical_observe_ok:
  assumes "observeCanonicalHumanMessage env e ib = Some ib'" and "inbox_inv ib"
  shows "inbox_inv ib' \<and> grows ib ib' \<and> ib_items ib' = ib_items ib \<and> ib_events ib' = ib_events ib \<and> ib_checkpoints ib' = ib_checkpoints ib"
  using assms
  by (fastforce simp: observeCanonicalHumanMessage_def Let_def inbox_inv_def grows_def submissions_ok_def items_after_refl list_all_iff
      split: option.splits if_splits)

lemma project_ok:
  assumes "project_event env b n stored ib = Some ib'" and "inbox_inv ib"
  shows "inbox_inv ib' \<and> grows ib ib' \<and> ib_items ib' = ib_items ib \<and> ib_events ib' = ib_events ib \<and> ib_checkpoints ib' = ib_checkpoints ib"
proof -
  from assms(1) obtain w where w: "env_project env b n (sv_event stored) (ib_world ib) = Some w"
    and res: "if sv_admission stored = Adm_new then observeCanonicalHumanMessage env (sv_event stored) (ib\<lparr>ib_world := w\<rparr>) = Some ib'
       else ib' = ib\<lparr>ib_world := w\<rparr>"
    by (auto simp: project_event_def split: option.splits if_splits)
  have world: "inbox_inv (ib\<lparr>ib_world := w\<rparr>)" "grows ib (ib\<lparr>ib_world := w\<rparr>)" using same_tables [of "ib\<lparr>ib_world := w\<rparr>" ib] assms(2) by simp_all
  show ?thesis
  proof (cases "sv_admission stored = Adm_new")
    case True
    with res canonical_observe_ok [OF _ world(1)] world(2) show ?thesis by (fastforce intro: grows_trans)
  next
    case False
    with res world show ?thesis by simp
  qed
qed

lemma new_item_ok: "lane_item_ok (new_item lane e n st)" if "st \<noteq> Item_quarantined"
  using that by (simp add: lane_item_ok_def new_item_def CORE_EVENT_REDUCER_REVISION_def CORE_EVENT_MAX_PROJECTION_ATTEMPTS_def MAX_CONFLICT_COUNT_def)

lemma place_event_ok:
  assumes "inbox_inv ib" and "ib_events ib e \<noteq> None" and "place_event b e stored (ib_items ib) = (items, n, st, inserted)"
  shows "inbox_inv (ib\<lparr>ib_items := items\<rparr>) \<and> grows ib (ib\<lparr>ib_items := items\<rparr>)"
proof (cases "find (is_item (cb_laneId b) e) (ib_items ib)")
  case None
  with append_item_ok [OF assms(1) None assms(2)] new_item_ok assms(3) show ?thesis
    by (auto simp: place_event_def Let_def split: if_splits)
next
  case (Some i)
  with assms(3) have "items = ib_items ib" by (simp add: place_event_def)
  with assms(1) grows_refl [of ib] show ?thesis by simp
qed

lemma ingest_event_ok:
  assumes "ingest_event env b e s = Inr s'" and "inbox_inv (fst s)"
  shows "inbox_inv (fst s') \<and> grows (fst s) (fst s') \<and> ib_checkpoints (fst s') = ib_checkpoints (fst s)"
proof -
  let ?ib = "fst s" and ?stored = "storeEvent env e (ib_events (fst s) (ce_eventId e))"
  obtain items n st inserted where placed: "place_event b (ce_eventId e) ?stored (ib_items ?ib) = (items, n, st, inserted)"
    by (metis prod_cases4)
  define ib0 where "ib0 = ?ib\<lparr>ib_events := insert_event e (ib_events ?ib)\<rparr>"
  define ib1 where "ib1 = ib0\<lparr>ib_items := (if sv_admission ?stored = Adm_conflict then settleConflict env (cb_laneId b) e items else items)\<rparr>"
  have 0: "inbox_inv ib0" "grows ?ib ib0" "ib_events ib0 (ce_eventId e) \<noteq> None"
    using insert_event_ok [OF assms(2), of e] by (simp_all add: ib0_def)
  have "ib_items ib0 = ib_items ?ib" by (simp add: ib0_def)
  with place_event_ok [OF 0(1,3), of b ?stored items n st inserted] placed
  have placed_ok: "inbox_inv (ib0\<lparr>ib_items := items\<rparr>)" "grows ib0 (ib0\<lparr>ib_items := items\<rparr>)" by simp_all
  have 1: "inbox_inv ib1" "grows ?ib ib1" "ib_checkpoints ib1 = ib_checkpoints ?ib"
    using placed_ok conflict_ok [OF placed_ok(1), of env "cb_laneId b" e] grows_trans [OF 0(2)] grows_trans [OF placed_ok(2)]
    by (auto simp: ib1_def ib0_def)
  consider (plain) "fst s' = ib1"
    | (projected) ib2 where "project_event env b n ?stored ib1 = Some ib2" "fst s' = ib2 \<or> fst s' = ib2\<lparr>ib_items := ignoreLaneItem (cb_laneId b) (ce_eventId e) (ib_items ib2)\<rparr>"
    using assms(1) unfolding ingest_event_def placed Let_def ib1_def ib0_def
    by (auto simp: placed split: if_splits option.splits)
  then show ?thesis
  proof cases
    case plain
    with 1 show ?thesis by simp
  next
    case (projected ib2)
    from project_ok [OF projected(1) 1(1)] have 2: "inbox_inv ib2" "grows ib1 ib2" "ib_checkpoints ib2 = ib_checkpoints ib1" by blast+
    with projected(2) 1 ignore_ok [OF 2(1), of "cb_laneId b" "ce_eventId e"] grows_trans show ?thesis by fastforce
  qed
qed

lemma ingest_events_ok:
  assumes "ingest_events env b es s = Inr s'" and "inbox_inv (fst s)"
  shows "inbox_inv (fst s') \<and> grows (fst s) (fst s') \<and> ib_checkpoints (fst s') = ib_checkpoints (fst s)"
  using assms
proof (induction es arbitrary: s)
  case (Cons e es)
  then obtain s1 where s1: "ingest_event env b e s = Inr s1" "ingest_events env b es s1 = Inr s'" by (auto split: sum.splits)
  from ingest_event_ok [OF s1(1) Cons.prems(2)] Cons.IH [OF s1(2)] grows_trans show ?case by metis
qed (auto simp: grows_refl)

lemma stale_replay_ok:
  "inbox_inv ib \<Longrightarrow> inbox_inv (fold (stale_event env b) es ib) \<and> grows ib (fold (stale_event env b) es ib)
     \<and> ib_checkpoints (fold (stale_event env b) es ib) = ib_checkpoints ib"
proof (induction es arbitrary: ib)
  case (Cons e es)
  have "inbox_inv (stale_event env b e ib) \<and> grows ib (stale_event env b e ib) \<and> ib_checkpoints (stale_event env b e ib) = ib_checkpoints ib"
    using conflict_ok [OF Cons.prems] by (auto simp: stale_event_def Cons.prems grows_refl)
  with Cons.IH [of "stale_event env b e ib"] grows_trans show ?case by (metis fold_simps(2))
qed (simp add: grows_refl)

lemma ingestBatch_ok:
  assumes "ingestBatch env b ib = Inr (outcome, notify, ib')" and "inbox_inv ib"
  shows "inbox_inv ib' \<and> grows ib ib'"
proof -
  consider (same) "ib' = ib" | (stale) "ib' = acceptStaleReplay env b ib" | (current) "ingest_current env b ib = Inr (outcome, notify, ib')"
    using assms(1) by (auto simp: ingestBatch_def Let_def split: option.splits if_splits)
  then show ?thesis
  proof cases
    case same
    with assms(2) grows_refl show ?thesis by simp
  next
    case stale
    with stale_replay_ok [OF assms(2)] show ?thesis by (simp add: acceptStaleReplay_def)
  next
    case current
    then obtain s' where s': "ingest_events env b (cb_events b) (ib, []) = Inr s'"
      "ib' = (fst s')\<lparr>ib_checkpoints := (ib_checkpoints (fst s'))(cb_laneId b \<mapsto> batch_checkpoint b (cb_nextCursor b))\<rparr>"
      by (auto simp: ingest_current_def split: sum.splits)
    from ingest_events_ok [OF s'(1)] assms(2) have "inbox_inv (fst s') \<and> grows ib (fst s')" by simp
    with s'(2) same_tables [of ib' "fst s'"] grows_trans show ?thesis by fastforce
  qed
qed

text \<open>The moves of a lane leave the log and the stored events alone.\<close>

lemmas lane_moves = bootstrapExpiredLane_def rebaseExpiredCheckpoint_def rebaseEpochTransition_def transitionSource_def recordInvalidCursorGap_def

lemma move_ok:
  "bootstrapExpiredLane env lb ib = Inr (moved, ib') \<Longrightarrow> inbox_inv ib \<Longrightarrow> inbox_inv ib' \<and> grows ib ib'"
  "rebaseExpiredCheckpoint env cr ib = Inr (moved, ib') \<Longrightarrow> inbox_inv ib \<Longrightarrow> inbox_inv ib' \<and> grows ib ib'"
  "rebaseEpochTransition env et ib = Inr (moved, ib') \<Longrightarrow> inbox_inv ib \<Longrightarrow> inbox_inv ib' \<and> grows ib ib'"
  "transitionSource env st ib = Inr (moved, ib') \<Longrightarrow> inbox_inv ib \<Longrightarrow> inbox_inv ib' \<and> grows ib ib'"
  "recordInvalidCursorGap env ic ib = Inr ib' \<Longrightarrow> inbox_inv ib \<Longrightarrow> inbox_inv ib' \<and> grows ib ib'"
  using same_tables [of ib' ib] by (auto simp: lane_moves split: if_splits option.splits)

lemma load_ok: "inbox_inv ib \<Longrightarrow> inbox_inv (snd (loadPending lane limit ib)) \<and> grows ib (snd (loadPending lane limit ib))"
  unfolding loadPending_def Let_def snd_conv
  by (rule map_items_ok) (auto simp: revive_item_def lane_item_ok_def item_after_def)

lemma fail_item_ok: "lane_item_ok i \<Longrightarrow> item_after i (fail_item f i) \<and> lane_item_ok (fail_item f i)"
  by (auto simp: lane_item_ok_def item_after_def fail_item_def Let_def projection_attempts_def CORE_EVENT_MAX_PROJECTION_ATTEMPTS_def)

lemma settle_item_ok: "st \<in> {Item_projected, Item_ignored} \<Longrightarrow> lane_item_ok i \<Longrightarrow> item_after i (settle_item st i) \<and> lane_item_ok (settle_item st i)"
  by (auto simp: lane_item_ok_def item_after_def settle_item_def)

lemma projection_order_frame:
  "ib_items (recordConversationTurnProjectionOrder e ib) = ib_items ib"
  "ib_events (recordConversationTurnProjectionOrder e ib) = ib_events ib"
  "ib_submissions (recordConversationTurnProjectionOrder e ib) = ib_submissions ib"
  "ib_checkpoints (recordConversationTurnProjectionOrder e ib) = ib_checkpoints ib"
  by (auto simp: recordConversationTurnProjectionOrder_def split: option.splits if_splits)

lemma settle_failed_ok:
  assumes "inbox_inv (snd s)"
  shows "inbox_inv (snd (settle_failed lane e f owner s)) \<and> grows (snd s) (snd (settle_failed lane e f owner s))"
proof (cases "find (\<lambda>i. is_item lane e i \<and> li_state i = Item_pending) (ib_items (snd s))")
  case None
  with assms grows_refl show ?thesis by (simp add: settle_failed_def)
next
  case (Some i)
  define ib1 where "ib1 = (snd s)\<lparr>ib_items := update_item lane e (fail_item f) (ib_items (snd s))\<rparr>"
  have "inbox_inv ib1" "grows (snd s) ib1"
    using update_item_ok [OF assms, of "fail_item f" lane e] fail_item_ok unfolding ib1_def by blast+
  moreover have "(inbox_inv (snd (settle_failed lane e f owner s)) \<longleftrightarrow> inbox_inv ib1) \<and> grows ib1 (snd (settle_failed lane e f owner s))"
    by (rule same_tables) (simp_all add: settle_failed_def Some Let_def ib1_def)
  ultimately show ?thesis using grows_trans by blast
qed

lemma settle_done_ok:
  assumes "inbox_inv (snd s)"
  shows "inbox_inv (snd (settle_done lane e p s)) \<and> grows (snd s) (snd (settle_done lane e p s))"
proof -
  define ib1 where "ib1 = (snd s)\<lparr>ib_items := update_item lane e (settle_item (if p then Item_projected else Item_ignored)) (ib_items (snd s))\<rparr>"
  have "inbox_inv ib1 \<and> grows (snd s) ib1" unfolding ib1_def by (rule update_item_ok [OF assms settle_item_ok]) auto
  moreover have "(inbox_inv (snd (settle_done lane e p s)) \<longleftrightarrow> inbox_inv ib1) \<and> grows ib1 (snd (settle_done lane e p s))"
    by (rule same_tables) (auto simp: settle_done_def Let_def ib1_def projection_order_frame)
  ultimately show ?thesis using grows_trans by blast
qed

lemma fold_settles:
  assumes "\<And>e s. inbox_inv (snd s) \<Longrightarrow> inbox_inv (snd (f e s)) \<and> grows (snd s) (snd (f e s))" and "inbox_inv (snd s)"
  shows "inbox_inv (snd (fold f es s)) \<and> grows (snd s) (snd (fold f es s))"
  using assms(2)
proof (induction es arbitrary: s)
  case (Cons e es)
  from assms(1) [OF Cons.prems, of e] Cons.IH [of "f e s"] grows_trans show ?case by (metis fold_simps(2))
qed (simp add: grows_refl)

lemma acknowledge_ok:
  assumes "inbox_inv ib"
  shows "inbox_inv (snd (acknowledge env lane es outcome f owner ib)) \<and> grows ib (snd (acknowledge env lane es outcome f owner ib))"
proof -
  define ib1 where "ib1 = (case owner of
            Some w \<Rightarrow> if outcome = Settle_projected \<and> es \<noteq> [] then ib\<lparr>ib_world := env_capture env lane es w (ib_world ib)\<rparr> else ib
          | None \<Rightarrow> ib)"
  have 1: "inbox_inv ib1" "grows ib ib1" using same_tables [of ib1 ib] assms by (auto simp: ib1_def split: option.splits)
  have "inbox_inv (snd (Settled, ib1))" using 1 by simp
  from fold_settles [OF _ this, of "\<lambda>e. if outcome = Settle_quarantined then settle_failed lane e f owner else settle_done lane e (outcome = Settle_projected)" "rev (remdups (rev es))"]
  show ?thesis using settle_failed_ok settle_done_ok 1(2) grows_trans unfolding acknowledge_def Let_def ib1_def [symmetric] by fastforce
qed

lemma inbox_step_ok: "inbox_step env ib ib' \<Longrightarrow> inbox_inv ib \<Longrightarrow> inbox_inv ib' \<and> grows ib ib'"
proof (induction rule: inbox_step.induct)
  case (compacted ib k r h)
  then show ?case by (auto simp: inbox_inv_def grows_def items_after_refl)
next
  case (elsewhere ib ps w)
  then show ?case using same_tables [of "ib\<lparr>ib_world := w, ib_projections := ps\<rparr>" ib] by simp
qed (rule ingestBatch_ok move_ok load_ok acknowledge_ok; assumption)+

lemma empty_inbox_inv: "empty_inbox ib \<Longrightarrow> inbox_inv ib"
  by (simp add: empty_inbox_def inbox_inv_def log_ok_def lane_log_def lane_numbers_def submissions_ok_def)

interpretation inbox: invariant_system empty_inbox "inbox_step env" inbox_inv
  by unfold_locales (use empty_inbox_inv inbox_step_ok in blast)+

lemma reach_grows:
  assumes "reach empty_inbox (inbox_step env) ib" and "(inbox_step env)\<^sup>*\<^sup>* ib ib'"
  shows "inbox_inv ib' \<and> grows ib ib'"
  using assms(2)
proof induction
  case base
  then show ?case using inbox.reach_inv [OF assms(1)] grows_refl by blast
next
  case (step a b)
  then show ?case using inbox_step_ok [of env a b] grows_trans [of ib a b] by blast
qed

lemma items_after_log:
  assumes "items_after items items'"
  shows "\<exists>new. lane_log items' = lane_log items @ new"
    and "i \<in> set items \<Longrightarrow> \<exists>i' \<in> set items'. item_after i i'"
proof -
  let ?n = "length items"
  have all: "list_all2 item_after items (take ?n items')" using assms by (simp add: items_after_def)
  have "lane_log (take ?n items') = lane_log items"
    using all by (auto simp: lane_log_def list_all2_conv_all_nth item_after_def intro!: nth_equalityI)
  moreover have "lane_log items' = lane_log (take ?n items') @ lane_log (drop ?n items')"
    unfolding lane_log_def by (simp flip: map_append)
  ultimately show "\<exists>new. lane_log items' = lane_log items @ new" by metis
  assume "i \<in> set items"
  with all obtain i' where "i' \<in> set (take ?n items')" "item_after i i'" by (metis in_set_conv_nth list_all2_conv_all_nth)
  then show "\<exists>i' \<in> set items'. item_after i i'" using in_set_takeD by metis
qed

subsection \<open>Properties\<close>


definition inbox_sample_env :: "nat inbox_env" where
  "inbox_sample_env = \<lparr>env_schema = (\<lambda>_. True), env_digest = (\<lambda>_. ''d''), env_eventDigest = (\<lambda>_. ''d''),
     env_project = (\<lambda>_ _ _ w. Some (Suc w)), env_observe = (\<lambda>_ w. Some w), env_capture = (\<lambda>_ _ _ w. w)\<rparr>"

definition sample_batch :: CoreEventInboxBatch where
  "sample_batch = \<lparr>cb_laneId = ''l'', cb_sourceId = ''s1'', cb_sourceEpoch = Some ''x'', cb_agentKind = Traex, cb_sessionId = ''n'',
     cb_afterCursor = ''start'', cb_nextCursor = ''c1'', cb_latestCursor = ''c1'', cb_events = [sample_core_event [(''type'', JString ''turn_started'')]]\<rparr>"

definition sample_inbox :: "nat core_inbox" where
  "sample_inbox = \<lparr>ib_events = Map.empty, ib_items = [], ib_checkpoints = Map.empty, ib_submissions = [], ib_gaps = [],
     ib_projections = [], ib_turnEvents = [], ib_world = 0\<rparr>"

lemma sample_payload: "payload_type (JObject [(''type'', JString ''turn_started'')]) = Some ''turn_started''"
  by (simp add: payload_type_def string_field_def json_field_def)

lemma sample_ingest:
  "\<exists>ib'. ingestBatch inbox_sample_env sample_batch sample_inbox = Inr (Ingest_accepted, True, ib')
     \<and> ib_items ib' = [new_item ''l'' ''e'' 1 Item_pending] \<and> ib_world ib' = 1"
  by (simp add: ingestBatch_def validateBatch_def sample_batch_def sample_core_event_def sample_inbox_def ingest_current_def ingest_event_def
      storeEvent_def place_event_def maximum_sequence_def project_event_def observeCanonicalHumanMessage_def humanSubmissionId_def
      isHumanMessagePayload_def isSourceErrorPayload_def exact_replay_def sample_payload inbox_sample_env_def new_item_def Let_def is_item_def)

lemma sample_inbox_reachable: "reach empty_inbox (inbox_step inbox_sample_env) sample_inbox"
  by (rule reach_start) (simp add: empty_inbox_def sample_inbox_def)


text \<open>What an accepted batch stores.\<close>

lemma ingest_event_stores:
  assumes "ingest_event env b e s = Inr s'"
  shows "ib_events (fst s') = insert_event e (ib_events (fst s)) \<and> ib_checkpoints (fst s') = ib_checkpoints (fst s)"
proof -
  have frame: "project_event env b n stored ib = Some ib' \<Longrightarrow> ib_events ib' = ib_events ib \<and> ib_checkpoints ib' = ib_checkpoints ib" for n stored ib ib'
    by (auto simp: project_event_def observeCanonicalHumanMessage_def Let_def split: option.splits if_splits)
  show ?thesis
    using assms by (auto simp: ingest_event_def Let_def split: prod.splits if_splits option.splits dest!: frame)
qed

lemma ingest_events_store:
  assumes "ingest_events env b es s = Inr s'"
  shows "ib_events (fst s') = fold insert_event es (ib_events (fst s)) \<and> ib_checkpoints (fst s') = ib_checkpoints (fst s)"
  using assms
proof (induction es arbitrary: s)
  case (Cons e es)
  then obtain s1 where "ingest_event env b e s = Inr s1" "ingest_events env b es s1 = Inr s'" by (auto split: sum.splits)
  from ingest_event_stores [OF this(1)] Cons.IH [OF this(2)] show ?case by simp
qed simp

lemma insert_event_keeps: "events k = Some r \<Longrightarrow> fold insert_event es events k = Some r"
proof (induction es arbitrary: events)
  case (Cons e es)
  then have "insert_event e events k = Some r" by (cases "ce_eventId e = k") (auto simp: insert_event_def split: option.splits)
  with Cons.IH show ?case by simp
qed simp

lemma fresh_events_stored:
  assumes "\<forall>e \<in> set es. events (ce_eventId e) = None" and "distinct (map ce_eventId es)" and "e \<in> set es"
  shows "\<exists>r. fold insert_event es events (ce_eventId e) = Some r \<and> er_event r = e \<and> \<not> er_compacted r"
  using assms
proof (induction es arbitrary: events)
  case (Cons a es)
  let ?events = "insert_event a events"
  have stored: "\<exists>r. ?events (ce_eventId a) = Some r \<and> er_event r = a \<and> \<not> er_compacted r" using Cons.prems(1) by (simp add: insert_event_def)
  show ?case
  proof (cases "e = a")
    case True
    with stored insert_event_keeps [of ?events "ce_eventId a" _ es] show ?thesis by auto
  next
    case False
    have "\<forall>x \<in> set es. ?events (ce_eventId x) = None"
    proof
      fix x
      assume "x \<in> set es"
      then have "ce_eventId x \<in> set (map ce_eventId es)" "events (ce_eventId x) = None" using Cons.prems(1) by simp_all
      moreover from this(1) have "ce_eventId x \<noteq> ce_eventId a" using Cons.prems(2) by auto
      ultimately show "?events (ce_eventId x) = None" by (auto simp: insert_event_def split: option.splits)
    qed
    with Cons.IH [of ?events] Cons.prems False show ?thesis by simp
  qed
qed simp

lemma stale_event_frame:
  "\<exists>items. stale_event env b e ib = ib\<lparr>ib_items := items\<rparr> \<and> lane_log items = lane_log (ib_items ib)"
proof (cases "stale_event env b e ib = ib")
  case True
  then show ?thesis by (intro exI [of _ "ib_items ib"]) simp
next
  case False
  then have "stale_event env b e ib = ib\<lparr>ib_items := settleConflict env (cb_laneId b) e (ib_items ib)\<rparr>"
    by (simp add: stale_event_def split: if_split_asm)
  moreover have "lane_log (settleConflict env (cb_laneId b) e (ib_items ib)) = lane_log (ib_items ib)"
    by (simp add: settleConflict_def update_item_def lane_log_def)
  ultimately show ?thesis by blast
qed

lemma stale_replay_frame:
  "\<exists>items. fold (stale_event env b) es ib = ib\<lparr>ib_items := items\<rparr> \<and> lane_log items = lane_log (ib_items ib)"
proof (induction es arbitrary: ib)
  case Nil
  show ?case by (rule exI [of _ "ib_items ib"]) simp
next
  case (Cons e es)
  obtain items where items: "stale_event env b e ib = ib\<lparr>ib_items := items\<rparr>" "lane_log items = lane_log (ib_items ib)"
    using stale_event_frame by blast
  from Cons.IH [of "ib\<lparr>ib_items := items\<rparr>"] obtain items' where
    "fold (stale_event env b) es (ib\<lparr>ib_items := items\<rparr>) = ib\<lparr>ib_items := items'\<rparr>" "lane_log items' = lane_log items" by auto
  with items show ?case by (intro exI [of _ items']) simp
qed

lemma accepted_batch:
  assumes "ingestBatch env b ib = Inr (Ingest_accepted, notify, ib')"
  shows "case ib_checkpoints ib (cb_laneId b) of None \<Rightarrow> True
         | Some c \<Rightarrow> lc_readCursor c = cb_afterCursor b \<and> lc_sourceId c = cb_sourceId b \<and> lc_agentKind c = cb_agentKind b \<and> lc_sessionId c = cb_sessionId b"
    and "ib_checkpoints ib' = (ib_checkpoints ib)(cb_laneId b \<mapsto> batch_checkpoint b (cb_nextCursor b))"
    and "cb_nextCursor b \<noteq> cb_afterCursor b \<longrightarrow> ib_events ib' = fold insert_event (cb_events b) (ib_events ib)"
    and "validateBatch b = None"
proof -
  consider (same) "ib' = ib" "cb_nextCursor b = cb_afterCursor b" "ib_checkpoints ib (cb_laneId b) = Some (batch_checkpoint b (cb_afterCursor b))" "validateBatch b = None"
    | (current) "ingest_current env b ib = Inr (Ingest_accepted, notify, ib')" "validateBatch b = None"
        "case ib_checkpoints ib (cb_laneId b) of None \<Rightarrow> True
         | Some c \<Rightarrow> lc_readCursor c = cb_afterCursor b \<and> lc_sourceId c = cb_sourceId b \<and> lc_agentKind c = cb_agentKind b \<and> lc_sessionId c = cb_sessionId b"
    using assms by (auto simp: ingestBatch_def Let_def split: option.splits if_splits)
  note cases = this
  show "validateBatch b = None" using cases by cases
  show "case ib_checkpoints ib (cb_laneId b) of None \<Rightarrow> True
         | Some c \<Rightarrow> lc_readCursor c = cb_afterCursor b \<and> lc_sourceId c = cb_sourceId b \<and> lc_agentKind c = cb_agentKind b \<and> lc_sessionId c = cb_sessionId b"
    using cases by cases (simp_all add: batch_checkpoint_def)
  have stored: "ib_events ib' = fold insert_event (cb_events b) (ib_events ib)
      \<and> ib_checkpoints ib' = (ib_checkpoints ib)(cb_laneId b \<mapsto> batch_checkpoint b (cb_nextCursor b))"
    if "ingest_current env b ib = Inr (Ingest_accepted, notify, ib')"
    using that by (auto simp: ingest_current_def split: sum.splits dest!: ingest_events_store)
  show "ib_checkpoints ib' = (ib_checkpoints ib)(cb_laneId b \<mapsto> batch_checkpoint b (cb_nextCursor b))"
    using cases by cases (simp_all add: stored fun_upd_idem)
  show "cb_nextCursor b \<noteq> cb_afterCursor b \<longrightarrow> ib_events ib' = fold insert_event (cb_events b) (ib_events ib)"
    using cases by cases (simp_all add: stored)
qed

text \<open>
  C7: Two readers of one source cannot both advance its lane. A batch is accepted only from
  the very cursor the lane has reached, in the same source, agent and session, and moves
  the lane to its own next cursor; once it is accepted, a batch read from the old cursor is
  stale. A stale batch stores no event, numbers none, projects none and moves no cursor; it
  can at most record a conflict. Delivering an accepted batch of new events again changes
  nothing at all.
\<close>
theorem core_readers_are_fenced:
  assumes "ingestBatch env b ib = Inr (outcome, notify, ib')"
  shows "(outcome = Ingest_accepted \<longrightarrow>
       (case ib_checkpoints ib (cb_laneId b) of None \<Rightarrow> True
         | Some c \<Rightarrow> lc_readCursor c = cb_afterCursor b \<and> lc_sourceId c = cb_sourceId b \<and> lc_agentKind c = cb_agentKind b \<and> lc_sessionId c = cb_sessionId b)
       \<and> ib_checkpoints ib' = (ib_checkpoints ib)(cb_laneId b \<mapsto> batch_checkpoint b (cb_nextCursor b))
       \<and> (cb_nextCursor b \<noteq> cb_afterCursor b \<longrightarrow> cb_laneId d = cb_laneId b \<longrightarrow> cb_afterCursor d = cb_afterCursor b \<longrightarrow>
            (\<forall>n ib''. ingestBatch env d ib' \<noteq> Inr (Ingest_accepted, n, ib'')))
       \<and> (cb_nextCursor b \<noteq> cb_afterCursor b \<longrightarrow> distinct (map ce_eventId (cb_events b)) \<longrightarrow>
            (\<forall>e \<in> set (cb_events b). ib_events ib (ce_eventId e) = None \<and> semanticIdentity (env_schema env) e \<noteq> None) \<longrightarrow>
            ingestBatch env b ib' = Inr (Ingest_stale_rebase, False, ib')))
    \<and> (outcome = Ingest_stale_rebase \<longrightarrow> \<not> notify \<and> ib' = ib\<lparr>ib_items := ib_items ib'\<rparr> \<and> lane_log (ib_items ib') = lane_log (ib_items ib))"
proof (cases outcome)
  case Ingest_stale_rebase
  with assms have "\<not> notify" "ib' = acceptStaleReplay env b ib"
    by (auto simp: ingestBatch_def ingest_current_def Let_def split: option.splits if_splits sum.splits)
  with Ingest_stale_rebase stale_replay_frame [of env b "cb_events b" ib] show ?thesis by (auto simp: acceptStaleReplay_def)
next
  case Ingest_accepted
  note moved = accepted_batch [OF assms [unfolded Ingest_accepted]]
  have second: "ingestBatch env d ib' \<noteq> Inr (Ingest_accepted, n, ib'')"
    if "cb_nextCursor b \<noteq> cb_afterCursor b" "cb_laneId d = cb_laneId b" "cb_afterCursor d = cb_afterCursor b" for n ib''
  proof
    assume "ingestBatch env d ib' = Inr (Ingest_accepted, n, ib'')"
    from accepted_batch(1) [OF this] that moved(2) show False by (simp add: batch_checkpoint_def)
  qed
  have again: "ingestBatch env b ib' = Inr (Ingest_stale_rebase, False, ib')"
    if moves: "cb_nextCursor b \<noteq> cb_afterCursor b" and ids: "distinct (map ce_eventId (cb_events b))"
      and fresh: "\<forall>e \<in> set (cb_events b). ib_events ib (ce_eventId e) = None \<and> semanticIdentity (env_schema env) e \<noteq> None"
  proof -
    have events: "ib_events ib' = fold insert_event (cb_events b) (ib_events ib)" using moved(3) moves by blast
    have same: "stale_event env b e ib' = ib'" if "e \<in> set (cb_events b)" for e
    proof -
      from fresh_events_stored [OF _ ids that] fresh events
      obtain r where r: "ib_events ib' (ce_eventId e) = Some r" "er_event r = e" "\<not> er_compacted r" by auto
      moreover have "sameCoreEventSemantics (env_schema env) (env_digest env) e e"
        using fresh that by (auto simp: sameCoreEventSemantics_def coreEventSemanticHash_def)
      ultimately show ?thesis by (simp add: stale_event_def storeEvent_def)
    qed
    have "fold (stale_event env b) es ib' = ib'" if "set es \<subseteq> set (cb_events b)" for es
      using that by (induction es) (simp_all add: same)
    then show ?thesis using moved(2,4) moves by (simp add: ingestBatch_def batch_checkpoint_def acceptStaleReplay_def Let_def)
  qed
  show ?thesis using moved(1,2) second again Ingest_accepted by auto
qed

theorem core_readers_are_fenced_witness:
  "\<exists>ib'. ingestBatch inbox_sample_env sample_batch sample_inbox = Inr (Ingest_accepted, True, ib')
     \<and> ingestBatch inbox_sample_env sample_batch ib' = Inr (Ingest_stale_rebase, False, ib')"
proof -
  obtain ib' where ib': "ingestBatch inbox_sample_env sample_batch sample_inbox = Inr (Ingest_accepted, True, ib')" using sample_ingest by blast
  have identity: "semanticIdentity (\<lambda>_. True) (sample_core_event [(''type'', JString ''turn_started'')]) \<noteq> None" by code_simp
  have "cb_nextCursor sample_batch \<noteq> cb_afterCursor sample_batch" "distinct (map ce_eventId (cb_events sample_batch))"
    "\<forall>e \<in> set (cb_events sample_batch). ib_events sample_inbox (ce_eventId e) = None \<and> semanticIdentity (env_schema inbox_sample_env) e \<noteq> None"
    using identity by (simp_all add: sample_batch_def sample_inbox_def inbox_sample_env_def)
  with core_readers_are_fenced [OF ib', of sample_batch] ib' show ?thesis by simp
qed

lemma lane_item_unique:
  assumes "log_ok (lane_log items)" and "i \<in> set items" and "j \<in> set items" and "is_item lane e i" and "is_item lane e j"
  shows "i = j"
proof -
  have pairs: "map (\<lambda>(l, e, n). (l, e)) (lane_log items) = map (\<lambda>i. (li_laneId i, li_eventId i)) items" by (simp add: lane_log_def)
  have "distinct (map (\<lambda>i. (li_laneId i, li_eventId i)) items)"
    using assms(1) unfolding pairs [symmetric] by (simp add: log_ok_def)
  then show ?thesis using assms(2-5) by (auto simp: distinct_map inj_on_def is_item_def)
qed

lemma open_gap_opens: "\<exists>g \<in> set (open_gap owner e code n gaps). pg_owner g = owner \<and> pg_sourceItemId g = e \<and> pg_state g = Gap_open"
proof (cases "list_ex (\<lambda>g. pg_owner g = owner \<and> pg_sourceItemId g = e) gaps")
  case True
  then obtain g where g: "g \<in> set gaps" "pg_owner g = owner" "pg_sourceItemId g = e" by (auto simp: list_ex_iff)
  let ?u = "\<lambda>g. if pg_owner g = owner \<and> pg_sourceItemId g = e
    then g\<lparr>pg_failureCode := code, pg_requiredVersion := Some (max (opt_or (pg_requiredVersion g) 0) n),
           pg_occurrences := pg_occurrences g + 1, pg_state := Gap_open, pg_compensatedBy := None\<rparr> else g"
  have "?u g \<in> set (open_gap owner e code n gaps)" using g(1) True by (simp add: open_gap_def)
  with g(2,3) show ?thesis by (intro bexI [of _ "?u g"]) simp_all
qed (simp add: open_gap_def)

lemma failed_once:
  assumes i: "i \<in> set (ib_items ib)" "is_item lane e i" "li_state i = Item_pending" and inv: "inbox_inv ib"
    and exhausted: "exhausted \<longleftrightarrow> 3 \<le> li_attempts i + 1"
  shows "\<exists>gaps. acknowledge env lane [e] Settle_quarantined f (Some owner) ib
      = (if exhausted then Quarantined else Retry, ib\<lparr>ib_items := update_item lane e (fail_item f) (ib_items ib), ib_gaps := gaps\<rparr>)
    \<and> (exhausted \<longrightarrow> (\<exists>g \<in> set gaps. pg_owner g = owner \<and> pg_sourceItemId g = e \<and> pg_state g = Gap_open))"
proof -
  have one: "log_ok (lane_log (ib_items ib))" "li_revision i = CORE_EVENT_REDUCER_REVISION" using inv i(1) by (auto simp: inbox_inv_def lane_item_ok_def)
  then have attempts: "CORE_EVENT_MAX_PROJECTION_ATTEMPTS \<le> projection_attempts i \<longleftrightarrow> exhausted"
    using exhausted by (simp add: projection_attempts_def CORE_EVENT_MAX_PROJECTION_ATTEMPTS_def)
  have "find (\<lambda>j. is_item lane e j \<and> li_state j = Item_pending) (ib_items ib) = Some i"
  proof (cases "find (\<lambda>j. is_item lane e j \<and> li_state j = Item_pending) (ib_items ib)")
    case None
    with i show ?thesis by (auto simp: find_None_iff)
  next
    case (Some j)
    then have "j \<in> set (ib_items ib)" "is_item lane e j" by (auto simp: find_Some_iff)
    with lane_item_unique [OF one(1) _ i(1) _ i(2)] Some show ?thesis by simp
  qed
  with attempts open_gap_opens [of owner e "settlement_code f" CORE_EVENT_REDUCER_REVISION "ib_gaps ib"] show ?thesis
    by (intro exI [of _ "if exhausted then open_gap owner e (settlement_code f) CORE_EVENT_REDUCER_REVISION (ib_gaps ib) else ib_gaps ib"])
      (simp add: acknowledge_def settle_failed_def Let_def)
qed

text \<open>
  C16: An event that cannot be projected is tried three times and then set aside. A failure of
  a pending event counts one attempt: the first two leave it pending and ask for a retry, the
  third quarantines it with its fingerprint, opens a gap for its owner and takes it out of
  what the reducer loads, so that one bad event cannot hold up its lane. The other events of
  the inbox stay as they are.
\<close>
theorem failing_events_are_set_aside:
  assumes "reach empty_inbox (inbox_step env) ib" and "i \<in> set (ib_items ib)" and "is_item lane e i" and "li_state i = Item_pending"
    and "acknowledge env lane [e] Settle_quarantined f (Some owner) ib = (result, ib')"
  shows "0 \<le> li_attempts i \<and> li_attempts i \<le> 2
    \<and> result = (if li_attempts i < 2 then Retry else Quarantined)
    \<and> (\<exists>i' \<in> set (ib_items ib'). is_item lane e i' \<and> li_attempts i' = li_attempts i + 1
         \<and> li_state i' = (if li_attempts i < 2 then Item_pending else Item_quarantined))
    \<and> (li_attempts i = 2 \<longrightarrow> (\<exists>g \<in> set (ib_gaps ib'). pg_owner g = owner \<and> pg_sourceItemId g = e \<and> pg_state g = Gap_open)
         \<and> (\<forall>limit. e \<notin> set (snd (fst (loadPending lane limit ib')))))
    \<and> filter (\<lambda>j. \<not> is_item lane e j) (ib_items ib') = filter (\<lambda>j. \<not> is_item lane e j) (ib_items ib)"
proof -
  have inv: "inbox_inv ib" using inbox.reach_inv [OF assms(1)] .
  then have i: "lane_item_ok i" "log_ok (lane_log (ib_items ib))" using assms(2) by (auto simp: inbox_inv_def)
  obtain gaps where ib': "result = (if 3 \<le> li_attempts i + 1 then Quarantined else Retry)"
    "ib' = ib\<lparr>ib_items := update_item lane e (fail_item f) (ib_items ib), ib_gaps := gaps\<rparr>"
    "3 \<le> li_attempts i + 1 \<longrightarrow> (\<exists>g \<in> set gaps. pg_owner g = owner \<and> pg_sourceItemId g = e \<and> pg_state g = Gap_open)"
    using failed_once [OF assms(2-4) inv refl, of env f owner] assms(5) by auto
  have bounds: "0 \<le> li_attempts i" "li_attempts i \<le> 2" "li_revision i = CORE_EVENT_REDUCER_REVISION"
    using i(1) assms(4) by (auto simp: lane_item_ok_def CORE_EVENT_MAX_PROJECTION_ATTEMPTS_def)
  let ?i = "fail_item f i"
  have fail: "is_item lane e ?i" "li_attempts ?i = li_attempts i + 1" "li_state ?i = (if li_attempts i < 2 then Item_pending else Item_quarantined)"
    using assms(3,4) bounds(3) by (auto simp: fail_item_def is_item_def projection_attempts_def CORE_EVENT_MAX_PROJECTION_ATTEMPTS_def Let_def)
  have items: "ib_items ib' = map (\<lambda>j. if is_item lane e j then ?i else j) (ib_items ib)"
    unfolding ib'(2) using lane_item_unique [OF i(2) _ assms(2) _ assms(3)] by (auto simp: update_item_def)
  have member: "?i \<in> set (ib_items ib')" unfolding items using assms(2,3) by force
  have loaded: "e \<notin> set (snd (fst (loadPending lane limit ib')))" if "li_attempts i = 2" for limit
  proof
    assume "e \<in> set (snd (fst (loadPending lane limit ib')))"
    then obtain j where j: "j \<in> set (ib_items ib')" "li_laneId (revive_item lane j) = lane" "li_eventId (revive_item lane j) = e" "li_state (revive_item lane j) = Item_pending"
      by (auto simp: loadPending_def pending_items_def Let_def dest!: in_set_takeD)
    then have "is_item lane e j" by (auto simp: is_item_def revive_item_def split: if_splits)
    then have "j = ?i" using j(1) unfolding items by auto
    moreover have "li_revision ?i = CORE_EVENT_REDUCER_REVISION" using bounds(3) by (simp add: fail_item_def Let_def)
    ultimately show False using j(4) fail(3) that by (simp add: revive_item_def)
  qed
  have others: "filter (\<lambda>j. \<not> is_item lane e j) (ib_items ib') = filter (\<lambda>j. \<not> is_item lane e j) (ib_items ib)"
  proof -
    have "filter (\<lambda>j. \<not> is_item lane e j) (map (\<lambda>j. if is_item lane e j then ?i else j) xs) = filter (\<lambda>j. \<not> is_item lane e j) xs" for xs
      using fail(1) by (induction xs) auto
    then show ?thesis unfolding items by blast
  qed
  show ?thesis using bounds ib'(1,3) member fail loaded others ib'(2) by auto
qed

theorem failing_events_are_set_aside_witness:
  "\<exists>ib' ib''. ingestBatch inbox_sample_env sample_batch sample_inbox = Inr (Ingest_accepted, True, ib')
     \<and> acknowledge inbox_sample_env ''l'' [''e''] Settle_quarantined None (Some (Owner_binding ''b'')) ib' = (Retry, ib'')"
proof -
  obtain ib' where ib': "ingestBatch inbox_sample_env sample_batch sample_inbox = Inr (Ingest_accepted, True, ib')"
    "ib_items ib' = [new_item ''l'' ''e'' 1 Item_pending]" using sample_ingest by blast
  obtain result ib'' where ack: "acknowledge inbox_sample_env ''l'' [''e''] Settle_quarantined None (Some (Owner_binding ''b'')) ib' = (result, ib'')"
    by (cases "acknowledge inbox_sample_env ''l'' [''e''] Settle_quarantined None (Some (Owner_binding ''b'')) ib'")
  have reached: "reach empty_inbox (inbox_step inbox_sample_env) ib'"
    using sample_inbox_reachable inbox_step.ingested [OF ib'(1)] by (rule reach_step)
  have item: "new_item ''l'' ''e'' 1 Item_pending \<in> set (ib_items ib')" "is_item ''l'' ''e'' (new_item ''l'' ''e'' 1 Item_pending)"
    "li_state (new_item ''l'' ''e'' 1 Item_pending) = Item_pending" "li_attempts (new_item ''l'' ''e'' 1 Item_pending) = 0"
    by (simp_all add: ib'(2) new_item_def is_item_def)
  from failing_events_are_set_aside [OF reached item(1-3) ack] item(4) have "result = Retry" by simp
  with ib'(1) ack show ?thesis by blast
qed

end
