(* ===== verification/Delivery_Claims.thy ===== *)
theory Delivery_Claims
  imports Instance_Lease Transition_System
begin

text \<open>
  The claims of the durable delivery queue
  (\<^verbatim>\<open>src/src/store/sqlite/prepared-delivery-store.ts\<close>, with the settlement primitives of
  \<^verbatim>\<open>outbox-queue-store.ts\<close>, \<^verbatim>\<open>outbox-delivery-store.ts\<close> and
  \<^verbatim>\<open>outbox-recovery/failure-transition.ts\<close>): a process that holds the lease takes one delivery
  of a ring, executes it, and checkpoints, acknowledges or fails it under the claim it was
  given. Each method is one transaction over the rows of the outbox; texts of errors and the
  times of updates are left out. The rest of the database is \<open>dd_world\<close>: whether a row's owner
  and card are still current, what a settled card writes, and which repair a failure gets are
  read from it by the functions of \<open>delivery_env\<close>.
\<close>

subsection \<open>Tables\<close>

record outbound_row =
  or_id :: string
  or_state :: OutboundReplyState
  or_scope :: "DeliveryScope option"
  or_owner :: "DeliveryOwnerFence option"
  or_parentPane :: "string option"
  or_bindingId :: "string option"
  or_promptId :: "string option"
  or_workerTurnId :: "string option"
  or_isAnswer :: bool
  or_targetRole :: "OutboundTargetRole option"
  or_kind :: OutboundReplyKind
  or_gatewayId :: string
  or_gatewayProfileId :: string
  or_planHash :: "string option"
  or_payloadHash :: "string option"
  or_snapshotRevision :: int
  or_rendererRevision :: int
  or_deliveryOrder :: int
  or_laneKey :: string
  or_conflictKey :: "string option"
  or_projectionKey :: "string option"
  or_nextAttemptAt :: timestamp
  or_attemptCount :: nat
  or_autoRecoveryCount :: int
  or_claimAttempt :: "string option"
  or_claimOwner :: "string option"
  or_claimFence :: "int option"
  or_claimedAt :: "timestamp option"
  or_claimExpiresAt :: "timestamp option"
  or_firstClaimedAt :: "timestamp option"
  or_failureClass :: "DeliveryFailureClass option"
  or_effectCertainty :: "DeliveryEffectCertainty option"
  or_deadLetteredAt :: "timestamp option"
  or_deliveredMessageId :: "string option"
  or_cardIdCheckpoint :: "string option"
  or_gatewayCheckpoint :: "(string \<times> string) option"

datatype recovery_state = Unresolved | ReplacementPending | Recovered | RecoveryDismissed

record recovery_row =
  rec_failedReplyId :: string
  rec_state :: recovery_state
  rec_replacementId :: "string option"
  rec_resolvedBy :: "string option"

record quarantine_row =
  qr_laneKey :: string
  qr_failedReplyId :: string
  qr_conflictKey :: "string option"
  qr_active :: bool
  qr_isolated :: bool
  qr_firstFailedAt :: timestamp
  qr_graceDeadlineAt :: timestamp
  qr_attemptLimit :: int
  qr_durationMs :: int

record prerequisite_row =
  pre_dependentId :: string
  pre_prerequisiteId :: string
  pre_requiredState :: OutboundReplyState

text \<open>\<open>dd_attempts\<close> is not stored: it is the history of the attempt ids that were ever given out.\<close>

record 'w delivery_db =
  dd_rows :: "outbound_row list"
  dd_lease :: lease_db
  dd_prerequisites :: "prerequisite_row list"
  dd_cooldownUntil :: "timestamp option"
  dd_quarantines :: "quarantine_row list"
  dd_recoveries :: "recovery_row list"
  dd_checkpoints :: "string \<rightharpoonup> int"
  dd_backwardRebases :: nat
  dd_world :: 'w
  dd_attempts :: "string set"

text \<open>What the joined conditions read.\<close>

type_synonym 'w delivery_view = "outbound_row list \<times> recovery_row list \<times> 'w"

definition view :: "'w delivery_db \<Rightarrow> 'w delivery_view" where
  "view db = (dd_rows db, dd_recoveries db, dd_world db)"

record 'w failure_repair =
  fr_released :: bool
  fr_dismissSelf :: bool
  fr_dismissed :: "string list"
  fr_inserted :: "outbound_row list"
  fr_recovery :: "recovery_state \<times> string option"
  fr_world :: 'w

record 'w delivery_env =
  ev_settlementGap :: "'w delivery_view \<Rightarrow> outbound_row \<Rightarrow> bool"
  ev_exactSuccessor :: "'w delivery_view \<Rightarrow> outbound_row \<Rightarrow> bool"
  ev_currentOwner :: "'w delivery_view \<Rightarrow> outbound_row \<Rightarrow> bool"
  ev_currentTarget :: "'w delivery_view \<Rightarrow> outbound_row \<Rightarrow> bool"
  ev_initialCreate :: "'w delivery_view \<Rightarrow> outbound_row \<Rightarrow> bool"
  ev_historicalCreate :: "'w delivery_view \<Rightarrow> outbound_row \<Rightarrow> bool"
  ev_retiredPage :: "outbound_row \<Rightarrow> 'w \<Rightarrow> 'w"
  ev_failedPage :: "outbound_row \<Rightarrow> 'w \<Rightarrow> 'w"
  ev_settled :: "outbound_row \<Rightarrow> PreparedDeliveryAck \<Rightarrow> recovery_row list \<times> 'w \<Rightarrow> (outbound_row list \<times> recovery_row list \<times> 'w) option"
  ev_repair :: "outbound_row \<Rightarrow> DeliveryFailureMetadata \<Rightarrow> timestamp \<Rightarrow> 'w delivery_db \<Rightarrow> 'w failure_repair"

text \<open>SQL equality: a \<^verbatim>\<open>NULL\<close> equals nothing.\<close>

definition sql_eq :: "'a option \<Rightarrow> 'a option \<Rightarrow> bool" where
  "sql_eq x y = (x \<noteq> None \<and> x = y)"

definition row_scope_key :: "outbound_row \<Rightarrow> string option" where
  "row_scope_key r = map_option deliveryScopeKey (or_scope r)"

definition clear_claim :: "outbound_row \<Rightarrow> outbound_row" where
  "clear_claim r = r\<lparr>or_claimAttempt := None, or_claimOwner := None, or_claimFence := None, or_claimedAt := None, or_claimExpiresAt := None\<rparr>"

text \<open>The trigger \<^verbatim>\<open>delivery_recoveries_dead_letter\<close> of the schema.\<close>

definition open_recovery :: "string \<Rightarrow> recovery_row list \<Rightarrow> recovery_row list" where
  "open_recovery i recs = \<lparr>rec_failedReplyId = i, rec_state = Unresolved, rec_replacementId = None, rec_resolvedBy = None\<rparr>
     # filter (\<lambda>x. rec_failedReplyId x \<noteq> i) recs"

definition update_reply :: "string \<Rightarrow> (outbound_row \<Rightarrow> outbound_row) \<Rightarrow> 'w delivery_db \<Rightarrow> 'w delivery_db" where
  "update_reply i f db = db\<lparr>
     dd_rows := map (\<lambda>r. if or_id r = i then f r else r) (dd_rows db),
     dd_recoveries := (if \<exists>r \<in> set (dd_rows db). or_id r = i \<and> or_state r \<noteq> DeadLetter \<and> or_state (f r) = DeadLetter
                       then open_recovery i (dd_recoveries db) else dd_recoveries db)\<rparr>"

definition insert_reply :: "outbound_row \<Rightarrow> 'w delivery_db \<Rightarrow> 'w delivery_db" where
  "insert_reply r db = (if \<exists>q \<in> set (dd_rows db). or_id q = or_id r then db
     else db\<lparr>dd_rows := dd_rows db @ [clear_claim (r\<lparr>or_state := Pending, or_firstClaimedAt := None, or_attemptCount := 0\<rparr>)]\<rparr>)"

definition upsert_quarantine :: "quarantine_row \<Rightarrow> 'w delivery_db \<Rightarrow> 'w delivery_db" where
  "upsert_quarantine q db = db\<lparr>dd_quarantines := q # filter (\<lambda>x. qr_laneKey x \<noteq> qr_laneKey q) (dd_quarantines db)\<rparr>"

definition failure_quarantine :: "outbound_row \<Rightarrow> DeliveryFailureClass \<Rightarrow> DeliveryEffectCertainty \<Rightarrow> bool \<Rightarrow> timestamp \<Rightarrow> quarantine_row" where
  "failure_quarantine r cls certainty active t =
     (let budget = deliveryDegradationBudget cls certainty t
      in \<lparr>qr_laneKey = or_laneKey r, qr_failedReplyId = or_id r, qr_conflictKey = or_conflictKey r, qr_active = active,
          qr_isolated = False, qr_firstFailedAt = t, qr_graceDeadlineAt = bud_deadlineAt budget,
          qr_attemptLimit = bud_attemptLimit budget, qr_durationMs = bud_durationMs budget\<rparr>)"

subsection \<open>Which rows block a ring\<close>

definition terminalReplacement :: "'w delivery_db \<Rightarrow> outbound_row \<Rightarrow> bool" where
  "terminalReplacement db r = (\<exists>x \<in> set (dd_recoveries db). rec_failedReplyId x = or_id r
     \<and> (rec_state x = ReplacementPending \<or> rec_state x = Recovered)
     \<and> rec_replacementId x \<noteq> None \<and> (rec_resolvedBy x = None \<or> rec_resolvedBy x = rec_replacementId x)
     \<and> (\<exists>q \<in> set (dd_rows db). Some (or_id q) = rec_replacementId x \<and> or_state q = Delivered))"

definition nonterminalReply :: "'w delivery_env \<Rightarrow> 'w delivery_db \<Rightarrow> outbound_row \<Rightarrow> bool" where
  "nonterminalReply env db r = (or_state r = Pending
     \<or> (or_state r = DeadLetter \<and> \<not> terminalReplacement db r \<and> \<not> ev_exactSuccessor env (view db) r))"

definition ringBlocker :: "'w delivery_env \<Rightarrow> 'w delivery_db \<Rightarrow> outbound_row \<Rightarrow> bool" where
  "ringBlocker env db r = (((or_state r = Pending \<or> or_state r = DeadLetter) \<and> nonterminalReply env db r)
     \<or> (or_state r = Delivered \<and> ev_settlementGap env (view db) r))"

definition in_flight :: "outbound_row \<Rightarrow> bool" where
  "in_flight r = (or_state r = Pending \<and> or_claimAttempt r \<noteq> None)"

definition quarantine_in_scope :: "'w delivery_db \<Rightarrow> outbound_row \<Rightarrow> (quarantine_row \<Rightarrow> outbound_row \<Rightarrow> bool) \<Rightarrow> bool" where
  "quarantine_in_scope db r P = (\<exists>q \<in> set (dd_quarantines db). \<exists>f \<in> set (dd_rows db).
     or_id f = qr_failedReplyId q \<and> qr_active q \<and> sql_eq (row_scope_key f) (row_scope_key r) \<and> P q f)"

definition claimConflictEligibility :: "'w delivery_env \<Rightarrow> 'w delivery_db \<Rightarrow> outbound_row \<Rightarrow> bool" where
  "claimConflictEligibility env db r =
     (\<not> ev_settlementGap env (view db) r
      \<and> \<not> (\<exists>q \<in> set (dd_rows db). sql_eq (row_scope_key q) (row_scope_key r) \<and> in_flight q)
      \<and> \<not> quarantine_in_scope db r (\<lambda>q f. \<not> qr_isolated q)
      \<and> \<not> quarantine_in_scope db r (\<lambda>q f. qr_isolated q \<and> sql_eq (qr_conflictKey q) (or_conflictKey r))
      \<and> \<not> (\<exists>q \<in> set (dd_rows db). sql_eq (row_scope_key q) (row_scope_key r) \<and> or_deliveryOrder q < or_deliveryOrder r
            \<and> sql_eq (or_conflictKey q) (or_conflictKey r) \<and> nonterminalReply env db q)
      \<and> (\<not> (\<exists>q \<in> set (dd_rows db). sql_eq (row_scope_key q) (row_scope_key r) \<and> or_deliveryOrder q < or_deliveryOrder r
               \<and> nonterminalReply env db q \<and> \<not> ev_settlementGap env (view db) q)
         \<or> quarantine_in_scope db r (\<lambda>q f. qr_isolated q \<and> or_deliveryOrder f < or_deliveryOrder r \<and> nonterminalReply env db f)))"

definition prerequisites_met :: "'w delivery_db \<Rightarrow> outbound_row \<Rightarrow> bool" where
  "prerequisites_met db r = (\<forall>p \<in> set (dd_prerequisites db). pre_dependentId p = or_id r \<longrightarrow>
     (\<exists>q \<in> set (dd_rows db). or_id q = pre_prerequisiteId p \<and> or_state q = pre_requiredState p))"

definition cooled_down :: "'w delivery_db \<Rightarrow> timestamp \<Rightarrow> bool" where
  "cooled_down db now = (case dd_cooldownUntil db of None \<Rightarrow> True | Some t \<Rightarrow> t \<le> now)"

text \<open>\<open>fence\<close> is the caller's own temporary table \<^verbatim>\<open>bridge_write_fence\<close>.\<close>

definition fence_holds :: "(string \<times> int) option \<Rightarrow> timestamp \<Rightarrow> 'w delivery_db \<Rightarrow> bool" where
  "fence_holds fence now db = (case fence of None \<Rightarrow> False | Some (owner, token) \<Rightarrow> fence_valid owner token now (dd_lease db))"

subsection \<open>Ring checkpoints\<close>

definition row_orders :: "string \<Rightarrow> (outbound_row \<Rightarrow> bool) \<Rightarrow> 'w delivery_db \<Rightarrow> int list" where
  "row_orders key P db = map or_deliveryOrder (filter (\<lambda>r. row_scope_key r = Some key \<and> P r) (dd_rows db))"

definition ring_position :: "'w delivery_env \<Rightarrow> 'w delivery_db \<Rightarrow> string \<Rightarrow> int" where
  "ring_position env db key = (case row_orders key (ringBlocker env db) db of
     [] \<Rightarrow> max 0 (foldr max (row_orders key (\<lambda>r. True) db) 0)
   | o1 # os \<Rightarrow> max 0 (foldr min os o1 - 1))"

definition loadOrInitializeCheckpoint :: "'w delivery_env \<Rightarrow> string \<Rightarrow> 'w delivery_db \<Rightarrow> 'w delivery_db \<times> int" where
  "loadOrInitializeCheckpoint env key db = (case dd_checkpoints db key of
     Some position \<Rightarrow> (db, position)
   | None \<Rightarrow> (db\<lparr>dd_checkpoints := (dd_checkpoints db)(key \<mapsto> ring_position env db key)\<rparr>, ring_position env db key))"

definition advanceCheckpoint :: "'w delivery_env \<Rightarrow> string \<Rightarrow> 'w delivery_db \<Rightarrow> 'w delivery_db" where
  "advanceCheckpoint env key db =
     (let (db1, position) = loadOrInitializeCheckpoint env key db; next_order = ring_position env db1 key
      in if next_order = position then db1
         else db1\<lparr>dd_checkpoints := (dd_checkpoints db1)(key \<mapsto> next_order),
                  dd_backwardRebases := dd_backwardRebases db1 + (if next_order < position then 1 else 0)\<rparr>)"

definition advance_row_scope :: "'w delivery_env \<Rightarrow> outbound_row \<Rightarrow> 'w delivery_db \<Rightarrow> 'w delivery_db" where
  "advance_row_scope env r db = (case row_scope_key r of None \<Rightarrow> db | Some key \<Rightarrow> advanceCheckpoint env key db)"

subsection \<open>Claiming\<close>

datatype claim_route = PagePath | GlobalPath | WorkerPath | PrimaryPath

definition claim_path :: "PreparedDelivery \<Rightarrow> claim_route" where
  "claim_path d =
     (if (case projectionKey d of None \<Rightarrow> False | Some k \<Rightarrow> starts_with ''turn-card:'' k) then PagePath
      else if scope d = GlobalScope then GlobalPath
      else if (case ownerFence d of None \<Rightarrow> False | Some f \<Rightarrow> fence_kind f = WorkerOwner) then WorkerPath
      else PrimaryPath)"

text \<open>The early returns of the four methods: a delivery whose frozen owner does not fit its path.\<close>

definition path_admits :: "PreparedDelivery \<Rightarrow> bool" where
  "path_admits d = (case (claim_path d, ownerFence d) of
     (GlobalPath, f) \<Rightarrow> f = None \<and> parentPaneId d = None
   | (WorkerPath, Some f) \<Rightarrow> fence_parent f \<noteq> None \<and> truthy (parentPaneId d) \<noteq> None
   | (PrimaryPath, Some f) \<Rightarrow> fence_kind f = PrimaryOwner \<and> fence_parent f = None \<and> parentPaneId d = None
   | (PagePath, Some f) \<Rightarrow> scope d \<noteq> GlobalScope
       \<and> (if fence_kind f = PrimaryOwner then fence_parent f = None \<and> parentPaneId d = None
          else fence_parent f \<noteq> None \<and> truthy (parentPaneId d) \<noteq> None)
   | (_, None) \<Rightarrow> False)"

text \<open>The columns a claim and a dismissal compare with the frozen delivery.\<close>

definition frozen_identity :: "PreparedDelivery \<Rightarrow> outbound_row \<Rightarrow> bool" where
  "frozen_identity d r =
     (or_id r = replyId d \<and> or_state r = Pending \<and> or_claimAttempt r = None
      \<and> or_scope r = Some (scope d) \<and> or_owner r = ownerFence d \<and> or_parentPane r = parentPaneId d
      \<and> or_gatewayId r = gatewayId d \<and> or_gatewayProfileId r = gatewayProfileId d
      \<and> or_planHash r = Some (planHash d) \<and> or_snapshotRevision r = snapshotRevision d \<and> or_rendererRevision r = rendererRevision d
      \<and> (case ownerFence d of Some f \<Rightarrow> fence_kind f = PrimaryOwner \<longrightarrow> or_bindingId r = Some (fence_id f) | None \<Rightarrow> True)
      \<and> (claim_path d = PagePath \<longrightarrow> or_projectionKey r = projectionKey d))"

definition replacement_current :: "'w delivery_db \<Rightarrow> outbound_row \<Rightarrow> bool" where
  "replacement_current db r =
     ((\<forall>x \<in> set (dd_recoveries db). rec_replacementId x \<noteq> Some (or_id r))
      \<or> (\<exists>x \<in> set (dd_recoveries db). rec_replacementId x = Some (or_id r) \<and> rec_state x = ReplacementPending \<and> rec_resolvedBy x = None))"

definition target_current :: "'w delivery_env \<Rightarrow> 'w delivery_db \<Rightarrow> claim_route \<Rightarrow> outbound_row \<Rightarrow> bool" where
  "target_current env db path r = (case path of
     GlobalPath \<Rightarrow> True
   | PagePath \<Rightarrow> ev_currentOwner env (view db) r \<and> (ev_currentTarget env (view db) r \<or> ev_initialCreate env (view db) r) \<and> \<not> ev_historicalCreate env (view db) r
   | _ \<Rightarrow> ev_currentOwner env (view db) r \<and> ev_currentTarget env (view db) r \<and> replacement_current db r)"

definition may_claim :: "'w delivery_env \<Rightarrow> (string \<times> int) option \<Rightarrow> timestamp \<Rightarrow> PreparedDelivery \<Rightarrow> 'w delivery_db \<Rightarrow> outbound_row \<Rightarrow> bool" where
  "may_claim env fence now d db r =
     (frozen_identity d r \<and> or_nextAttemptAt r \<le> now \<and> target_current env db (claim_path d) r
      \<and> claimConflictEligibility env db r \<and> prerequisites_met db r \<and> cooled_down db now \<and> fence_holds fence now db)"

definition claim_row :: "(string \<times> int) option \<Rightarrow> string \<Rightarrow> timestamp \<Rightarrow> timestamp \<Rightarrow> outbound_row \<Rightarrow> outbound_row" where
  "claim_row fence attempt now expires r =
     r\<lparr>or_claimAttempt := Some attempt, or_claimOwner := map_option fst fence, or_claimFence := map_option snd fence,
       or_claimedAt := Some now, or_claimExpiresAt := Some expires,
       or_firstClaimedAt := (case or_firstClaimedAt r of None \<Rightarrow> Some now | Some t \<Rightarrow> Some t), or_payloadHash := or_planHash r\<rparr>"

definition dismissable :: "'w delivery_env \<Rightarrow> (string \<times> int) option \<Rightarrow> timestamp \<Rightarrow> PreparedDelivery \<Rightarrow> 'w delivery_db \<Rightarrow> outbound_row \<Rightarrow> bool" where
  "dismissable env fence now d db r =
     (frozen_identity d r \<and> or_effectCertainty r \<noteq> Some Uncertain \<and> or_cardIdCheckpoint r = None \<and> or_gatewayCheckpoint r = None
      \<and> (case claim_path d of
           GlobalPath \<Rightarrow> False
         | PagePath \<Rightarrow> or_claimOwner r = None \<and> or_claimFence r = None \<and> or_claimedAt r = None \<and> or_claimExpiresAt r = None
             \<and> or_deliveredMessageId r = None \<and> claimConflictEligibility env db r \<and> prerequisites_met db r \<and> cooled_down db now
             \<and> fence_holds fence now db
             \<and> (\<not> ev_currentOwner env (view db) r \<or> \<not> ev_currentTarget env (view db) r \<or> ev_historicalCreate env (view db) r)
         | _ \<Rightarrow> \<not> ev_currentOwner env (view db) r \<or> \<not> ev_currentTarget env (view db) r \<or> \<not> replacement_current db r))"

definition detach_replacement :: "string \<Rightarrow> recovery_row list \<Rightarrow> recovery_row list" where
  "detach_replacement i recs = map (\<lambda>x. if rec_replacementId x = Some i \<and> rec_state x = ReplacementPending
     then x\<lparr>rec_state := Unresolved, rec_replacementId := None, rec_resolvedBy := None\<rparr> else x) recs"

definition dismissStaleDelivery :: "'w delivery_env \<Rightarrow> (string \<times> int) option \<Rightarrow> timestamp \<Rightarrow> PreparedDelivery \<Rightarrow> 'w delivery_db \<Rightarrow> 'w delivery_db" where
  "dismissStaleDelivery env fence now d db = (case find (dismissable env fence now d db) (dd_rows db) of
     None \<Rightarrow> db
   | Some r \<Rightarrow>
       let db1 = update_reply (or_id r) (\<lambda>r. r\<lparr>or_state := Dismissed\<rparr>) db;
           db2 = (if claim_path d = PagePath then db1\<lparr>dd_world := ev_retiredPage env r (dd_world db1)\<rparr>
                  else db1\<lparr>dd_recoveries := detach_replacement (or_id r) (dd_recoveries db1)\<rparr>)
       in advanceCheckpoint env (deliveryScopeKey (scope d)) db2)"

text \<open>\<open>attempt\<close> is the value of \<^verbatim>\<open>randomUUID\<close>.\<close>

definition claimPreparedDelivery :: "'w delivery_env \<Rightarrow> (string \<times> int) option \<Rightarrow> string \<Rightarrow> timestamp \<Rightarrow> timestamp \<Rightarrow> PreparedDelivery
    \<Rightarrow> 'w delivery_db \<Rightarrow> 'w delivery_db \<times> PreparedDeliveryClaim option" where
  "claimPreparedDelivery env fence attempt now expires d db =
     (if \<not> path_admits d then (db, None)
      else case find (may_claim env fence now d db) (dd_rows db) of
        None \<Rightarrow> (dismissStaleDelivery env fence now d db, None)
      | Some r \<Rightarrow>
          (let db' = update_reply (or_id r) (claim_row fence attempt now expires) db
           in (db'\<lparr>dd_attempts := insert attempt (dd_attempts db')\<rparr>,
               Some \<lparr>claim_replyId = or_id r, claim_attemptId = attempt, claim_ownerId = fst (the fence), claim_fencingToken = snd (the fence),
                     claim_planHash = planHash d, claim_snapshotRevision = or_snapshotRevision r\<rparr>)))"

subsection \<open>Working under a claim\<close>

definition held_fields :: "PreparedDeliveryClaim \<Rightarrow> outbound_row \<Rightarrow> bool" where
  "held_fields c r =
     (or_id r = claim_replyId c \<and> or_state r = Pending \<and> or_claimAttempt r = Some (claim_attemptId c)
      \<and> or_claimOwner r = Some (claim_ownerId c) \<and> or_claimFence r = Some (claim_fencingToken c)
      \<and> or_planHash r = Some (claim_planHash c) \<and> or_snapshotRevision r = claim_snapshotRevision c)"

definition claim_leased :: "PreparedDeliveryClaim \<Rightarrow> timestamp \<Rightarrow> 'w delivery_db \<Rightarrow> bool" where
  "claim_leased c now db = fence_valid (claim_ownerId c) (claim_fencingToken c) now (dd_lease db)"

definition claimedReply :: "PreparedDeliveryClaim \<Rightarrow> timestamp \<Rightarrow> 'w delivery_db \<Rightarrow> outbound_row option" where
  "claimedReply c now db =
     find (\<lambda>r. held_fields c r \<and> or_payloadHash r = Some (claim_planHash c) \<and> claim_leased c now db) (dd_rows db)"

definition is_page_row :: "outbound_row \<Rightarrow> bool" where
  "is_page_row r = (case or_projectionKey r of None \<Rightarrow> False | Some k \<Rightarrow> starts_with ''turn-card:'' k)"

definition renewPreparedDeliveryClaim :: "PreparedDeliveryClaim \<Rightarrow> timestamp \<Rightarrow> timestamp \<Rightarrow> 'w delivery_db \<Rightarrow> 'w delivery_db \<times> bool" where
  "renewPreparedDeliveryClaim c now expires db = (case claimedReply c now db of
     None \<Rightarrow> (db, False)
   | Some r \<Rightarrow> (update_reply (or_id r) (\<lambda>r. r\<lparr>or_claimExpiresAt := Some expires\<rparr>) db, True))"

definition matchesClaim :: "PreparedDeliveryClaim \<Rightarrow> outbound_row \<Rightarrow> bool" where
  "matchesClaim c r = (or_id r = claim_replyId c \<and> or_claimAttempt r = Some (claim_attemptId c) \<and> or_claimFence r = Some (claim_fencingToken c)
     \<and> or_payloadHash r = Some (claim_planHash c) \<and> or_snapshotRevision r = claim_snapshotRevision c)"

definition checkpointCard :: "string \<Rightarrow> string \<Rightarrow> outbound_row \<Rightarrow> 'w delivery_db \<Rightarrow> 'w delivery_db \<times> bool" where
  "checkpointCard gateway surface r db =
     (if (or_cardIdCheckpoint r = None \<or> or_cardIdCheckpoint r = Some surface)
         \<and> (or_gatewayCheckpoint r = None \<or> or_gatewayCheckpoint r = Some (gateway, surface))
      then (update_reply (or_id r) (\<lambda>r. r\<lparr>or_cardIdCheckpoint := Some surface, or_gatewayCheckpoint := Some (gateway, surface)\<rparr>) db, True)
      else (db, False))"

definition checkpointPreparedDelivery :: "PreparedDeliveryClaim \<Rightarrow> PreparedDeliveryCheckpoint \<Rightarrow> timestamp \<Rightarrow> 'w delivery_db \<Rightarrow> 'w delivery_db \<times> bool" where
  "checkpointPreparedDelivery c checkpoint now db = (case claimedReply c now db of
     None \<Rightarrow> (db, False)
   | Some r \<Rightarrow>
       if is_page_row r then checkpointCard (checkpoint_gatewayId checkpoint) (checkpoint_opaqueId checkpoint) r db
       else if \<not> matchesClaim c r then (db, False)
       else checkpointCard (or_gatewayId r) (checkpoint_opaqueId checkpoint) r db)"

subsection \<open>Acknowledging\<close>

datatype settle_error = AckIdentityConflict | SettlementRefused

definition delivered_row :: "PreparedDeliveryAck \<Rightarrow> outbound_row \<Rightarrow> outbound_row" where
  "delivered_row ack r = clear_claim (r\<lparr>or_state := Delivered, or_deliveredMessageId := Some (ack_messageId ack), or_failureClass := None,
     or_effectCertainty := None, or_deadLetteredAt := None, or_attemptCount := or_attemptCount r + 1\<rparr>)"

definition settle_world :: "'w delivery_env \<Rightarrow> outbound_row \<Rightarrow> PreparedDeliveryAck \<Rightarrow> 'w delivery_db \<Rightarrow> settle_error + 'w delivery_db" where
  "settle_world env r ack db = (case ev_settled env r ack (dd_recoveries db, dd_world db) of
     None \<Rightarrow> Inl SettlementRefused
   | Some (inserted, recs, w) \<Rightarrow> Inr (fold insert_reply inserted (db\<lparr>dd_recoveries := recs, dd_world := w\<rparr>)))"

definition page_delivered_row :: "PreparedDeliveryAck \<Rightarrow> outbound_row \<Rightarrow> outbound_row" where
  "page_delivered_row ack r = delivered_row ack (case ack_surfaceId ack of None \<Rightarrow> r
     | Some s \<Rightarrow> r\<lparr>or_cardIdCheckpoint := Some s,
                   or_gatewayCheckpoint := (case or_gatewayCheckpoint r of None \<Rightarrow> Some (or_gatewayId r, s) | Some g \<Rightarrow> Some g)\<rparr>)"

definition acknowledge_page :: "'w delivery_env \<Rightarrow> outbound_row \<Rightarrow> PreparedDeliveryAck \<Rightarrow> 'w delivery_db \<Rightarrow> settle_error + 'w delivery_db \<times> bool" where
  "acknowledge_page env r ack db =
     (case settle_world env r ack (update_reply (or_id r) (page_delivered_row ack) db) of
        Inl err \<Rightarrow> Inl err | Inr db2 \<Rightarrow> Inr (advance_row_scope env r db2, True))"

definition is_review :: "outbound_row \<Rightarrow> bool" where
  "is_review r = (or_kind r = CardReply \<and> (case or_projectionKey r of None \<Rightarrow> False | Some k \<Rightarrow> starts_with ''completion-review:'' k))"

definition card_delivered_row :: "PreparedDeliveryAck \<Rightarrow> outbound_row \<Rightarrow> outbound_row" where
  "card_delivered_row ack r = delivered_row ack
     (if is_review r \<and> or_cardIdCheckpoint r = None then r\<lparr>or_cardIdCheckpoint := ack_surfaceId ack\<rparr> else r)"

definition markDelivered :: "'w delivery_env \<Rightarrow> PreparedDeliveryClaim \<Rightarrow> outbound_row \<Rightarrow> PreparedDeliveryAck \<Rightarrow> 'w delivery_db \<Rightarrow> settle_error + 'w delivery_db \<times> bool" where
  "markDelivered env c r ack db =
     (if \<not> matchesClaim c r then Inr (db, False)
      else if is_review r \<and> or_cardIdCheckpoint r \<noteq> None \<and> or_cardIdCheckpoint r \<noteq> ack_surfaceId ack then Inl AckIdentityConflict
      else (case settle_world env r ack (update_reply (or_id r) (card_delivered_row ack) db) of
              Inl err \<Rightarrow> Inl err | Inr db2 \<Rightarrow> Inr (db2, True)))"

definition acknowledgePreparedDelivery :: "'w delivery_env \<Rightarrow> PreparedDeliveryClaim \<Rightarrow> PreparedDeliveryAck \<Rightarrow> timestamp \<Rightarrow> 'w delivery_db
    \<Rightarrow> settle_error + 'w delivery_db \<times> bool" where
  "acknowledgePreparedDelivery env c ack now db = (case claimedReply c now db of
     None \<Rightarrow> Inr (db, False)
   | Some r \<Rightarrow>
       if is_page_row r then acknowledge_page env r ack db
       else (case markDelivered env c r ack db of
               Inl err \<Rightarrow> Inl err
             | Inr (db1, done1) \<Rightarrow> Inr (if done1 then advance_row_scope env r db1 else db1, done1)))"

subsection \<open>Failing\<close>

datatype failure_outcome = FailRetry | FailDeadLetter | FailStale

definition normalizedEffectCertainty :: "DeliveryFailureMetadata \<Rightarrow> DeliveryEffectCertainty" where
  "normalizedEffectCertainty m = (case meta_effectCertainty m of
     Some c \<Rightarrow> c
   | None \<Rightarrow> if meta_httpStatus m \<noteq> None \<or> meta_larkErrorCode m \<noteq> None \<or> meta_failureClass m = Permanent then Rejected
             else if meta_failureClass m = Transient then NotStarted else Uncertain)"

definition immediateDeadLetter :: "outbound_row \<Rightarrow> DeliveryFailureMetadata \<Rightarrow> bool" where
  "immediateDeadLetter r m =
     (let certainty = normalizedEffectCertainty m; streamed = (or_kind r = StreamContent \<or> or_kind r = StreamFinish) in
      if certainty = Uncertain
      then \<not> (or_isAnswer r \<and> or_promptId r \<noteq> None \<and> streamed) \<and> \<not> (or_workerTurnId r \<noteq> None \<and> streamed)
      else meta_failureClass m = Permanent \<and> certainty = Rejected
        \<or> or_kind r = CardUpdate \<and> or_targetRole r = Some SessionStatus \<and> meta_recoveryKind m = Some ''stale_main_card''
        \<or> or_isAnswer r \<and> or_kind r = StreamContent \<and> meta_recoveryKind m = Some ''closed_answer_stream'')"

definition settled_class :: "DeliveryFailureMetadata \<Rightarrow> DeliveryFailureClass" where
  "settled_class m = (if normalizedEffectCertainty m = Uncertain then UnknownFailure else meta_failureClass m)"

definition dead_row :: "DeliveryFailureMetadata \<Rightarrow> timestamp \<Rightarrow> outbound_row \<Rightarrow> outbound_row" where
  "dead_row m now r = clear_claim (r\<lparr>or_state := DeadLetter, or_failureClass := Some (settled_class m),
     or_effectCertainty := Some (normalizedEffectCertainty m), or_deadLetteredAt := Some now, or_attemptCount := or_attemptCount r + 1\<rparr>)"

text \<open>An explicit delay leaves no room for \<^verbatim>\<open>Math.random\<close> in the plan.\<close>

definition retry_row :: "DeliveryFailureMetadata \<Rightarrow> int \<Rightarrow> timestamp \<Rightarrow> outbound_row \<Rightarrow> outbound_row" where
  "retry_row m delay now r =
     (let plan = planDeliveryRetry (or_attemptCount r) (Some delay) now 0
      in clear_claim (r\<lparr>or_state := (if retry_exhausted plan then DeadLetter else or_state r), or_attemptCount := retry_attemptCount plan,
           or_nextAttemptAt := retry_nextAttemptAt plan, or_failureClass := Some (settled_class m),
           or_effectCertainty := Some (normalizedEffectCertainty m),
           or_deadLetteredAt := (if retry_exhausted plan then Some now else None)\<rparr>))"

definition extend_cooldown :: "timestamp \<Rightarrow> 'w delivery_db \<Rightarrow> 'w delivery_db" where
  "extend_cooldown t db = db\<lparr>dd_cooldownUntil := Some (case dd_cooldownUntil db of None \<Rightarrow> t | Some u \<Rightarrow> max u t)\<rparr>"

definition close_recovery :: "string \<Rightarrow> (recovery_row \<Rightarrow> recovery_row) \<Rightarrow> recovery_row list \<Rightarrow> recovery_row list" where
  "close_recovery i f recs = map (\<lambda>x. if rec_failedReplyId x = i \<and> (rec_state x = Unresolved \<or> rec_state x = ReplacementPending) then f x else x) recs"

definition release_quarantines :: "string \<Rightarrow> quarantine_row list \<Rightarrow> quarantine_row list" where
  "release_quarantines i qs = map (\<lambda>q. if qr_failedReplyId q = i then q\<lparr>qr_active := False\<rparr> else q) qs"

text \<open>Under its budget of attempts a failed row is dismissed, not quarantined.\<close>

definition dismiss_exhausted :: "string \<Rightarrow> 'w delivery_db \<Rightarrow> 'w delivery_db" where
  "dismiss_exhausted i db = (update_reply i (\<lambda>r. r\<lparr>or_state := Dismissed\<rparr>) db)
     \<lparr>dd_recoveries := close_recovery i (\<lambda>x. x\<lparr>rec_state := RecoveryDismissed\<rparr>) (dd_recoveries db),
      dd_quarantines := release_quarantines i (dd_quarantines db)\<rparr>"

definition apply_repair :: "outbound_row \<Rightarrow> DeliveryFailureMetadata \<Rightarrow> timestamp \<Rightarrow> 'w failure_repair \<Rightarrow> 'w delivery_db \<Rightarrow> 'w delivery_db" where
  "apply_repair r m now rep db =
     (let db1 = fold (\<lambda>i. update_reply i (\<lambda>q. if or_state q = Pending then q\<lparr>or_state := Dismissed\<rparr> else q)) (fr_dismissed rep) db;
          db2 = fold insert_reply (fr_inserted rep) db1;
          db3 = (if fr_dismissSelf rep then update_reply (or_id r) (\<lambda>q. q\<lparr>or_state := Dismissed\<rparr>) db2 else db2)
      in upsert_quarantine (failure_quarantine r (meta_failureClass m) (normalizedEffectCertainty m) (\<not> fr_released rep) now)
           (db3\<lparr>dd_recoveries := close_recovery (or_id r)
                  (\<lambda>x. x\<lparr>rec_state := fst (fr_recovery rep), rec_replacementId := snd (fr_recovery rep)\<rparr>) (dd_recoveries db3),
                dd_world := fr_world rep\<rparr>))"

definition failed_row :: "DeliveryFailureMetadata \<Rightarrow> int \<Rightarrow> timestamp \<Rightarrow> outbound_row \<Rightarrow> outbound_row" where
  "failed_row m delay now r = (if immediateDeadLetter r m then dead_row m now r else retry_row m delay now r)"

definition record_failure :: "outbound_row \<Rightarrow> DeliveryFailureMetadata \<Rightarrow> int \<Rightarrow> timestamp \<Rightarrow> 'w delivery_db \<Rightarrow> 'w delivery_db" where
  "record_failure r m delay now db =
     (let db1 = update_reply (or_id r) (failed_row m delay now) db
      in if \<not> immediateDeadLetter r m \<and> meta_httpStatus m = Some 429
         then extend_cooldown (or_nextAttemptAt (failed_row m delay now r)) db1 else db1)"

definition attempts_exhausted :: "DeliveryFailureMetadata \<Rightarrow> outbound_row \<Rightarrow> bool" where
  "attempts_exhausted m failed =
     (3 \<le> or_attemptCount failed \<and> settled_class m \<noteq> UnknownFailure \<and> or_state failed = DeadLetter
      \<and> or_deliveredMessageId failed = None \<and> or_cardIdCheckpoint failed = None \<and> or_gatewayCheckpoint failed = None)"

definition apply_failure :: "'w delivery_env \<Rightarrow> PreparedDeliveryClaim \<Rightarrow> outbound_row \<Rightarrow> DeliveryFailureMetadata \<Rightarrow> int \<Rightarrow> timestamp \<Rightarrow> 'w delivery_db
    \<Rightarrow> 'w delivery_db \<times> failure_outcome" where
  "apply_failure env c r m delay now db =
     (if \<not> matchesClaim c r then (db, FailStale)
      else
        let failed = failed_row m delay now r; db1 = record_failure r m delay now db
        in if attempts_exhausted m failed then (dismiss_exhausted (or_id r) db1, FailDeadLetter)
           else if or_state failed \<noteq> DeadLetter then (db1, FailRetry)
           else if settled_class m = Transient \<and> or_autoRecoveryCount failed = 0 then (db1, FailDeadLetter)
           else (apply_repair failed m now (ev_repair env failed m now db1) db1, FailDeadLetter))"

text \<open>A page: three attempts whatever the certainty of the effect, then the row is dismissed.\<close>

definition page_failed_row :: "DeliveryFailureMetadata \<Rightarrow> int \<Rightarrow> timestamp \<Rightarrow> outbound_row \<Rightarrow> outbound_row" where
  "page_failed_row m delay now r =
     (let plan = planDeliveryRetry (or_attemptCount r) (Some delay) now 0
      in clear_claim (r\<lparr>or_state := (if retry_exhausted plan then Dismissed else Pending), or_failureClass := Some (meta_failureClass m),
           or_effectCertainty := Some (case meta_effectCertainty m of Some c \<Rightarrow> c | None \<Rightarrow> NotStarted),
           or_attemptCount := retry_attemptCount plan, or_nextAttemptAt := retry_nextAttemptAt plan,
           or_deadLetteredAt := (if retry_exhausted plan then Some now else None)\<rparr>))"

definition dismissed_recovery :: "string \<Rightarrow> recovery_row list \<Rightarrow> recovery_row list" where
  "dismissed_recovery i recs =
     (if \<exists>x \<in> set recs. rec_failedReplyId x = i \<and> rec_state x = Recovered then recs
      else \<lparr>rec_failedReplyId = i, rec_state = RecoveryDismissed, rec_replacementId = None, rec_resolvedBy = None\<rparr>
             # filter (\<lambda>x. rec_failedReplyId x \<noteq> i) recs)"

definition fail_page :: "'w delivery_env \<Rightarrow> outbound_row \<Rightarrow> DeliveryFailureMetadata \<Rightarrow> int \<Rightarrow> timestamp \<Rightarrow> 'w delivery_db \<Rightarrow> 'w delivery_db \<times> failure_outcome" where
  "fail_page env r m delay now db =
     (let db1 = update_reply (or_id r) (page_failed_row m delay now) db
      in if or_state (page_failed_row m delay now r) = Pending then (db1, FailRetry)
         else (advance_row_scope env r (db1\<lparr>dd_recoveries := dismissed_recovery (or_id r) (dd_recoveries db1),
                                            dd_world := ev_failedPage env r (dd_world db1)\<rparr>), FailDeadLetter))"

definition failPreparedDelivery :: "'w delivery_env \<Rightarrow> PreparedDeliveryClaim \<Rightarrow> PreparedDeliveryFailure \<Rightarrow> timestamp \<Rightarrow> 'w delivery_db
    \<Rightarrow> 'w delivery_db \<times> failure_outcome" where
  "failPreparedDelivery env c f now db = (case claimedReply c now db of
     None \<Rightarrow> (db, FailStale)
   | Some r \<Rightarrow>
       let delay = max 0 (failure_retryAt f - now) in
       if is_page_row r then fail_page env r (failure_metadata f) delay now db
       else apply_failure env c r (failure_metadata f) delay now db)"

subsection \<open>Claims that expire\<close>

definition expired_claim :: "timestamp \<Rightarrow> outbound_row \<Rightarrow> bool" where
  "expired_claim now r = (in_flight r \<and> (case or_claimExpiresAt r of None \<Rightarrow> False | Some t \<Rightarrow> t \<le> now))"

definition expire_row :: "timestamp \<Rightarrow> outbound_row \<Rightarrow> outbound_row" where
  "expire_row now r = clear_claim (r\<lparr>or_state := DeadLetter, or_failureClass := Some UnknownFailure, or_effectCertainty := Some Uncertain,
     or_deadLetteredAt := Some now\<rparr>)"

definition recoverExpiredClaim :: "timestamp \<Rightarrow> outbound_row \<Rightarrow> 'w delivery_db \<Rightarrow> 'w delivery_db" where
  "recoverExpiredClaim now r db =
     upsert_quarantine (failure_quarantine r UnknownFailure Uncertain True now) (update_reply (or_id r) (expire_row now) db)"

text \<open>The page is ordered by the time of expiry, then by id.\<close>

definition recoverExpiredRingClaims :: "timestamp \<Rightarrow> nat \<Rightarrow> 'w delivery_db \<Rightarrow> 'w delivery_db \<times> string list" where
  "recoverExpiredRingClaims now limit db =
     (let page = take limit (sort_key (\<lambda>r. case or_claimExpiresAt r of None \<Rightarrow> 0 | Some t \<Rightarrow> t)
                   (sort_key or_id (filter (expired_claim now) (dd_rows db))))
      in (fold (recoverExpiredClaim now) page db, map or_id page))"

subsection \<open>Runs\<close>

text \<open>
  Everything else that writes the tables, in this process or another: it may insert, change,
  settle and delete rows, move the lease and open or release quarantines. It never gives out a
  claim: no other code writes \<^verbatim>\<open>claim_attempt_id\<close> to anything but \<^verbatim>\<open>NULL\<close>, and none returns a row to
  \<^verbatim>\<open>pending\<close> that still has one, or moves it to another ring.
\<close>

definition gives_no_claim :: "'w delivery_db \<Rightarrow> 'w delivery_db \<Rightarrow> bool" where
  "gives_no_claim db db' =
     (distinct (map or_id (dd_rows db')) \<and> dd_attempts db \<subseteq> dd_attempts db'
      \<and> (\<forall>r' \<in> set (dd_rows db'). or_claimAttempt r' \<noteq> None \<longrightarrow>
           (\<exists>r \<in> set (dd_rows db). or_id r = or_id r' \<and> or_claimAttempt r = or_claimAttempt r' \<and> row_scope_key r = row_scope_key r'
              \<and> (or_state r' = Pending \<longrightarrow> or_state r = Pending))))"

inductive delivery_step :: "'w delivery_env \<Rightarrow> 'w delivery_db \<Rightarrow> 'w delivery_db \<Rightarrow> bool" for env where
  claimed: "attempt \<notin> dd_attempts db \<Longrightarrow> claimPreparedDelivery env fence attempt now expires d db = (db', c) \<Longrightarrow> delivery_step env db db'"
| renewed: "renewPreparedDeliveryClaim c now expires db = (db', b) \<Longrightarrow> delivery_step env db db'"
| checkpointed: "checkpointPreparedDelivery c checkpoint now db = (db', b) \<Longrightarrow> delivery_step env db db'"
| acknowledged: "acknowledgePreparedDelivery env c ack now db = Inr (db', b) \<Longrightarrow> delivery_step env db db'"
| failed: "failPreparedDelivery env c f now db = (db', outcome) \<Longrightarrow> delivery_step env db db'"
| expired: "recoverExpiredRingClaims now limit db = (db', ids) \<Longrightarrow> delivery_step env db db'"
| elsewhere: "gives_no_claim db db' \<Longrightarrow> delivery_step env db db'"

definition no_deliveries :: "'w delivery_db \<Rightarrow> bool" where
  "no_deliveries db = (dd_rows db = [])"

definition claims_ok :: "'w delivery_db \<Rightarrow> bool" where
  "claims_ok db =
     (distinct (map or_id (dd_rows db))
      \<and> (\<forall>r \<in> set (dd_rows db). \<forall>a. or_claimAttempt r = Some a \<longrightarrow> a \<in> dd_attempts db)
      \<and> (\<forall>r \<in> set (dd_rows db). \<forall>q \<in> set (dd_rows db). or_claimAttempt r \<noteq> None \<longrightarrow> or_claimAttempt r = or_claimAttempt q \<longrightarrow> r = q)
      \<and> (\<forall>r \<in> set (dd_rows db). \<forall>q \<in> set (dd_rows db). in_flight r \<longrightarrow> in_flight q \<longrightarrow> sql_eq (row_scope_key r) (row_scope_key q) \<longrightarrow> r = q))"

subsection \<open>Operations that give out no claim\<close>

definition keeps_claim :: "outbound_row \<Rightarrow> outbound_row \<Rightarrow> bool" where
  "keeps_claim r r' = (or_id r' = or_id r \<and> row_scope_key r' = row_scope_key r
     \<and> (or_claimAttempt r' = None \<or> or_claimAttempt r' = or_claimAttempt r \<and> (or_state r' = Pending \<longrightarrow> or_state r = Pending)))"

lemma gives_no_claim_frame [simp]:
  "gives_no_claim db (db'\<lparr>dd_recoveries := a\<rparr>) = gives_no_claim db db'"
  "gives_no_claim db (db'\<lparr>dd_quarantines := b\<rparr>) = gives_no_claim db db'"
  "gives_no_claim db (db'\<lparr>dd_checkpoints := c\<rparr>) = gives_no_claim db db'"
  "gives_no_claim db (db'\<lparr>dd_backwardRebases := d\<rparr>) = gives_no_claim db db'"
  "gives_no_claim db (db'\<lparr>dd_world := w\<rparr>) = gives_no_claim db db'"
  "gives_no_claim db (db'\<lparr>dd_cooldownUntil := t\<rparr>) = gives_no_claim db db'"
  "gives_no_claim db (upsert_quarantine q db') = gives_no_claim db db'"
  "gives_no_claim db (extend_cooldown u db') = gives_no_claim db db'"
  by (simp_all add: gives_no_claim_def upsert_quarantine_def extend_cooldown_def)

lemma gives_no_claim_refl: "distinct (map or_id (dd_rows db)) \<Longrightarrow> gives_no_claim db db"
  by (auto simp: gives_no_claim_def)

lemma gives_no_claim_ids: "gives_no_claim db db' \<Longrightarrow> distinct (map or_id (dd_rows db'))"
  by (simp add: gives_no_claim_def)

lemma gives_no_claim_trans:
  assumes "gives_no_claim a b" and "gives_no_claim b c"
  shows "gives_no_claim a c"
proof -
  have "\<exists>r \<in> set (dd_rows a). or_id r = or_id r' \<and> or_claimAttempt r = or_claimAttempt r' \<and> row_scope_key r = row_scope_key r'
        \<and> (or_state r' = Pending \<longrightarrow> or_state r = Pending)"
    if r': "r' \<in> set (dd_rows c)" "or_claimAttempt r' \<noteq> None" for r'
  proof -
    from assms(2) r' obtain q where q: "q \<in> set (dd_rows b)" "or_id q = or_id r'" "or_claimAttempt q = or_claimAttempt r'"
      "row_scope_key q = row_scope_key r'" "or_state r' = Pending \<longrightarrow> or_state q = Pending" unfolding gives_no_claim_def by blast
    with assms(1) r'(2) obtain r where "r \<in> set (dd_rows a)" "or_id r = or_id q" "or_claimAttempt r = or_claimAttempt q"
      "row_scope_key r = row_scope_key q" "or_state q = Pending \<longrightarrow> or_state r = Pending" unfolding gives_no_claim_def by metis
    with q show ?thesis by (intro bexI [of _ r]) simp_all
  qed
  with assms show ?thesis unfolding gives_no_claim_def by blast
qed

lemma gives_no_claim_update:
  assumes ids: "distinct (map or_id (dd_rows db))" and keep: "\<And>r. r \<in> set (dd_rows db) \<Longrightarrow> or_id r = i \<Longrightarrow> keeps_claim r (f r)"
  shows "gives_no_claim db (update_reply i f db)"
proof -
  let ?g = "\<lambda>r. if or_id r = i then f r else r"
  have g: "keeps_claim r (?g r)" if "r \<in> set (dd_rows db)" for r
    using keep [OF that] by (simp add: keeps_claim_def)
  have same: "map or_id (map ?g (dd_rows db)) = map or_id (dd_rows db)"
    using g by (simp add: keeps_claim_def cong: map_cong)
  have "\<exists>r \<in> set (dd_rows db). or_id r = or_id r' \<and> or_claimAttempt r = or_claimAttempt r' \<and> row_scope_key r = row_scope_key r'
        \<and> (or_state r' = Pending \<longrightarrow> or_state r = Pending)"
    if r': "r' \<in> set (map ?g (dd_rows db))" "or_claimAttempt r' \<noteq> None" for r'
  proof -
    from r'(1) obtain r where r: "r \<in> set (dd_rows db)" "r' = ?g r" by auto
    from g [OF r(1)] r(2) have "keeps_claim r r'" by simp
    with r'(2) r(1) show ?thesis unfolding keeps_claim_def by auto
  qed
  note claims = this
  have rows: "dd_rows (update_reply i f db) = map ?g (dd_rows db)" "dd_attempts (update_reply i f db) = dd_attempts db"
    by (simp_all add: update_reply_def)
  show ?thesis
    unfolding gives_no_claim_def rows same using ids claims by blast
qed

lemma gives_no_claim_insert:
  assumes "distinct (map or_id (dd_rows db))"
  shows "gives_no_claim db (insert_reply r db)"
  using assms by (auto simp: gives_no_claim_def insert_reply_def clear_claim_def)

lemma gives_no_claim_fold:
  assumes step: "\<And>x db. distinct (map or_id (dd_rows db)) \<Longrightarrow> gives_no_claim db (f x db)" and ids: "distinct (map or_id (dd_rows db))"
  shows "gives_no_claim db (fold f xs db)"
  using ids
proof (induction xs arbitrary: db)
  case Nil
  then show ?case by (simp add: gives_no_claim_refl)
next
  case (Cons x xs)
  have first: "gives_no_claim db (f x db)" using step Cons.prems by blast
  from gives_no_claim_trans [OF first Cons.IH [OF gives_no_claim_ids [OF first]]] show ?case by simp
qed

lemma gives_no_claim_advance [simp]:
  "gives_no_claim db (advanceCheckpoint env key db') = gives_no_claim db db'"
  "gives_no_claim db (advance_row_scope env r db') = gives_no_claim db db'"
proof -
  show a: "gives_no_claim db (advanceCheckpoint env key db') = gives_no_claim db db'" for key
    by (simp add: advanceCheckpoint_def loadOrInitializeCheckpoint_def Let_def split: option.split)
  show "gives_no_claim db (advance_row_scope env r db') = gives_no_claim db db'"
    using a by (simp add: advance_row_scope_def split: option.split)
qed

lemma cleared [simp]:
  "or_claimAttempt (clear_claim r) = None" "or_id (clear_claim r) = or_id r" "row_scope_key (clear_claim r) = row_scope_key r" "or_scope (clear_claim r) = or_scope r"
  "or_state (clear_claim r) = or_state r" "or_attemptCount (clear_claim r) = or_attemptCount r"
  "or_laneKey (clear_claim r) = or_laneKey r" "or_conflictKey (clear_claim r) = or_conflictKey r"
  "or_failureClass (clear_claim r) = or_failureClass r" "or_effectCertainty (clear_claim r) = or_effectCertainty r"
  by (simp_all add: clear_claim_def row_scope_key_def)

lemma keeps_claim_settled [simp]:
  "keeps_claim r (r\<lparr>or_state := Dismissed\<rparr>)"
  "keeps_claim r (r\<lparr>or_claimExpiresAt := t\<rparr>)"
  "keeps_claim r (r\<lparr>or_cardIdCheckpoint := x, or_gatewayCheckpoint := y\<rparr>)"
  "keeps_claim r (expire_row now r)" "keeps_claim r (dead_row m now r)" "keeps_claim r (retry_row m delay now r)"
  "keeps_claim r (page_failed_row m delay now r)"
  by (simp_all add: keeps_claim_def row_scope_key_def expire_row_def dead_row_def retry_row_def page_failed_row_def Let_def)

lemma delivered_rows [simp]:
  "or_id (page_delivered_row ack r) = or_id r" "or_claimAttempt (page_delivered_row ack r) = None" "keeps_claim r (page_delivered_row ack r)"
  "or_id (card_delivered_row ack r) = or_id r" "or_claimAttempt (card_delivered_row ack r) = None" "keeps_claim r (card_delivered_row ack r)"
  by (simp_all add: page_delivered_row_def card_delivered_row_def keeps_claim_def delivered_row_def row_scope_key_def split: option.split)

lemma claimedReply_held:
  "claimedReply c now db = Some r \<Longrightarrow> r \<in> set (dd_rows db) \<and> held_fields c r \<and> or_payloadHash r = Some (claim_planHash c) \<and> claim_leased c now db"
  by (auto simp: claimedReply_def find_Some_iff)

lemma row_by_id: "distinct (map or_id rows) \<Longrightarrow> r \<in> set rows \<Longrightarrow> q \<in> set rows \<Longrightarrow> or_id q = or_id r \<Longrightarrow> q = r"
  by (simp add: distinct_map inj_on_def)

lemma renewed_gives_no_claim:
  assumes "distinct (map or_id (dd_rows db))" and "renewPreparedDeliveryClaim c now expires db = (db', b)"
  shows "gives_no_claim db db'"
  using assms by (auto simp: renewPreparedDeliveryClaim_def gives_no_claim_refl gives_no_claim_update split: option.splits)

lemma checkpointed_gives_no_claim:
  assumes "distinct (map or_id (dd_rows db))" and "checkpointPreparedDelivery c checkpoint now db = (db', b)"
  shows "gives_no_claim db db'"
  using assms by (auto simp: checkpointPreparedDelivery_def checkpointCard_def gives_no_claim_refl gives_no_claim_update split: option.splits if_splits)

lemma settled_gives_no_claim:
  assumes ids: "distinct (map or_id (dd_rows db))" and settled: "settle_world env r ack (update_reply i f db) = Inr db'"
    and keep: "\<And>r. keeps_claim r (f r)"
  shows "gives_no_claim db db'"
proof -
  obtain rows recs w where db': "db' = fold insert_reply rows ((update_reply i f db)\<lparr>dd_recoveries := recs, dd_world := w\<rparr>)"
    using settled by (auto simp: settle_world_def split: option.splits)
  have first: "gives_no_claim db ((update_reply i f db)\<lparr>dd_recoveries := recs, dd_world := w\<rparr>)"
    using gives_no_claim_update [OF ids keep] by simp
  from gives_no_claim_trans [OF first gives_no_claim_fold [OF gives_no_claim_insert gives_no_claim_ids [OF first]]] db'
  show ?thesis by simp
qed

lemma acknowledged_cases:
  assumes "acknowledgePreparedDelivery env c ack now db = Inr (db', b)"
  obtains (refused) "db' = db" "\<not> b"
  | (delivered) r f db2 where "claimedReply c now db = Some r" "b" "f \<in> {page_delivered_row ack, card_delivered_row ack}"
      "settle_world env r ack (update_reply (or_id r) f db) = Inr db2" "db' = advance_row_scope env r db2"
proof (cases "claimedReply c now db")
  case None
  with assms refused show ?thesis by (simp add: acknowledgePreparedDelivery_def)
next
  case (Some r)
  show ?thesis
  proof (cases "is_page_row r")
    case True
    with Some assms delivered [of r "page_delivered_row ack"] show ?thesis
      by (auto simp: acknowledgePreparedDelivery_def acknowledge_page_def split: sum.splits)
  next
    case False
    with Some assms delivered [of r "card_delivered_row ack"] refused show ?thesis
      by (auto simp: acknowledgePreparedDelivery_def markDelivered_def split: sum.splits if_splits)
  qed
qed

lemma acknowledged_gives_no_claim:
  assumes ids: "distinct (map or_id (dd_rows db))" and "acknowledgePreparedDelivery env c ack now db = Inr (db', b)"
  shows "gives_no_claim db db'"
  using assms(2)
proof (cases rule: acknowledged_cases)
  case refused
  with gives_no_claim_refl [OF ids] show ?thesis by simp
next
  case (delivered r f db2)
  then have "keeps_claim q (f q)" for q by auto
  from settled_gives_no_claim [OF ids delivered(4) this] delivered(5) show ?thesis by simp
qed

lemma repaired_gives_no_claim:
  assumes "distinct (map or_id (dd_rows db))"
  shows "gives_no_claim db (apply_repair r m now rep db)"
proof -
  let ?f = "\<lambda>i. update_reply i (\<lambda>q. if or_state q = Pending then q\<lparr>or_state := Dismissed\<rparr> else q)"
  have "gives_no_claim d (?f i d)" if "distinct (map or_id (dd_rows d))" for i d
    by (rule gives_no_claim_update [OF that]) (simp add: keeps_claim_def row_scope_key_def)
  then have one: "gives_no_claim db (fold ?f (fr_dismissed rep) db)" by (intro gives_no_claim_fold assms)
  have two: "gives_no_claim db (fold insert_reply (fr_inserted rep) (fold ?f (fr_dismissed rep) db))" (is "gives_no_claim _ ?d")
    by (rule gives_no_claim_trans [OF one gives_no_claim_fold [OF gives_no_claim_insert gives_no_claim_ids [OF one]]])
  have three: "gives_no_claim db (if fr_dismissSelf rep then update_reply (or_id r) (\<lambda>q. q\<lparr>or_state := Dismissed\<rparr>) ?d else ?d)"
    using two gives_no_claim_trans [OF two gives_no_claim_update [OF gives_no_claim_ids [OF two]]] by simp
  then show ?thesis by (simp add: apply_repair_def Let_def)
qed

lemma recorded_gives_no_claim:
  assumes "distinct (map or_id (dd_rows db))"
  shows "gives_no_claim db (record_failure r m delay now db)"
proof -
  have "gives_no_claim db (update_reply (or_id r) (failed_row m delay now) db)"
    by (rule gives_no_claim_update [OF assms]) (simp add: failed_row_def)
  then show ?thesis by (simp add: record_failure_def Let_def)
qed

lemma failed_gives_no_claim:
  assumes ids: "distinct (map or_id (dd_rows db))" and failed: "failPreparedDelivery env c f now db = (db', outcome)"
  shows "gives_no_claim db db'"
proof (cases "claimedReply c now db")
  case None
  with assms show ?thesis by (simp add: failPreparedDelivery_def gives_no_claim_refl)
next
  case (Some r)
  let ?m = "failure_metadata f" and ?delay = "max 0 (failure_retryAt f - now)"
  show ?thesis
  proof (cases "is_page_row r")
    case True
    have "gives_no_claim db (update_reply (or_id r) (page_failed_row ?m ?delay now) db)" by (rule gives_no_claim_update [OF ids]) simp
    with Some True failed show ?thesis by (auto simp: failPreparedDelivery_def fail_page_def Let_def split: if_splits)
  next
    case False
    let ?failed = "failed_row ?m ?delay now r" and ?db1 = "record_failure r ?m ?delay now db"
    have one: "gives_no_claim db ?db1" by (rule recorded_gives_no_claim [OF ids])
    have repaired: "gives_no_claim db (apply_repair ?failed ?m now (ev_repair env ?failed ?m now ?db1) ?db1)"
      by (rule gives_no_claim_trans [OF one repaired_gives_no_claim [OF gives_no_claim_ids [OF one]]])
    have dismissed: "gives_no_claim db (dismiss_exhausted (or_id r) ?db1)"
      using gives_no_claim_trans [OF one gives_no_claim_update [OF gives_no_claim_ids [OF one]]] by (simp add: dismiss_exhausted_def)
    from failed Some False
    have "db' \<in> {db, ?db1, dismiss_exhausted (or_id r) ?db1, apply_repair ?failed ?m now (ev_repair env ?failed ?m now ?db1) ?db1}"
      by (auto simp: failPreparedDelivery_def apply_failure_def Let_def split: if_splits)
    with gives_no_claim_refl [OF ids] one repaired dismissed show ?thesis by blast
  qed
qed

lemma expired_gives_no_claim:
  assumes ids: "distinct (map or_id (dd_rows db))" and "recoverExpiredRingClaims now limit db = (db', l)"
  shows "gives_no_claim db db'"
proof -
  have "gives_no_claim d (recoverExpiredClaim now r d)" if "distinct (map or_id (dd_rows d))" for r d
    using gives_no_claim_update [OF that, of "or_id r" "expire_row now"] by (simp add: recoverExpiredClaim_def)
  then have "gives_no_claim db (fold (recoverExpiredClaim now) rs db)" for rs by (intro gives_no_claim_fold ids)
  with assms(2) show ?thesis by (auto simp: recoverExpiredRingClaims_def Let_def)
qed

lemma dismissed_gives_no_claim:
  assumes "distinct (map or_id (dd_rows db))"
  shows "gives_no_claim db (dismissStaleDelivery env fence now d db)"
  using assms by (auto simp: dismissStaleDelivery_def Let_def gives_no_claim_refl gives_no_claim_update split: option.split)

text \<open>Every step but a successful claim gives out nothing.\<close>

lemma delivery_step_cases:
  assumes "delivery_step env db db'" and ids: "distinct (map or_id (dd_rows db))"
  obtains (quiet) "gives_no_claim db db'"
  | (granted) attempt fence now expires d r where "attempt \<notin> dd_attempts db" "path_admits d" "r \<in> set (dd_rows db)"
      "may_claim env fence now d db r"
      "db' = (update_reply (or_id r) (claim_row fence attempt now expires) db)\<lparr>dd_attempts := insert attempt (dd_attempts db)\<rparr>"
  using assms(1)
proof cases
  case (claimed attempt fence now expires d c)
  show ?thesis
  proof (cases "\<exists>r. path_admits d \<and> find (may_claim env fence now d db) (dd_rows db) = Some r")
    case True
    then obtain r where r: "path_admits d" "find (may_claim env fence now d db) (dd_rows db) = Some r" by blast
    then have "r \<in> set (dd_rows db)" "may_claim env fence now d db r" by (auto simp: find_Some_iff)
    moreover have "db' = (update_reply (or_id r) (claim_row fence attempt now expires) db)\<lparr>dd_attempts := insert attempt (dd_attempts db)\<rparr>"
      using claimed(2) r by (auto simp: claimPreparedDelivery_def Let_def update_reply_def)
    ultimately show ?thesis using granted claimed(1) r(1) by blast
  next
    case False
    with claimed(2) have "db' = db \<or> db' = dismissStaleDelivery env fence now d db"
      by (auto simp: claimPreparedDelivery_def Let_def split: if_splits option.splits)
    with gives_no_claim_refl [OF ids] dismissed_gives_no_claim [OF ids] quiet show ?thesis by blast
  qed
next
  case (renewed c now expires b)
  then show ?thesis by (intro quiet renewed_gives_no_claim [OF ids])
next
  case (checkpointed c checkpoint now b)
  then show ?thesis by (intro quiet checkpointed_gives_no_claim [OF ids])
next
  case (acknowledged c ack now b)
  then show ?thesis by (intro quiet acknowledged_gives_no_claim [OF ids])
next
  case (failed c f now outcome)
  then show ?thesis by (intro quiet failed_gives_no_claim [OF ids])
next
  case (expired now limit l)
  then show ?thesis by (intro quiet expired_gives_no_claim [OF ids])
next
  case elsewhere
  then show ?thesis by (rule quiet)
qed

subsection \<open>The invariant\<close>

lemma claims_ok_quiet:
  assumes ok: "claims_ok db" and quiet: "gives_no_claim db db'"
  shows "claims_ok db'"
proof -
  have origin: "\<exists>r \<in> set (dd_rows db). or_id r = or_id r' \<and> or_claimAttempt r = or_claimAttempt r' \<and> row_scope_key r = row_scope_key r'
      \<and> (in_flight r' \<longrightarrow> in_flight r)" if "r' \<in> set (dd_rows db')" "or_claimAttempt r' \<noteq> None" for r'
    using quiet that unfolding gives_no_claim_def in_flight_def by metis
  have ids: "distinct (map or_id (dd_rows db'))" "dd_attempts db \<subseteq> dd_attempts db'" using quiet by (simp_all add: gives_no_claim_def)
  have attempts: "a \<in> dd_attempts db'" if r': "r' \<in> set (dd_rows db')" "or_claimAttempt r' = Some a" for r' a
  proof -
    obtain r where "r \<in> set (dd_rows db)" "or_claimAttempt r = Some a" using origin [OF r'(1)] r'(2) by auto
    then show ?thesis using ok ids(2) unfolding claims_ok_def by blast
  qed
  have once: "r' = q'" if rq: "r' \<in> set (dd_rows db')" "q' \<in> set (dd_rows db')" "or_claimAttempt r' \<noteq> None" "or_claimAttempt q' \<noteq> None"
      "or_claimAttempt r' = or_claimAttempt q' \<or> in_flight r' \<and> in_flight q' \<and> sql_eq (row_scope_key r') (row_scope_key q')" for r' q'
  proof -
    obtain r where r: "r \<in> set (dd_rows db)" "or_id r = or_id r'" "or_claimAttempt r = or_claimAttempt r'" "row_scope_key r = row_scope_key r'"
      "in_flight r' \<longrightarrow> in_flight r" using origin rq(1,3) by blast
    obtain q where q: "q \<in> set (dd_rows db)" "or_id q = or_id q'" "or_claimAttempt q = or_claimAttempt q'" "row_scope_key q = row_scope_key q'"
      "in_flight q' \<longrightarrow> in_flight q" using origin rq(2,4) by blast
    have "or_claimAttempt r \<noteq> None" "or_claimAttempt r = or_claimAttempt q \<or> in_flight r \<and> in_flight q \<and> sql_eq (row_scope_key r) (row_scope_key q)"
      using rq(3,5) r q by auto
    with r(1) q(1) ok have "r = q" unfolding claims_ok_def by blast
    with r q have "or_id r' = or_id q'" by simp
    with row_by_id [OF ids(1) rq(2,1)] show ?thesis by blast
  qed
  show ?thesis unfolding claims_ok_def
    using ids(1) attempts once by (auto simp: in_flight_def)
qed

lemma granted_rows:
  assumes "r \<in> set (dd_rows db)" and "distinct (map or_id (dd_rows db))"
  shows "set (dd_rows (update_reply (or_id r) f db)) = insert (f r) (set (dd_rows db) - {r})"
proof -
  let ?g = "\<lambda>q. if or_id q = or_id r then f q else q"
  have g: "?g q = (if q = r then f r else q)" if "q \<in> set (dd_rows db)" for q using row_by_id [OF assms(2,1) that] by auto
  have "?g ` set (dd_rows db) = (\<lambda>q. if q = r then f r else q) ` set (dd_rows db)" by (rule image_cong [OF refl g])
  also have "\<dots> = insert (f r) (set (dd_rows db) - {r})" using assms(1) by auto
  finally show ?thesis by (simp add: update_reply_def)
qed

lemma claims_ok_granted:
  assumes ok: "claims_ok db" and "attempt \<notin> dd_attempts db" and r: "r \<in> set (dd_rows db)" and claim: "may_claim env fence now d db r"
  shows "claims_ok ((update_reply (or_id r) (claim_row fence attempt now expires) db)\<lparr>dd_attempts := insert attempt (dd_attempts db)\<rparr>)"
    (is "claims_ok ?db'")
proof -
  let ?c = "claim_row fence attempt now expires r"
  have ids: "distinct (map or_id (dd_rows db))" using ok by (simp add: claims_ok_def)
  have rows: "set (dd_rows ?db') = insert ?c (set (dd_rows db) - {r})" using granted_rows [OF r ids] by simp
  have "map or_id (dd_rows ?db') = map or_id (dd_rows db)" by (simp add: update_reply_def claim_row_def)
  then have ids': "distinct (map or_id (dd_rows ?db'))" using ids by metis
  have c: "or_claimAttempt ?c = Some attempt" "row_scope_key ?c = row_scope_key r" by (simp_all add: claim_row_def row_scope_key_def)
  have alone: "\<not> (in_flight q \<and> (sql_eq (row_scope_key q) (row_scope_key r) \<or> sql_eq (row_scope_key r) (row_scope_key q)))" if "q \<in> set (dd_rows db)" for q
  proof -
    have "\<not> (\<exists>q \<in> set (dd_rows db). sql_eq (row_scope_key q) (row_scope_key r) \<and> in_flight q)"
      using claim unfolding may_claim_def claimConflictEligibility_def by blast
    moreover have "sql_eq (row_scope_key r) (row_scope_key q) \<longleftrightarrow> sql_eq (row_scope_key q) (row_scope_key r)" by (metis sql_eq_def)
    ultimately show ?thesis using that by blast
  qed
  have fresh: "or_claimAttempt q \<noteq> Some attempt" if "q \<in> set (dd_rows db)" for q
    using ok assms(2) that by (auto simp: claims_ok_def)
  have old: "or_claimAttempt q = Some a \<Longrightarrow> a \<in> dd_attempts db" if "q \<in> set (dd_rows db)" for q a
    using ok that by (auto simp: claims_ok_def)
  have pairs: "p = q" if "p \<in> set (dd_rows db)" "q \<in> set (dd_rows db)" "or_claimAttempt p \<noteq> None"
      "or_claimAttempt p = or_claimAttempt q \<or> in_flight p \<and> in_flight q \<and> sql_eq (row_scope_key p) (row_scope_key q)" for p q
    using ok that unfolding claims_ok_def by blast
  have flight: "or_claimAttempt q \<noteq> None" if "in_flight q" for q using that by (simp add: in_flight_def)
  have once: "\<forall>p \<in> insert ?c (set (dd_rows db) - {r}). \<forall>q \<in> insert ?c (set (dd_rows db) - {r}).
      or_claimAttempt p \<noteq> None \<longrightarrow> or_claimAttempt p = or_claimAttempt q \<longrightarrow> p = q"
  proof (intro ballI impI)
    fix p q
    assume p: "p \<in> insert ?c (set (dd_rows db) - {r})" and q: "q \<in> insert ?c (set (dd_rows db) - {r})"
      and claim: "or_claimAttempt p \<noteq> None" "or_claimAttempt p = or_claimAttempt q"
    have old_p: "p \<in> set (dd_rows db)" if "p \<noteq> ?c" using p that by blast
    have old_q: "q \<in> set (dd_rows db)" if "q \<noteq> ?c" using q that by blast
    have "p = ?c \<longleftrightarrow> q = ?c" using claim(2) c(1) fresh [OF old_p] fresh [OF old_q] by metis
    then show "p = q" using pairs [OF old_p old_q claim(1)] claim(2) by blast
  qed
  have one: "\<forall>p \<in> insert ?c (set (dd_rows db) - {r}). \<forall>q \<in> insert ?c (set (dd_rows db) - {r}).
      in_flight p \<longrightarrow> in_flight q \<longrightarrow> sql_eq (row_scope_key p) (row_scope_key q) \<longrightarrow> p = q"
  proof (intro ballI impI)
    fix p q
    assume p: "p \<in> insert ?c (set (dd_rows db) - {r})" and q: "q \<in> insert ?c (set (dd_rows db) - {r})"
      and both: "in_flight p" "in_flight q" "sql_eq (row_scope_key p) (row_scope_key q)"
    have old_p: "p \<in> set (dd_rows db)" if "p \<noteq> ?c" using p that by blast
    have old_q: "q \<in> set (dd_rows db)" if "q \<noteq> ?c" using q that by blast
    have "p \<noteq> ?c \<Longrightarrow> q \<noteq> ?c" using alone [OF old_p] both c(2) by metis
    moreover have "q \<noteq> ?c \<Longrightarrow> p \<noteq> ?c" using alone [OF old_q] both c(2) by metis
    ultimately show "p = q" using pairs [OF old_p old_q flight [OF both(1)]] both by blast
  qed
  have known: "\<forall>p \<in> insert ?c (set (dd_rows db) - {r}). \<forall>a. or_claimAttempt p = Some a \<longrightarrow> a \<in> insert attempt (dd_attempts db)"
  proof (intro ballI allI impI)
    fix p a
    assume "p \<in> insert ?c (set (dd_rows db) - {r})" and a: "or_claimAttempt p = Some a"
    then consider "p = ?c" | "p \<in> set (dd_rows db)" by blast
    then show "a \<in> insert attempt (dd_attempts db)" using c(1) a old by cases simp_all
  qed
  have history: "dd_attempts ?db' = insert attempt (dd_attempts db)" by simp
  show ?thesis
    unfolding claims_ok_def rows history by (intro conjI ids' once one known)
qed

lemma claims_ok_ids: "claims_ok db \<Longrightarrow> distinct (map or_id (dd_rows db))"
  by (simp add: claims_ok_def)

lemma delivery_step_ok:
  assumes "delivery_step env db db'" and ok: "claims_ok db"
  shows "claims_ok db'"
  using assms(1) claims_ok_ids [OF ok]
proof (cases rule: delivery_step_cases)
  case quiet
  then show ?thesis by (rule claims_ok_quiet [OF ok])
next
  case (granted attempt fence now expires d r)
  then show ?thesis using claims_ok_granted [OF ok] by blast
qed

lemma no_deliveries_ok: "no_deliveries db \<Longrightarrow> claims_ok db"
  by (simp add: no_deliveries_def claims_ok_def)

interpretation claims: invariant_system no_deliveries "delivery_step env" claims_ok
  by unfold_locales (use no_deliveries_ok delivery_step_ok in blast)+

subsection \<open>Ring positions\<close>

lemma foldr_min_least: "(foldr min os o1 :: int) \<in> set (o1 # os) \<and> (\<forall>x \<in> set (o1 # os). foldr min os o1 \<le> x)"
  by (induction os) (auto simp: min_def)

lemma foldr_max_greatest: "\<forall>x \<in> set os. x \<le> (foldr max os 0 :: int)"
  by (induction os) (auto simp: le_max_iff_disj)

lemma foldr_max_member: "(foldr max os 0 :: int) = 0 \<or> foldr max os 0 \<in> set os"
  by (induction os) (auto simp: max_def)

lemma ring_position_frame [simp]:
  "ring_position env (db\<lparr>dd_checkpoints := c\<rparr>) key = ring_position env db key"
  "ring_position env (db\<lparr>dd_backwardRebases := n\<rparr>) key = ring_position env db key"
proof -
  have blockers: "ringBlocker env (db\<lparr>dd_checkpoints := c\<rparr>) = ringBlocker env db" "ringBlocker env (db\<lparr>dd_backwardRebases := n\<rparr>) = ringBlocker env db"
    by (simp_all add: fun_eq_iff ringBlocker_def nonterminalReply_def terminalReplacement_def view_def)
  have orders: "row_orders key P (db\<lparr>dd_checkpoints := c\<rparr>) = row_orders key P db" "row_orders key P (db\<lparr>dd_backwardRebases := n\<rparr>) = row_orders key P db" for P
    by (simp_all add: row_orders_def)
  show "ring_position env (db\<lparr>dd_checkpoints := c\<rparr>) key = ring_position env db key"
    "ring_position env (db\<lparr>dd_backwardRebases := n\<rparr>) key = ring_position env db key"
    by (simp_all only: ring_position_def blockers orders)
qed

lemma advanceCheckpoint_position: "dd_checkpoints (advanceCheckpoint env key db) key = Some (ring_position env db key)"
  by (simp add: advanceCheckpoint_def loadOrInitializeCheckpoint_def Let_def split: option.split)


subsection \<open>Properties of claims\<close>

lemma find_SomeD: "find P xs = Some x \<Longrightarrow> x \<in> set xs \<and> P x"
  by (auto simp: find_Some_iff)

lemma claim_granted:
  assumes "claimPreparedDelivery env fence attempt now expires d db = (db', Some c)"
  shows "\<exists>r \<in> set (dd_rows db). may_claim env fence now d db r \<and> claim_replyId c = or_id r \<and> claim_attemptId c = attempt
      \<and> claim_planHash c = planHash d \<and> fence = Some (claim_ownerId c, claim_fencingToken c)"
proof -
  obtain r where r: "r \<in> set (dd_rows db)" "may_claim env fence now d db r" "claim_replyId c = or_id r" "claim_attemptId c = attempt"
    "claim_planHash c = planHash d" "claim_ownerId c = fst (the fence)" "claim_fencingToken c = snd (the fence)"
    using assms find_SomeD by (fastforce simp: claimPreparedDelivery_def Let_def split: if_splits option.splits)
  moreover from r(2) have "fence \<noteq> None" by (auto simp: may_claim_def fence_holds_def split: option.splits)
  ultimately show ?thesis by (intro bexI [of _ r]) auto
qed

text \<open>
  C5: At most one delivery of a ring is in flight, in whatever order processes claim, settle,
  lose their claims and take over from each other. And a claim is given only for the frozen
  delivery, to a process whose lease is valid, when the prerequisites are met and no cool-down
  is on, and in order: an earlier delivery of the ring that is not over is for another card, and
  it is passed only where a failure before this delivery was isolated, or where the open gap of
  its page stands for it.
\<close>
theorem one_delivery_in_flight_per_ring:
  assumes "reach no_deliveries (delivery_step env) db" and "claimPreparedDelivery env fence attempt now expires d db = (db', Some c)"
  shows "(\<forall>r \<in> set (dd_rows db). \<forall>q \<in> set (dd_rows db). in_flight r \<longrightarrow> in_flight q \<longrightarrow> sql_eq (row_scope_key r) (row_scope_key q) \<longrightarrow> r = q)
    \<and> (\<exists>r \<in> set (dd_rows db). or_id r = replyId d \<and> claim_replyId c = replyId d \<and> or_planHash r = Some (planHash d)
         \<and> or_snapshotRevision r = snapshotRevision d \<and> row_scope_key r = Some (deliveryScopeKey (scope d))
         \<and> claim_leased c now db \<and> prerequisites_met db r \<and> cooled_down db now
         \<and> (\<forall>q \<in> set (dd_rows db). row_scope_key q = row_scope_key r \<longrightarrow> \<not> in_flight q)
         \<and> (\<forall>q \<in> set (dd_rows db). row_scope_key q = row_scope_key r \<longrightarrow> or_deliveryOrder q < or_deliveryOrder r \<longrightarrow> nonterminalReply env db q \<longrightarrow>
              \<not> sql_eq (or_conflictKey q) (or_conflictKey r)
              \<and> (ev_settlementGap env (view db) q
                 \<or> quarantine_in_scope db r (\<lambda>x f. qr_isolated x \<and> or_deliveryOrder f < or_deliveryOrder r \<and> nonterminalReply env db f))))"
proof -
  have ok: "claims_ok db" using claims.reach_inv [OF assms(1)] .
  obtain r where r: "r \<in> set (dd_rows db)" "may_claim env fence now d db r" "claim_replyId c = or_id r"
    "fence = Some (claim_ownerId c, claim_fencingToken c)" using claim_granted [OF assms(2)] by blast
  have frozen: "frozen_identity d r" "prerequisites_met db r" "cooled_down db now" "claimConflictEligibility env db r" "claim_leased c now db"
    using r(2,4) by (simp_all add: may_claim_def fence_holds_def claim_leased_def)
  have key: "row_scope_key r = Some (deliveryScopeKey (scope d))" using frozen(1) by (simp add: frozen_identity_def row_scope_key_def)
  then have same: "sql_eq (row_scope_key q) (row_scope_key r) \<longleftrightarrow> row_scope_key q = row_scope_key r" for q by (auto simp: sql_eq_def)
  have eligible: "\<forall>q \<in> set (dd_rows db). row_scope_key q = row_scope_key r \<longrightarrow> \<not> in_flight q"
    "\<forall>q \<in> set (dd_rows db). row_scope_key q = row_scope_key r \<longrightarrow> or_deliveryOrder q < or_deliveryOrder r \<longrightarrow> nonterminalReply env db q \<longrightarrow>
       \<not> sql_eq (or_conflictKey q) (or_conflictKey r)"
    "\<forall>q \<in> set (dd_rows db). row_scope_key q = row_scope_key r \<longrightarrow> or_deliveryOrder q < or_deliveryOrder r \<longrightarrow> nonterminalReply env db q \<longrightarrow>
       ev_settlementGap env (view db) q
       \<or> quarantine_in_scope db r (\<lambda>x f. qr_isolated x \<and> or_deliveryOrder f < or_deliveryOrder r \<and> nonterminalReply env db f)"
    using frozen(4) unfolding claimConflictEligibility_def same by blast+
  have one: "\<forall>r \<in> set (dd_rows db). \<forall>q \<in> set (dd_rows db). in_flight r \<longrightarrow> in_flight q \<longrightarrow> sql_eq (row_scope_key r) (row_scope_key q) \<longrightarrow> r = q"
    using ok unfolding claims_ok_def by blast
  have "or_id r = replyId d" "or_planHash r = Some (planHash d)" "or_snapshotRevision r = snapshotRevision d"
    using frozen(1) by (simp_all add: frozen_identity_def)
  with r(3) have ids: "or_id r = replyId d" "claim_replyId c = replyId d" "or_planHash r = Some (planHash d)" "or_snapshotRevision r = snapshotRevision d"
    by simp_all
  show ?thesis
    by (rule conjI [OF one], rule bexI [OF _ r(1)], intro conjI ids key frozen(2,3,5) eligible(1)) (use eligible(2,3) in blast)
qed

definition released :: "string \<Rightarrow> 'w delivery_db \<Rightarrow> bool" where
  "released i db = (\<forall>r \<in> set (dd_rows db). or_id r = i \<longrightarrow> or_claimAttempt r = None)"

lemma released_no_claim: "released i db \<Longrightarrow> gives_no_claim db db' \<Longrightarrow> released i db'"
  unfolding released_def gives_no_claim_def by metis

lemma released_frame [simp]:
  "released i (db\<lparr>dd_recoveries := a\<rparr>) = released i db" "released i (db\<lparr>dd_world := w\<rparr>) = released i db"
  "released i (db\<lparr>dd_quarantines := b\<rparr>) = released i db"
  "released i (upsert_quarantine q db) = released i db" "released i (extend_cooldown t db) = released i db"
  by (simp_all add: released_def upsert_quarantine_def extend_cooldown_def)

lemma released_update: "\<forall>r. or_id (f r) = or_id r \<and> or_claimAttempt (f r) = None \<Longrightarrow> released i (update_reply i f db)"
  by (auto simp: released_def update_reply_def)

lemma released_advance [simp]:
  "released i (advanceCheckpoint env key db) = released i db" "released i (advance_row_scope env r db) = released i db"
proof -
  show a: "released i (advanceCheckpoint env key db) = released i db" for key
    by (simp add: advanceCheckpoint_def loadOrInitializeCheckpoint_def released_def Let_def split: option.split)
  show "released i (advance_row_scope env r db) = released i db" using a by (simp add: advance_row_scope_def split: option.split)
qed

lemma settle_world_releases:
  assumes "distinct (map or_id (dd_rows db))" and "released i db" and "settle_world env r ack db = Inr db'"
  shows "released i db'"
proof -
  obtain rows recs w where db': "db' = fold insert_reply rows (db\<lparr>dd_recoveries := recs, dd_world := w\<rparr>)"
    using assms(3) by (auto simp: settle_world_def split: option.splits)
  have "gives_no_claim (db\<lparr>dd_recoveries := recs, dd_world := w\<rparr>) db'"
    unfolding db' by (rule gives_no_claim_fold [OF gives_no_claim_insert]) (simp_all add: assms(1))
  then show ?thesis by (rule released_no_claim [rotated]) (simp add: assms(2))
qed

lemma update_ids: "\<forall>r. or_id (f r) = or_id r \<Longrightarrow> map or_id (dd_rows (update_reply i f db)) = map or_id (dd_rows db)"
  by (simp add: update_reply_def)

lemma acknowledged_releases:
  assumes ids: "distinct (map or_id (dd_rows db))" and ack: "acknowledgePreparedDelivery env c ack now db = Inr (db', True)"
  shows "\<exists>r. claimedReply c now db = Some r \<and> released (or_id r) db'"
  using ack
proof (cases rule: acknowledged_cases)
  case (delivered r f db2)
  then have f: "\<forall>r. or_id (f r) = or_id r \<and> or_claimAttempt (f r) = None" by auto
  then have "distinct (map or_id (dd_rows (update_reply (or_id r) f db)))" using ids update_ids by metis
  from settle_world_releases [OF this released_update [OF f] delivered(4)] delivered(1,5) show ?thesis by simp
qed simp

lemma failed_row_cleared [simp]:
  "or_id (failed_row m delay now r) = or_id r" "or_claimAttempt (failed_row m delay now r) = None"
  "or_id (page_failed_row m delay now r) = or_id r" "or_claimAttempt (page_failed_row m delay now r) = None"
  by (simp_all add: failed_row_def dead_row_def retry_row_def page_failed_row_def Let_def)

lemma failed_releases:
  assumes ids: "distinct (map or_id (dd_rows db))" and failed: "failPreparedDelivery env c f now db = (db', outcome)" "outcome \<noteq> FailStale"
  shows "\<exists>r. claimedReply c now db = Some r \<and> released (or_id r) db'"
proof -
  obtain r where r: "claimedReply c now db = Some r" using failed by (auto simp: failPreparedDelivery_def split: option.splits)
  let ?m = "failure_metadata f" and ?delay = "max 0 (failure_retryAt f - now)"
  have "released (or_id r) db'"
  proof (cases "is_page_row r")
    case True
    have "released (or_id r) (update_reply (or_id r) (page_failed_row ?m ?delay now) db)" by (rule released_update) simp
    with failed r True show ?thesis by (auto simp: failPreparedDelivery_def fail_page_def Let_def split: if_splits)
  next
    case False
    let ?db1 = "record_failure r ?m ?delay now db"
    have "released (or_id r) (update_reply (or_id r) (failed_row ?m ?delay now) db)" by (rule released_update) simp
    then have one: "released (or_id r) ?db1" by (simp add: record_failure_def Let_def)
    have ids1: "distinct (map or_id (dd_rows ?db1))" using recorded_gives_no_claim [OF ids] gives_no_claim_ids by blast
    have repaired: "released (or_id r) (apply_repair q ?m now rep ?db1)" for q rep
      by (rule released_no_claim [OF one repaired_gives_no_claim [OF ids1]])
    have dismissed: "released (or_id r) (dismiss_exhausted (or_id r) ?db1)"
    proof -
      have "released (or_id r) (update_reply (or_id r) (\<lambda>q. q\<lparr>or_state := Dismissed\<rparr>) ?db1)"
        by (rule released_no_claim [OF one gives_no_claim_update [OF ids1]]) simp
      then show ?thesis by (simp add: dismiss_exhausted_def)
    qed
    from failed r False one repaired dismissed show ?thesis
      by (auto simp: failPreparedDelivery_def apply_failure_def Let_def split: if_splits)
  qed
  with r show ?thesis by blast
qed

text \<open>An attempt id that was given out and is on no row is on none later.\<close>

definition attempt_over :: "string \<Rightarrow> 'w delivery_db \<Rightarrow> bool" where
  "attempt_over a db = (a \<in> dd_attempts db \<and> (\<forall>r \<in> set (dd_rows db). or_claimAttempt r \<noteq> Some a))"

lemma attempt_over_quiet: "attempt_over a db \<Longrightarrow> gives_no_claim db db' \<Longrightarrow> attempt_over a db'"
  unfolding attempt_over_def gives_no_claim_def by (metis option.discI subsetD)

lemma attempt_over_step:
  assumes "delivery_step env db db'" and "claims_ok db" and over: "attempt_over a db"
  shows "attempt_over a db'"
  using assms(1) claims_ok_ids [OF assms(2)]
proof (cases rule: delivery_step_cases)
  case quiet
  with over show ?thesis by (rule attempt_over_quiet)
next
  case (granted attempt fence now expires d r)
  have "attempt \<noteq> a" using granted(1) over by (auto simp: attempt_over_def)
  moreover have "set (dd_rows db') = insert (claim_row fence attempt now expires r) (set (dd_rows db) - {r})"
    using granted(5) granted_rows [OF granted(3) claims_ok_ids [OF assms(2)]] by simp
  ultimately show ?thesis using over granted(5) by (auto simp: attempt_over_def claim_row_def)
qed

lemma attempt_over_run:
  assumes "(delivery_step env)\<^sup>*\<^sup>* db db'" and "claims_ok db" and "attempt_over a db"
  shows "attempt_over a db'"
proof -
  have "claims_ok db' \<and> attempt_over a db'"
    using assms(1)
  proof induction
    case base
    with assms(2,3) show ?case by blast
  next
    case (step x y)
    then show ?case using delivery_step_ok attempt_over_step by blast
  qed
  then show ?thesis by blast
qed

lemma settled_attempt_over:
  assumes ok: "claims_ok db" and r: "claimedReply c now db = Some r" and gone: "released (or_id r) db'" and quiet: "gives_no_claim db db'"
  shows "attempt_over (claim_attemptId c) db'"
proof -
  let ?a = "claim_attemptId c"
  have held: "r \<in> set (dd_rows db)" "or_claimAttempt r = Some ?a" using claimedReply_held [OF r] by (auto simp: held_fields_def)
  have "?a \<in> dd_attempts db'" using held ok quiet unfolding claims_ok_def gives_no_claim_def by blast
  moreover have "or_claimAttempt q' \<noteq> Some ?a" if "q' \<in> set (dd_rows db')" for q'
  proof
    assume a: "or_claimAttempt q' = Some ?a"
    then obtain q where q: "q \<in> set (dd_rows db)" "or_id q = or_id q'" "or_claimAttempt q = Some ?a"
      using quiet \<open>q' \<in> set (dd_rows db')\<close> unfolding gives_no_claim_def by (metis option.discI)
    then have "q = r" using ok held unfolding claims_ok_def by (metis option.discI)
    with q(2) gone that a show False by (simp add: released_def)
  qed
  ultimately show ?thesis by (simp add: attempt_over_def)
qed

lemma attempt_over_refuses:
  assumes "attempt_over (claim_attemptId c) db"
  shows "claimedReply c now db = None"
  using assms by (auto simp: claimedReply_def find_None_iff attempt_over_def held_fields_def)


subsection \<open>Properties of failures\<close>

lemma updated_row:
  "r \<in> set (dd_rows db) \<Longrightarrow> f r \<in> set (dd_rows (update_reply (or_id r) f db))"
  by (auto simp: update_reply_def intro!: image_eqI [of _ _ r])

lemma advance_rows [simp]: "dd_rows (advance_row_scope env r db) = dd_rows db"
  by (simp add: advance_row_scope_def advanceCheckpoint_def loadOrInitializeCheckpoint_def Let_def split: option.split)


definition has_row :: "string \<Rightarrow> string option \<Rightarrow> 'w delivery_db \<Rightarrow> bool" where
  "has_row i key db = (\<exists>r \<in> set (dd_rows db). or_id r = i \<and> row_scope_key r = key)"

lemma has_row_update:
  assumes f: "\<forall>r. or_id (f r) = or_id r \<and> row_scope_key (f r) = row_scope_key r" and "has_row i key db"
  shows "has_row i key (update_reply j f db)"
proof -
  let ?g = "\<lambda>r. if or_id r = j then f r else r"
  obtain r where r: "r \<in> set (dd_rows db)" "or_id r = i" "row_scope_key r = key" using assms(2) by (auto simp: has_row_def)
  have "?g r \<in> set (dd_rows (update_reply j f db))" using r(1) by (auto simp: update_reply_def)
  moreover have "or_id (?g r) = i" "row_scope_key (?g r) = key" using f r by simp_all
  ultimately show ?thesis unfolding has_row_def by blast
qed

lemma has_row_insert: "has_row i key db \<Longrightarrow> has_row i key (insert_reply r db)"
  by (auto simp: has_row_def insert_reply_def)

lemma has_row_fold: "(\<And>x db. has_row i key db \<Longrightarrow> has_row i key (f x db)) \<Longrightarrow> has_row i key db \<Longrightarrow> has_row i key (fold f xs db)"
  by (induction xs arbitrary: db) simp_all

lemma repaired_row:
  assumes "has_row i key db"
  shows "has_row i key (apply_repair r m now rep db)"
proof -
  let ?f = "\<lambda>i. update_reply i (\<lambda>q. if or_state q = Pending then q\<lparr>or_state := Dismissed\<rparr> else q)"
  have "has_row i key (?f j d)" if "has_row i key d" for j d by (rule has_row_update [OF _ that]) (simp add: row_scope_key_def)
  then have "has_row i key (fold insert_reply (fr_inserted rep) (fold ?f (fr_dismissed rep) db))" (is "has_row _ _ ?d")
    by (intro has_row_fold has_row_insert assms)
  moreover have "has_row i key (update_reply (or_id r) (\<lambda>q. q\<lparr>or_state := Dismissed\<rparr>) d)" if "has_row i key d" for d
    by (rule has_row_update [OF _ that]) (simp add: row_scope_key_def)
  ultimately have "has_row i key (if fr_dismissSelf rep then update_reply (or_id r) (\<lambda>q. q\<lparr>or_state := Dismissed\<rparr>) ?d else ?d)"
    by (cases "fr_dismissSelf rep") (simp_all only: if_True if_False)
  then show ?thesis by (simp add: apply_repair_def Let_def upsert_quarantine_def has_row_def)
qed

lemma repair_quarantines:
  "failure_quarantine r (meta_failureClass m) (normalizedEffectCertainty m) (\<not> fr_released rep) now \<in> set (dd_quarantines (apply_repair r m now rep db))"
  by (simp add: apply_repair_def Let_def upsert_quarantine_def)

lemma quarantined_ring_grants_nothing:
  assumes "q \<in> set (dd_quarantines db)" and "qr_active q" and "\<not> qr_isolated q" and "has_row (qr_failedReplyId q) (Some (deliveryScopeKey (scope d))) db"
  shows "snd (claimPreparedDelivery env fence attempt now expires d db) = None"
proof (rule ccontr)
  assume "snd (claimPreparedDelivery env fence attempt now expires d db) \<noteq> None"
  then obtain db' c where "claimPreparedDelivery env fence attempt now expires d db = (db', Some c)" by (metis option.exhaust_sel prod.collapse)
  from claim_granted [OF this] obtain r where r: "may_claim env fence now d db r" by blast
  then have "row_scope_key r = Some (deliveryScopeKey (scope d))" by (simp add: may_claim_def frozen_identity_def row_scope_key_def)
  moreover have "\<not> quarantine_in_scope db r (\<lambda>q f. \<not> qr_isolated q)" using r by (simp add: may_claim_def claimConflictEligibility_def)
  ultimately show False using assms unfolding quarantine_in_scope_def has_row_def sql_eq_def by (metis option.discI)
qed


subsection \<open>Witnesses\<close>

definition claims_sample_delivery_env :: "bool \<Rightarrow> nat delivery_env" where
  "claims_sample_delivery_env release = \<lparr>ev_settlementGap = (\<lambda>_ _. False), ev_exactSuccessor = (\<lambda>_ _. False), ev_currentOwner = (\<lambda>_ _. True),
     ev_currentTarget = (\<lambda>_ _. True), ev_initialCreate = (\<lambda>_ _. False), ev_historicalCreate = (\<lambda>_ _. False),
     ev_retiredPage = (\<lambda>_ w. w), ev_failedPage = (\<lambda>_ w. w), ev_settled = (\<lambda>_ _ (recs, w). Some ([], recs, w)),
     ev_repair = (\<lambda>_ _ _ db. \<lparr>fr_released = release, fr_dismissSelf = False, fr_dismissed = [], fr_inserted = [],
                              fr_recovery = (Unresolved, None), fr_world = dd_world db\<rparr>)\<rparr>"

definition claims_sample_row :: "string \<Rightarrow> string option \<Rightarrow> outbound_row" where
  "claims_sample_row key attempt = \<lparr>or_id = ''r1'', or_state = Pending, or_scope = Some GlobalScope, or_owner = None, or_parentPane = None,
     or_bindingId = None, or_promptId = None, or_workerTurnId = None, or_isAnswer = False, or_targetRole = None, or_kind = CardReply,
     or_gatewayId = ''g'', or_gatewayProfileId = ''p'', or_planHash = Some ''h'', or_payloadHash = Some ''h'', or_snapshotRevision = 1,
     or_rendererRevision = 1, or_deliveryOrder = 3, or_laneKey = ''lane'', or_conflictKey = Some ''k'', or_projectionKey = Some key,
     or_nextAttemptAt = 0, or_attemptCount = 0, or_autoRecoveryCount = 0, or_claimAttempt = attempt,
     or_claimOwner = map_option (\<lambda>_. ''o'') attempt, or_claimFence = map_option (\<lambda>_. 1) attempt, or_claimedAt = map_option (\<lambda>_. 0) attempt,
     or_claimExpiresAt = map_option (\<lambda>_. 60) attempt, or_firstClaimedAt = None, or_failureClass = None, or_effectCertainty = None,
     or_deadLetteredAt = None, or_deliveredMessageId = None, or_cardIdCheckpoint = None, or_gatewayCheckpoint = None\<rparr>"

definition claims_sample_deliveries :: "outbound_row list \<Rightarrow> nat delivery_db" where
  "claims_sample_deliveries rows = \<lparr>dd_rows = rows,
     dd_lease = \<lparr>db_lease = Some \<lparr>lr_ownerId = ''o'', lr_fencingToken = 1, lr_expiresAt = 1000, lr_expiresAtMs = Some 1000, lr_updatedAt = 0\<rparr>,
                 db_hasExpiryMs = True\<rparr>,
     dd_prerequisites = [], dd_cooldownUntil = None, dd_quarantines = [], dd_recoveries = [], dd_checkpoints = Map.empty,
     dd_backwardRebases = 0, dd_world = 0, dd_attempts = {}\<rparr>"

definition claims_sample_delivery :: PreparedDelivery where
  "claims_sample_delivery = \<lparr>replyId = ''r1'', scope = GlobalScope, ownerFence = None, parentPaneId = None, deliveryOrder = 3, workClass = Live,
     idempotencyKey = ''i'', gatewayId = ''g'', gatewayProfileId = ''p'', conflictKey = ''k'', projectionKey = Some ''x'', snapshotRevision = 1,
     cardSequence = None, priorCheckpoints = [], nextAttemptAt = 0, estimatedBytes = 0,
     preparedPlan = \<lparr>plan_gatewayId = ''g'', plan_profileId = ''p'', plan_rendererRevision = 1, plan_operation = ''o'', plan_intent_kind = ''k'', plan_intent_fields = []\<rparr>,
     planHash = ''h'', rendererRevision = 1\<rparr>"

definition claims_sample_claim :: PreparedDeliveryClaim where
  "claims_sample_claim = \<lparr>claim_replyId = ''r1'', claim_attemptId = ''a1'', claim_ownerId = ''o'', claim_fencingToken = 1, claim_planHash = ''h'',
     claim_snapshotRevision = 1\<rparr>"

definition claims_sample_ack :: PreparedDeliveryAck where
  "claims_sample_ack = \<lparr>ack_messageId = ''m'', ack_surfaceId = None, ack_threadId = None, ack_messageDeleteOutcome = None\<rparr>"

definition claims_sample_failure :: PreparedDeliveryFailure where
  "claims_sample_failure = \<lparr>failure_error = ''timeout'', failure_metadata = \<lparr>meta_failureClass = UnknownFailure, meta_httpStatus = None,
     meta_larkErrorCode = None, meta_effectCertainty = Some Uncertain, meta_recoveryKind = None, meta_providerOperation = None\<rparr>, failure_retryAt = 20\<rparr>"

lemma claims_sample_claimed:
  "claimPreparedDelivery (claims_sample_delivery_env False) (Some (''o'', 1)) ''a1'' 0 60 claims_sample_delivery (claims_sample_deliveries [claims_sample_row ''x'' None])
     = ((claims_sample_deliveries [(claims_sample_row ''x'' (Some ''a1''))\<lparr>or_firstClaimedAt := Some 0\<rparr>])\<lparr>dd_attempts := {''a1''}\<rparr>, Some claims_sample_claim)"
  by (simp add: claimPreparedDelivery_def path_admits_def claim_path_def may_claim_def frozen_identity_def target_current_def
      claimConflictEligibility_def prerequisites_met_def cooled_down_def fence_holds_def fence_valid_def quarantine_in_scope_def
      claims_sample_delivery_def claims_sample_deliveries_def claims_sample_row_def claims_sample_delivery_env_def claims_sample_claim_def starts_with_def
      update_reply_def claim_row_def in_flight_def Let_def)

lemma claims_sample_reachable: "reach no_deliveries (delivery_step (claims_sample_delivery_env False)) (claims_sample_deliveries [claims_sample_row ''x'' None])"
proof (rule reach_step)
  show "reach no_deliveries (delivery_step (claims_sample_delivery_env False)) (claims_sample_deliveries [])"
    by (rule reach_start) (simp add: no_deliveries_def claims_sample_deliveries_def)
  show "delivery_step (claims_sample_delivery_env False) (claims_sample_deliveries []) (claims_sample_deliveries [claims_sample_row ''x'' None])"
    by (rule delivery_step.elsewhere) (simp add: gives_no_claim_def claims_sample_deliveries_def claims_sample_row_def)
qed

theorem one_delivery_in_flight_per_ring_witness:
  "prerequisites_met (claims_sample_deliveries [claims_sample_row ''x'' None]) (claims_sample_row ''x'' None)
   \<and> claim_leased claims_sample_claim 0 (claims_sample_deliveries [claims_sample_row ''x'' None])"
proof -
  from one_delivery_in_flight_per_ring [OF claims_sample_reachable claims_sample_claimed] obtain r where
    "r \<in> set (dd_rows (claims_sample_deliveries [claims_sample_row ''x'' None]))" "prerequisites_met (claims_sample_deliveries [claims_sample_row ''x'' None]) r"
    "claim_leased claims_sample_claim 0 (claims_sample_deliveries [claims_sample_row ''x'' None])" by blast
  then show ?thesis by (simp add: claims_sample_deliveries_def)
qed

definition claims_sample_in_flight :: "nat delivery_db" where
  "claims_sample_in_flight = (claims_sample_deliveries [(claims_sample_row ''x'' (Some ''a1''))\<lparr>or_firstClaimedAt := Some 0\<rparr>])\<lparr>dd_attempts := {''a1''}\<rparr>"

lemma claims_sample_held: "claimedReply claims_sample_claim 5 claims_sample_in_flight = Some ((claims_sample_row ''x'' (Some ''a1''))\<lparr>or_firstClaimedAt := Some 0\<rparr>)"
  by (simp add: claimedReply_def held_fields_def claim_leased_def fence_valid_def claims_sample_in_flight_def claims_sample_deliveries_def claims_sample_row_def claims_sample_claim_def)

lemma claims_sample_acknowledged: "\<exists>db'. acknowledgePreparedDelivery (claims_sample_delivery_env False) claims_sample_claim claims_sample_ack 5 claims_sample_in_flight = Inr (db', True)"
proof -
  let ?r = "(claims_sample_row ''x'' (Some ''a1''))\<lparr>or_firstClaimedAt := Some 0\<rparr>"
  have "\<not> is_page_row ?r" "matchesClaim claims_sample_claim ?r" "\<not> is_review ?r"
    by (simp_all add: is_page_row_def starts_with_def matchesClaim_def is_review_def claims_sample_row_def claims_sample_claim_def)
  then show ?thesis
    by (simp add: acknowledgePreparedDelivery_def claims_sample_held markDelivered_def settle_world_def claims_sample_delivery_env_def)
qed


definition claims_sample_page :: "nat delivery_db" where
  "claims_sample_page = claims_sample_deliveries [claims_sample_row ''turn-card:s:page:0'' (Some ''a1'')]"




end
