(* ===== verification/Spec2Isabelle.thy ===== *)
theory Spec2Isabelle
  imports Engine_Steps Agent_Input Instance_Lease Circuit_Breaker Card_Scheduler Reconciliation_Runner
    Runtime_Caches Async_Primitives Session_Lifecycle Retention_Barrier Input_Batch
    Run_Card Topic_View Commands Answer_Segments Core_Inbox Delivery_Claims
begin

text \<open>
  A verification library for the core of \<^verbatim>\<open>herdr-agent-swarm\<close>, the TypeScript bridge between
  Feishu conversations and agents running in Herdr panes (paths below are under \<^verbatim>\<open>src/src\<close>).

  \<^bold>\<open>The program.\<close> A message from Feishu is admitted as a submission intent and drained to an
  agent; what the agent does comes back as events that update the views behind cards; card
  and message updates are prepared, queued per pane in delivery Rings and sent through a
  gateway. One bridge process at a time owns a store through a lease, the calls to Herdr
  pass a circuit breaker, and background work runs through a few small asynchronous
  primitives. The library follows these parts; every operation is a function on explicit
  state, errors are values of a sum type, and the code between two suspension points of an
  asynchronous method is one step of a step relation.

  \<^bold>\<open>Foundations.\<close> \<^verbatim>\<open>Prelude\<close> has the conventions (numbers, timestamps, nullable values, maps)
  and the shared list and association-list lemmas. \<^verbatim>\<open>Json_Text\<close> models the quoting of
  \<^verbatim>\<open>JSON.stringify\<close> on arrays of strings and proves it injective. \<^verbatim>\<open>Transition_System\<close> has
  reachability and the locale \<open>invariant_system\<close>, which each event-loop component
  interprets on its own step relation. \<^verbatim>\<open>Versioned_View\<close> has the locale
  \<open>versioned_reducer\<close>, the contract of the reducers behind the cards.

  \<^bold>\<open>Delivery.\<close> \<^verbatim>\<open>Delivery_Types\<close> models the scopes, fences and deliveries of
  \<^verbatim>\<open>domain/delivery.ts\<close> and \<^verbatim>\<open>domain/delivery-scope.ts\<close>; \<^verbatim>\<open>Delivery_Policies\<close> the conflict
  keys, replay safety and retry policy of \<^verbatim>\<open>domain/delivery-conflict.ts\<close>,
  \<^verbatim>\<open>delivery-replay-safety.ts\<close> and \<^verbatim>\<open>delivery-retry-policy.ts\<close>; \<^verbatim>\<open>Delivery_Ring\<close> the bounded
  queue of \<^verbatim>\<open>events/prepared-delivery-ring.ts\<close> with its invariant and the locale
  \<open>ordered_buffer\<close>, interpreted on it; \<^verbatim>\<open>Ready_Scheduler\<close> the permit and fairness logic of
  \<^verbatim>\<open>events/delivery-ready-scheduler.ts\<close>. \<^verbatim>\<open>Delivery_Engine\<close> models the engine of
  \<^verbatim>\<open>events/ring-delivery-engine.ts\<close> that composes them, \<^verbatim>\<open>Engine_Invariant\<close> its invariant and
  \<^verbatim>\<open>Engine_Steps\<close> the interleaved executions: one worker per Ring at a time, within the
  permits; cache bounds; progress of a runnable Ring; removal of exactly the executed head.
  The gateway, the store behind a claim and the preparer are parameters of an execution.
  \<^verbatim>\<open>Delivery_Claims\<close> models that store's side on its own tables
  (\<^verbatim>\<open>store/sqlite/prepared-delivery-store.ts\<close> with the settlement code it calls in the outbox
  stores): which delivery a process may claim, what it may do under the claim, how failures
  and expired claims quarantine a ring, and the position a ring has committed. Its steps
  interleave any number of processes; it shows that a ring has one delivery in flight, that
  a claim settles once and is then dead, that uncertain failures block their ring, that a page
  is tried three times, and that positions stop before the first blocker.

  \<^bold>\<open>Input.\<close> \<^verbatim>\<open>Submission_Intent\<close> models the rows of \<^verbatim>\<open>domain/submission-intent.ts\<close> and the
  operations of \<^verbatim>\<open>store/sqlite/submission-intent-store.ts\<close>, each a guarded update;
  \<^verbatim>\<open>Agent_Input\<close> the workflow and drainer of \<^verbatim>\<open>coordinator/agent-input-workflow.ts\<close> and
  \<^verbatim>\<open>agent-input-drainer.ts\<close> with the recovery scan. They show that a body is handed to an
  agent at most once, that intents only move forward, that admission is idempotent, that
  the pages of a recovery scan partition it, and that a drain settles its claim.
  \<^verbatim>\<open>Input_Batch\<close> models the text of a batch of messages (\<^verbatim>\<open>domain/native-input-batch.ts\<close>).

  \<^bold>\<open>Process and transport.\<close> \<^verbatim>\<open>Instance_Lease\<close> models \<^verbatim>\<open>runtime/instance-lease.ts\<close> and
  \<^verbatim>\<open>store/sqlite/lease-store.ts\<close>: fencing tokens, takeover, renewal before expiry;
  \<^verbatim>\<open>Circuit_Breaker\<close> models \<^verbatim>\<open>runtime/herdr-circuit-breaker.ts\<close>; \<^verbatim>\<open>Reconciliation_Runner\<close>
  models \<^verbatim>\<open>runtime/priority-reconciliation-runner.ts\<close>; \<^verbatim>\<open>Async_Primitives\<close> the coalescing
  drain, the keyed serial queue and the bounded parallel map; \<^verbatim>\<open>Runtime_Caches\<close> the LRU map
  and the failure log gate; \<^verbatim>\<open>Turn_Output\<close> the bounded output text of a turn.

  \<^bold>\<open>Sessions and views.\<close> \<^verbatim>\<open>Session_Lifecycle\<close> models \<^verbatim>\<open>domain/pane-thread-lifecycle.ts\<close> and
  the operations of the binding store that drive it; \<^verbatim>\<open>Current_Goal\<close>, \<^verbatim>\<open>Answer_Timeline\<close> and
  \<^verbatim>\<open>Run_Card\<close> the reducers of the run card (\<^verbatim>\<open>domain/current-goal.ts\<close>,
  \<^verbatim>\<open>answer-timeline.ts\<close>, \<^verbatim>\<open>run-card-view.ts\<close>); \<^verbatim>\<open>Worker_Turn_Card\<close> the card of a worker's turn
  and the admission of turns (\<^verbatim>\<open>worker-turn-card-view.ts\<close>, \<^verbatim>\<open>worker-turn-policies.ts\<close>);
  \<^verbatim>\<open>Worker_Main\<close> a worker's main card, its projection from stored facts and the summaries on
  the primary's card (\<^verbatim>\<open>worker-main-view.ts\<close>, \<^verbatim>\<open>worker-main-selector.ts\<close>,
  \<^verbatim>\<open>card-context-summary.ts\<close>); \<^verbatim>\<open>Topic_View\<close> the view of a conversation with every event
  (\<^verbatim>\<open>topic-view.ts\<close>, \<^verbatim>\<open>events.ts\<close>); \<^verbatim>\<open>Model_Selection\<close> the model preference and the
  evidence that makes it effective (\<^verbatim>\<open>model-selection.ts\<close>); \<^verbatim>\<open>Answer_Segments\<close> the segments
  human messages cut an answer into, with the reservation of their pages
  (\<^verbatim>\<open>answer-segment.ts\<close>, \<^verbatim>\<open>store/sqlite/answer-segment-store.ts\<close>). The four reducers of cards
  interpret \<open>versioned_reducer\<close>: a version stands for one card. \<^verbatim>\<open>Card_Scheduler\<close> models the
  debounced card updates of \<^verbatim>\<open>events/card-update-scheduler.ts\<close>; \<^verbatim>\<open>Retention_Barrier\<close> the
  evidence a record needs before it is compacted, with the canonical timestamp texts.

  \<^bold>\<open>Events of the Core.\<close> \<^verbatim>\<open>Core_Identity\<close> models when two deliveries of an event say the same
  (\<^verbatim>\<open>store/sqlite/core-event-identity.ts\<close>, \<^verbatim>\<open>core-event-discriminators.ts\<close>); \<^verbatim>\<open>Core_Inbox\<close> the
  inbox of \<^verbatim>\<open>store/sqlite/core-event-inbox-store.ts\<close>: lanes of numbered events, batches fenced by
  the cursor of their lane, replays and conflicts, the moves of a lane to another cursor or
  source, and the settlement of events with three attempts. It shows that a lane is an
  append-only log, that of two readers at one cursor only one advances the lane, and that an
  event which cannot be projected is set aside after its third failure.

  \<^bold>\<open>Commands.\<close> \<^verbatim>\<open>Commands\<close> models the command language of \<^verbatim>\<open>domain/commands.ts\<close> with its
  regular expressions written out as functions on code units, the splitting of long
  messages, and the table of commands with their policies (\<^verbatim>\<open>domain/swarm-command.ts\<close>).

  \<^bold>\<open>Bounds and fuel.\<close> No definition needs fuel: loops over data are structural, the
  drainer's and the engine's loops are steps of a relation, \<open>year_from\<close> terminates on
  the number of days, and the loop that splits a message is a partial function, with the
  proof that it returns for every chunk size it is called with. Numbers are unbounded integers, since the counters of the program
  stay far below 2 to the 53; where the source tests for safe integers the model does.

  \<^bold>\<open>Not modelled.\<close> Of the prepared deliveries their reservation, hydration and the pages of
  scopes, the joins that decide whether an owner or a card is still current, and the repairs
  of the outbox (parameters of \<^verbatim>\<open>Delivery_Claims\<close>); of the inbox the historical recovery, the
  snapshot evidence and the backfill of discriminators; the SQL behind conversation segments,
  projections and migrations; the Feishu gateway and the card layouts; the Herdr adapter and its event
  stream; the interpretation of natural language, the CLI, setup and composition. Logging, metrics and
  tracing are left out throughout. Of the engine the global refill loop and the snapshot
  are left out; of the binding store the operations that do not touch the lifecycle.

  This theory has the properties of the delivery path as a whole: how a delivery is routed,
  the order in which a Ring gives deliveries back, and the share of the permits history
  work gets.
\<close>



text \<open>
  C20: A Ring is a first-in first-out buffer in delivery order: whatever offers and removals
  a client makes, the deliveries removed, followed by those still queued, are those queued
  at the start followed by those accepted, in that order; what is queued is always in
  strictly increasing delivery order, so a removed delivery precedes all that remain.
\<close>
theorem ring_is_first_in_first_out:
  assumes "ring_inv r" and "\<forall>d. Inl d \<in> set calls \<longrightarrow> 0 \<le> estimatedBytes (work d)"
    and "ring_buffer.client source now now' calls r = (r', accepted, removed)"
  shows "ring_items r @ accepted = removed @ ring_items r'
    \<and> sorted_wrt (\<lambda>a b. deliveryOrder (work a) < deliveryOrder (work b)) (ring_items r')
    \<and> (snd (removeHead now' r') = Some d \<longrightarrow>
        (\<forall>e \<in> set (ring_items (fst (removeHead now' r'))). deliveryOrder (work d) < deliveryOrder (work e)))"
proof -
  have fifo: "ring_inv r' \<and> ring_items r @ accepted = removed @ ring_items r'"
    using ring_buffer.client_fifo [OF assms] .
  then show ?thesis using ring_buffer.ranks_increase [of r'] ring_buffer.pop_in_rank_order [of r' now' d] by blast
qed

definition sample_ring :: PreparedDeliveryRing where
  "sample_ring = new_ring (scope (work (sample_delivery ''r1'' 1 10))) 8 1000 0"

theorem ring_is_first_in_first_out_witness:
  "\<exists>r' accepted removed. ring_buffer.client Commit 1 1
     [Inl (sample_delivery ''r1'' 1 10), Inl (sample_delivery ''r2'' 2 20), Inr ()] sample_ring = (r', accepted, removed)
   \<and> ring_items sample_ring @ accepted = removed @ ring_items r'"
proof -
  have inv: "ring_inv sample_ring" by (simp add: sample_ring_def ring_inv_def new_ring_def)
  have sizes: "\<forall>d. Inl d \<in> set [Inl (sample_delivery ''r1'' 1 10), Inl (sample_delivery ''r2'' 2 20), Inr ()] \<longrightarrow> 0 \<le> estimatedBytes (work d)"
    by (simp add: sample_delivery_def delivery_common.defs)
  obtain r' accepted removed where run: "ring_buffer.client Commit 1 1
     [Inl (sample_delivery ''r1'' 1 10), Inl (sample_delivery ''r2'' 2 20), Inr ()] sample_ring = (r', accepted, removed)"
    by (cases "ring_buffer.client Commit 1 1 [Inl (sample_delivery ''r1'' 1 10), Inl (sample_delivery ''r2'' 2 20), Inr ()] sample_ring") auto
  from ring_is_first_in_first_out [OF inv sizes run] run show ?thesis by blast
qed

text \<open>
  C21: History work is never starved by live work: while a permit is free at the start, the
  first Ring waiting with history work is granted within four claims however much live work
  is offered between them, each grant being released before the next claim; after a number
  of rounds fixed by the dispatch counter alone it has its turn.
\<close>
theorem history_work_is_not_starved:
  assumes "sched_history s = h # rest" and "card (sched_active s) < sched_permitLimit s"
    and "4 - sched_dispatchOrdinal s mod 4 \<le> length rounds"
  shows "h \<in> set (live_rounds rounds s)"
  using history_head_granted [OF assms] .

theorem history_work_is_not_starved_witness:
  "\<lparr>grant_ringKey = ''h'', grant_workClass = History, grant_readyAt = 0\<rparr>
     \<in> set (live_rounds [[(''a'', 1)], [(''b'', 2)], [(''c'', 3)], [(''d'', 4)]] (fst (sched_offer ''h'' History 0 (new_scheduler 1))))"
  using history_work_is_not_starved [of "fst (sched_offer ''h'' History 0 (new_scheduler 1))"
      "\<lparr>grant_ringKey = ''h'', grant_workClass = History, grant_readyAt = 0\<rparr>" "[]"
      "[[(''a'', 1)], [(''b'', 2)], [(''c'', 3)], [(''d'', 4)]]"]
  by (simp add: sched_offer_def new_scheduler_def)

text \<open>The views after a history of changes; a change a reducer refuses leaves the view as it was.\<close>

definition run_card_after :: "(timestamp \<times> RunCardChange) list \<Rightarrow> 'w RunCardView \<Rightarrow> 'w RunCardView" where
  "run_card_after cs v = fold (\<lambda>c v. case reduceRunCard (fst c) (snd c) v of Inl _ \<Rightarrow> v | Inr v' \<Rightarrow> v') cs v"

definition worker_card_after :: "(timestamp \<times> WorkerTurnCardChange) list \<Rightarrow> WorkerTurnCardView \<Rightarrow> WorkerTurnCardView" where
  "worker_card_after cs v = fold (\<lambda>c v. case reduceWorkerTurnCard (fst c) (snd c) v of Inl _ \<Rightarrow> v | Inr v' \<Rightarrow> v') cs v"

definition worker_main_after :: "string comparator \<Rightarrow> (timestamp \<times> WorkerMainChange) list \<Rightarrow> WorkerMainView \<Rightarrow> WorkerMainView" where
  "worker_main_after collate cs v = fold (\<lambda>(t, c) v. reduceWorkerMainView collate t c v) cs v"

definition topic_after :: "BridgeEvent list \<Rightarrow> TopicViewState \<Rightarrow> TopicViewState" where
  "topic_after es v = fold (\<lambda>e v. reduceTopicView v e) es v"

lemma histories_are_runs:
  "run_card_versions.run cs v = run_card_after cs v"
  "worker_card_versions.run ds w = worker_card_after ds w"
  "worker_main_versions.run collate ms m = worker_main_after collate ms m"
  "topic_versions.run es t = topic_after es t"
  unfolding run_card_versions.run_def run_card_after_def worker_card_versions.run_def worker_card_after_def
    worker_main_versions.run_def worker_main_after_def topic_versions.run_def topic_after_def
  by (rule fold_cong; auto simp: run_card_versions.apply_change_def worker_card_versions.apply_change_def
      worker_main_versions.apply_change_def topic_versions.apply_change_def fun_eq_iff)+



end
